(* ===== verification/Prelude.thy ===== *)
theory Prelude
  imports Main "HOL-Library.Word"
begin

text \<open>
  Shared vocabulary of the development: fixed-width integers (the target is a 32-bit
  little-endian machine), the outcome type of kernel and application code, byte memory,
  little-endian fields, the kernel's intrusive lists, and the alignment macros.

  A C function that may crash returns a value of type \<open>'a kres\<close>: \<open>Inr\<close> is a normal
  return, \<open>Inl\<close> the fault that C code would run into (a null dereference, an access outside
  an object, a division by zero, a use of freed memory, a failed \<open>BUG_ON\<close> assertion).
\<close>

unbundle bit_operations_syntax

named_theorems kdefs \<open>definitions that are unfolded when a handler is evaluated\<close>

section \<open>Integers, errors, outcomes\<close>

type_synonym u8 = "8 word"
type_synonym u16 = "16 word"
type_synonym u32 = "32 word"
type_synonym s32 = "32 word"

datatype fault = NullDeref | OutOfBounds | DivByZero | UseAfterFree | KernelBug

type_synonym 'a kres = "fault + 'a"

abbreviation (input) EIO :: int where "EIO \<equiv> 5"
abbreviation (input) EAGAIN :: int where "EAGAIN \<equiv> 11"
abbreviation (input) ENOMEM :: int where "ENOMEM \<equiv> 12"
abbreviation (input) EFAULT :: int where "EFAULT \<equiv> 14"
abbreviation (input) EBUSY :: int where "EBUSY \<equiv> 16"
abbreviation (input) EINVAL :: int where "EINVAL \<equiv> 22"

definition kbind :: "'a kres \<Rightarrow> ('a \<Rightarrow> 'b kres) \<Rightarrow> 'b kres" where
  "kbind m f = (case m of Inl e \<Rightarrow> Inl e | Inr x \<Rightarrow> f x)"

lemma kbind_simps [simp]: "kbind (Inl e) f = Inl e" "kbind (Inr x) f = f x"
  by (simp_all add: kbind_def)

lemma kbind_Inr_iff: "kbind m f = Inr y \<longleftrightarrow> (\<exists>x. m = Inr x \<and> f x = Inr y)"
  by (cases m) simp_all

lemma kbindE: "kbind x f = Inr y \<Longrightarrow> (\<And>z. x = Inr z \<Longrightarrow> f z = Inr y \<Longrightarrow> P) \<Longrightarrow> P"
  by (auto simp: kbind_Inr_iff)

lemma kbind_Inl_iff: "kbind m f = Inl e \<longleftrightarrow> m = Inl e \<or> (\<exists>x. m = Inr x \<and> f x = Inl e)"
  by (cases m) simp_all

lemmas kbind_iffs = kbind_Inr_iff kbind_Inl_iff

lemma kbind_assoc: "kbind (kbind m f) g = kbind m (\<lambda>x. kbind (f x) g)"
  by (cases m) simp_all

lemma kbind_cong [cong, fundef_cong]:
  "m = m' \<Longrightarrow> (\<And>x. m' = Inr x \<Longrightarrow> f x = f' x) \<Longrightarrow> kbind m f = kbind m' f'"
  by (cases m') simp_all

section \<open>Lists and arrays\<close>

definition upd_nth :: "nat \<Rightarrow> ('a \<Rightarrow> 'a) \<Rightarrow> 'a list \<Rightarrow> 'a list" where
  "upd_nth i f xs = xs[i := f (xs ! i)]"

lemma length_upd_nth [simp]: "length (upd_nth i f xs) = length xs"
  by (simp add: upd_nth_def)

lemma nth_upd_nth: "i < length xs \<Longrightarrow> upd_nth i f xs ! j = (if j = i then f (xs ! i) else xs ! j)"
  by (cases "j = i") (auto simp: upd_nth_def)

lemma nth_upd_nth_eq [simp]: "i < length xs \<Longrightarrow> upd_nth i f xs ! i = f (xs ! i)"
  by (simp add: upd_nth_def)

lemma nth_upd_nth_neq [simp]: "j \<noteq> i \<Longrightarrow> upd_nth i f xs ! j = xs ! j"
  by (simp add: upd_nth_def)

lemma upd_nth_upd_nth [simp]: "upd_nth i g (upd_nth i f xs) = upd_nth i (\<lambda>x. g (f x)) xs"
  by (cases "i < length xs") (simp_all add: upd_nth_def list_update_beyond)

section \<open>Byte memory\<close>

text \<open>
  An allocated block is its list of bytes; an address inside it is an index.
\<close>

definition mem_read :: "u8 list \<Rightarrow> nat \<Rightarrow> nat \<Rightarrow> u8 list kres" where
  "mem_read m off n = (if off + n \<le> length m then Inr (take n (drop off m)) else Inl OutOfBounds)"

definition mem_write :: "u8 list \<Rightarrow> nat \<Rightarrow> u8 list \<Rightarrow> u8 list kres" where
  "mem_write m off bs =
     (if off + length bs \<le> length m then Inr (take off m @ bs @ drop (off + length bs) m)
      else Inl OutOfBounds)"

definition mem_byte :: "u8 list \<Rightarrow> nat \<Rightarrow> u8 kres" where
  "mem_byte m i = (if i < length m then Inr (m ! i) else Inl OutOfBounds)"

lemma mem_read_ok: "off + n \<le> length m \<Longrightarrow> mem_read m off n = Inr (take n (drop off m))"
  by (simp add: mem_read_def)

lemma mem_write_ok: "off + length bs \<le> length m \<Longrightarrow>
    mem_write m off bs = Inr (take off m @ bs @ drop (off + length bs) m)"
  by (simp add: mem_write_def)

lemma mem_byte_ok: "i < length m \<Longrightarrow> mem_byte m i = Inr (m ! i)"
  by (simp add: mem_byte_def)

lemma mem_write_length: "mem_write m off bs = Inr m' \<Longrightarrow> length m' = length m"
  by (auto simp: mem_write_def split: if_splits)

lemma mem_write_nth:
  "mem_write m off bs = Inr m' \<Longrightarrow> i < length m \<Longrightarrow>
     m' ! i = (if off \<le> i \<and> i < off + length bs then bs ! (i - off) else m ! i)"
  by (auto simp: mem_write_def nth_append min_def not_less split: if_splits)

lemma mem_read_write_same:
  "mem_write m off bs = Inr m' \<Longrightarrow> mem_read m' off (length bs) = Inr bs"
  by (auto simp: mem_write_def mem_read_def min_def split: if_splits)

lemma mem_read_write_disjoint:
  assumes w: "mem_write m off bs = Inr m'"
    and disj: "o2 + n \<le> off \<or> off + length bs \<le> o2"
  shows "mem_read m' o2 n = mem_read m o2 n"
proof (cases "o2 + n \<le> length m")
  case True
  have len: "length m' = length m" using w by (rule mem_write_length)
  have "take n (drop o2 m') = take n (drop o2 m)"
  proof (rule nth_equalityI)
    show "length (take n (drop o2 m')) = length (take n (drop o2 m))" by (simp add: len)
  next
    fix i assume "i < length (take n (drop o2 m'))"
    then have i: "i < n" "o2 + i < length m" using True len by auto
    then have "m' ! (o2 + i) = m ! (o2 + i)"
      using disj by (auto simp: mem_write_nth [OF w])
    then show "take n (drop o2 m') ! i = take n (drop o2 m) ! i"
      using i len by simp
  qed
  then show ?thesis using True by (simp add: mem_read_def len)
next
  case False
  then show ?thesis using mem_write_length [OF w] by (simp add: mem_read_def)
qed

section \<open>Little-endian fields\<close>

definition get_le16 :: "u8 list \<Rightarrow> nat \<Rightarrow> u16" where
  "get_le16 d k = ucast (d ! k) OR push_bit 8 (ucast (d ! (k + 1)))"

definition get_le32 :: "u8 list \<Rightarrow> nat \<Rightarrow> u32" where
  "get_le32 d k = ucast (d ! k) OR push_bit 8 (ucast (d ! (k + 1)))
     OR push_bit 16 (ucast (d ! (k + 2))) OR push_bit 24 (ucast (d ! (k + 3)))"

definition put_le16 :: "u16 \<Rightarrow> u8 list" where
  "put_le16 w = [ucast w, ucast (drop_bit 8 w)]"

definition put_le32 :: "u32 \<Rightarrow> u8 list" where
  "put_le32 w = [ucast w, ucast (drop_bit 8 w), ucast (drop_bit 16 w), ucast (drop_bit 24 w)]"

lemma length_put_le [simp]: "length (put_le16 w) = 2" "length (put_le32 v) = 4"
  by (simp_all add: put_le16_def put_le32_def)

lemma le16_bytes:
  "ucast (ucast w :: u8) OR push_bit 8 (ucast (ucast (drop_bit 8 w) :: u8)) = (w :: u16)"
  by (rule bit_word_eqI) (auto simp: bit_simps)

lemma le32_bytes:
  "ucast (ucast w :: u8) OR push_bit 8 (ucast (ucast (drop_bit 8 w) :: u8))
     OR push_bit 16 (ucast (ucast (drop_bit 16 w) :: u8))
     OR push_bit 24 (ucast (ucast (drop_bit 24 w) :: u8)) = (w :: u32)" (is "?lhs = w")
proof (rule bit_word_eqI)
  fix n assume "n < LENGTH(32)"
  then consider "n < 8" | "8 \<le> n" "n < 16" | "16 \<le> n" "n < 24" | "24 \<le> n" "n < 32"
    by fastforce
  then show "bit ?lhs n = bit w n"
    by cases (auto simp: bit_simps)
qed

lemma get_put_le16: "get_le16 (xs @ put_le16 w @ ys) (length xs) = w"
  by (simp add: get_le16_def put_le16_def nth_append le16_bytes)

lemma get_put_le32: "get_le32 (xs @ put_le32 w @ ys) (length xs) = w"
  using le32_bytes [of w] by (simp add: get_le32_def put_le32_def nth_append)

section \<open>The kernel's intrusive lists\<close>

text \<open>
  A \<open>list_head\<close> that was never given to \<open>INIT_LIST_HEAD\<close> (a zeroed structure) is \<open>None\<close>:
  its \<open>next\<close> pointer is null, so \<open>list_empty\<close> is false for it and every other access faults.
  An initialised head is \<open>Some\<close> of the entries, identified by their index.  The entry pointer
  that \<open>list_first_entry\<close> computes is \<open>None\<close> when it does not point to an entry; the fault
  happens when the code dereferences it (\<open>deref\<close>).
\<close>

type_synonym klist = "nat list option"

definition INIT_LIST_HEAD :: klist where
  "INIT_LIST_HEAD = Some []"

definition list_empty :: "klist \<Rightarrow> bool" where
  "list_empty l = (case l of None \<Rightarrow> False | Some xs \<Rightarrow> xs = [])"

definition list_first_entry :: "klist \<Rightarrow> nat option" where
  "list_first_entry l = (case l of Some (x # xs) \<Rightarrow> Some x | _ \<Rightarrow> None)"

definition deref :: "'a option \<Rightarrow> 'a kres" where
  "deref p = (case p of None \<Rightarrow> Inl NullDeref | Some x \<Rightarrow> Inr x)"

lemma deref_simps [simp]: "deref None = Inl NullDeref" "deref (Some x) = Inr x"
  by (simp_all add: deref_def)

lemma deref_Inr_iff: "deref p = Inr x \<longleftrightarrow> p = Some x"
  by (cases p) simp_all

definition list_add_tail :: "nat \<Rightarrow> klist \<Rightarrow> klist kres" where
  "list_add_tail x l = (case l of None \<Rightarrow> Inl NullDeref | Some xs \<Rightarrow> Inr (Some (xs @ [x])))"

definition list_del :: "nat \<Rightarrow> klist \<Rightarrow> klist kres" where
  "list_del x l = (case l of None \<Rightarrow> Inl NullDeref
     | Some xs \<Rightarrow> if x \<in> set xs then Inr (Some (removeAll x xs)) else Inl NullDeref)"

definition entries :: "klist \<Rightarrow> nat list" where
  "entries l = (case l of None \<Rightarrow> [] | Some xs \<Rightarrow> xs)"

lemma entries_simps [simp]: "entries None = []" "entries (Some xs) = xs"
  by (simp_all add: entries_def)

lemmas klist_defs = INIT_LIST_HEAD_def list_empty_def list_first_entry_def list_add_tail_def
  list_del_def

lemma list_empty_Some [simp]: "list_empty (Some xs) = (xs = [])"
  by (simp add: list_empty_def)

lemma list_first_entry_Cons [simp]: "list_first_entry (Some (x # xs)) = Some x"
  by (simp add: list_first_entry_def)

lemma list_add_tail_Some [simp]: "list_add_tail x (Some xs) = Inr (Some (xs @ [x]))"
  by (simp add: list_add_tail_def)

lemma list_del_Cons [simp]: "x \<notin> set xs \<Longrightarrow> list_del x (Some (x # xs)) = Inr (Some xs)"
  by (simp add: list_del_def)

lemma sint_small: "unat (w :: u32) < 2 ^ 31 \<Longrightarrow> sint w = int (unat w)"
proof -
  assume "unat w < 2 ^ 31"
  then have "uint w < 2 ^ 31" by (metis of_nat_less_iff of_nat_numeral of_nat_power uint_nat)
  moreover have "signed_take_bit 31 k = k" if "0 \<le> k" "k < 2 ^ 31" for k :: int
    using that by (intro signed_take_bit_int_eq_self) simp_all
  ultimately show ?thesis by (simp add: sint_uint)
qed

section \<open>Alignment macros\<close>

definition PAGE_ALIGN :: "u32 \<Rightarrow> u32" where
  "PAGE_ALIGN x = (x + 4095) AND NOT 4095"

definition DIV_ROUND_UP :: "u32 \<Rightarrow> u32 \<Rightarrow> u32" where
  "DIV_ROUND_UP n d = (n + d - 1) div d"

lemma unat_and_not_mask: "unat ((y :: u32) AND NOT (mask n)) = unat y div 2 ^ n * 2 ^ n"
proof -
  have "y AND NOT (mask n) = push_bit n (drop_bit n y)"
    by (rule bit_word_eqI) (auto simp: bit_simps)
  moreover have "unat y div 2 ^ n * 2 ^ n < 2 ^ 32"
    by (rule le_less_trans [OF div_times_less_eq_dividend]) (use unsigned_less [of y, where 'a = nat] in simp)
  moreover have "take_bit 32 (unat y) = unat y"
    by (rule take_bit_nat_eq_self) (use unsigned_less [of y, where 'a = nat] in simp)
  then have "unat (push_bit n (drop_bit n y)) = take_bit 32 (push_bit n (drop_bit n (unat y)))"
    by (simp add: unsigned_push_bit_eq unsigned_drop_bit_eq)
  ultimately show ?thesis by (simp add: push_bit_eq_mult drop_bit_eq_div take_bit_nat_eq_self)
qed

lemma round_up_mask:
  assumes n: "n < 32" and k: "unat (y :: u32) \<le> k * 2 ^ n" "k * 2 ^ n < 2 ^ 32"
  shows "unat y \<le> unat ((y + mask n) AND NOT (mask n))"
    and "unat ((y + mask n) AND NOT (mask n)) \<le> k * 2 ^ n"
proof -
  let ?p = "2 ^ n :: nat"
  have "mask n = (of_nat (?p - 1) :: u32)" by (simp add: mask_eq_exp_minus_1 of_nat_diff)
  moreover have "?p - 1 < 2 ^ 32" using power_strict_increasing [OF n, of "2 :: nat"] by simp
  ultimately have m: "unat (mask n :: u32) = ?p - 1" by (intro of_nat_inverse) simp_all
  have pw: "(2 :: nat) ^ 32 = 2 ^ (32 - n) * ?p" using n by (simp flip: power_add)
  then have "k < 2 ^ (32 - n)" using k(2) mult_less_cancel2 [of k ?p "2 ^ (32 - n)"] by simp
  then have "(k + 1) * ?p \<le> 2 ^ 32" unfolding pw by (intro mult_le_mono1) simp
  then have le: "unat y + (?p - 1) < 2 ^ 32" using k(1) by (simp add: algebra_simps)
  have r: "unat ((y + mask n) AND NOT (mask n)) = (unat y + (?p - 1)) div ?p * ?p"
    using le by (simp add: unat_and_not_mask unat_word_ariths m)
  have "unat y + (?p - 1) = (unat y + (?p - 1)) div ?p * ?p + (unat y + (?p - 1)) mod ?p"
    by (rule div_mult_mod_eq [symmetric])
  moreover have "(unat y + (?p - 1)) mod ?p < ?p" by simp
  ultimately show "unat y \<le> unat ((y + mask n) AND NOT (mask n))" unfolding r by linarith
  have "0 < ?p" by simp
  then have "unat y + (?p - 1) < k * ?p + ?p" using k(1) by linarith
  then have "(unat y + (?p - 1)) div ?p < k + 1" by (intro less_mult_imp_div_less) (simp add: algebra_simps)
  then show "unat ((y + mask n) AND NOT (mask n)) \<le> k * ?p" unfolding r by (intro mult_le_mono1) simp
qed

lemma and_not_4095: "(y :: u32) AND NOT 4095 = push_bit 12 (drop_bit 12 y)"
proof -
  have "(4095 :: u32) = mask 12" by (simp add: mask_eq_exp_minus_1)
  then have "y AND NOT 4095 = y AND NOT (mask 12)" by simp
  also have "\<dots> = push_bit 12 (drop_bit 12 y)"
    by (rule bit_word_eqI) (auto simp: bit_simps)
  finally show ?thesis .
qed

lemma unat_and_not_4095: "unat ((y :: u32) AND NOT 4095) = unat y div 4096 * 4096"
proof -
  have "unat y div 4096 * 4096 \<le> unat y" by simp
  also have "unat y < 2 ^ 32" using unsigned_less [of y] by simp
  finally have "unat y div 4096 * 4096 < 2 ^ 32" .
  then show ?thesis
    unfolding and_not_4095
    by (simp add: push_bit_eq_mult unat_drop_bit_eq drop_bit_eq_div unat_word_ariths)
qed

lemma unat_PAGE_ALIGN:
  "unat x + 4095 < 2 ^ 32 \<Longrightarrow> unat (PAGE_ALIGN x) = (unat x + 4095) div 4096 * 4096"
  unfolding PAGE_ALIGN_def unat_and_not_4095 by (simp add: unat_word_ariths)

lemma PAGE_ALIGN_ge: "unat x + 4095 < 2 ^ 32 \<Longrightarrow> unat x \<le> unat (PAGE_ALIGN x)"
  using div_mult_mod_eq [of "unat x + 4095" 4096] mod_less_divisor [of 4096 "unat x + 4095"]
  by (simp only: unat_PAGE_ALIGN)

lemma PAGE_ALIGN_dvd: "4096 dvd unat (PAGE_ALIGN x)"
  unfolding PAGE_ALIGN_def unat_and_not_4095 by simp

end
