(* ===== verification/V4l2_Types.thy ===== *)
theory V4l2_Types
  imports Prelude
begin

text \<open>
  The V4L2 structures the drivers and the application exchange
  (linux-3.4.2/include/linux/videodev2.h) and the buffer states of
  linux-3.4.2/include/media/videobuf-core.h.  Field names carry a prefix per structure.
  \<open>memset (p, 0, sizeof *p)\<close> is the element \<open>0\<close> of class \<open>zero\<close>.
\<close>

section \<open>Constants\<close>

abbreviation (input) V4L2_BUF_TYPE_VIDEO_CAPTURE :: u32 where "V4L2_BUF_TYPE_VIDEO_CAPTURE \<equiv> 1"
abbreviation (input) V4L2_MEMORY_MMAP :: u32 where "V4L2_MEMORY_MMAP \<equiv> 1"
abbreviation (input) V4L2_MEMORY_USERPTR :: u32 where "V4L2_MEMORY_USERPTR \<equiv> 2"
abbreviation (input) V4L2_MEMORY_OVERLAY :: u32 where "V4L2_MEMORY_OVERLAY \<equiv> 3"
abbreviation (input) V4L2_FIELD_ANY :: u32 where "V4L2_FIELD_ANY \<equiv> 0"
abbreviation (input) V4L2_FIELD_NONE :: u32 where "V4L2_FIELD_NONE \<equiv> 1"
abbreviation (input) V4L2_FIELD_TOP :: u32 where "V4L2_FIELD_TOP \<equiv> 2"
abbreviation (input) V4L2_FIELD_BOTTOM :: u32 where "V4L2_FIELD_BOTTOM \<equiv> 3"
abbreviation (input) V4L2_FIELD_INTERLACED :: u32 where "V4L2_FIELD_INTERLACED \<equiv> 4"
abbreviation (input) V4L2_FIELD_ALTERNATE :: u32 where "V4L2_FIELD_ALTERNATE \<equiv> 7"
abbreviation (input) V4L2_COLORSPACE_SRGB :: u32 where "V4L2_COLORSPACE_SRGB \<equiv> 8"
abbreviation (input) V4L2_CAP_VIDEO_CAPTURE :: u32 where "V4L2_CAP_VIDEO_CAPTURE \<equiv> 0x00000001"
abbreviation (input) V4L2_CAP_READWRITE :: u32 where "V4L2_CAP_READWRITE \<equiv> 0x01000000"
abbreviation (input) V4L2_CAP_STREAMING :: u32 where "V4L2_CAP_STREAMING \<equiv> 0x04000000"
abbreviation (input) V4L2_BUF_FLAG_MAPPED :: u32 where "V4L2_BUF_FLAG_MAPPED \<equiv> 0x0001"
abbreviation (input) V4L2_BUF_FLAG_QUEUED :: u32 where "V4L2_BUF_FLAG_QUEUED \<equiv> 0x0002"
abbreviation (input) V4L2_BUF_FLAG_DONE :: u32 where "V4L2_BUF_FLAG_DONE \<equiv> 0x0004"
abbreviation (input) V4L2_BUF_FLAG_ERROR :: u32 where "V4L2_BUF_FLAG_ERROR \<equiv> 0x0040"
abbreviation (input) V4L2_BUF_FLAG_INPUT :: u32 where "V4L2_BUF_FLAG_INPUT \<equiv> 0x0200"
abbreviation (input) V4L2_CID_BRIGHTNESS :: u32 where "V4L2_CID_BRIGHTNESS \<equiv> 0x00980900"
abbreviation (input) V4L2_CTRL_TYPE_INTEGER :: u32 where "V4L2_CTRL_TYPE_INTEGER \<equiv> 1"
abbreviation (input) POLLIN :: u32 where "POLLIN \<equiv> 0x0001"
abbreviation (input) POLLOUT :: u32 where "POLLOUT \<equiv> 0x0004"
abbreviation (input) POLLERR :: u32 where "POLLERR \<equiv> 0x0008"
abbreviation (input) POLLRDNORM :: u32 where "POLLRDNORM \<equiv> 0x0040"
abbreviation (input) POLLWRNORM :: u32 where "POLLWRNORM \<equiv> 0x0100"

definition v4l2_fourcc :: "char \<Rightarrow> char \<Rightarrow> char \<Rightarrow> char \<Rightarrow> u32" where
  "v4l2_fourcc a b c d = of_char a OR push_bit 8 (of_char b) OR push_bit 16 (of_char c)
     OR push_bit 24 (of_char d)"

definition V4L2_PIX_FMT_MJPEG :: u32 where
  "V4L2_PIX_FMT_MJPEG = v4l2_fourcc CHR ''M'' CHR ''J'' CHR ''P'' CHR ''G''"
definition V4L2_PIX_FMT_YUYV :: u32 where
  "V4L2_PIX_FMT_YUYV = v4l2_fourcc CHR ''Y'' CHR ''U'' CHR ''Y'' CHR ''V''"
definition V4L2_PIX_FMT_RGB565 :: u32 where
  "V4L2_PIX_FMT_RGB565 = v4l2_fourcc CHR ''R'' CHR ''G'' CHR ''B'' CHR ''P''"
definition V4L2_PIX_FMT_RGB24 :: u32 where
  "V4L2_PIX_FMT_RGB24 = v4l2_fourcc CHR ''R'' CHR ''G'' CHR ''B'' CHR ''3''"
definition V4L2_PIX_FMT_RGB32 :: u32 where
  "V4L2_PIX_FMT_RGB32 = v4l2_fourcc CHR ''R'' CHR ''G'' CHR ''B'' CHR ''4''"

lemma pix_fmt_values [simp]:
  "V4L2_PIX_FMT_MJPEG = 0x47504A4D" "V4L2_PIX_FMT_YUYV = 0x56595559"
  "V4L2_PIX_FMT_RGB565 = 0x50424752" "V4L2_PIX_FMT_RGB24 = 0x33424752"
  "V4L2_PIX_FMT_RGB32 = 0x34424752"
  by (simp_all add: V4L2_PIX_FMT_MJPEG_def V4L2_PIX_FMT_YUYV_def V4L2_PIX_FMT_RGB565_def
      V4L2_PIX_FMT_RGB24_def V4L2_PIX_FMT_RGB32_def v4l2_fourcc_def of_char_def)

section \<open>Structures\<close>

datatype videobuf_state =
    VIDEOBUF_NEEDS_INIT | VIDEOBUF_PREPARED | VIDEOBUF_QUEUED | VIDEOBUF_ACTIVE
  | VIDEOBUF_DONE | VIDEOBUF_ERROR | VIDEOBUF_IDLE

record v4l2_buffer =
  b_index :: u32
  b_type :: u32
  b_bytesused :: u32
  b_flags :: u32
  b_field :: u32
  b_timestamp :: nat
  b_sequence :: u32
  b_memory :: u32
  b_m :: u32
  b_length :: u32
  b_input :: u32

record v4l2_pix_format =
  pf_width :: u32
  pf_height :: u32
  pf_pixelformat :: u32
  pf_field :: u32
  pf_bytesperline :: u32
  pf_sizeimage :: u32
  pf_colorspace :: u32
  pf_priv :: u32

record v4l2_format =
  f_type :: u32
  f_pix :: v4l2_pix_format

record v4l2_requestbuffers =
  rb_count :: u32
  rb_type :: u32
  rb_memory :: u32

record v4l2_capability =
  cap_driver :: string
  cap_card :: string
  cap_bus_info :: string
  cap_version :: u32
  cap_capabilities :: u32
  cap_device_caps :: u32

record v4l2_fmtdesc =
  fd_index :: u32
  fd_type :: u32
  fd_flags :: u32
  fd_description :: string
  fd_pixelformat :: u32

record v4l2_queryctrl =
  qc_id :: u32
  qc_type :: u32
  qc_name :: string
  qc_minimum :: s32
  qc_maximum :: s32
  qc_step :: s32
  qc_default_value :: s32
  qc_flags :: u32

record v4l2_control =
  c_id :: u32
  c_value :: s32

text \<open>
  What the drivers use of a virtual memory area (linux-3.4.2/include/linux/mm_types.h);
  \<open>vm_private_data\<close> is the number of the object it points to.
\<close>

record vm_area =
  vm_start :: u32
  vm_end :: u32
  vm_pgoff :: u32
  vm_flags :: u32
  vm_ops :: bool
  vm_private_data :: "nat option"

abbreviation (input) VM_READ :: u32 where "VM_READ \<equiv> 0x00000001"
abbreviation (input) VM_WRITE :: u32 where "VM_WRITE \<equiv> 0x00000002"
abbreviation (input) VM_SHARED :: u32 where "VM_SHARED \<equiv> 0x00000008"
definition VM_IO :: u32 where "VM_IO = 0x4000"
definition VM_RESERVED :: u32 where "VM_RESERVED = 0x00080000"
definition VM_DONTEXPAND :: u32 where "VM_DONTEXPAND = 0x00040000"

section \<open>Zeroed structures\<close>

instantiation unit :: zero
begin
definition "0 = ()"
instance ..
end

instantiation videobuf_state :: zero
begin
definition "0 = VIDEOBUF_NEEDS_INIT"
instance ..
end

instantiation v4l2_buffer_ext :: (zero) zero
begin
definition "0 = v4l2_buffer_ext 0 0 0 0 0 0 0 0 0 0 0 0"
instance ..
end

instantiation v4l2_pix_format_ext :: (zero) zero
begin
definition "0 = v4l2_pix_format_ext 0 0 0 0 0 0 0 0 0"
instance ..
end

instantiation v4l2_format_ext :: (zero) zero
begin
definition "0 = v4l2_format_ext 0 0 0"
instance ..
end

lemma v4l2_buffer_zero [simp]:
  "(0 :: v4l2_buffer) = \<lparr>b_index = 0, b_type = 0, b_bytesused = 0, b_flags = 0, b_field = 0,
     b_timestamp = 0, b_sequence = 0, b_memory = 0, b_m = 0, b_length = 0, b_input = 0\<rparr>"
  by (simp add: zero_v4l2_buffer_ext_def v4l2_buffer.defs zero_unit_def)

lemma v4l2_format_zero [simp]:
  "(0 :: v4l2_format) = \<lparr>f_type = 0, f_pix = \<lparr>pf_width = 0, pf_height = 0, pf_pixelformat = 0,
     pf_field = 0, pf_bytesperline = 0, pf_sizeimage = 0, pf_colorspace = 0, pf_priv = 0\<rparr>\<rparr>"
  by (simp add: zero_v4l2_format_ext_def zero_v4l2_pix_format_ext_def zero_unit_def)

lemma videobuf_state_zero [simp]: "(0 :: videobuf_state) = VIDEOBUF_NEEDS_INIT"
  by (simp add: zero_videobuf_state_def)

end
