(* ===== verification/Uvc_State.thy ===== *)
theory Uvc_State
  imports V4l2_Types
begin

text \<open>
  State of the USB video class driver (myuvc/10\_th/uvc.c): its structures, its file-scope
  variables and the kernel services it calls.

  The services (USB transfers, allocators, page insertion) are a record \<open>usb_env\<close> of functions
  over an arbitrary world type \<open>'w\<close>, which stands for the camera and the rest of the kernel.
  Every handler is one atomic step on \<open>'w uvc\<close>: the driver itself takes no lock.
\<close>

section \<open>Structures\<close>

record myuvc_streaming_control =
  bmHint :: u16
  bFormatIndex :: u8
  bFrameIndex :: u8
  dwFrameInterval :: u32
  wKeyFrameRate :: u16
  wPFrameRate :: u16
  wCompQuality :: u16
  wCompWindowSize :: u16
  wDelay :: u16
  dwMaxVideoFrameSize :: u32
  dwMaxPayloadTransferSize :: u32
  dwClockFrequency :: u32
  bmFramingInfo :: u8
  bPreferedVersion :: u8
  bMinVersion :: u8
  bMaxVersion :: u8

instantiation myuvc_streaming_control_ext :: (zero) zero
begin
definition "0 = myuvc_streaming_control_ext 0 0 0 0 0 0 0 0 0 0 0 0 0 0 0 0 0"
instance ..
end

lemma myuvc_streaming_control_zero [simp]:
  "(0 :: myuvc_streaming_control) = \<lparr>bmHint = 0, bFormatIndex = 0, bFrameIndex = 0,
     dwFrameInterval = 0, wKeyFrameRate = 0, wPFrameRate = 0, wCompQuality = 0,
     wCompWindowSize = 0, wDelay = 0, dwMaxVideoFrameSize = 0, dwMaxPayloadTransferSize = 0,
     dwClockFrequency = 0, bmFramingInfo = 0, bPreferedVersion = 0, bMinVersion = 0,
     bMaxVersion = 0\<rparr>"
  by (simp add: zero_myuvc_streaming_control_ext_def zero_unit_def)

record frame_desc =
  fr_width :: int
  fr_height :: int

text \<open>
  The wait queue of a buffer is not data: \<open>wake_up\<close> is recorded in the driver state below.
  The two list nodes of a buffer are the membership of its index in \<open>mainqueue\<close> (\<open>stream\<close>)
  and \<open>irqqueue\<close> (\<open>irq\<close>).
\<close>

record myuvc_buffer =
  mb_buf :: v4l2_buffer
  mb_state :: videobuf_state
  mb_vma_use_count :: int

definition myuvc_buffer_zero :: myuvc_buffer where
  "myuvc_buffer_zero = \<lparr>mb_buf = 0, mb_state = 0, mb_vma_use_count = 0\<rparr>"

record iso_frame_desc =
  iso_offset :: u32
  iso_length :: u32
  iso_actual_length :: u32
  iso_status :: int

record urb =
  urb_endpoint :: u32
  urb_status :: int
  urb_interval :: int
  urb_transfer_buffer :: "u8 list"
  urb_transfer_buffer_length :: u32
  urb_number_of_packets :: int
  urb_iso_frame_desc :: "iso_frame_desc list"

record myuvc_queue =
  q_mem :: "u8 list option"
  q_count :: u32
  q_buf_size :: u32
  q_buffer :: "myuvc_buffer list"
  q_urb :: "urb option list"
  q_urb_buffer :: "u8 list option list"
  q_urb_size :: u32
  mainqueue :: klist
  irqqueue :: klist

definition myuvc_queue_zero :: myuvc_queue where
  "myuvc_queue_zero = \<lparr>q_mem = None, q_count = 0, q_buf_size = 0,
     q_buffer = replicate 32 myuvc_buffer_zero, q_urb = replicate 32 None,
     q_urb_buffer = replicate 32 None, q_urb_size = 0, mainqueue = None, irqqueue = None\<rparr>"

section \<open>File-scope variables\<close>

text \<open>
  Variables that are never assigned are constants of the model.
\<close>

definition frames :: "frame_desc list" where
  "frames = [\<lparr>fr_width = 640, fr_height = 480\<rparr>, \<lparr>fr_width = 320, fr_height = 240\<rparr>,
             \<lparr>fr_width = 160, fr_height = 120\<rparr>]"

definition frame_idx :: nat where "frame_idx = 1"
definition bBitsPerPixel :: int where "bBitsPerPixel = 0"
definition uvc_version :: int where "uvc_version = 0x0100"
definition ProcessingUnitID :: u16 where "ProcessingUnitID = 3"
definition wMaxPacketSize :: u16 where "wMaxPacketSize = 800"
definition myuvc_streaming_bAlternateSetting :: int where "myuvc_streaming_bAlternateSetting = 5"
definition maxVideoFrameSize :: u32 where "maxVideoFrameSize = 77312"
definition myuvc_bEndpointAddress :: u32 where "myuvc_bEndpointAddress = 0x82"
definition MYUVC_URBS :: nat where "MYUVC_URBS = 5"

text \<open>
  \<open>world\<close> is the state behind the kernel services; \<open>woken\<close> lists the buffers whose wait queue
  was woken, latest last.  \<open>mem_temp\<close> and \<open>nArrayTemp_Size\<close> are the static scratch block of
  the completion handler, \<open>fid\<close> its static frame id, \<open>probe_cnt\<close> and \<open>disconnect_cnt\<close> the
  static counters of probe and disconnect.
\<close>

record 'w uvc =
  world :: 'w
  myuvc_format :: v4l2_format
  myuvc_params :: myuvc_streaming_control
  myuvc_queue :: myuvc_queue
  last_fid :: int
  fid :: int
  mem_temp :: "u8 list option"
  nArrayTemp_Size :: u32
  woken :: "nat list"
  udev_idVendor :: u16
  myuvc_control_intf :: u16
  myuvc_streaming_intf :: u16
  probe_cnt :: int
  disconnect_cnt :: int
  myuvc_vdev :: bool

definition uvc_init_state :: "'w \<Rightarrow> 'w uvc" where
  "uvc_init_state w = \<lparr>world = w, myuvc_format = 0, myuvc_params = 0,
     myuvc_queue = myuvc_queue_zero, last_fid = -1, fid = 0, mem_temp = None,
     nArrayTemp_Size = 1000, woken = [], udev_idVendor = 0, myuvc_control_intf = 0,
     myuvc_streaming_intf = 0, probe_cnt = 0, disconnect_cnt = 0, myuvc_vdev = False\<rparr>"

section \<open>Kernel services\<close>

text \<open>
  \<open>usb_control_msg req type value index data\<close> gives the return code and the contents of the
  data buffer after the transfer; the pipe is determined by the direction bit of \<open>type\<close> and the
  length by the buffer.  An allocator gives the (uninitialised) block or \<open>None\<close>.
\<close>

record 'w usb_env =
  usb_control_msg :: "u8 \<Rightarrow> u8 \<Rightarrow> u16 \<Rightarrow> u16 \<Rightarrow> u8 list \<Rightarrow> 'w \<Rightarrow> int \<times> u8 list \<times> 'w"
  kmalloc :: "nat \<Rightarrow> 'w \<Rightarrow> u8 list option \<times> 'w"
  vmalloc_32 :: "u32 \<Rightarrow> 'w \<Rightarrow> u8 list option \<times> 'w"
  vfree :: "'w \<Rightarrow> 'w"
  usb_buffer_alloc :: "u32 \<Rightarrow> 'w \<Rightarrow> u8 list option \<times> 'w"
  usb_alloc_urb :: "int \<Rightarrow> 'w \<Rightarrow> urb option \<times> 'w"
  usb_submit_urb :: "urb option \<Rightarrow> 'w \<Rightarrow> int \<times> 'w"
  usb_buffer_free :: "nat \<Rightarrow> 'w \<Rightarrow> 'w"
  usb_free_urb :: "nat \<Rightarrow> 'w \<Rightarrow> 'w"
  usb_kill_urb :: "nat \<Rightarrow> 'w \<Rightarrow> 'w"
  usb_set_interface :: "u16 \<Rightarrow> int \<Rightarrow> 'w \<Rightarrow> 'w"
  vm_insert_page :: "u32 \<Rightarrow> u32 \<Rightarrow> 'w \<Rightarrow> int \<times> 'w"

text \<open>
  What the driver relies on: an allocator returns a block of the requested size, a transfer
  leaves the size of the buffer alone, \<open>vmalloc\<close> of zero bytes fails, and submitting a null
  URB is refused.
\<close>

definition env_ok :: "'w usb_env \<Rightarrow> bool" where
  "env_ok E \<longleftrightarrow>
     (\<forall>n w b w'. kmalloc E n w = (Some b, w') \<longrightarrow> length b = n) \<and>
     (\<forall>n w b w'. vmalloc_32 E n w = (Some b, w') \<longrightarrow> length b = unat n \<and> 0 < n) \<and>
     (\<forall>n w b w'. usb_buffer_alloc E n w = (Some b, w') \<longrightarrow> length b = unat n) \<and>
     (\<forall>n w u w'. usb_alloc_urb E n w = (Some u, w') \<longrightarrow> int (length (urb_iso_frame_desc u)) = n) \<and>
     (\<forall>r t v i d w c d' w'. usb_control_msg E r t v i d w = (c, d', w') \<longrightarrow> length d' = length d) \<and>
     (\<forall>w. fst (usb_submit_urb E None w) = - EINVAL)"

text \<open>
  \<open>kzalloc\<close> is \<open>kmalloc\<close> followed by clearing the block.
\<close>

definition kzalloc :: "'w usb_env \<Rightarrow> nat \<Rightarrow> 'w \<Rightarrow> u8 list option \<times> 'w" where
  "kzalloc E n w = (case kmalloc E n w of (p, w') \<Rightarrow>
     (map_option (\<lambda>b. replicate (length b) 0) p, w'))"

lemma kzalloc_length:
  "env_ok E \<Longrightarrow> kzalloc E n w = (Some b, w') \<Longrightarrow> b = replicate n 0"
  by (auto simp: kzalloc_def env_ok_def split: prod.splits)

lemma kmalloc_length: "env_ok E \<Longrightarrow> kmalloc E n w = (Some b, w') \<Longrightarrow> length b = n"
  unfolding env_ok_def by metis

lemma vmalloc_32_length:
  "env_ok E \<Longrightarrow> vmalloc_32 E m w = (Some b, w') \<Longrightarrow> length b = unat m \<and> 0 < m"
  unfolding env_ok_def by metis

lemma usb_buffer_alloc_length:
  "env_ok E \<Longrightarrow> usb_buffer_alloc E m w = (Some b, w') \<Longrightarrow> length b = unat m"
  unfolding env_ok_def by metis

lemma usb_alloc_urb_length:
  "env_ok E \<Longrightarrow> usb_alloc_urb E k w = (Some u, w') \<Longrightarrow> int (length (urb_iso_frame_desc u)) = k"
  unfolding env_ok_def by metis

lemma usb_control_msg_length:
  "env_ok E \<Longrightarrow> usb_control_msg E r t v i d w = (c, d', w') \<Longrightarrow> length d' = length d"
  unfolding env_ok_def by metis

lemma usb_submit_urb_null: "env_ok E \<Longrightarrow> fst (usb_submit_urb E None w) = - EINVAL"
  unfolding env_ok_def by metis

lemmas env_ok_lengths = kmalloc_length vmalloc_32_length usb_buffer_alloc_length
  usb_alloc_urb_length usb_control_msg_length

section \<open>A concrete environment\<close>

text \<open>
  An instance of the services, used to evaluate handlers on concrete inputs: the world is the
  contents of one 26-byte control register of the camera; allocation succeeds up to 1 MB.
\<close>

definition demo_env :: "u8 list usb_env" where
  "demo_env = \<lparr>
     usb_control_msg = (\<lambda>r t v i d w.
        if bit t 7 then (int (length d), take (length d) (w @ replicate (length d) 0), w)
        else (int (length d), d, d)),
     kmalloc = (\<lambda>n w. (Some (replicate n 0xAA), w)),
     vmalloc_32 = (\<lambda>n w. (if 0 < n \<and> n \<le> 0x100000 then Some (replicate (unat n) 0) else None, w)),
     vfree = (\<lambda>w. w),
     usb_buffer_alloc = (\<lambda>n w. (Some (replicate (unat n) 0), w)),
     usb_alloc_urb = (\<lambda>n w. (if n < 0 then None else Some \<lparr>urb_endpoint = 0, urb_status = 0,
        urb_interval = 0, urb_transfer_buffer = [], urb_transfer_buffer_length = 0,
        urb_number_of_packets = 0, urb_iso_frame_desc = replicate (nat n)
          \<lparr>iso_offset = 0, iso_length = 0, iso_actual_length = 0, iso_status = 0\<rparr>\<rparr>, w)),
     usb_submit_urb = (\<lambda>u w. (if u = None then - EINVAL else 0, w)),
     usb_buffer_free = (\<lambda>i w. w),
     usb_free_urb = (\<lambda>i w. w),
     usb_kill_urb = (\<lambda>i w. w),
     usb_set_interface = (\<lambda>i a w. w),
     vm_insert_page = (\<lambda>a p w. (0, w))\<rparr>"

lemma demo_env_ok: "env_ok demo_env"
  unfolding env_ok_def demo_env_def by (auto split: if_splits)

end
