(* ===== verification/Uvc_Format.thy ===== *)
theory Uvc_Format
  imports Uvc_State
begin

text \<open>
  Capability and format ioctls of the UVC driver: \<open>querycap\<close>, \<open>enum_fmt\<close>, \<open>g_fmt\<close>, \<open>try_fmt\<close>
  and \<open>s_fmt\<close>.  A handler returns its code and the structure it passes back to the caller.
\<close>

definition myuvc_vidioc_querycap :: "v4l2_capability \<Rightarrow> int \<times> v4l2_capability" where
  "myuvc_vidioc_querycap cap =
     (0, \<lparr>cap_driver = ''myuvc'', cap_card = ''myuvc'', cap_bus_info = '''', cap_version = 1,
          cap_capabilities = V4L2_CAP_VIDEO_CAPTURE OR V4L2_CAP_STREAMING, cap_device_caps = 0\<rparr>)"

definition myuvc_vidioc_enum_fmt_vid_cap :: "v4l2_fmtdesc \<Rightarrow> int \<times> v4l2_fmtdesc" where
  "myuvc_vidioc_enum_fmt_vid_cap f =
     (if fd_index f \<ge> 1 then (- EINVAL, f)
      else (0, f\<lparr>fd_description := ''MJPEG'', fd_pixelformat := V4L2_PIX_FMT_MJPEG,
                 fd_type := V4L2_BUF_TYPE_VIDEO_CAPTURE\<rparr>))"

definition myuvc_vidioc_g_fmt_vid_cap :: "'w uvc \<Rightarrow> v4l2_format \<Rightarrow> int \<times> v4l2_format" where
  "myuvc_vidioc_g_fmt_vid_cap s f = (0, myuvc_format s)"

definition myuvc_vidioc_try_fmt_vid_cap :: "v4l2_format \<Rightarrow> int \<times> v4l2_format" where
  "myuvc_vidioc_try_fmt_vid_cap f =
     (if f_type f \<noteq> V4L2_BUF_TYPE_VIDEO_CAPTURE then (- EINVAL, f)
      else if pf_pixelformat (f_pix f) \<noteq> V4L2_PIX_FMT_MJPEG then (- EINVAL, f)
      else
        let w = of_int (fr_width (frames ! frame_idx));
            h = of_int (fr_height (frames ! frame_idx))
        in (0, f\<lparr>f_pix := (f_pix f)\<lparr>pf_width := w, pf_height := h,
                 pf_bytesperline := drop_bit 3 (w * of_int bBitsPerPixel),
                 pf_sizeimage := maxVideoFrameSize, pf_field := V4L2_FIELD_NONE,
                 pf_colorspace := V4L2_COLORSPACE_SRGB, pf_priv := 0\<rparr>\<rparr>))"

definition myuvc_vidioc_s_fmt_vid_cap ::
    "v4l2_format \<Rightarrow> 'w uvc \<Rightarrow> int \<times> v4l2_format \<times> 'w uvc" where
  "myuvc_vidioc_s_fmt_vid_cap f s =
     (case myuvc_vidioc_try_fmt_vid_cap f of (ret, f') \<Rightarrow>
        if ret < 0 then (ret, f', s) else (0, f', s\<lparr>myuvc_format := f'\<rparr>))"

lemmas [kdefs] = myuvc_vidioc_querycap_def myuvc_vidioc_enum_fmt_vid_cap_def
  myuvc_vidioc_g_fmt_vid_cap_def myuvc_vidioc_try_fmt_vid_cap_def myuvc_vidioc_s_fmt_vid_cap_def

section \<open>Results\<close>

text \<open>
  The format invariant: before the first successful \<open>s_fmt\<close> the format is all zero, afterwards
  it is the one format the camera has.
\<close>

definition format_ok :: "v4l2_format \<Rightarrow> bool" where
  "format_ok f \<longleftrightarrow> pf_sizeimage (f_pix f) \<in> {0, maxVideoFrameSize}"

lemma format_ok_init: "format_ok (myuvc_format (uvc_init_state w))"
  by (simp add: format_ok_def uvc_init_state_def)

lemma try_fmt_accepts_iff:
  "fst (myuvc_vidioc_try_fmt_vid_cap f) = 0 \<longleftrightarrow>
     f_type f = V4L2_BUF_TYPE_VIDEO_CAPTURE \<and> pf_pixelformat (f_pix f) = V4L2_PIX_FMT_MJPEG"
  by (simp add: myuvc_vidioc_try_fmt_vid_cap_def Let_def)

lemma try_fmt_idem:
  "myuvc_vidioc_try_fmt_vid_cap f = (0, g) \<Longrightarrow> myuvc_vidioc_try_fmt_vid_cap g = (0, g)"
  by (auto simp: myuvc_vidioc_try_fmt_vid_cap_def Let_def split: if_splits)

lemma s_fmt_format_ok:
  "format_ok (myuvc_format s) \<Longrightarrow> myuvc_vidioc_s_fmt_vid_cap f s = (r, g, s') \<Longrightarrow>
     format_ok (myuvc_format s')"
  by (auto simp: kdefs format_ok_def Let_def split: if_splits)

lemma s_fmt_frame: "myuvc_vidioc_s_fmt_vid_cap f s = (r, g, s') \<Longrightarrow> myuvc_queue s' = myuvc_queue s"
  by (auto simp: kdefs Let_def split: if_splits)

section \<open>Setting and reading the format\<close>

text \<open>
  S\_FMT accepts exactly MJPEG capture requests; it then replaces the caller's
  geometry by the one the camera has (320x240, 77312 bytes), G\_FMT reports that format from then
  on, and offering it again is accepted unchanged.  A refused request leaves the driver alone.
\<close>

lemma s_fmt_g_fmt:
  "case myuvc_vidioc_s_fmt_vid_cap f s of (ret, f', s') \<Rightarrow>
     if f_type f = V4L2_BUF_TYPE_VIDEO_CAPTURE \<and> pf_pixelformat (f_pix f) = V4L2_PIX_FMT_MJPEG
     then ret = 0 \<and> pf_width (f_pix f') = 320 \<and> pf_height (f_pix f') = 240 \<and> pf_sizeimage (f_pix f') = 77312 \<and>
       myuvc_vidioc_g_fmt_vid_cap s' g = (0, f') \<and> myuvc_vidioc_s_fmt_vid_cap f' s' = (0, f', s')
     else ret = - EINVAL \<and> f' = f \<and> s' = s"
  by (auto simp: kdefs Let_def frames_def frame_idx_def maxVideoFrameSize_def)

end
