(* ===== verification/Capture_Queue.thy ===== *)
theory Capture_Queue
  imports Prelude
begin

text \<open>
  The contract of a capture queue, shared by the drivers: the application hands in empty
  buffers (QBUF), the device fills the oldest one and marks it done, the application takes the
  done buffers out (DQBUF).  A provider states which buffers are \<open>filled\<close> and which are still
  \<open>pending\<close>, in order, and what each operation does to the two lists; the client results say
  that over any sequence of operations buffers come out in the order they were handed in,
  none is lost and none is handed out twice.
\<close>

datatype ('a, 'e) qop = QBUF 'a | DQBUF | EVENT 'e

text \<open>
  Run a sequence of operations; collect the accepted QBUF arguments and the buffers DQBUF
  returned.  A refused operation is skipped, a fault ends the run.
\<close>

fun run_queue ::
  "('a \<Rightarrow> 's \<Rightarrow> (bool \<times> 's) kres) \<Rightarrow> ('s \<Rightarrow> (nat option \<times> 's) kres) \<Rightarrow> ('e \<Rightarrow> 's \<Rightarrow> 's kres) \<Rightarrow>
   ('a, 'e) qop list \<Rightarrow> 's \<Rightarrow> ('a list \<times> nat list \<times> 's) kres" where
  "run_queue qb dq ev [] s = Inr ([], [], s)"
| "run_queue qb dq ev (QBUF a # ops) s =
     kbind (qb a s) (\<lambda>(ok, s'). kbind (run_queue qb dq ev ops s')
       (\<lambda>(qs, ds, t). Inr (if ok then a # qs else qs, ds, t)))"
| "run_queue qb dq ev (DQBUF # ops) s =
     kbind (dq s) (\<lambda>(r, s'). kbind (run_queue qb dq ev ops s')
       (\<lambda>(qs, ds, t). Inr (qs, (case r of Some i \<Rightarrow> i # ds | None \<Rightarrow> ds), t)))"
| "run_queue qb dq ev (EVENT e # ops) s =
     kbind (ev e s) (\<lambda>s'. run_queue qb dq ev ops s')"

locale capture_queue =
  fixes inv :: "'s \<Rightarrow> bool"
    and filled :: "'s \<Rightarrow> nat list"
    and pending :: "'s \<Rightarrow> nat list"
    and idx :: "'a \<Rightarrow> nat"
    and qb :: "'a \<Rightarrow> 's \<Rightarrow> (bool \<times> 's) kres"
    and dq :: "'s \<Rightarrow> (nat option \<times> 's) kres"
    and ev :: "'e \<Rightarrow> 's \<Rightarrow> 's kres"
  assumes inv_distinct: "inv s \<Longrightarrow> distinct (filled s @ pending s)"
    and qb_accept: "inv s \<Longrightarrow> qb a s = Inr (True, s') \<Longrightarrow>
      inv s' \<and> filled s' = filled s \<and> pending s' = pending s @ [idx a]"
    and qb_refuse: "inv s \<Longrightarrow> qb a s = Inr (False, s') \<Longrightarrow>
      inv s' \<and> filled s' = filled s \<and> pending s' = pending s"
    and dq_take: "inv s \<Longrightarrow> dq s = Inr (Some i, s') \<Longrightarrow>
      inv s' \<and> filled s = i # filled s' \<and> pending s' = pending s"
    and dq_refuse: "inv s \<Longrightarrow> dq s = Inr (None, s') \<Longrightarrow>
      inv s' \<and> filled s' = filled s \<and> pending s' = pending s \<and> filled s = []"
    and ev_fills: "inv s \<Longrightarrow> ev e s = Inr s' \<Longrightarrow>
      inv s' \<and> filled s' @ pending s' = filled s @ pending s \<and> length (pending s') \<le> length (pending s)"
begin

lemma run_fifo:
  "inv s \<Longrightarrow> run_queue qb dq ev ops s = Inr (qs, ds, t) \<Longrightarrow>
     inv t \<and> filled s @ pending s @ map idx qs = ds @ filled t @ pending t"
proof (induction ops arbitrary: s qs ds)
  case Nil
  then show ?case by simp
next
  case (Cons op ops)
  show ?case
  proof (cases op)
    case (QBUF a)
    then obtain ok s' qs' where q: "qb a s = Inr (ok, s')"
      and r: "run_queue qb dq ev ops s' = Inr (qs', ds, t)"
      and qs: "qs = (if ok then a # qs' else qs')"
      using Cons.prems(2) by (auto simp: kbind_Inr_iff)
    then have "inv s' \<and> filled s' = filled s \<and> pending s' = pending s @ (if ok then [idx a] else [])"
      using qb_accept [OF Cons.prems(1), of a s'] qb_refuse [OF Cons.prems(1), of a s']
      by (cases ok) simp_all
    with Cons.IH [OF _ r] show ?thesis by (simp add: qs split: if_splits)
  next
    case DQBUF
    then obtain x s' ds' where d: "dq s = Inr (x, s')"
      and r: "run_queue qb dq ev ops s' = Inr (qs, ds', t)"
      and ds: "ds = (case x of Some i \<Rightarrow> i # ds' | None \<Rightarrow> ds')"
      using Cons.prems(2) by (auto simp: kbind_Inr_iff)
    then have "inv s' \<and> filled s = (case x of Some i \<Rightarrow> [i] | None \<Rightarrow> []) @ filled s' \<and>
        pending s' = pending s"
      using dq_take [OF Cons.prems(1), of "the x" s'] dq_refuse [OF Cons.prems(1), of s']
      by (cases x) simp_all
    with Cons.IH [OF _ r] show ?thesis by (cases x) (simp_all add: ds)
  next
    case (EVENT e)
    then obtain s' where e: "ev e s = Inr s'" and r: "run_queue qb dq ev ops s' = Inr (qs, ds, t)"
      using Cons.prems(2) by (auto simp: kbind_Inr_iff)
    have f: "inv s'" "filled s @ pending s = filled s' @ pending s'"
      using ev_fills [OF Cons.prems(1) e] by simp_all
    have "filled s @ pending s @ map idx qs = (filled s' @ pending s') @ map idx qs"
      by (simp flip: f(2))
    with Cons.IH [OF f(1) r] show ?thesis by simp
  qed
qed

lemma run_from_empty:
  assumes "inv s" "filled s = []" "pending s = []"
    and "run_queue qb dq ev ops s = Inr (qs, ds, t)"
  shows "ds = take (length ds) (map idx qs)"
    and "distinct (drop (length ds) (map idx qs))"
    and "drop (length ds) (map idx qs) = filled t @ pending t"
proof -
  have *: "inv t" "map idx qs = ds @ filled t @ pending t"
    using run_fifo [OF assms(1,4)] assms(2,3) by simp_all
  then show "ds = take (length ds) (map idx qs)" by simp
  show "drop (length ds) (map idx qs) = filled t @ pending t" using * by simp
  with inv_distinct [OF *(1)] show "distinct (drop (length ds) (map idx qs))" by simp
qed

lemma dq_ready: "inv s \<Longrightarrow> filled s = i # fs \<Longrightarrow> dq s = Inr (r, s') \<Longrightarrow> r = Some i"
  using dq_take [of s "the r" s'] dq_refuse [of s s'] by (cases r) simp_all

end

end
