(* ===== verification/Uvc_Queue.thy ===== *)
theory Uvc_Queue
  imports Uvc_Format Capture_Queue
begin

text \<open>
  Buffer management of the UVC driver: \<open>reqbufs\<close>, \<open>querybuf\<close>, \<open>qbuf\<close>, \<open>dqbuf\<close>, \<open>poll\<close>,
  \<open>mmap\<close>, and the queue invariant.
\<close>

section \<open>Operations\<close>

definition myuvc_free_buffers :: "'w usb_env \<Rightarrow> 'w uvc \<Rightarrow> 'w uvc" where
  "myuvc_free_buffers E s =
     (case q_mem (myuvc_queue s) of
        None \<Rightarrow> s
      | Some m \<Rightarrow> s\<lparr>world := vfree E (world s), myuvc_queue := myuvc_queue_zero\<rparr>)"

text \<open>
  The allocation loop of \<open>reqbufs\<close>: fewer buffers until \<open>vmalloc_32\<close> succeeds.  The product of
  count and size is 32-bit.
\<close>

fun reqbufs_alloc :: "'w usb_env \<Rightarrow> u32 \<Rightarrow> nat \<Rightarrow> 'w \<Rightarrow> nat \<times> u8 list option \<times> 'w" where
  "reqbufs_alloc E bufsize 0 w = (0, None, w)"
| "reqbufs_alloc E bufsize (Suc n) w =
     (case vmalloc_32 E (of_nat (Suc n) * bufsize) w of
        (Some m, w') \<Rightarrow> (Suc n, Some m, w')
      | (None, w') \<Rightarrow> reqbufs_alloc E bufsize n w')"

definition init_buffer :: "u32 \<Rightarrow> u32 \<Rightarrow> nat \<Rightarrow> myuvc_buffer \<Rightarrow> myuvc_buffer" where
  "init_buffer bufsize sizeimage i b =
     b\<lparr>mb_buf := (mb_buf b)\<lparr>b_index := of_nat i, b_m := of_nat i * bufsize, b_length := sizeimage,
          b_type := V4L2_BUF_TYPE_VIDEO_CAPTURE, b_sequence := 0, b_field := V4L2_FIELD_NONE,
          b_memory := V4L2_MEMORY_MMAP, b_flags := 0\<rparr>,
       mb_state := VIDEOBUF_IDLE\<rparr>"

text \<open>
  The initialisation loop writes \<open>buffer[i]\<close> for the listed indices; \<open>buffer\<close> has 32 entries.
\<close>

fun init_buffers :: "u32 \<Rightarrow> u32 \<Rightarrow> nat list \<Rightarrow> myuvc_buffer list \<Rightarrow> myuvc_buffer list kres" where
  "init_buffers bufsize sizeimage [] bufs = Inr bufs"
| "init_buffers bufsize sizeimage (i # is) bufs =
     (if i < length bufs
      then init_buffers bufsize sizeimage is (upd_nth i (init_buffer bufsize sizeimage i) bufs)
      else Inl OutOfBounds)"

definition myuvc_vidioc_reqbufs ::
    "'w usb_env \<Rightarrow> v4l2_requestbuffers \<Rightarrow> 'w uvc \<Rightarrow> (int \<times> 'w uvc) kres" where
  "myuvc_vidioc_reqbufs E p s =
     (let nbuffers = sint (rb_count p);
          sizeimage = pf_sizeimage (f_pix (myuvc_format s));
          bufsize = PAGE_ALIGN sizeimage;
          s1 = myuvc_free_buffers E s
      in if nbuffers = 0 then Inr (0, s1)
         else case reqbufs_alloc E bufsize (nat nbuffers) (world s1) of
           (n, None, w) \<Rightarrow> Inr (- ENOMEM, s1\<lparr>world := w\<rparr>)
         | (n, Some m, w) \<Rightarrow>
             kbind (init_buffers bufsize sizeimage [0..<n] (q_buffer myuvc_queue_zero))
               (\<lambda>bufs. Inr (int n, s1\<lparr>world := w, myuvc_queue := myuvc_queue_zero\<lparr>
                  mainqueue := INIT_LIST_HEAD, irqqueue := INIT_LIST_HEAD, q_buffer := bufs,
                  q_mem := Some m, q_count := of_nat n, q_buf_size := bufsize\<rparr>\<rparr>)))"

text \<open>
  \<open>&myuvc_queue.buffer[i]\<close>: outside the array of 32 it is not an object of the program.
\<close>

definition get_buffer :: "myuvc_queue \<Rightarrow> nat \<Rightarrow> myuvc_buffer kres" where
  "get_buffer q i = (if i < length (q_buffer q) then Inr (q_buffer q ! i) else Inl OutOfBounds)"

definition buf_state_flags :: "videobuf_state \<Rightarrow> u32" where
  "buf_state_flags st = (case st of
       VIDEOBUF_ERROR \<Rightarrow> V4L2_BUF_FLAG_DONE
     | VIDEOBUF_DONE \<Rightarrow> V4L2_BUF_FLAG_DONE
     | VIDEOBUF_QUEUED \<Rightarrow> V4L2_BUF_FLAG_QUEUED
     | VIDEOBUF_ACTIVE \<Rightarrow> V4L2_BUF_FLAG_QUEUED
     | _ \<Rightarrow> 0)"

text \<open>
  After the \<open>memcpy\<close> the index that is used is the one copied from the driver's buffer.
\<close>

definition myuvc_vidioc_querybuf ::
    "v4l2_buffer \<Rightarrow> 'w uvc \<Rightarrow> (int \<times> v4l2_buffer) kres" where
  "myuvc_vidioc_querybuf v4l2_buf s =
     (let q = myuvc_queue s in
      if b_index v4l2_buf \<ge> q_count q then Inr (- EINVAL, v4l2_buf)
      else kbind (get_buffer q (unat (b_index v4l2_buf))) (\<lambda>b0.
        let v = mb_buf b0 in
        kbind (get_buffer q (unat (b_index v))) (\<lambda>b.
          let v1 = (if mb_vma_use_count b \<noteq> 0 then v\<lparr>b_flags := b_flags v OR V4L2_BUF_FLAG_MAPPED\<rparr>
                    else v)
          in Inr (0, v1\<lparr>b_flags := b_flags v1 OR buf_state_flags (mb_state b)\<rparr>))))"

definition myuvc_vidioc_qbuf :: "v4l2_buffer \<Rightarrow> 'w uvc \<Rightarrow> (int \<times> 'w uvc) kres" where
  "myuvc_vidioc_qbuf v4l2_buf s =
     (let q = myuvc_queue s; i = unat (b_index v4l2_buf) in
      if b_type v4l2_buf \<noteq> V4L2_BUF_TYPE_VIDEO_CAPTURE \<or> b_memory v4l2_buf \<noteq> V4L2_MEMORY_MMAP
      then Inr (- EINVAL, s)
      else if b_index v4l2_buf \<ge> q_count q then Inr (- EINVAL, s)
      else kbind (get_buffer q i) (\<lambda>buf.
        if mb_state buf \<noteq> VIDEOBUF_IDLE then Inr (- EINVAL, s)
        else kbind (list_add_tail i (mainqueue q)) (\<lambda>mq.
          kbind (list_add_tail i (irqqueue q)) (\<lambda>iq.
            Inr (0, s\<lparr>myuvc_queue := q\<lparr>
              q_buffer := upd_nth i (\<lambda>b. b\<lparr>mb_state := VIDEOBUF_QUEUED,
                 mb_buf := (mb_buf b)\<lparr>b_bytesused := 0\<rparr>\<rparr>) (q_buffer q),
              mainqueue := mq, irqqueue := iq\<rparr>\<rparr>)))))"

definition myuvc_vidioc_dqbuf ::
    "v4l2_buffer \<Rightarrow> 'w uvc \<Rightarrow> (int \<times> v4l2_buffer \<times> 'w uvc) kres" where
  "myuvc_vidioc_dqbuf v4l2_buf s =
     (let q = myuvc_queue s in
      if list_empty (mainqueue q) then Inr (- EINVAL, v4l2_buf, s)
      else kbind (deref (list_first_entry (mainqueue q))) (\<lambda>i.
        kbind (get_buffer q i) (\<lambda>buf.
          case mb_state buf of
            VIDEOBUF_ERROR \<Rightarrow> Inr (- EIO, v4l2_buf, s)
          | VIDEOBUF_DONE \<Rightarrow>
              kbind (list_del i (mainqueue q)) (\<lambda>mq.
                Inr (0, mb_buf buf, s\<lparr>myuvc_queue := q\<lparr>
                  q_buffer := upd_nth i (\<lambda>b. b\<lparr>mb_state := VIDEOBUF_IDLE\<rparr>) (q_buffer q),
                  mainqueue := mq\<rparr>\<rparr>))
          | _ \<Rightarrow> Inr (- EINVAL, v4l2_buf, s))))"

definition myuvc_poll :: "'w uvc \<Rightarrow> u32 kres" where
  "myuvc_poll s =
     (let q = myuvc_queue s in
      if list_empty (mainqueue q) then Inr POLLERR
      else kbind (deref (list_first_entry (mainqueue q))) (\<lambda>i.
        kbind (get_buffer q i) (\<lambda>buf.
          Inr (if mb_state buf = VIDEOBUF_DONE \<or> mb_state buf = VIDEOBUF_ERROR
               then POLLIN OR POLLRDNORM else 0))))"

text \<open>
  \<open>mmap\<close> looks the buffer up by its page offset and inserts the pages one by one.  The page
  loop counts a 32-bit size down by 4096, so it is a partial function.
\<close>

fun mmap_find :: "myuvc_queue \<Rightarrow> u32 \<Rightarrow> nat list \<Rightarrow> nat option kres" where
  "mmap_find q pgoff [] = Inr None"
| "mmap_find q pgoff (i # is) = kbind (get_buffer q i) (\<lambda>b.
     if drop_bit 12 (b_m (mb_buf b)) = pgoff then Inr (Some i) else mmap_find q pgoff is)"

partial_function (option) mmap_pages ::
    "'w usb_env \<Rightarrow> u32 \<Rightarrow> u32 \<Rightarrow> u32 \<Rightarrow> int \<Rightarrow> 'w \<Rightarrow> (int \<times> 'w) option" where
  "mmap_pages E start addr sz ret w =
     (if sz = 0 then Some (ret, w)
      else let r = vm_insert_page E start addr w in
        if fst r < 0 then Some r
        else mmap_pages E (start + 4096) (addr + 4096) (sz - 4096) (fst r) (snd r))"

definition myuvc_vm_open :: "nat \<Rightarrow> 'w uvc \<Rightarrow> 'w uvc" where
  "myuvc_vm_open i s = s\<lparr>myuvc_queue := (myuvc_queue s)\<lparr>q_buffer :=
     upd_nth i (\<lambda>b. b\<lparr>mb_vma_use_count := mb_vma_use_count b + 1\<rparr>) (q_buffer (myuvc_queue s))\<rparr>\<rparr>"

definition myuvc_vm_close :: "nat \<Rightarrow> 'w uvc \<Rightarrow> 'w uvc" where
  "myuvc_vm_close i s = s\<lparr>myuvc_queue := (myuvc_queue s)\<lparr>q_buffer :=
     upd_nth i (\<lambda>b. b\<lparr>mb_vma_use_count := mb_vma_use_count b - 1\<rparr>) (q_buffer (myuvc_queue s))\<rparr>\<rparr>"

definition myuvc_mmap ::
    "'w usb_env \<Rightarrow> vm_area \<Rightarrow> 'w uvc \<Rightarrow> (int \<times> vm_area \<times> 'w uvc) option kres" where
  "myuvc_mmap E vma s =
     (let q = myuvc_queue s; size = vm_end vma - vm_start vma in
      kbind (mmap_find q (vm_pgoff vma) [0..<unat (q_count q)]) (\<lambda>found.
        case found of
          None \<Rightarrow> Inr (Some (- EINVAL, vma, s))
        | Some i \<Rightarrow>
            if size \<noteq> q_buf_size q then Inr (Some (- EINVAL, vma, s))
            else kbind (get_buffer q i) (\<lambda>b.
              let vma1 = vma\<lparr>vm_flags := vm_flags vma OR VM_IO\<rparr> in
              Inr (case mmap_pages E (vm_start vma) (b_m (mb_buf b)) size 0 (world s) of
                None \<Rightarrow> None
              | Some (ret, w) \<Rightarrow>
                  if ret < 0 then Some (ret, vma1, s\<lparr>world := w\<rparr>)
                  else Some (ret, vma1\<lparr>vm_ops := True, vm_private_data := Some i\<rparr>,
                             myuvc_vm_open i (s\<lparr>world := w\<rparr>))))))"

section \<open>Invariant\<close>

text \<open>
  The buffers of the application's queue (\<open>mainqueue\<close>) are the filled ones followed by the
  ones the completion handler still has to fill (\<open>irqqueue\<close>).
\<close>

definition uq_pending :: "myuvc_queue \<Rightarrow> nat list" where
  "uq_pending q = entries (irqqueue q)"

definition uq_filled :: "myuvc_queue \<Rightarrow> nat list" where
  "uq_filled q = take (length (entries (mainqueue q)) - length (entries (irqqueue q)))
     (entries (mainqueue q))"

definition buffer_ok :: "nat \<Rightarrow> myuvc_buffer \<Rightarrow> bool" where
  "buffer_ok i b \<longleftrightarrow> (let v = mb_buf b in
     b_index v = of_nat i \<and> b_m v = of_nat i * PAGE_ALIGN maxVideoFrameSize \<and>
     b_length v = maxVideoFrameSize \<and> b_bytesused v \<le> maxVideoFrameSize \<and>
     b_type v = V4L2_BUF_TYPE_VIDEO_CAPTURE \<and> b_memory v = V4L2_MEMORY_MMAP)"

definition phase_ok :: "nat list \<Rightarrow> nat list \<Rightarrow> nat \<Rightarrow> myuvc_buffer \<Rightarrow> bool" where
  "phase_ok fs ps i b \<longleftrightarrow>
     (if i \<in> set fs then mb_state b = VIDEOBUF_DONE
      else if i \<in> set ps
      then mb_state b = VIDEOBUF_QUEUED \<and> b_bytesused (mb_buf b) = 0 \<or>
           mb_state b = VIDEOBUF_ACTIVE \<and> i = hd ps
      else mb_state b = VIDEOBUF_IDLE)"

definition live :: "myuvc_queue \<Rightarrow> u8 list \<Rightarrow> nat list \<Rightarrow> nat list \<Rightarrow> bool" where
  "live q m fs ps \<longleftrightarrow>
     length (q_buffer q) = 32 \<and> q_mem q = Some m \<and> unat (q_count q) \<le> 32 \<and>
     q_buf_size q = PAGE_ALIGN maxVideoFrameSize \<and>
     length m = unat (q_count q) * unat (q_buf_size q) \<and>
     mainqueue q = Some (fs @ ps) \<and> irqqueue q = Some ps \<and>
     distinct (fs @ ps) \<and> (\<forall>i\<in>set (fs @ ps). i < unat (q_count q)) \<and>
     (\<forall>i<unat (q_count q). buffer_ok i (q_buffer q ! i) \<and> phase_ok fs ps i (q_buffer q ! i))"

definition queue_inv :: "myuvc_queue \<Rightarrow> bool" where
  "queue_inv q \<longleftrightarrow> length (q_buffer q) = 32 \<and> length (q_urb q) = 32 \<and> length (q_urb_buffer q) = 32 \<and>
     (case q_mem q of
        None \<Rightarrow> q_count q = 0 \<and> mainqueue q = None \<and> irqqueue q = None
      | Some m \<Rightarrow> live q m (uq_filled q) (uq_pending q))"

definition temp_ok :: "u8 list option \<Rightarrow> u32 \<Rightarrow> bool" where
  "temp_ok t n \<longleftrightarrow> 1000 \<le> n \<and> n \<le> maxVideoFrameSize + 500 \<and>
     (case t of None \<Rightarrow> True | Some b \<Rightarrow> length b = unat n)"

definition uvc_inv :: "'w uvc \<Rightarrow> bool" where
  "uvc_inv s \<longleftrightarrow> queue_inv (myuvc_queue s) \<and> format_ok (myuvc_format s) \<and>
     temp_ok (mem_temp s) (nArrayTemp_Size s)"

lemma bufsize_value [simp]: "PAGE_ALIGN maxVideoFrameSize = 77824"
  by (simp add: PAGE_ALIGN_def maxVideoFrameSize_def)

lemma live_lists: "live q m fs ps \<Longrightarrow> uq_filled q = fs \<and> uq_pending q = ps"
  by (simp add: live_def uq_filled_def uq_pending_def)

lemma queue_inv_live_iff:
  "q_mem q = Some m \<Longrightarrow>
     queue_inv q \<longleftrightarrow> length (q_urb q) = 32 \<and> length (q_urb_buffer q) = 32 \<and> (\<exists>fs ps. live q m fs ps)"
  using live_lists [of q m] by (auto simp: queue_inv_def live_def)

lemma uvc_inv_init: "uvc_inv (uvc_init_state w)"
  by (simp add: uvc_inv_def uvc_init_state_def queue_inv_def myuvc_queue_zero_def format_ok_def
      temp_ok_def maxVideoFrameSize_def)

section \<open>Allocation\<close>

lemma init_buffers_in_range:
  "\<forall>i\<in>set is. i < length bufs \<Longrightarrow> distinct is \<Longrightarrow>
     \<exists>bufs'. init_buffers bs sz is bufs = Inr bufs' \<and> length bufs' = length bufs \<and>
       (\<forall>j<length bufs. bufs' ! j = (if j \<in> set is then init_buffer bs sz j (bufs ! j) else bufs ! j))"
proof (induction "is" arbitrary: bufs)
  case Nil
  show ?case by (intro exI [of _ bufs]) simp
next
  case (Cons i js)
  let ?b = "upd_nth i (init_buffer bs sz i) bufs"
  have "\<forall>k\<in>set js. k < length ?b" "distinct js" using Cons.prems by simp_all
  from Cons.IH [OF this] obtain bufs' where
    a: "init_buffers bs sz js ?b = Inr bufs'" "length bufs' = length ?b" and
    b: "\<forall>j<length ?b. bufs' ! j = (if j \<in> set js then init_buffer bs sz j (?b ! j) else ?b ! j)"
    by blast
  have "init_buffers bs sz (i # js) bufs = Inr bufs'" "length bufs' = length bufs"
    using a Cons.prems by simp_all
  moreover have "\<forall>j<length bufs. bufs' ! j =
      (if j \<in> set (i # js) then init_buffer bs sz j (bufs ! j) else bufs ! j)"
  proof (intro allI impI)
    fix j assume "j < length bufs"
    then show "bufs' ! j = (if j \<in> set (i # js) then init_buffer bs sz j (bufs ! j) else bufs ! j)"
      using b Cons.prems by (cases "j = i") simp_all
  qed
  ultimately show ?case by blast
qed

lemma init_buffers_out_of_range:
  "\<exists>i\<in>set is. length bufs \<le> i \<Longrightarrow> init_buffers bs sz is bufs = Inl OutOfBounds"
proof (induction "is" arbitrary: bufs)
  case (Cons i js)
  show ?case
    using Cons.prems Cons.IH [of "upd_nth i (init_buffer bs sz i) bufs"] by auto
qed simp

lemma reqbufs_alloc_Some:
  "env_ok E \<Longrightarrow> reqbufs_alloc E bs n w = (k, Some m, w') \<Longrightarrow>
     0 < k \<and> k \<le> n \<and> length m = unat (of_nat k * bs) \<and> 0 < of_nat k * bs"
proof (induction n arbitrary: w)
  case (Suc n)
  then show ?case
    by (auto dest: vmalloc_32_length split: prod.splits option.splits)
       (use Suc in fastforce)+
qed simp

lemma reqbufs_alloc_None: "reqbufs_alloc E bs n w = (k, None, w') \<Longrightarrow> k = 0"
  by (induction n arbitrary: w) (auto split: prod.splits option.splits)

lemma free_buffers_mem [simp]: "q_mem (myuvc_queue (myuvc_free_buffers E s)) = None"
  by (simp add: myuvc_free_buffers_def myuvc_queue_zero_def split: option.splits)

lemma free_buffers_frame [simp]:
  "myuvc_format (myuvc_free_buffers E s) = myuvc_format s"
  "mem_temp (myuvc_free_buffers E s) = mem_temp s"
  "nArrayTemp_Size (myuvc_free_buffers E s) = nArrayTemp_Size s"
  by (simp_all add: myuvc_free_buffers_def split: option.splits)

lemma queue_inv_zero: "queue_inv myuvc_queue_zero"
  by (simp add: queue_inv_def myuvc_queue_zero_def)

lemma free_buffers_inv: "uvc_inv s \<Longrightarrow> uvc_inv (myuvc_free_buffers E s)"
  by (simp add: uvc_inv_def queue_inv_zero myuvc_free_buffers_def split: option.splits)

lemma of_nat_bufsize: "n \<le> 32 \<Longrightarrow> unat (of_nat n * (77824 :: u32)) = n * 77824"
  by (simp add: unat_word_ariths unat_of_nat)

lemma live_fresh:
  assumes "n \<le> 32" "length m = n * 77824" "length bufs = 32"
    and "\<forall>j<n. bufs ! j = init_buffer 77824 maxVideoFrameSize j myuvc_buffer_zero"
  shows "live (myuvc_queue_zero\<lparr>mainqueue := INIT_LIST_HEAD, irqqueue := INIT_LIST_HEAD,
      q_buffer := bufs, q_mem := Some m, q_count := of_nat n, q_buf_size := 77824\<rparr>) m [] []"
  using assms
  by (simp add: live_def INIT_LIST_HEAD_def buffer_ok_def phase_ok_def init_buffer_def
      myuvc_buffer_zero_def unat_of_nat)

lemma reqbufs_cases:
  assumes "myuvc_vidioc_reqbufs E p s = Inr (r, s')"
  obtains (none) "r = 0" "sint (rb_count p) = 0" "s' = myuvc_free_buffers E s"
  | (nomem) k w where "r = - ENOMEM" "s' = (myuvc_free_buffers E s)\<lparr>world := w\<rparr>"
      "reqbufs_alloc E (PAGE_ALIGN (pf_sizeimage (f_pix (myuvc_format s)))) (nat (sint (rb_count p)))
         (world (myuvc_free_buffers E s)) = (k, None, w)"
  | (alloc) n m w bufs where "r = int n"
      "reqbufs_alloc E (PAGE_ALIGN (pf_sizeimage (f_pix (myuvc_format s)))) (nat (sint (rb_count p)))
         (world (myuvc_free_buffers E s)) = (n, Some m, w)"
      "init_buffers (PAGE_ALIGN (pf_sizeimage (f_pix (myuvc_format s))))
         (pf_sizeimage (f_pix (myuvc_format s))) [0..<n] (q_buffer myuvc_queue_zero) = Inr bufs"
      "s' = (myuvc_free_buffers E s)\<lparr>world := w, myuvc_queue := myuvc_queue_zero\<lparr>
         mainqueue := INIT_LIST_HEAD, irqqueue := INIT_LIST_HEAD, q_buffer := bufs, q_mem := Some m,
         q_count := of_nat n, q_buf_size := PAGE_ALIGN (pf_sizeimage (f_pix (myuvc_format s)))\<rparr>\<rparr>"
proof (cases "sint (rb_count p) = 0")
  case True
  then show ?thesis using assms none by (simp add: myuvc_vidioc_reqbufs_def)
next
  case False
  let ?sz = "pf_sizeimage (f_pix (myuvc_format s))" and ?s1 = "myuvc_free_buffers E s"
  obtain n o' w where a: "reqbufs_alloc E (PAGE_ALIGN ?sz) (nat (sint (rb_count p))) (world ?s1)
      = (n, o', w)"
    by (metis prod_cases3)
  show ?thesis
  proof (cases o')
    case None
    with assms False a show ?thesis
      by (intro nomem [of w n]) (simp_all add: myuvc_vidioc_reqbufs_def)
  next
    case (Some m)
    with assms False a alloc [of n m w] show ?thesis
      by (auto simp: myuvc_vidioc_reqbufs_def kbind_Inr_iff Let_def)
  qed
qed

lemma reqbufs_inv:
  assumes E: "env_ok E" and inv: "uvc_inv s" and r: "myuvc_vidioc_reqbufs E p s = Inr (r, s')"
  shows "uvc_inv s'"
  using r
proof (cases rule: reqbufs_cases)
  case none
  then show ?thesis using free_buffers_inv [OF inv] by simp
next
  case nomem
  then show ?thesis using free_buffers_inv [OF inv, of E] by (simp add: uvc_inv_def)
next
  case (alloc n m w bufs)
  let ?sz = "pf_sizeimage (f_pix (myuvc_format s))"
  note a = alloc(2) and b = alloc(3) and s' = alloc(4)
  have n: "0 < of_nat n * PAGE_ALIGN ?sz" and m: "length m = unat (of_nat n * PAGE_ALIGN ?sz)"
    using reqbufs_alloc_Some [OF E a] by auto
  have "PAGE_ALIGN (0 :: u32) = 0" by (simp add: PAGE_ALIGN_def)
  then have sz: "?sz = maxVideoFrameSize"
    using n inv by (auto simp: uvc_inv_def format_ok_def)
  have n32: "n \<le> 32"
    using b init_buffers_out_of_range [of "[0..<n]" "q_buffer myuvc_queue_zero"]
    by (fastforce simp: myuvc_queue_zero_def not_le)
  have "length bufs = 32 \<and> (\<forall>j<n. bufs ! j = init_buffer 77824 maxVideoFrameSize j myuvc_buffer_zero)"
    using init_buffers_in_range [of "[0..<n]" "q_buffer myuvc_queue_zero" 77824 maxVideoFrameSize] b n32 sz
    by (auto simp: myuvc_queue_zero_def)
  then have "live (myuvc_queue s') m [] []"
    using live_fresh [of n m bufs] n32 m sz by (simp add: s' of_nat_bufsize)
  moreover have "q_mem (myuvc_queue s') = Some m" by (simp add: s')
  ultimately show ?thesis
    using inv by (auto simp: uvc_inv_def queue_inv_live_iff s' myuvc_queue_zero_def)
qed

section \<open>QBUF, DQBUF, poll\<close>

lemma live_get_buffer: "live q m fs ps \<Longrightarrow> i < unat (q_count q) \<Longrightarrow> get_buffer q i = Inr (q_buffer q ! i)"
  by (simp add: live_def get_buffer_def)

lemma live_index: "live q m fs ps \<Longrightarrow> i < unat (q_count q) \<Longrightarrow> i < length (q_buffer q)"
  by (simp add: live_def)

lemma live_buffer_ok: "live q m fs ps \<Longrightarrow> i < unat (q_count q) \<Longrightarrow> buffer_ok i (q_buffer q ! i)"
  by (simp add: live_def)

lemma live_phase_ok: "live q m fs ps \<Longrightarrow> i < unat (q_count q) \<Longrightarrow> phase_ok fs ps i (q_buffer q ! i)"
  by (simp add: live_def)

lemma live_idle_iff:
  assumes "live q m fs ps" "i < unat (q_count q)"
  shows "mb_state (q_buffer q ! i) = VIDEOBUF_IDLE \<longleftrightarrow> i \<notin> set (fs @ ps)"
  using live_phase_ok [OF assms] by (auto simp: phase_ok_def split: if_splits)

text \<open>
  The effect of an accepted \<open>qbuf\<close> and of a successful \<open>dqbuf\<close> on the queue.
\<close>

definition queue_put :: "nat \<Rightarrow> myuvc_queue \<Rightarrow> myuvc_queue" where
  "queue_put i q = q\<lparr>
     q_buffer := upd_nth i (\<lambda>b. b\<lparr>mb_state := VIDEOBUF_QUEUED,
       mb_buf := (mb_buf b)\<lparr>b_bytesused := 0\<rparr>\<rparr>) (q_buffer q),
     mainqueue := Some (entries (mainqueue q) @ [i]), irqqueue := Some (entries (irqqueue q) @ [i])\<rparr>"

definition queue_take :: "nat \<Rightarrow> myuvc_queue \<Rightarrow> myuvc_queue" where
  "queue_take i q = q\<lparr>
     q_buffer := upd_nth i (\<lambda>b. b\<lparr>mb_state := VIDEOBUF_IDLE\<rparr>) (q_buffer q),
     mainqueue := Some (removeAll i (entries (mainqueue q)))\<rparr>"

lemma queue_put_frame [simp]:
  "q_mem (queue_put i q) = q_mem q" "q_count (queue_put i q) = q_count q"
  "q_urb (queue_put i q) = q_urb q" "q_urb_buffer (queue_put i q) = q_urb_buffer q"
  by (simp_all add: queue_put_def)

lemma queue_take_frame [simp]:
  "q_mem (queue_take i q) = q_mem q" "q_count (queue_take i q) = q_count q"
  "q_urb (queue_take i q) = q_urb q" "q_urb_buffer (queue_take i q) = q_urb_buffer q"
  by (simp_all add: queue_take_def)

lemma live_put:
  assumes l: "live q m fs ps" and i: "i < unat (q_count q)" "i \<notin> set (fs @ ps)"
  shows "live (queue_put i q) m fs (ps @ [i])" (is "live ?q m fs _")
proof -
  have "buffer_ok j (q_buffer ?q ! j) \<and> phase_ok fs (ps @ [i]) j (q_buffer ?q ! j)"
    if j: "j < unat (q_count q)" for j
  proof (cases "j = i")
    case True
    then show ?thesis using live_index [OF l i(1)] i(2) live_buffer_ok [OF l i(1)]
      by (simp add: buffer_ok_def phase_ok_def Let_def queue_put_def)
  next
    case False
    have "hd (ps @ [i]) = hd ps" if "ps \<noteq> []" using that by simp
    then have "phase_ok fs (ps @ [i]) j (q_buffer q ! j)"
      using live_phase_ok [OF l j] False by (cases "ps = []") (auto simp: phase_ok_def)
    then show ?thesis using False live_buffer_ok [OF l j] by (simp add: queue_put_def)
  qed
  then show ?thesis using l i by (simp add: live_def) (simp add: queue_put_def)
qed

text \<open>
  With initialised queues \<open>qbuf\<close> never faults; it accepts exactly an idle buffer with the
  right type and memory model and appends it to both queues.
\<close>

definition qbuf_valid :: "v4l2_buffer \<Rightarrow> myuvc_queue \<Rightarrow> bool" where
  "qbuf_valid v q \<longleftrightarrow> b_type v = V4L2_BUF_TYPE_VIDEO_CAPTURE \<and> b_memory v = V4L2_MEMORY_MMAP \<and>
     b_index v < q_count q \<and> unat (b_index v) \<notin> set (uq_filled q @ uq_pending q)"

lemma queue_inv_cases:
  assumes "queue_inv q"
  obtains (unset) "q_mem q = None" "q_count q = 0" "mainqueue q = None" "irqqueue q = None"
  | (set) m where "q_mem q = Some m" "live q m (uq_filled q) (uq_pending q)"
  using assms by (auto simp: queue_inv_def split: option.splits)

lemma qbuf_refused:
  assumes "queue_inv (myuvc_queue s)" "\<not> qbuf_valid v (myuvc_queue s)"
  shows "myuvc_vidioc_qbuf v s = Inr (- EINVAL, s)"
  using assms(1)
proof (cases rule: queue_inv_cases)
  case unset
  then show ?thesis by (simp add: myuvc_vidioc_qbuf_def Let_def)
next
  case (set m)
  show ?thesis
  proof (cases "b_index v < q_count (myuvc_queue s)")
    case True
    then have "unat (b_index v) < unat (q_count (myuvc_queue s))" by (simp add: word_less_nat_alt)
    with assms(2) True live_idle_iff [OF set(2) this] live_get_buffer [OF set(2) this] show ?thesis
      by (auto simp: myuvc_vidioc_qbuf_def qbuf_valid_def Let_def)
  next
    case False
    then show ?thesis by (simp add: myuvc_vidioc_qbuf_def not_less Let_def)
  qed
qed

lemma qbuf_accepted:
  assumes "queue_inv (myuvc_queue s)" "qbuf_valid v (myuvc_queue s)"
  shows "myuvc_vidioc_qbuf v s =
     Inr (0, s\<lparr>myuvc_queue := queue_put (unat (b_index v)) (myuvc_queue s)\<rparr>)"
  using assms(1)
proof (cases rule: queue_inv_cases)
  case unset
  then show ?thesis using assms(2) by (simp add: qbuf_valid_def)
next
  case (set m)
  let ?q = "myuvc_queue s" and ?i = "unat (b_index v)"
  have i: "?i < unat (q_count ?q)" "?i \<notin> set (uq_filled ?q @ uq_pending ?q)"
    using assms(2) by (simp_all add: qbuf_valid_def word_less_nat_alt)
  have "mainqueue ?q = Some (uq_filled ?q @ uq_pending ?q)" "irqqueue ?q = Some (uq_pending ?q)"
    using set(2) by (simp_all add: live_def)
  then show ?thesis
    using assms(2) live_get_buffer [OF set(2) i(1)] live_idle_iff [OF set(2) i(1)] i(2)
    by (simp add: myuvc_vidioc_qbuf_def qbuf_valid_def queue_put_def linorder_not_le Let_def)
qed

lemma queue_inv_put:
  assumes inv: "queue_inv q" and v: "qbuf_valid v q"
  shows "queue_inv (queue_put (unat (b_index v)) q) \<and>
    uq_filled (queue_put (unat (b_index v)) q) = uq_filled q \<and>
    uq_pending (queue_put (unat (b_index v)) q) = uq_pending q @ [unat (b_index v)]"
  using inv
proof (cases rule: queue_inv_cases)
  case unset
  then show ?thesis using v by (simp add: qbuf_valid_def)
next
  case (set m)
  have i: "unat (b_index v) < unat (q_count q)" "unat (b_index v) \<notin> set (uq_filled q @ uq_pending q)"
    using v by (simp_all add: qbuf_valid_def word_less_nat_alt)
  from live_put [OF set(2) i] have l: "live (queue_put (unat (b_index v)) q) m (uq_filled q)
      (uq_pending q @ [unat (b_index v)])" .
  moreover have "queue_inv (queue_put (unat (b_index v)) q)"
    using l set(1) inv by (auto simp: queue_inv_live_iff [of _ m])
  ultimately show ?thesis using live_lists [OF l] by simp
qed

lemma live_take:
  assumes l: "live q m (i # fs) ps"
  shows "live (queue_take i q) m fs ps" (is "live ?q _ _ _")
proof -
  have i: "i < unat (q_count q)" "i \<notin> set (fs @ ps)" using l by (simp_all add: live_def)
  have "buffer_ok j (q_buffer ?q ! j) \<and> phase_ok fs ps j (q_buffer ?q ! j)"
    if j: "j < unat (q_count q)" for j
  proof (cases "j = i")
    case True
    then show ?thesis using live_index [OF l i(1)] i(2) live_buffer_ok [OF l i(1)]
      by (simp add: buffer_ok_def phase_ok_def Let_def queue_take_def)
  next
    case False
    then show ?thesis using live_phase_ok [OF l j] live_buffer_ok [OF l j]
      by (simp add: phase_ok_def queue_take_def)
  qed
  then show ?thesis using l by (simp add: live_def) (simp add: queue_take_def)
qed

lemma dqbuf_filled:
  assumes l: "live (myuvc_queue s) m (i # fs) ps"
  shows "myuvc_vidioc_dqbuf v s =
     Inr (0, mb_buf (q_buffer (myuvc_queue s) ! i), s\<lparr>myuvc_queue := queue_take i (myuvc_queue s)\<rparr>)"
proof -
  let ?q = "myuvc_queue s"
  have i: "i < unat (q_count ?q)" "i \<notin> set (fs @ ps)" "mainqueue ?q = Some (i # fs @ ps)"
    using l by (simp_all add: live_def)
  have "mb_state (q_buffer ?q ! i) = VIDEOBUF_DONE"
    using live_phase_ok [OF l i(1)] by (simp add: phase_ok_def)
  then show ?thesis
    using i live_get_buffer [OF l i(1)]
    by (simp add: myuvc_vidioc_dqbuf_def queue_take_def Let_def)
qed

lemma dqbuf_not_filled:
  assumes l: "live (myuvc_queue s) m [] ps"
  shows "myuvc_vidioc_dqbuf v s = Inr (- EINVAL, v, s)"
proof (cases ps)
  case Nil
  then show ?thesis using l by (simp add: myuvc_vidioc_dqbuf_def live_def Let_def)
next
  case (Cons i ps')
  have i: "i < unat (q_count (myuvc_queue s))" "mainqueue (myuvc_queue s) = Some (i # ps')"
    using l Cons by (simp_all add: live_def)
  show ?thesis
    using i live_get_buffer [OF l i(1)] live_phase_ok [OF l i(1)] Cons
    by (auto simp: myuvc_vidioc_dqbuf_def phase_ok_def Let_def)
qed

lemma dqbuf_unset:
  "mainqueue (myuvc_queue s) = None \<Longrightarrow> myuvc_vidioc_dqbuf v s = Inl NullDeref"
  by (simp add: myuvc_vidioc_dqbuf_def list_empty_def list_first_entry_def Let_def)

lemma queue_inv_take:
  assumes inv: "queue_inv q" and f: "uq_filled q = i # fs"
  shows "queue_inv (queue_take i q) \<and> uq_filled (queue_take i q) = fs \<and>
    uq_pending (queue_take i q) = uq_pending q"
  using inv
proof (cases rule: queue_inv_cases)
  case unset
  then show ?thesis using f by (simp add: uq_filled_def)
next
  case (set m)
  then have l: "live (queue_take i q) m fs (uq_pending q)" using f live_take by simp
  moreover have "queue_inv (queue_take i q)"
    using l set(1) inv by (auto simp: queue_inv_live_iff [of _ m])
  ultimately show ?thesis using live_lists [OF l] by simp
qed

lemma poll_live:
  assumes l: "live (myuvc_queue s) m fs ps"
  shows "myuvc_poll s = Inr (if fs @ ps = [] then POLLERR
     else if fs \<noteq> [] then POLLIN OR POLLRDNORM else 0)"
proof (cases "fs @ ps")
  case Nil
  then show ?thesis using l by (simp add: myuvc_poll_def live_def Let_def)
next
  case (Cons i js)
  then have "i \<in> set (fs @ ps)" by simp
  then have i: "i < unat (q_count (myuvc_queue s))" "mainqueue (myuvc_queue s) = Some (fs @ ps)"
    using l unfolding live_def by blast+
  have "i \<in> set fs \<longleftrightarrow> fs \<noteq> []"
    using Cons l by (cases fs) (auto simp: live_def)
  then show ?thesis
    using Cons i live_get_buffer [OF l i(1)] live_phase_ok [OF l i(1)]
    by (auto simp: myuvc_poll_def phase_ok_def Let_def split: if_splits)
qed

lemma querybuf_live:
  assumes l: "live (myuvc_queue s) m fs ps" and i: "b_index v < q_count (myuvc_queue s)"
  shows "myuvc_vidioc_querybuf v s =
    (let b = q_buffer (myuvc_queue s) ! unat (b_index v) in
     Inr (0, (mb_buf b)\<lparr>b_flags := b_flags (mb_buf b)
       OR (if mb_vma_use_count b \<noteq> 0 then V4L2_BUF_FLAG_MAPPED else 0) OR buf_state_flags (mb_state b)\<rparr>))"
proof -
  let ?i = "unat (b_index v)"
  have i': "?i < unat (q_count (myuvc_queue s))" using i by (simp add: word_less_nat_alt)
  have "b_index (mb_buf (q_buffer (myuvc_queue s) ! ?i)) = b_index v"
    using live_buffer_ok [OF l i'] by (simp add: buffer_ok_def Let_def)
  then show ?thesis
    using i live_get_buffer [OF l i']
    by (simp add: myuvc_vidioc_querybuf_def Let_def linorder_not_le or.assoc)
qed

section \<open>Mapping buffers\<close>

text \<open>
  The reference for the page loop: insert \<open>n\<close> consecutive pages, stop at the first error.
\<close>

fun insert_pages :: "'w usb_env \<Rightarrow> u32 \<Rightarrow> u32 \<Rightarrow> nat \<Rightarrow> int \<Rightarrow> 'w \<Rightarrow> int \<times> 'w" where
  "insert_pages E start addr 0 ret w = (ret, w)"
| "insert_pages E start addr (Suc n) ret w =
     (let r = vm_insert_page E start addr w in
      if fst r < 0 then r else insert_pages E (start + 4096) (addr + 4096) n (fst r) (snd r))"

lemma mmap_pages_insert:
  "n < 2 ^ 20 \<Longrightarrow> mmap_pages E start addr (of_nat n * 4096) ret w = Some (insert_pages E start addr n ret w)"
proof (induction n arbitrary: start addr ret w)
  case 0
  then show ?case by (simp add: mmap_pages.simps)
next
  case (Suc n)
  have "unat (of_nat (Suc n) * 4096 :: u32) = Suc n * 4096"
    using Suc.prems by (simp add: unat_word_ariths unat_of_nat)
  then have nz: "of_nat (Suc n) * (4096 :: u32) \<noteq> 0" by (metis mult_is_0 nat.distinct(1) unat_0 zero_neq_numeral)
  have step: "of_nat (Suc n) * (4096 :: u32) - 4096 = of_nat n * 4096" by (simp add: algebra_simps)
  show ?case
    using Suc.IH [of "start + 4096" "addr + 4096"] Suc.prems nz
    by (subst mmap_pages.simps) (simp only: step insert_pages.simps Let_def if_False split: if_split, simp)
qed

lemma buffer_pgoff: "i < 32 \<Longrightarrow> drop_bit 12 (of_nat i * (77824 :: u32)) = of_nat (19 * i)"
  by (rule word_unat_eq_iff [THEN iffD2])
     (simp only: drop_bit_eq_div unat_div of_nat_bufsize unat_of_nat, simp add: of_nat_bufsize)

lemma mmap_find_live:
  assumes l: "live q m fs ps" and "set is \<subseteq> {..<unat (q_count q)}"
  shows "mmap_find q pgoff is = Inr (find (\<lambda>i. pgoff = of_nat (19 * i)) is)"
  using assms(2)
proof (induction "is")
  case (Cons i js)
  then have i: "i < unat (q_count q)" by simp
  have "b_m (mb_buf (q_buffer q ! i)) = of_nat i * 77824"
    using live_buffer_ok [OF l i] by (simp add: buffer_ok_def Let_def)
  moreover have "i < 32" using i l by (simp add: live_def)
  ultimately show ?case
    using Cons live_get_buffer [OF l i] buffer_pgoff [of i] by auto
qed simp

section \<open>A concrete state\<close>

text \<open>
  The driver after \<open>s_fmt\<close>, a request for two buffers and \<open>qbuf\<close> of both; results with
  hypotheses are applied to it.
\<close>

definition demo_buffer :: "nat \<Rightarrow> myuvc_buffer" where
  "demo_buffer i = (init_buffer 77824 maxVideoFrameSize i myuvc_buffer_zero)\<lparr>mb_state := VIDEOBUF_QUEUED\<rparr>"

definition demo_queue :: myuvc_queue where
  "demo_queue = myuvc_queue_zero\<lparr>q_mem := Some (replicate 155648 0), q_count := 2, q_buf_size := 77824,
     q_buffer := [demo_buffer 0, demo_buffer 1] @ replicate 30 myuvc_buffer_zero,
     mainqueue := Some [0, 1], irqqueue := Some [0, 1]\<rparr>"

definition idle_queue :: myuvc_queue where
  "idle_queue = demo_queue\<lparr>q_buffer := [init_buffer 77824 maxVideoFrameSize 0 myuvc_buffer_zero,
     init_buffer 77824 maxVideoFrameSize 1 myuvc_buffer_zero] @ replicate 30 myuvc_buffer_zero,
     mainqueue := Some [], irqqueue := Some []\<rparr>"

definition demo_format :: v4l2_format where
  "demo_format = \<lparr>f_type = V4L2_BUF_TYPE_VIDEO_CAPTURE, f_pix = \<lparr>pf_width = 320, pf_height = 240,
     pf_pixelformat = V4L2_PIX_FMT_MJPEG, pf_field = V4L2_FIELD_NONE, pf_bytesperline = 0,
     pf_sizeimage = maxVideoFrameSize, pf_colorspace = V4L2_COLORSPACE_SRGB, pf_priv = 0\<rparr>\<rparr>"

definition uvc_demo :: "u8 list uvc" where
  "uvc_demo = (uvc_init_state [])\<lparr>myuvc_format := demo_format, myuvc_queue := demo_queue\<rparr>"

lemma demo_queue_live: "live demo_queue (replicate 155648 0) [] [0, 1]"
  by (simp add: live_def demo_queue_def myuvc_queue_zero_def less_2_cases_iff buffer_ok_def phase_ok_def
      demo_buffer_def init_buffer_def myuvc_buffer_zero_def all_conj_distrib)

lemma uvc_demo_simps:
  "myuvc_queue uvc_demo = demo_queue" "udev_idVendor uvc_demo = 0" "last_fid uvc_demo = -1"
  "woken uvc_demo = []" "q_mem demo_queue = Some (replicate 155648 0)" "q_count demo_queue = 2"
  "q_buffer demo_queue ! 0 = demo_buffer 0" "mb_state (demo_buffer i) = VIDEOBUF_QUEUED"
  "uq_filled demo_queue = []" "uq_pending demo_queue = [0, 1]"
  "myuvc_format uvc_demo = demo_format"
  using live_lists [OF demo_queue_live]
  by (simp_all add: uvc_demo_def uvc_init_state_def demo_queue_def demo_buffer_def)

lemma idle_queue_live: "live idle_queue (replicate 155648 0) [] []"
  by (simp add: live_def idle_queue_def demo_queue_def myuvc_queue_zero_def less_2_cases_iff buffer_ok_def
      phase_ok_def init_buffer_def myuvc_buffer_zero_def all_conj_distrib)

lemma idle_queue_put: "queue_put 1 (queue_put 0 idle_queue) = demo_queue"
  by (simp add: queue_put_def idle_queue_def demo_queue_def upd_nth_def demo_buffer_def init_buffer_def
      myuvc_buffer_zero_def)

lemma idle_queue_inv: "queue_inv idle_queue"
proof -
  have "q_mem idle_queue = Some (replicate 155648 0)" by (simp add: idle_queue_def demo_queue_def)
  then show ?thesis using idle_queue_live queue_inv_live_iff [of idle_queue]
    by (auto simp: idle_queue_def demo_queue_def myuvc_queue_zero_def)
qed

lemma uvc_demo_inv: "uvc_inv uvc_demo"
proof -
  have "queue_inv demo_queue"
    using demo_queue_live queue_inv_live_iff [OF uvc_demo_simps(5)]
    by (auto simp: demo_queue_def myuvc_queue_zero_def)
  moreover have "format_ok (myuvc_format uvc_demo)" by (simp add: uvc_demo_simps format_ok_def demo_format_def)
  moreover have "temp_ok (mem_temp uvc_demo) (nArrayTemp_Size uvc_demo)"
    by (simp add: uvc_demo_def uvc_init_state_def temp_ok_def maxVideoFrameSize_def)
  ultimately show ?thesis by (simp add: uvc_inv_def uvc_demo_simps)
qed

section \<open>Properties\<close>

text \<open>
  C6: REQBUFS.  A request for \<open>n\<close> buffers that the allocator grants at the first attempt, with
  the format set, gives \<open>n\<close> idle buffers behind each other in one block and two empty queues as
  long as \<open>n\<close> is at most 32; the old buffers are gone.
\<close>

theorem reqbufs_allocates:
  assumes E: "env_ok E" and inv: "uvc_inv s" and f: "pf_sizeimage (f_pix (myuvc_format s)) = maxVideoFrameSize"
    and n: "0 < n" "n \<le> 32" "rb_count p = of_nat n"
    and v: "vmalloc_32 E (of_nat n * 77824) (world (myuvc_free_buffers E s)) = (Some m, w)"
  shows "\<exists>s'. myuvc_vidioc_reqbufs E p s = Inr (int n, s') \<and> uvc_inv s' \<and>
    q_mem (myuvc_queue s') = Some m \<and> length m = n * 77824 \<and> unat (q_count (myuvc_queue s')) = n \<and>
    uq_filled (myuvc_queue s') = [] \<and> uq_pending (myuvc_queue s') = [] \<and>
    (\<forall>i<n. mb_state (q_buffer (myuvc_queue s') ! i) = VIDEOBUF_IDLE \<and>
       unat (b_m (mb_buf (q_buffer (myuvc_queue s') ! i))) = i * 77824)"
proof -
  have c: "sint (rb_count p) = int n"
    using n by (simp add: sint_small unat_of_nat)
  obtain k where k: "n = Suc k" using n(1) by (cases n) simp_all
  have a: "reqbufs_alloc E 77824 n (world (myuvc_free_buffers E s)) = (n, Some m, w)"
    using v unfolding k by (simp only: reqbufs_alloc.simps prod.case option.case)
  obtain bufs where b: "init_buffers 77824 maxVideoFrameSize [0..<n] (q_buffer myuvc_queue_zero) = Inr bufs"
    "length bufs = 32" "\<forall>j<n. bufs ! j = init_buffer 77824 maxVideoFrameSize j myuvc_buffer_zero"
    using init_buffers_in_range [of "[0..<n]" "q_buffer myuvc_queue_zero" 77824 maxVideoFrameSize] n(2)
    by (auto simp: myuvc_queue_zero_def)
  let ?s = "(myuvc_free_buffers E s)\<lparr>world := w, myuvc_queue := myuvc_queue_zero\<lparr>
     mainqueue := INIT_LIST_HEAD, irqqueue := INIT_LIST_HEAD, q_buffer := bufs, q_mem := Some m,
     q_count := of_nat n, q_buf_size := 77824\<rparr>\<rparr>"
  have r: "myuvc_vidioc_reqbufs E p s = Inr (int n, ?s)"
    using a b(1) c n(1) f by (simp add: myuvc_vidioc_reqbufs_def Let_def)
  have m: "length m = n * 77824" using vmalloc_32_length [OF E v] of_nat_bufsize [OF n(2)] by simp
  have "\<forall>i<n. mb_state (bufs ! i) = VIDEOBUF_IDLE \<and> unat (b_m (mb_buf (bufs ! i))) = i * 77824"
    using b(3) n(2) of_nat_bufsize by (auto simp: init_buffer_def)
  moreover have "unat (of_nat n :: u32) = n" using n(2) by (simp add: unat_of_nat)
  ultimately show ?thesis
    using r m reqbufs_inv [OF E inv r] by (simp add: uq_filled_def uq_pending_def INIT_LIST_HEAD_def)
qed

theorem reqbufs_allocates_witness:
  "\<exists>s'. myuvc_vidioc_reqbufs demo_env \<lparr>rb_count = 3, rb_type = 1, rb_memory = 1\<rparr> uvc_demo = Inr (3, s') \<and>
    uvc_inv s' \<and> unat (q_count (myuvc_queue s')) = 3 \<and> uq_pending (myuvc_queue s') = []"
proof -
  have "vmalloc_32 demo_env (of_nat 3 * 77824) (world (myuvc_free_buffers demo_env uvc_demo)) =
      (Some (replicate 233472 0), world (myuvc_free_buffers demo_env uvc_demo))"
    by (simp add: demo_env_def)
  then show ?thesis
    using reqbufs_allocates [OF demo_env_ok uvc_demo_inv, of 3 "\<lparr>rb_count = 3, rb_type = 1, rb_memory = 1\<rparr>"]
    by (auto simp: uvc_demo_simps demo_format_def)
qed

text \<open>
  A request for more than 32 buffers that the allocator grants writes past the 32-entry
  buffer array: the count is not limited anywhere.
\<close>

lemma reqbufs_overflow:
  assumes f: "pf_sizeimage (f_pix (myuvc_format s)) = maxVideoFrameSize"
    and n: "32 < n" "n < 2 ^ 31" "rb_count p = of_nat n"
    and v: "vmalloc_32 E (of_nat n * 77824) (world (myuvc_free_buffers E s)) = (Some m, w)"
  shows "myuvc_vidioc_reqbufs E p s = Inl OutOfBounds"
proof -
  have c: "sint (rb_count p) = int n" using n by (simp add: sint_small unat_of_nat)
  obtain k where k: "n = Suc k" using n(1) by (cases n) simp_all
  have a: "reqbufs_alloc E 77824 n (world (myuvc_free_buffers E s)) = (n, Some m, w)"
    using v unfolding k by (simp only: reqbufs_alloc.simps prod.case option.case)
  have "init_buffers 77824 maxVideoFrameSize [0..<n] (q_buffer myuvc_queue_zero) = Inl OutOfBounds"
    by (rule init_buffers_out_of_range) (use n(1) in \<open>auto simp: myuvc_queue_zero_def intro!: bexI [of _ 32]\<close>)
  then show ?thesis using a c n(1) f by (simp add: myuvc_vidioc_reqbufs_def Let_def)
qed

text \<open>
  C7: QBUF never faults.  It accepts exactly a capture/mmap request for an existing buffer that is
  neither pending nor filled, clears that buffer, appends it to both queues and changes nothing
  else; every other request is refused with \<open>-EINVAL\<close> and changes nothing.
\<close>

theorem qbuf_correct:
  assumes "uvc_inv s"
  shows "myuvc_vidioc_qbuf v s =
    Inr (if qbuf_valid v (myuvc_queue s)
         then (0, s\<lparr>myuvc_queue := queue_put (unat (b_index v)) (myuvc_queue s)\<rparr>) else (- EINVAL, s))"
  using assms qbuf_accepted [of s v] qbuf_refused [of s v] by (simp add: uvc_inv_def)

theorem qbuf_correct_witness:
  "myuvc_vidioc_qbuf (mb_buf (demo_buffer 0)) uvc_demo = Inr (- EINVAL, uvc_demo)"
  using qbuf_correct [OF uvc_demo_inv, of "mb_buf (demo_buffer 0)"]
  by (simp add: qbuf_valid_def uvc_demo_simps demo_buffer_def init_buffer_def)

text \<open>
  C8: Poll and DQBUF agree.  With buffers allocated, poll reports readable data exactly when a
  DQBUF would succeed, the buffer handed out is then the oldest filled one, and poll reports an
  error exactly when no buffer is queued.
\<close>

theorem poll_agrees_with_dqbuf:
  assumes inv: "uvc_inv s" and mem: "q_mem (myuvc_queue s) \<noteq> None"
  shows "(myuvc_poll s = Inr (POLLIN OR POLLRDNORM)) =
      (\<exists>v' s'. myuvc_vidioc_dqbuf v s = Inr (0, v', s') \<and> unat (b_index v') = hd (uq_filled (myuvc_queue s))) \<and>
    (myuvc_poll s = Inr POLLERR) = (uq_filled (myuvc_queue s) @ uq_pending (myuvc_queue s) = [])"
proof -
  let ?fs = "uq_filled (myuvc_queue s)" and ?ps = "uq_pending (myuvc_queue s)"
  obtain m where l: "live (myuvc_queue s) m ?fs ?ps"
    using inv mem by (auto simp: uvc_inv_def queue_inv_def)
  have "(\<exists>v' s'. myuvc_vidioc_dqbuf v s = Inr (0, v', s') \<and> unat (b_index v') = hd ?fs) = (?fs \<noteq> [])"
  proof (cases ?fs)
    case Nil
    then show ?thesis using dqbuf_not_filled [of s m ?ps v] l by simp
  next
    case (Cons i fs')
    then have "i < unat (q_count (myuvc_queue s))" "i < 32" using l by (auto simp: live_def)
    then have "unat (b_index (mb_buf (q_buffer (myuvc_queue s) ! i))) = i"
      using live_buffer_ok [OF l] by (simp add: buffer_ok_def Let_def unat_of_nat)
    then show ?thesis using Cons dqbuf_filled [of s m i fs' ?ps v] l by simp
  qed
  then show ?thesis using poll_live [OF l] by auto
qed

theorem poll_agrees_with_dqbuf_witness: "myuvc_poll uvc_demo \<noteq> Inr POLLERR"
  using poll_agrees_with_dqbuf [OF uvc_demo_inv] by (simp add: uvc_demo_simps)

text \<open>
  C9: MMAP.  With buffers allocated the page loop always ends.  A request for a whole buffer
  (19 pages) at the page offset of buffer \<open>i\<close> inserts the 19 consecutive pages of exactly that
  buffer and, unless an insertion fails, raises the use count of that buffer only; any other
  offset or length is refused with \<open>-EINVAL\<close> and changes nothing.
\<close>

theorem mmap_maps_buffer:
  assumes inv: "uvc_inv s" and mem: "q_mem (myuvc_queue s) \<noteq> None"
  shows "myuvc_mmap E vma s = Inr (Some
    (if vm_end vma - vm_start vma \<noteq> 19 * 4096 then (- EINVAL, vma, s)
     else case find (\<lambda>i. vm_pgoff vma = of_nat (19 * i)) [0..<unat (q_count (myuvc_queue s))] of
         None \<Rightarrow> (- EINVAL, vma, s)
       | Some i \<Rightarrow> (case insert_pages E (vm_start vma) (of_nat i * 77824) 19 0 (world s) of (ret, w) \<Rightarrow>
           let vma1 = vma\<lparr>vm_flags := vm_flags vma OR VM_IO\<rparr> in
           if ret < 0 then (ret, vma1, s\<lparr>world := w\<rparr>)
           else (ret, vma1\<lparr>vm_ops := True, vm_private_data := Some i\<rparr>, myuvc_vm_open i (s\<lparr>world := w\<rparr>)))))"
proof -
  let ?q = "myuvc_queue s"
  obtain m where l: "live ?q m (uq_filled ?q) (uq_pending ?q)"
    using inv mem by (auto simp: uvc_inv_def queue_inv_def)
  have bs: "q_buf_size ?q = 77824" using l by (simp add: live_def)
  have f: "mmap_find ?q (vm_pgoff vma) [0..<unat (q_count ?q)] =
      Inr (find (\<lambda>i. vm_pgoff vma = of_nat (19 * i)) [0..<unat (q_count ?q)])"
    by (rule mmap_find_live [OF l]) auto
  have pages: "mmap_pages E (vm_start vma) addr 77824 0 (world s) =
      Some (insert_pages E (vm_start vma) addr 19 0 (world s))" for addr
    using mmap_pages_insert [of 19 E "vm_start vma" addr 0 "world s"] by simp
  show ?thesis
  proof (cases "find (\<lambda>i. vm_pgoff vma = of_nat (19 * i)) [0..<unat (q_count ?q)]")
    case None
    then show ?thesis using f by (simp add: myuvc_mmap_def Let_def)
  next
    case (Some i)
    then have i: "i < unat (q_count ?q)" by (auto simp: find_Some_iff)
    have "b_m (mb_buf (q_buffer ?q ! i)) = of_nat i * 77824"
      using live_buffer_ok [OF l i] by (simp add: buffer_ok_def Let_def)
    then show ?thesis
      using Some f bs live_get_buffer [OF l i] pages by (simp add: myuvc_mmap_def Let_def split: prod.split)
  qed
qed

theorem mmap_maps_buffer_witness:
  "myuvc_mmap demo_env \<lparr>vm_start = 0x40000000, vm_end = 0x40013000, vm_pgoff = 19, vm_flags = 0, vm_ops = False,
      vm_private_data = None\<rparr> uvc_demo =
   Inr (Some (0, \<lparr>vm_start = 0x40000000, vm_end = 0x40013000, vm_pgoff = 19, vm_flags = VM_IO, vm_ops = True,
      vm_private_data = Some 1\<rparr>, myuvc_vm_open 1 uvc_demo))"
proof -
  have w: "uvc_demo\<lparr>world := world uvc_demo\<rparr> = uvc_demo" by simp
  have ins: "insert_pages demo_env a p n 0 x = (0, x)" for a p n x
    by (induction n arbitrary: a p) (simp_all add: demo_env_def)
  show ?thesis
    using mmap_maps_buffer [OF uvc_demo_inv, of demo_env "\<lparr>vm_start = 0x40000000, vm_end = 0x40013000, vm_pgoff = 19,
        vm_flags = 0, vm_ops = False, vm_private_data = None\<rparr>"]
    by (simp add: uvc_demo_simps ins w upt_rec)
qed

end
