(* ===== verification/Uvc_Complete.thy ===== *)
theory Uvc_Complete
  imports Uvc_Queue
begin

text \<open>
  The URB completion handler \<open>myuvc_video_complete\<close>: it walks over the isochronous packets of
  a URB, assembles their payloads into the oldest pending buffer and marks that buffer done at
  the end of a frame.  \<open>tb\<close> is the URB's transfer buffer, \<open>off\<close> the offset of the packet in it,
  so \<open>src[k]\<close> is byte \<open>off + k\<close> of \<open>tb\<close>.  \<open>printk\<close> output is left out.
\<close>

section \<open>Operations\<close>

abbreviation (input) UVC_STREAM_ERR :: nat where "UVC_STREAM_ERR \<equiv> 6"
abbreviation (input) UVC_STREAM_EOF :: nat where "UVC_STREAM_EOF \<equiv> 1"

definition next_buffer :: "myuvc_queue \<Rightarrow> nat option" where
  "next_buffer q = (if \<not> list_empty (irqqueue q) then list_first_entry (irqqueue q) else None)"

text \<open>
  A chain of byte comparisons joined by \<open>&&\<close>: later bytes are read only if the earlier match.
\<close>

fun match_bytes :: "u8 list \<Rightarrow> nat \<Rightarrow> u8 list \<Rightarrow> bool kres" where
  "match_bytes m off [] = Inr True"
| "match_bytes m off (b # bs) =
     kbind (mem_byte m off) (\<lambda>x. if x = b then match_bytes m (off + 1) bs else Inr False)"

definition decode_fid :: "'w uvc \<Rightarrow> u8 list \<Rightarrow> nat \<Rightarrow> int \<Rightarrow> u8 \<Rightarrow> int kres" where
  "decode_fid s tb off len hi =
     (if udev_idVendor s = 0x1B3B then
        if len \<ge> 16 then
          kbind (match_bytes tb (off + 12) [0xFF, 0xD8, 0xFF]) (\<lambda>soi.
            kbind (if soi then Inr True else match_bytes tb (off + 12) [0xD8, 0xFF, 0xC4]) (\<lambda>start.
              Inr (if start
                   then if last_fid s \<noteq> 0 then fid s AND NOT 1 else fid s OR 1
                   else fid s)))
        else Inr (fid s)
      else Inr (uint (hi AND 1)))"

definition upd_buffer :: "nat \<Rightarrow> (myuvc_buffer \<Rightarrow> myuvc_buffer) \<Rightarrow> 'w uvc \<Rightarrow> 'w uvc" where
  "upd_buffer i f s =
     s\<lparr>myuvc_queue := (myuvc_queue s)\<lparr>q_buffer := upd_nth i f (q_buffer (myuvc_queue s))\<rparr>\<rparr>"

text \<open>
  \<open>list_del (&buf->irq); wake_up (&buf->wait);\<close> and the choice of the next buffer.
\<close>

definition finish_buffer :: "nat \<Rightarrow> 'w uvc \<Rightarrow> (nat option \<times> 'w uvc) kres" where
  "finish_buffer i s =
     kbind (list_del i (irqqueue (myuvc_queue s))) (\<lambda>iq.
       let q' = (myuvc_queue s)\<lparr>irqqueue := iq\<rparr>
       in Inr (next_buffer q', s\<lparr>myuvc_queue := q', woken := woken s @ [i]\<rparr>))"

text \<open>
  The repair for ip2970/ip2977 cameras: a payload that starts with D8 FF C4 lacks its leading FF.
  The scratch block is allocated on first use and regrown by 500 bytes when the payload does not
  fit; the payload is shifted by one byte through it.
\<close>

definition temp_alloc :: "'w usb_env \<Rightarrow> nat \<Rightarrow> 'w uvc \<Rightarrow> 'w uvc" where
  "temp_alloc E nbytes s =
     (case mem_temp s of
        None \<Rightarrow>
          (case kmalloc E (unat (nArrayTemp_Size s)) (world s) of
             (p, w) \<Rightarrow> s\<lparr>mem_temp := p, world := w\<rparr>)
      | Some b \<Rightarrow>
          if unat (nArrayTemp_Size s) \<le> nbytes then
            (case kmalloc E (unat (nArrayTemp_Size s + 500)) (world s) of
               (p, w) \<Rightarrow> s\<lparr>nArrayTemp_Size := nArrayTemp_Size s + 500, mem_temp := p, world := w\<rparr>)
          else s)"

definition ip2970_fixup :: "'w usb_env \<Rightarrow> nat \<Rightarrow> nat \<Rightarrow> u8 list \<Rightarrow> 'w uvc \<Rightarrow> (u8 list \<times> 'w uvc) kres" where
  "ip2970_fixup E dest nbytes m s =
     (let s1 = temp_alloc E nbytes s in
      kbind (deref (mem_temp s1)) (\<lambda>t0.
      kbind (mem_write t0 0 (replicate (unat (nArrayTemp_Size s1)) 0)) (\<lambda>t1.
      kbind (match_bytes m dest [0xD8, 0xFF, 0xC4]) (\<lambda>broken.
        if broken then
          kbind (mem_read m dest nbytes) (\<lambda>bs.
          kbind (mem_write t1 1 bs) (\<lambda>t2.
          kbind (mem_write t2 0 [0xFF]) (\<lambda>t3.
          kbind (mem_read t3 0 (nbytes + 1)) (\<lambda>bs'.
          kbind (mem_write m dest bs') (\<lambda>m'. Inr (m', s1\<lparr>mem_temp := Some t3\<rparr>))))))
        else Inr (m, s1\<lparr>mem_temp := Some t1\<rparr>)))))"

text \<open>
  After the copy: the new length, the end-of-frame decision, and the release of a full buffer.
\<close>

definition end_payload ::
    "nat \<Rightarrow> myuvc_buffer \<Rightarrow> int \<Rightarrow> bool \<Rightarrow> u8 \<Rightarrow> u8 list \<Rightarrow> 'w uvc \<Rightarrow> (nat option \<times> 'w uvc) kres" where
  "end_payload i b nbytes overflow hi m s =
     (let used = b_bytesused (mb_buf b) + of_int nbytes;
          st = (if overflow \<or> bit hi UVC_STREAM_EOF \<and> used \<noteq> 0 then VIDEOBUF_DONE else mb_state b);
          s2 = upd_buffer i (\<lambda>_. b\<lparr>mb_buf := (mb_buf b)\<lparr>b_bytesused := used\<rparr>, mb_state := st\<rparr>)
                 (s\<lparr>myuvc_queue := (myuvc_queue s)\<lparr>q_mem := Some m\<rparr>\<rparr>)
      in if st = VIDEOBUF_DONE \<or> st = VIDEOBUF_ERROR then finish_buffer i s2
         else Inr (Some i, s2))"

definition copy_payload ::
    "'w usb_env \<Rightarrow> u8 list \<Rightarrow> nat \<Rightarrow> int \<Rightarrow> u8 \<Rightarrow> u8 \<Rightarrow> nat \<Rightarrow> myuvc_buffer \<Rightarrow> 'w uvc
     \<Rightarrow> (nat option \<times> 'w uvc) kres" where
  "copy_payload E tb off plen hl hi i b s =
     (let v = mb_buf b;
          dest = unat (b_m v) + unat (b_bytesused v);
          len = plen - int (unat hl);
          maxlen = sint (b_length v - b_bytesused v);
          nbytes = min len maxlen
      in if nbytes < 0 then Inl OutOfBounds
      else kbind (deref (q_mem (myuvc_queue s))) (\<lambda>m.
        kbind (mem_read tb (off + unat hl) (nat nbytes)) (\<lambda>bs.
        kbind (mem_write m dest bs) (\<lambda>m1.
        kbind (if udev_idVendor s = 0x1B3B then ip2970_fixup E dest (nat nbytes) m1 s
               else Inr (m1, s)) (\<lambda>(m2, s1).
          end_payload i b nbytes (len > maxlen) hi m2 s1)))))"

text \<open>
  What happens to a valid payload once its frame id is known.
\<close>

definition store_payload ::
    "'w usb_env \<Rightarrow> u8 list \<Rightarrow> nat \<Rightarrow> int \<Rightarrow> u8 \<Rightarrow> u8 \<Rightarrow> nat \<Rightarrow> myuvc_buffer \<Rightarrow> 'w uvc
     \<Rightarrow> (nat option \<times> 'w uvc) kres" where
  "store_payload E tb off plen hl hi i b s =
     (if mb_state b \<noteq> VIDEOBUF_ACTIVE \<and> fid s = last_fid s then Inr (Some i, s)
      else
        let b1 = b\<lparr>mb_state := VIDEOBUF_ACTIVE\<rparr>;
            s1 = upd_buffer i (\<lambda>_. b1) s
        in if fid s \<noteq> last_fid s \<and> b_bytesused (mb_buf b) \<noteq> 0
           then finish_buffer i (upd_buffer i (\<lambda>_. b1\<lparr>mb_state := VIDEOBUF_DONE\<rparr>) s1)
           else copy_payload E tb off plen hl hi i b1 (s1\<lparr>last_fid := fid s\<rparr>))"

text \<open>
  One turn of the packet loop.  The code reads \<open>buf->buf.m.offset\<close> before anything else, so
  the handler faults when no buffer is pending; the later test \<open>buf == NULL\<close> is never reached
  with a null pointer.
\<close>

definition video_packet ::
    "'w usb_env \<Rightarrow> u8 list \<Rightarrow> iso_frame_desc \<Rightarrow> nat option \<times> 'w uvc \<Rightarrow> (nat option \<times> 'w uvc) kres" where
  "video_packet E tb d bs = (case bs of (buf, s) \<Rightarrow>
     if iso_status d < 0 then Inr (buf, s)
     else kbind (deref buf) (\<lambda>i.
       kbind (get_buffer (myuvc_queue s) i) (\<lambda>b.
         let off = unat (iso_offset d); len = sint (iso_actual_length d) in
         if len < 2 then Inr (buf, s)
         else kbind (mem_byte tb off) (\<lambda>hl.
           if hl < 2 \<or> int (unat hl) > len then Inr (buf, s)
           else kbind (mem_byte tb (off + 1)) (\<lambda>hi.
             if bit hi UVC_STREAM_ERR then Inr (buf, s)
             else kbind (decode_fid s tb off len hi) (\<lambda>f.
               store_payload E tb off len hl hi i b (s\<lparr>fid := f\<rparr>)))))))"

fun video_packets ::
    "'w usb_env \<Rightarrow> u8 list \<Rightarrow> nat \<Rightarrow> iso_frame_desc list \<Rightarrow> nat option \<times> 'w uvc
     \<Rightarrow> (nat option \<times> 'w uvc) kres" where
  "video_packets E tb 0 ds bs = Inr bs"
| "video_packets E tb (Suc n) [] bs = Inl OutOfBounds"
| "video_packets E tb (Suc n) (d # ds) bs =
     kbind (video_packet E tb d bs) (video_packets E tb n ds)"

definition myuvc_video_complete :: "'w usb_env \<Rightarrow> urb \<Rightarrow> 'w uvc \<Rightarrow> 'w uvc kres" where
  "myuvc_video_complete E urb s =
     (if urb_status urb \<noteq> 0 then Inr s
      else kbind (video_packets E (urb_transfer_buffer urb) (nat (urb_number_of_packets urb))
                    (urb_iso_frame_desc urb) (next_buffer (myuvc_queue s), s))
        (\<lambda>(buf, s'). Inr (s'\<lparr>world := snd (usb_submit_urb E (Some urb) (world s'))\<rparr>)))"

section \<open>Effect on the queue\<close>

lemma next_buffer_live:
  "live q m fs ps \<Longrightarrow> next_buffer q = (case ps of [] \<Rightarrow> None | i # _ \<Rightarrow> Some i)"
  by (cases ps) (simp_all add: live_def next_buffer_def)

text \<open>
  Replacing the head of the pending buffers by an active one, or by a done one while it leaves
  the interrupt queue, keeps the invariant.
\<close>

lemma live_head_active:
  assumes l: "live q m fs (i # ps)" and b: "buffer_ok i b" "mb_state b = VIDEOBUF_ACTIVE"
    and m: "length m' = length m"
  shows "live (q\<lparr>q_mem := Some m', q_buffer := upd_nth i (\<lambda>_. b) (q_buffer q)\<rparr>) m' fs (i # ps)"
proof -
  have i: "i < unat (q_count q)" "i \<notin> set fs" using l by (auto simp: live_def)
  have "buffer_ok j (upd_nth i (\<lambda>_. b) (q_buffer q) ! j) \<and>
      phase_ok fs (i # ps) j (upd_nth i (\<lambda>_. b) (q_buffer q) ! j)"
    if j: "j < unat (q_count q)" for j
    using b live_index [OF l i(1)] i(2) live_buffer_ok [OF l j] live_phase_ok [OF l j]
    by (cases "j = i") (simp_all add: phase_ok_def)
  then show ?thesis using l m by (simp add: live_def)
qed

lemma live_head_done:
  assumes l: "live q m fs (i # ps)" and b: "buffer_ok i b" "mb_state b = VIDEOBUF_DONE"
    and m: "length m' = length m"
  shows "live (q\<lparr>q_mem := Some m', q_buffer := upd_nth i (\<lambda>_. b) (q_buffer q), irqqueue := Some ps\<rparr>)
     m' (fs @ [i]) ps"
proof -
  have i: "i < unat (q_count q)" "i \<notin> set fs" "i \<notin> set ps" using l by (auto simp: live_def)
  have "buffer_ok j (upd_nth i (\<lambda>_. b) (q_buffer q) ! j) \<and>
      phase_ok (fs @ [i]) ps j (upd_nth i (\<lambda>_. b) (q_buffer q) ! j)"
    if j: "j < unat (q_count q)" for j
    using b live_index [OF l i(1)] i(2) live_buffer_ok [OF l j] live_phase_ok [OF l j]
    by (cases "j = i") (auto simp: phase_ok_def split: if_splits)
  then show ?thesis using l m by (simp add: live_def)
qed

lemma live_irqqueue: "live q m fs ps \<Longrightarrow> irqqueue q = Some ps"
  by (simp add: live_def)

text \<open>
  \<open>finish_buffer\<close> on the head of the pending buffers.
\<close>

lemma finish_buffer_head:
  assumes "irqqueue (myuvc_queue s) = Some (i # ps)" "i \<notin> set ps"
  shows "finish_buffer i s = Inr (case ps of [] \<Rightarrow> None | j # _ \<Rightarrow> Some j,
     s\<lparr>myuvc_queue := (myuvc_queue s)\<lparr>irqqueue := Some ps\<rparr>, woken := woken s @ [i]\<rparr>)"
  using assms by (cases ps) (simp_all add: finish_buffer_def next_buffer_def)

text \<open>
  The state of the driver with initialised queues: what a step may change.
\<close>

definition uvc_live :: "'w uvc \<Rightarrow> u8 list \<Rightarrow> nat list \<Rightarrow> nat list \<Rightarrow> bool" where
  "uvc_live s m fs ps \<longleftrightarrow> live (myuvc_queue s) m fs ps \<and> length (q_urb (myuvc_queue s)) = 32 \<and>
     length (q_urb_buffer (myuvc_queue s)) = 32 \<and> format_ok (myuvc_format s) \<and>
     temp_ok (mem_temp s) (nArrayTemp_Size s)"

lemma uvc_live_inv: "uvc_live s m fs ps \<Longrightarrow> uvc_inv s"
  using queue_inv_live_iff [of "myuvc_queue s" m]
  by (auto simp: uvc_live_def uvc_inv_def live_def)

lemma uvc_inv_live:
  assumes "uvc_inv s" "q_mem (myuvc_queue s) = Some m"
  shows "uvc_live s m (uq_filled (myuvc_queue s)) (uq_pending (myuvc_queue s))"
  using assms by (simp add: uvc_live_def uvc_inv_def queue_inv_def)

lemma uvc_live_simps:
  assumes "uvc_live s m fs ps"
  shows "uvc_live (s\<lparr>fid := f\<rparr>) m fs ps" "uvc_live (s\<lparr>last_fid := f\<rparr>) m fs ps"
    "uvc_live (s\<lparr>woken := l\<rparr>) m fs ps" "uvc_live (s\<lparr>world := w\<rparr>) m fs ps"
  using assms by (simp_all add: uvc_live_def)

lemma uvc_live_active:
  assumes l: "uvc_live s m fs (i # ps)" and b: "buffer_ok i b" "mb_state b = VIDEOBUF_ACTIVE"
    and m: "length m' = length m"
  shows "uvc_live (upd_buffer i (\<lambda>_. b) (s\<lparr>myuvc_queue := (myuvc_queue s)\<lparr>q_mem := Some m'\<rparr>\<rparr>)) m'
     fs (i # ps)"
  using l live_head_active [OF _ b m, of "myuvc_queue s" fs ps]
  by (simp add: uvc_live_def upd_buffer_def)

lemma uvc_live_done:
  assumes l: "uvc_live s m fs (i # ps)" and b: "buffer_ok i b" "mb_state b = VIDEOBUF_DONE"
    and m: "length m' = length m"
  shows "\<exists>s'. finish_buffer i (upd_buffer i (\<lambda>_. b)
        (s\<lparr>myuvc_queue := (myuvc_queue s)\<lparr>q_mem := Some m'\<rparr>\<rparr>)) = Inr (next_buffer (myuvc_queue s'), s') \<and>
     uvc_live s' m' (fs @ [i]) ps \<and> woken s' = woken s @ [i] \<and> last_fid s' = last_fid s \<and>
     q_buffer (myuvc_queue s') = upd_nth i (\<lambda>_. b) (q_buffer (myuvc_queue s)) \<and>
     udev_idVendor s' = udev_idVendor s"
proof -
  let ?s = "upd_buffer i (\<lambda>_. b) (s\<lparr>myuvc_queue := (myuvc_queue s)\<lparr>q_mem := Some m'\<rparr>\<rparr>)"
  let ?t = "?s\<lparr>myuvc_queue := (myuvc_queue ?s)\<lparr>irqqueue := Some ps\<rparr>, woken := woken ?s @ [i]\<rparr>"
  have lq: "live (myuvc_queue s) m fs (i # ps)" using l by (simp add: uvc_live_def)
  then have i: "irqqueue (myuvc_queue s) = Some (i # ps)" "i \<notin> set ps" by (simp_all add: live_def)
  have lt: "live (myuvc_queue ?t) m' (fs @ [i]) ps"
    using live_head_done [OF lq b m] by (simp add: upd_buffer_def)
  have "finish_buffer i ?s = Inr (next_buffer (myuvc_queue ?t), ?t)"
    using finish_buffer_head [of ?s i ps] i next_buffer_live [OF lt] by (simp add: upd_buffer_def)
  moreover have "uvc_live ?t m' (fs @ [i]) ps"
    using l lt by (simp add: uvc_live_def upd_buffer_def)
  ultimately show ?thesis by (intro exI [of _ ?t]) (simp add: upd_buffer_def)
qed

section \<open>The repair of truncated payloads\<close>

definition kmalloc_total :: "'w usb_env \<Rightarrow> bool" where
  "kmalloc_total E \<longleftrightarrow> (\<forall>n w. fst (kmalloc E n w) \<noteq> None)"

lemma match_bytes_eq:
  "off + length bs \<le> length m \<Longrightarrow> match_bytes m off bs = Inr (take (length bs) (drop off m) = bs)"
proof (induction bs arbitrary: off)
  case (Cons b bs)
  then have "take (length (b # bs)) (drop off m) = m ! off # take (length bs) (drop (off + 1) m)"
    by (simp add: Cons_nth_drop_Suc [symmetric])
  then show ?case using Cons by (simp add: mem_byte_ok)
qed simp

lemma temp_alloc_frame [simp]:
  "myuvc_queue (temp_alloc E n s) = myuvc_queue s" "myuvc_format (temp_alloc E n s) = myuvc_format s"
  "last_fid (temp_alloc E n s) = last_fid s" "fid (temp_alloc E n s) = fid s"
  "woken (temp_alloc E n s) = woken s" "udev_idVendor (temp_alloc E n s) = udev_idVendor s"
  by (simp_all add: temp_alloc_def split: option.splits prod.splits)

lemma size_plus_500:
  "(n :: u32) \<le> maxVideoFrameSize \<Longrightarrow> unat (n + 500) = unat n + 500"
  by (simp add: unat_word_ariths word_le_nat_alt maxVideoFrameSize_def)

lemma temp_alloc_ok:
  assumes E: "env_ok E" and t: "temp_ok (mem_temp s) (nArrayTemp_Size s)"
    and n: "n \<le> unat maxVideoFrameSize"
  shows "temp_ok (mem_temp (temp_alloc E n s)) (nArrayTemp_Size (temp_alloc E n s))"
proof (cases "mem_temp s")
  case None
  then show ?thesis using t kmalloc_length [OF E]
    by (auto simp: temp_alloc_def temp_ok_def split: prod.splits option.splits)
next
  case (Some b)
  show ?thesis
  proof (cases "unat (nArrayTemp_Size s) \<le> n")
    case True
    then have "nArrayTemp_Size s \<le> maxVideoFrameSize" using n by (simp add: word_le_nat_alt)
    from size_plus_500 [OF this] have "1000 \<le> nArrayTemp_Size s + 500"
      "nArrayTemp_Size s + 500 \<le> maxVideoFrameSize + 500"
      using t True n by (simp_all add: word_le_nat_alt temp_ok_def maxVideoFrameSize_def)
    then show ?thesis using Some True kmalloc_length [OF E]
      by (auto simp: temp_alloc_def temp_ok_def split: prod.splits option.splits)
  next
    case False
    then show ?thesis using Some t by (simp add: temp_alloc_def)
  qed
qed

lemma kmalloc_total_Some: "kmalloc_total E \<Longrightarrow> \<exists>b w'. kmalloc E n w = (Some b, w')"
  unfolding kmalloc_total_def by (metis option.collapse prod.collapse)

lemma temp_alloc_total: "kmalloc_total E \<Longrightarrow> \<exists>t. mem_temp (temp_alloc E n s) = Some t"
  using kmalloc_total_Some [of E "unat (nArrayTemp_Size s)" "world s"]
    kmalloc_total_Some [of E "unat (nArrayTemp_Size s + 500)" "world s"]
  by (cases "mem_temp s") (auto simp: temp_alloc_def)

lemma ip2970_fixup_frame:
  assumes E: "env_ok E" and t: "temp_ok (mem_temp s) (nArrayTemp_Size s)"
    and n: "n \<le> unat maxVideoFrameSize"
    and r: "ip2970_fixup E dest n m s = Inr (m', s')"
  shows "length m' = length m" "myuvc_queue s' = myuvc_queue s" "myuvc_format s' = myuvc_format s"
    "last_fid s' = last_fid s" "fid s' = fid s" "woken s' = woken s"
    "udev_idVendor s' = udev_idVendor s" "temp_ok (mem_temp s') (nArrayTemp_Size s')"
proof -
  have t1: "temp_ok (mem_temp (temp_alloc E n s)) (nArrayTemp_Size (temp_alloc E n s))"
    by (rule temp_alloc_ok [OF E t n])
  obtain t0 where t0: "mem_temp (temp_alloc E n s) = Some t0"
    using r by (auto simp: ip2970_fixup_def kbind_Inr_iff deref_Inr_iff Let_def)
  have "length m' = length m \<and> (\<exists>t'. length t' = length t0 \<and> s' = (temp_alloc E n s)\<lparr>mem_temp := Some t'\<rparr>)"
    using r t0
    by (auto simp: ip2970_fixup_def kbind_Inr_iff deref_Inr_iff Let_def split: if_splits
        dest!: mem_write_length)
  then show "length m' = length m" "myuvc_queue s' = myuvc_queue s" "myuvc_format s' = myuvc_format s"
    "last_fid s' = last_fid s" "fid s' = fid s" "woken s' = woken s"
    "udev_idVendor s' = udev_idVendor s" "temp_ok (mem_temp s') (nArrayTemp_Size s')"
    using t1 t0 by (auto simp: temp_ok_def)
qed

lemma ip2970_fixup_safe:
  assumes E: "env_ok E" "kmalloc_total E" and t: "temp_ok (mem_temp s) (nArrayTemp_Size s)"
    and n: "n < 1000" and d: "dest + n + 3 \<le> length m"
  shows "\<exists>r. ip2970_fixup E dest n m s = Inr r"
proof -
  let ?s = "temp_alloc E n s"
  have t1: "temp_ok (mem_temp ?s) (nArrayTemp_Size ?s)"
    using n by (intro temp_alloc_ok [OF E(1) t]) (simp add: maxVideoFrameSize_def)
  obtain t0 where t0: "mem_temp ?s = Some t0"
    using temp_alloc_total [OF E(2)] by blast
  have len: "length t0 = unat (nArrayTemp_Size ?s)" "1000 \<le> unat (nArrayTemp_Size ?s)"
    using t1 t0 by (simp_all add: temp_ok_def word_le_nat_alt)
  show ?thesis
    using t0 len n d
    by (simp add: ip2970_fixup_def Let_def mem_write_ok mem_read_ok match_bytes_eq
        del: match_bytes.simps)
qed

section \<open>One packet\<close>

lemma maxlen_eq:
  assumes "used \<le> maxVideoFrameSize"
  shows "sint (maxVideoFrameSize - used) = 77312 - int (unat used)"
proof -
  have a: "unat used \<le> 77312" using assms by (simp add: word_le_nat_alt maxVideoFrameSize_def)
  have "unat (maxVideoFrameSize - used) = unat maxVideoFrameSize - unat used"
    using assms by (simp add: unat_sub)
  then have "int (unat (maxVideoFrameSize - used)) = 77312 - int (unat used)"
    using a by (simp add: maxVideoFrameSize_def)
  then have u: "uint (maxVideoFrameSize - used) = 77312 - int (unat used)"
    by (metis uint_nat)
  have "uint used \<le> 77312" using a by (metis of_nat_le_iff of_nat_numeral uint_nat)
  moreover have "signed_take_bit 31 (77312 - k) = 77312 - k" if "0 \<le> k" "k \<le> 77312" for k :: int
    using that by (intro signed_take_bit_int_eq_self) simp_all
  ultimately have "signed_take_bit 31 (77312 - uint used) = 77312 - uint used" by simp
  then show ?thesis using u by (simp add: sint_uint)
qed

lemma used_plus:
  assumes "used \<le> maxVideoFrameSize" "0 \<le> n" "n \<le> 77312 - int (unat used)"
  shows "unat (used + of_int n) = unat used + nat n" "used + of_int n \<le> maxVideoFrameSize"
proof -
  have "of_int n = (of_nat (nat n) :: u32)" using assms(2) by simp
  moreover have "unat used + nat n \<le> 77312" using assms by linarith
  ultimately show u: "unat (used + of_int n) = unat used + nat n"
    by (simp add: unat_word_ariths unat_of_nat)
  then show "used + of_int n \<le> maxVideoFrameSize"
    using \<open>unat used + nat n \<le> 77312\<close> by (simp add: word_le_nat_alt maxVideoFrameSize_def)
qed

text \<open>
  The state after a packet: the pending head is still being filled, or it moved to the filled
  buffers.
\<close>

definition packet_done :: "nat list \<Rightarrow> nat list \<Rightarrow> nat option \<Rightarrow> 'w uvc \<Rightarrow> bool" where
  "packet_done fs ps buf s \<longleftrightarrow> buf = next_buffer (myuvc_queue s) \<and>
     ((\<exists>m. uvc_live s m fs ps) \<or> (\<exists>m i ps'. ps = i # ps' \<and> uvc_live s m (fs @ [i]) ps'))"

lemma packet_done_stay:
  "uvc_live s m fs (i # ps) \<Longrightarrow> packet_done fs (i # ps) (Some i) s"
  using next_buffer_live [of "myuvc_queue s" m fs "i # ps"]
  by (auto simp: packet_done_def uvc_live_def)

lemma packet_done_finish:
  assumes "uvc_live s m fs (i # ps)" "buffer_ok i b" "mb_state b = VIDEOBUF_DONE" "length m' = length m"
    and "finish_buffer i (upd_buffer i (\<lambda>_. b)
      (s\<lparr>myuvc_queue := (myuvc_queue s)\<lparr>q_mem := Some m'\<rparr>\<rparr>)) = Inr (buf, s')"
  shows "packet_done fs (i # ps) buf s'"
  using uvc_live_done [OF assms(1-4)] assms(5) by (auto simp: packet_done_def)

lemma end_payload_eq:
  assumes "mb_state b = VIDEOBUF_ACTIVE"
  shows "end_payload i b n ov hi m s =
    (let used = b_bytesused (mb_buf b) + of_int n;
         t = (\<lambda>st. upd_buffer i (\<lambda>_. b\<lparr>mb_buf := (mb_buf b)\<lparr>b_bytesused := used\<rparr>, mb_state := st\<rparr>)
               (s\<lparr>myuvc_queue := (myuvc_queue s)\<lparr>q_mem := Some m\<rparr>\<rparr>))
     in if ov \<or> bit hi UVC_STREAM_EOF \<and> used \<noteq> 0 then finish_buffer i (t VIDEOBUF_DONE)
        else Inr (Some i, t VIDEOBUF_ACTIVE))"
proof (cases "ov \<or> bit hi UVC_STREAM_EOF \<and> b_bytesused (mb_buf b) + of_int n \<noteq> 0")
  case True
  then show ?thesis by (simp only: end_payload_def Let_def if_True simp_thms)
next
  case False
  then show ?thesis
    by (simp only: end_payload_def Let_def if_False assms videobuf_state.distinct simp_thms)
qed

lemma end_payload_done:
  assumes l: "uvc_live s m fs (i # ps)" and b: "buffer_ok i b" "mb_state b = VIDEOBUF_ACTIVE"
    and n: "0 \<le> n" "n \<le> 77312 - int (unat (b_bytesused (mb_buf b)))" and m: "length m' = length m"
    and r: "end_payload i b n ov hi m' s = Inr (buf', s')"
  shows "packet_done fs (i # ps) buf' s'"
proof -
  let ?used = "b_bytesused (mb_buf b) + of_int n"
  let ?b = "\<lambda>st. b\<lparr>mb_buf := (mb_buf b)\<lparr>b_bytesused := ?used\<rparr>, mb_state := st\<rparr>"
  have "b_bytesused (mb_buf b) \<le> maxVideoFrameSize" using b by (simp add: buffer_ok_def Let_def)
  then have ok: "buffer_ok i (?b st)" for st
    using b used_plus(2) [OF _ n] by (simp add: buffer_ok_def Let_def)
  show ?thesis
  proof (cases "ov \<or> bit hi UVC_STREAM_EOF \<and> ?used \<noteq> 0")
    case True
    then show ?thesis
      using r packet_done_finish [OF l ok [of VIDEOBUF_DONE] _ m] by (simp add: end_payload_eq [OF b(2)] Let_def)
  next
    case False
    have "mb_state (?b VIDEOBUF_ACTIVE) = VIDEOBUF_ACTIVE" by simp
    from packet_done_stay [OF uvc_live_active [OF l ok this m]] show ?thesis
      using r by (simp only: end_payload_eq [OF b(2)] Let_def False if_False sum.inject prod.inject)
  qed
qed

lemma copy_payload_done:
  assumes E: "env_ok E" and l: "uvc_live s m fs (i # ps)" and b: "buffer_ok i b"
    and a: "mb_state b = VIDEOBUF_ACTIVE"
    and r: "copy_payload E tb off plen hl hi i b s = Inr (buf', s')"
  shows "packet_done fs (i # ps) buf' s'"
proof -
  let ?v = "mb_buf b" and ?len = "plen - int (unat hl)"
  let ?max = "sint (b_length ?v - b_bytesused ?v)"
  let ?n = "min ?len ?max" and ?dest = "unat (b_m ?v) + unat (b_bytesused ?v)"
  have "?max = 77312 - int (unat (b_bytesused ?v))"
    using b maxlen_eq by (simp add: buffer_ok_def Let_def)
  then have n2: "?n \<le> 77312 - int (unat (b_bytesused ?v))" by linarith
  then have "nat ?n \<le> 77312" by linarith
  then have n1: "nat ?n \<le> unat maxVideoFrameSize" by (simp add: maxVideoFrameSize_def)
  have mem: "q_mem (myuvc_queue s) = Some m" using l by (simp add: uvc_live_def live_def)
  have neg: "\<not> ?n < 0"
    using r by (rule_tac notI) (simp only: copy_payload_def Let_def if_True sum.distinct)
  then have n: "0 \<le> ?n" by linarith
  obtain bs m1 m2 s1 where m1: "mem_write m ?dest bs = Inr m1"
    and fx: "(if udev_idVendor s = 0x1B3B then ip2970_fixup E ?dest (nat ?n) m1 s else Inr (m1, s))
      = Inr (m2, s1)"
    and fin: "end_payload i b ?n (?len > ?max) hi m2 s1 = Inr (buf', s')"
    using r [unfolded copy_payload_def Let_def if_not_P [OF neg] mem deref_simps kbind_simps
        kbind_Inr_iff split_paired_Ex prod.case]
    by blast
  have t: "temp_ok (mem_temp s) (nArrayTemp_Size s)" using l by (simp add: uvc_live_def)
  have "length m2 = length m" "uvc_live s1 m fs (i # ps)"
    using fx l mem_write_length [OF m1] ip2970_fixup_frame [OF E t n1]
    by (auto simp: uvc_live_def split: if_splits)
  then show ?thesis using end_payload_done [OF _ b a n n2 _ fin] by blast
qed

lemma mem_self:
  "q_mem (myuvc_queue s) = Some m \<Longrightarrow> s\<lparr>myuvc_queue := (myuvc_queue s)\<lparr>q_mem := Some m\<rparr>\<rparr> = s"
  by (cases s; cases "myuvc_queue s") simp

lemma uvc_live_mem: "uvc_live s m fs ps \<Longrightarrow> q_mem (myuvc_queue s) = Some m"
  by (simp add: uvc_live_def live_def)

lemma upd_buffer_twice [simp]: "upd_buffer i (\<lambda>_. b) (upd_buffer i (\<lambda>_. c) s) = upd_buffer i (\<lambda>_. b) s"
  by (simp add: upd_buffer_def)

lemma uvc_live_head:
  assumes "uvc_live s m fs (i # ps)"
  shows "i < unat (q_count (myuvc_queue s))" "get_buffer (myuvc_queue s) i = Inr (q_buffer (myuvc_queue s) ! i)"
    "buffer_ok i (q_buffer (myuvc_queue s) ! i)" "phase_ok fs (i # ps) i (q_buffer (myuvc_queue s) ! i)"
proof -
  have l: "live (myuvc_queue s) m fs (i # ps)" using assms by (simp add: uvc_live_def)
  then show i: "i < unat (q_count (myuvc_queue s))" by (simp add: live_def)
  show "get_buffer (myuvc_queue s) i = Inr (q_buffer (myuvc_queue s) ! i)"
    "buffer_ok i (q_buffer (myuvc_queue s) ! i)" "phase_ok fs (i # ps) i (q_buffer (myuvc_queue s) ! i)"
    by (rule live_get_buffer [OF l i] live_buffer_ok [OF l i] live_phase_ok [OF l i])+
qed

lemma uvc_live_set_active:
  assumes l: "uvc_live s m fs (i # ps)" and b: "buffer_ok i b" "mb_state b = VIDEOBUF_ACTIVE"
  shows "uvc_live (upd_buffer i (\<lambda>_. b) s) m fs (i # ps)"
  using uvc_live_active [OF l b refl] mem_self [OF uvc_live_mem [OF l]] by simp

lemma buffer_ok_state [simp]: "buffer_ok i (b\<lparr>mb_state := st\<rparr>) = buffer_ok i b"
  by (simp add: buffer_ok_def)

lemma store_payload_done:
  assumes E: "env_ok E" and l: "uvc_live s m fs (i # ps)" and b: "b = q_buffer (myuvc_queue s) ! i"
    and r: "store_payload E tb off plen hl hi i b s = Inr (buf', s')"
  shows "packet_done fs (i # ps) buf' s'"
proof -
  let ?b = "\<lambda>st. b\<lparr>mb_state := st\<rparr>"
  have ok: "buffer_ok i (?b st)" for st using uvc_live_head(3) [OF l] b by simp
  have act: "uvc_live (upd_buffer i (\<lambda>_. ?b VIDEOBUF_ACTIVE) s) m fs (i # ps)"
    by (rule uvc_live_set_active [OF l ok]) simp
  note mem = mem_self [OF uvc_live_mem [OF l]]
  consider (skip) "mb_state b \<noteq> VIDEOBUF_ACTIVE \<and> fid s = last_fid s"
    | (new) "\<not> (mb_state b \<noteq> VIDEOBUF_ACTIVE \<and> fid s = last_fid s)"
        "fid s \<noteq> last_fid s \<and> b_bytesused (mb_buf b) \<noteq> 0"
    | (copy) "\<not> (mb_state b \<noteq> VIDEOBUF_ACTIVE \<and> fid s = last_fid s)"
        "\<not> (fid s \<noteq> last_fid s \<and> b_bytesused (mb_buf b) \<noteq> 0)" by blast
  then show ?thesis
  proof cases
    case skip
    then show ?thesis using r packet_done_stay [OF l] by (simp add: store_payload_def)
  next
    case new
    then show ?thesis
      using r packet_done_finish [OF l ok [of VIDEOBUF_DONE] _ refl, unfolded mem]
      by (simp add: store_payload_def Let_def)
  next
    case copy
    have "copy_payload E tb off plen hl hi i (?b VIDEOBUF_ACTIVE)
       ((upd_buffer i (\<lambda>_. ?b VIDEOBUF_ACTIVE) s)\<lparr>last_fid := fid s\<rparr>) = Inr (buf', s')"
      using r copy by (simp only: store_payload_def Let_def if_False)
    then show ?thesis
      using copy_payload_done [OF E uvc_live_simps(2) [OF act] ok] by simp
  qed
qed

lemma packet_done_none: "packet_done fs [] buf s \<longleftrightarrow> (\<exists>m. uvc_live s m fs []) \<and> buf = None"
  using next_buffer_live [of "myuvc_queue s" _ fs "[]"] by (auto simp: packet_done_def uvc_live_def)

lemma video_packet_done:
  assumes E: "env_ok E" and l: "uvc_live s m fs ps"
    and r: "video_packet E tb d (next_buffer (myuvc_queue s), s) = Inr (buf', s')"
  shows "packet_done fs ps buf' s'"
proof (cases ps)
  case Nil
  then have "next_buffer (myuvc_queue s) = None"
    using l next_buffer_live by (fastforce simp: uvc_live_def)
  then show ?thesis
    using r l Nil by (auto simp: video_packet_def packet_done_none split: if_splits)
next
  case (Cons i ps')
  then have nb: "next_buffer (myuvc_queue s) = Some i" and l': "uvc_live s m fs (i # ps')"
    using l next_buffer_live by (fastforce simp: uvc_live_def)+
  have stay: "packet_done fs (i # ps') (Some i) s" by (rule packet_done_stay [OF l'])
  have store: "packet_done fs (i # ps') buf' s'"
    if "store_payload E tb off len hl hi i (q_buffer (myuvc_queue s) ! i) (s\<lparr>fid := f\<rparr>) = Inr (buf', s')"
    for off len hl hi f
    using store_payload_done [OF E uvc_live_simps(1) [OF l', of f] _ that] by simp
  show ?thesis
    using r stay unfolding nb Cons
    by (auto simp: video_packet_def uvc_live_head(2) [OF l'] Let_def kbind_Inr_iff
        split: if_splits intro: store)
qed

section \<open>The packet loop\<close>

lemma video_packets_done:
  assumes E: "env_ok E"
  shows "uvc_live s m fs ps \<Longrightarrow>
    video_packets E tb n ds (next_buffer (myuvc_queue s), s) = Inr (buf, s') \<Longrightarrow>
    \<exists>m' xs ps'. ps = xs @ ps' \<and> length xs \<le> n \<and> uvc_live s' m' (fs @ xs) ps' \<and>
      buf = next_buffer (myuvc_queue s')"
proof (induction n arbitrary: s m fs ps ds)
  case 0
  then show ?case by (rule_tac exI [of _ m], rule_tac exI [of _ "[]"], rule_tac exI [of _ ps]) auto
next
  case (Suc n)
  obtain d ds' b1 s1 where
    p: "video_packet E tb d (next_buffer (myuvc_queue s), s) = Inr (b1, s1)"
    and rest: "video_packets E tb n ds' (b1, s1) = Inr (buf, s')"
    using Suc.prems(2) by (cases ds) (auto simp: kbind_Inr_iff)
  from video_packet_done [OF E Suc.prems(1) p] obtain m1 fs1 ps1 xs where
    1: "uvc_live s1 m1 (fs @ xs) ps1" "ps = xs @ ps1" "length xs \<le> 1" "b1 = next_buffer (myuvc_queue s1)"
    unfolding packet_done_def
    by (metis append_Cons append_Nil append_Nil2 le_numeral_extra(4) length_0_conv length_Cons
        One_nat_def zero_le)
  from Suc.IH [OF 1(1)] rest 1(4) obtain m' ys ps' where
    "ps1 = ys @ ps'" "length ys \<le> n" "uvc_live s' m' ((fs @ xs) @ ys) ps'"
    "buf = next_buffer (myuvc_queue s')" by blast
  then show ?case using 1(2,3) by (rule_tac exI [of _ m'], rule_tac exI [of _ "xs @ ys"], rule_tac exI [of _ ps']) simp
qed

lemma finish_buffer_ok:
  "irqqueue (myuvc_queue s) = Some (i # ps) \<Longrightarrow> i \<notin> set ps \<Longrightarrow> \<exists>r. finish_buffer i s = Inr r"
  using finish_buffer_head by blast

lemma end_payload_ok:
  "irqqueue (myuvc_queue s) = Some (i # ps) \<Longrightarrow> i \<notin> set ps \<Longrightarrow> \<exists>r. end_payload i b n ov hi m s = Inr r"
  unfolding end_payload_def Let_def
  by (auto simp: upd_buffer_def intro: finish_buffer_ok simp del: split_paired_Ex)

lemma live_head_irq: "uvc_live s m fs (i # ps) \<Longrightarrow> irqqueue (myuvc_queue s) = Some (i # ps) \<and> i \<notin> set ps"
  by (simp add: uvc_live_def live_def)

lemma dest_bound:
  assumes l: "uvc_live s m fs (i # ps)" and b: "buffer_ok i b"
  shows "unat (b_m (mb_buf b)) = i * 77824" "unat (b_bytesused (mb_buf b)) \<le> 77312"
    "i * 77824 + 77824 \<le> length m"
proof -
  have q: "live (myuvc_queue s) m fs (i # ps)" using l by (simp add: uvc_live_def)
  then have i: "i < unat (q_count (myuvc_queue s))" "unat (q_count (myuvc_queue s)) \<le> 32"
    "length m = unat (q_count (myuvc_queue s)) * 77824" by (simp_all add: live_def)
  show "unat (b_m (mb_buf b)) = i * 77824" using b i of_nat_bufsize [of i] by (simp add: buffer_ok_def Let_def)
  show "unat (b_bytesused (mb_buf b)) \<le> 77312"
    using b by (simp add: buffer_ok_def Let_def word_le_nat_alt maxVideoFrameSize_def)
  have "(i + 1) * 77824 \<le> unat (q_count (myuvc_queue s)) * 77824" using i(1) by (intro mult_le_mono1) simp
  then show "i * 77824 + 77824 \<le> length m" using i(3) by simp
qed

lemma fixup_ok:
  assumes E: "env_ok E" "udev_idVendor s = 0x1B3B \<longrightarrow> kmalloc_total E"
    and t: "temp_ok (mem_temp s) (nArrayTemp_Size s)" and n: "n < 1000" "dest + n + 3 \<le> length m"
  shows "\<exists>m2 s1. (if udev_idVendor s = 0x1B3B then ip2970_fixup E dest n m s else Inr (m, s))
      = Inr (m2, s1) \<and> myuvc_queue s1 = myuvc_queue s"
proof (cases "udev_idVendor s = 0x1B3B")
  case True
  then obtain r where r: "ip2970_fixup E dest n m s = Inr r"
    using ip2970_fixup_safe [OF E(1) _ t n] E(2) by auto
  have "n \<le> unat maxVideoFrameSize" using n(1) by (simp add: maxVideoFrameSize_def)
  then show ?thesis using True r ip2970_fixup_frame(2) [OF E(1) t] by (cases r) auto
qed simp

lemma copy_payload_ok:
  assumes E: "env_ok E" "udev_idVendor s = 0x1B3B \<longrightarrow> kmalloc_total E"
    and l: "uvc_live s m fs (i # ps)" and b: "buffer_ok i b"
    and len: "int (unat hl) \<le> plen" "plen \<le> 800" "off + nat plen \<le> length tb"
  shows "\<exists>r. copy_payload E tb off plen hl hi i b s = Inr r"
proof -
  let ?v = "mb_buf b" and ?len = "plen - int (unat hl)"
  let ?max = "sint (b_length ?v - b_bytesused ?v)"
  let ?n = "min ?len ?max" and ?dest = "unat (b_m ?v) + unat (b_bytesused ?v)"
  note d = dest_bound [OF l b]
  have "?max = 77312 - int (unat (b_bytesused ?v))"
    using b maxlen_eq by (simp add: buffer_ok_def Let_def)
  then have n: "\<not> ?n < 0" "nat ?n \<le> nat ?len" "int (nat ?n) \<le> 77312 - int (unat (b_bytesused ?v))"
    using len d(2) by linarith+
  then have s: "off + unat hl + nat ?n \<le> length tb" "nat ?n < 1000" "?dest + nat ?n + 3 \<le> length m"
    using len d by linarith+
  then obtain bs where bs: "mem_read tb (off + unat hl) (nat ?n) = Inr bs" "length bs = nat ?n"
    by (simp add: mem_read_def)
  then obtain m1 where m1: "mem_write m ?dest bs = Inr m1" using s(3) by (simp add: mem_write_def)
  obtain m2 s1 where fx: "(if udev_idVendor s = 0x1B3B then ip2970_fixup E ?dest (nat ?n) m1 s
      else Inr (m1, s)) = Inr (m2, s1)" and q: "myuvc_queue s1 = myuvc_queue s"
    using fixup_ok [OF E _ s(2), of ?dest m1] s(3) mem_write_length [OF m1] l
    by (auto simp: uvc_live_def)
  have "\<exists>r. end_payload i b ?n (?len > ?max) hi m2 s1 = Inr r"
    using live_head_irq [OF l] q end_payload_ok [of s1 i ps] by simp
  then show ?thesis
    using bs(1) m1 fx by (simp only: copy_payload_def Let_def if_not_P [OF n(1)] uvc_live_mem [OF l]
        deref_simps kbind_simps prod.case)
qed

lemma store_payload_ok:
  assumes E: "env_ok E" "udev_idVendor s = 0x1B3B \<longrightarrow> kmalloc_total E"
    and l: "uvc_live s m fs (i # ps)" and b: "b = q_buffer (myuvc_queue s) ! i"
    and len: "int (unat hl) \<le> plen" "plen \<le> 800" "off + nat plen \<le> length tb"
  shows "\<exists>r. store_payload E tb off plen hl hi i b s = Inr r"
proof -
  let ?b = "b\<lparr>mb_state := VIDEOBUF_ACTIVE\<rparr>"
  let ?s = "(upd_buffer i (\<lambda>_. ?b) s)\<lparr>last_fid := fid s\<rparr>"
  have ok: "buffer_ok i ?b" using uvc_live_head(3) [OF l] b by simp
  have "uvc_live ?s m fs (i # ps)"
    by (rule uvc_live_simps(2) [OF uvc_live_set_active [OF l ok]]) simp
  from copy_payload_ok [OF E(1) _ this ok len] have "\<exists>r. copy_payload E tb off plen hl hi i ?b ?s = Inr r"
    using E(2) by (simp add: upd_buffer_def)
  moreover have "\<exists>r. finish_buffer i (upd_buffer i f s) = Inr r" for f
    using live_head_irq [OF l] finish_buffer_ok [of "upd_buffer i f s" i ps] by (simp add: upd_buffer_def)
  ultimately show ?thesis
    unfolding store_payload_def Let_def upd_buffer_twice by (auto split: if_split simp del: split_paired_Ex)
qed

text \<open>
  The packets of a completed URB: each lies inside the transfer buffer and is no longer than
  the endpoint's packet size.
\<close>

definition packet_ok :: "u8 list \<Rightarrow> iso_frame_desc \<Rightarrow> bool" where
  "packet_ok tb d \<longleftrightarrow> unat (iso_offset d) + unat (iso_actual_length d) \<le> length tb \<and>
     unat (iso_actual_length d) \<le> unat wMaxPacketSize"

lemma packet_ok_len:
  assumes "packet_ok tb d"
  shows "sint (iso_actual_length d) = int (unat (iso_actual_length d))" "unat (iso_actual_length d) \<le> 800"
    "uint (iso_actual_length d) \<le> 800"
proof -
  show 8: "unat (iso_actual_length d) \<le> 800" using assms by (simp add: packet_ok_def wMaxPacketSize_def)
  then show "uint (iso_actual_length d) \<le> 800" by (metis of_nat_le_iff of_nat_numeral uint_nat)
  moreover have "signed_take_bit 31 k = k" if "0 \<le> k" "k \<le> 800" for k :: int
    using that by (intro signed_take_bit_int_eq_self) simp_all
  ultimately have "signed_take_bit 31 (uint (iso_actual_length d)) = uint (iso_actual_length d)" by simp
  then show "sint (iso_actual_length d) = int (unat (iso_actual_length d))" by (simp add: sint_uint)
qed

lemma decode_fid_ok:
  assumes "len \<le> int n" "off + n \<le> length tb"
  shows "\<exists>f. decode_fid s tb off len hi = Inr f"
proof (cases "udev_idVendor s = 0x1B3B \<and> 16 \<le> len")
  case True
  then have "off + 12 + 3 \<le> length tb" using assms by linarith
  then show ?thesis by (simp add: decode_fid_def match_bytes_eq del: match_bytes.simps)
qed (auto simp: decode_fid_def)

lemma video_packet_ok:
  assumes E: "env_ok E" "udev_idVendor s = 0x1B3B \<longrightarrow> kmalloc_total E"
    and l: "uvc_live s m fs (i # ps)" and d: "packet_ok tb d"
  shows "\<exists>r. video_packet E tb d (Some i, s) = Inr r"
proof -
  let ?off = "unat (iso_offset d)" and ?n = "unat (iso_actual_length d)"
  let ?b = "q_buffer (myuvc_queue s) ! i"
  note len = packet_ok_len [OF d]
  have n: "?off + ?n \<le> length tb" using d by (simp add: packet_ok_def)
  show ?thesis
  proof (cases "2 \<le> ?n")
    case True
    then have b0: "mem_byte tb ?off = Inr (tb ! ?off)" "mem_byte tb (?off + 1) = Inr (tb ! (?off + 1))"
      using n by (simp_all add: mem_byte_ok)
    obtain f where f: "decode_fid s tb ?off (int ?n) (tb ! (?off + 1)) = Inr f"
      using decode_fid_ok [OF order_refl n] by blast
    have "\<exists>r. store_payload E tb ?off (int ?n) (tb ! ?off) (tb ! (?off + 1)) i ?b (s\<lparr>fid := f\<rparr>) = Inr r"
      if "int (unat (tb ! ?off)) \<le> int ?n"
      by (rule store_payload_ok [OF E(1) _ uvc_live_simps(1) [OF l] _ that])
         (use E(2) len n in simp_all)
    then show ?thesis
      using b0 f by (auto simp: video_packet_def uvc_live_head(2) [OF l] len(1) Let_def simp del: split_paired_Ex)
  next
    case False
    then have "sint (iso_actual_length d) < 2" using len(1) by linarith
    then show ?thesis by (simp add: video_packet_def uvc_live_head(2) [OF l] Let_def)
  qed
qed

lemma video_packets_ok:
  assumes E: "env_ok E" "kmalloc_total E"
  shows "uvc_live s m fs ps \<Longrightarrow> n \<le> length ps \<Longrightarrow> n \<le> length ds \<Longrightarrow> \<forall>d\<in>set ds. packet_ok tb d \<Longrightarrow>
    \<exists>r. video_packets E tb n ds (next_buffer (myuvc_queue s), s) = Inr r"
proof (induction n arbitrary: s m fs ps ds)
  case (Suc n)
  obtain i ps1 where ps: "ps = i # ps1" using Suc.prems(2) by (cases ps) simp_all
  obtain d ds1 where ds: "ds = d # ds1" using Suc.prems(3) by (cases ds) simp_all
  have nb: "next_buffer (myuvc_queue s) = Some i"
    using Suc.prems(1) ps next_buffer_live by (fastforce simp: uvc_live_def)
  obtain b1 s1 where p: "video_packet E tb d (next_buffer (myuvc_queue s), s) = Inr (b1, s1)"
    using video_packet_ok [OF E(1) _ Suc.prems(1) [unfolded ps], of tb d] E(2) Suc.prems(4) ds nb by auto
  from video_packet_done [OF E(1) Suc.prems(1) p] obtain m1 fs1 ps2 where
    1: "uvc_live s1 m1 fs1 ps2" "n \<le> length ps2" and b1: "b1 = next_buffer (myuvc_queue s1)"
    using ps Suc.prems(2) unfolding packet_done_def by fastforce
  from Suc.IH [OF 1, of ds1] Suc.prems(3,4) ds b1 p show ?case by simp
qed simp

section \<open>The completion handler\<close>

lemma video_packets_unset:
  assumes "mainqueue (myuvc_queue s) = None" "irqqueue (myuvc_queue s) = None"
  shows "video_packets E tb n ds (next_buffer (myuvc_queue s), s) = Inr (b, s') \<Longrightarrow> s' = s"
proof (induction n arbitrary: ds)
  case (Suc n)
  have "next_buffer (myuvc_queue s) = None"
    using assms by (simp add: next_buffer_def list_empty_def list_first_entry_def)
  then show ?case
    using Suc by (cases ds) (auto simp: kbind_Inr_iff video_packet_def split: if_splits)
qed simp

lemma video_packets_unset_fault:
  assumes "mainqueue (myuvc_queue s) = None" "irqqueue (myuvc_queue s) = None"
  shows "n \<le> length ds \<Longrightarrow> video_packets E tb n ds (next_buffer (myuvc_queue s), s) = Inl f \<Longrightarrow>
    f = NullDeref \<and> 0 < n"
proof (induction n arbitrary: ds)
  case (Suc n)
  have "next_buffer (myuvc_queue s) = None"
    using assms by (simp add: next_buffer_def list_empty_def list_first_entry_def)
  then show ?case
    using Suc by (cases ds) (auto simp: kbind_Inl_iff video_packet_def split: if_splits)
qed simp

text \<open>
  The completion handler keeps the invariant of the driver and only moves buffers from the
  front of the pending list to the end of the filled list.
\<close>

lemma video_complete_inv:
  assumes E: "env_ok E" and inv: "uvc_inv s" and r: "myuvc_video_complete E urb s = Inr s'"
  shows "uvc_inv s' \<and> (\<exists>xs. uq_pending (myuvc_queue s) = xs @ uq_pending (myuvc_queue s') \<and>
    uq_filled (myuvc_queue s') = uq_filled (myuvc_queue s) @ xs)"
proof (cases "urb_status urb = 0")
  case False
  then show ?thesis using r inv by (simp add: myuvc_video_complete_def)
next
  case True
  then obtain b t where
    p: "video_packets E (urb_transfer_buffer urb) (nat (urb_number_of_packets urb))
       (urb_iso_frame_desc urb) (next_buffer (myuvc_queue s), s) = Inr (b, t)"
    and s': "s' = t\<lparr>world := snd (usb_submit_urb E (Some urb) (world t))\<rparr>"
    using r by (auto simp: myuvc_video_complete_def kbind_Inr_iff)
  have "queue_inv (myuvc_queue s)" using inv by (simp add: uvc_inv_def)
  then show ?thesis
  proof (cases rule: queue_inv_cases)
    case unset
    then have "t = s" using video_packets_unset [OF _ _ p] by simp
    then show ?thesis using inv s' by (simp add: uvc_inv_def)
  next
    case (set m)
    from video_packets_done [OF E uvc_inv_live [OF inv set(1)] p] obtain m' xs ps' where
      x: "uq_pending (myuvc_queue s) = xs @ ps'"
        "uvc_live t m' (uq_filled (myuvc_queue s) @ xs) ps'" by blast
    then have l: "uvc_live s' m' (uq_filled (myuvc_queue s) @ xs) ps'" using s' uvc_live_simps(4) [OF x(2)] by simp
    then show ?thesis
      using x(1) uvc_live_inv [OF l] live_lists [of "myuvc_queue s'"] by (auto simp: uvc_live_def)
  qed
qed

lemma video_complete_ok:
  assumes E: "env_ok E" "kmalloc_total E" and inv: "uvc_inv s" "q_mem (myuvc_queue s) = Some m"
    and n: "nat (urb_number_of_packets urb) \<le> length (uq_pending (myuvc_queue s))"
      "nat (urb_number_of_packets urb) \<le> length (urb_iso_frame_desc urb)"
    and d: "\<forall>d\<in>set (urb_iso_frame_desc urb). packet_ok (urb_transfer_buffer urb) d"
  shows "\<exists>s'. myuvc_video_complete E urb s = Inr s'"
  using video_packets_ok [OF E uvc_inv_live [OF inv] n d]
  by (auto simp: myuvc_video_complete_def)

text \<open>
  With packets inside the transfer buffer the only fault left is the use of the missing buffer
  when the pending list has run out.
\<close>

lemma video_packet_fault:
  assumes E: "env_ok E" "kmalloc_total E" and l: "uvc_live s m fs ps" and d: "packet_ok tb d"
    and r: "video_packet E tb d (next_buffer (myuvc_queue s), s) = Inl f"
  shows "f = NullDeref \<and> ps = []"
proof (cases ps)
  case Nil
  then have "next_buffer (myuvc_queue s) = None"
    using l next_buffer_live by (fastforce simp: uvc_live_def)
  then show ?thesis using r Nil by (auto simp: video_packet_def split: if_splits)
next
  case (Cons i ps1)
  then have "next_buffer (myuvc_queue s) = Some i"
    using l next_buffer_live by (fastforce simp: uvc_live_def)
  then show ?thesis using video_packet_ok [OF E(1) _ l [unfolded Cons] d] E(2) r by auto
qed

lemma video_packets_fault:
  assumes E: "env_ok E" "kmalloc_total E"
  shows "uvc_live s m fs ps \<Longrightarrow> n \<le> length ds \<Longrightarrow> \<forall>d\<in>set ds. packet_ok tb d \<Longrightarrow>
    video_packets E tb n ds (next_buffer (myuvc_queue s), s) = Inl f \<Longrightarrow> f = NullDeref \<and> length ps < n"
proof (induction n arbitrary: s m fs ps ds)
  case (Suc n)
  obtain d ds1 where ds: "ds = d # ds1" using Suc.prems(2) by (cases ds) simp_all
  then have d: "packet_ok tb d" using Suc.prems(3) by simp
  show ?case
  proof (cases "video_packet E tb d (next_buffer (myuvc_queue s), s)")
    case (Inl g)
    then show ?thesis using video_packet_fault [OF E Suc.prems(1) d Inl] Suc.prems(4) ds by simp
  next
    case (Inr r)
    then obtain b1 s1 where p: "video_packet E tb d (next_buffer (myuvc_queue s), s) = Inr (b1, s1)"
      by (cases r) simp
    from video_packet_done [OF E(1) Suc.prems(1) p] obtain m1 fs1 ps2 where
      1: "uvc_live s1 m1 fs1 ps2" "length ps \<le> Suc (length ps2)" "b1 = next_buffer (myuvc_queue s1)"
      unfolding packet_done_def by fastforce
    from Suc.IH [OF 1(1), of ds1] Suc.prems(2-4) ds 1(2,3) p show ?thesis by simp
  qed
qed simp

section \<open>Properties\<close>

lemma fixup_memory:
  assumes E: "env_ok E" "kmalloc_total E" and t: "temp_ok (mem_temp s) (nArrayTemp_Size s)"
    and n: "n < 1000" and d: "dest + n + 3 \<le> length m" and br: "take 3 (drop dest m) = [0xD8, 0xFF, 0xC4]"
  shows "\<exists>m' s'. ip2970_fixup E dest n m s = Inr (m', s') \<and> mem_write m dest (0xFF # take n (drop dest m)) = Inr m'"
proof -
  let ?s = "temp_alloc E n s" and ?bs = "take n (drop dest m)"
  have t1: "temp_ok (mem_temp ?s) (nArrayTemp_Size ?s)"
    using n by (intro temp_alloc_ok [OF E(1) t]) (simp add: maxVideoFrameSize_def)
  obtain t0 where t0: "mem_temp ?s = Some t0" using temp_alloc_total [OF E(2)] by blast
  have len: "length t0 = unat (nArrayTemp_Size ?s)" "1000 \<le> unat (nArrayTemp_Size ?s)"
    using t1 t0 by (simp_all add: temp_ok_def word_le_nat_alt)
  have bs: "length ?bs = n" using d by simp
  have "match_bytes m dest [0xD8, 0xFF, 0xC4] = Inr True"
    using d br match_bytes_eq [of dest "[0xD8, 0xFF, 0xC4]" m] by (simp add: numeral_3_eq_3 del: match_bytes.simps)
  moreover obtain m' where m': "mem_write m dest (0xFF # ?bs) = Inr m'" using d bs by (simp add: mem_write_def)
  ultimately show ?thesis
    using t0 len n d bs
    by (simp add: ip2970_fixup_def Let_def mem_write_ok mem_read_ok min_def del: match_bytes.simps)
qed

text \<open>
  The repair for ip2970 cameras.  When a payload of \<open>n\<close> bytes was stored at \<open>dest\<close> and starts
  with D8 FF C4, the repair stores FF followed by the whole payload there (\<open>n + 1\<close> bytes).  The
  recorded length still counts only \<open>n\<close> bytes, so the bytes that belong to the buffer afterwards
  are FF followed by the payload without its last byte.
\<close>

lemma ip2970_repair:
  assumes "env_ok E" "kmalloc_total E" "temp_ok (mem_temp s) (nArrayTemp_Size s)"
    and "0 < n" "n < 1000" "dest + n + 3 \<le> length m" "take 3 (drop dest m) = [0xD8, 0xFF, 0xC4]"
  shows "\<exists>m' s'. ip2970_fixup E dest n m s = Inr (m', s') \<and>
    mem_read m' dest (n + 1) = Inr (0xFF # take n (drop dest m)) \<and>
    mem_read m' dest n = Inr (0xFF # butlast (take n (drop dest m))) \<and>
    (\<forall>i<length m. i < dest \<or> dest + n < i \<longrightarrow> m' ! i = m ! i)"
proof -
  obtain m' s' where f: "ip2970_fixup E dest n m s = Inr (m', s')"
    and w: "mem_write m dest (0xFF # take n (drop dest m)) = Inr m'"
    using fixup_memory [OF assms(1-3,5-7)] by blast
  have len: "length (take n (drop dest m)) = n" using assms(6) by simp
  have rd: "mem_read m' dest (n + 1) = Inr (0xFF # take n (drop dest m))"
    using mem_read_write_same [OF w] len by simp
  then have "take n (drop dest m') = take n (0xFF # take n (drop dest m))"
    by (auto simp: mem_read_def split: if_splits) (metis min.absorb1 le_SucI order_refl take_take)
  also have "\<dots> = 0xFF # butlast (take n (drop dest m))"
    using assms(4) len by (cases n) (simp_all add: butlast_conv_take)
  finally have "mem_read m' dest n = Inr (0xFF # butlast (take n (drop dest m)))"
    using mem_write_length [OF w] assms(6) by (simp add: mem_read_def)
  then show ?thesis using f rd mem_write_nth [OF w] len by auto
qed

end
