(* ===== verification/Uvc_Frame.thy ===== *)
theory Uvc_Frame
  imports Uvc_Complete
begin

text \<open>
  Functional correctness of frame assembly: the payloads of the packets of a frame, spread over
  any number of URBs, end up concatenated in the oldest pending buffer, which is then handed to
  the application.  The result is about cameras without the ip2970 quirk, whose frame id is the
  FID bit of the payload header.
\<close>

definition hdr_len :: "u8 list \<Rightarrow> iso_frame_desc \<Rightarrow> nat" where
  "hdr_len tb d = unat (tb ! unat (iso_offset d))"

definition hdr_info :: "u8 list \<Rightarrow> iso_frame_desc \<Rightarrow> u8" where
  "hdr_info tb d = tb ! (unat (iso_offset d) + 1)"

definition payload :: "u8 list \<Rightarrow> iso_frame_desc \<Rightarrow> u8 list" where
  "payload tb d = take (unat (iso_actual_length d) - hdr_len tb d)
     (drop (unat (iso_offset d) + hdr_len tb d) tb)"

text \<open>
  A well-formed packet of the frame with id \<open>f\<close>: received, header complete, no error bit.
\<close>

definition frame_packet :: "u8 list \<Rightarrow> int \<Rightarrow> bool \<Rightarrow> iso_frame_desc \<Rightarrow> bool" where
  "frame_packet tb f eof d \<longleftrightarrow> packet_ok tb d \<and> 0 \<le> iso_status d \<and>
     2 \<le> hdr_len tb d \<and> hdr_len tb d \<le> unat (iso_actual_length d) \<and>
     \<not> bit (hdr_info tb d) UVC_STREAM_ERR \<and> uint (hdr_info tb d AND 1) = f \<and>
     bit (hdr_info tb d) UVC_STREAM_EOF = eof"

definition contents :: "'w uvc \<Rightarrow> nat \<Rightarrow> u8 list" where
  "contents s i = (case q_mem (myuvc_queue s) of None \<Rightarrow> []
     | Some m \<Rightarrow> take (unat (b_bytesused (mb_buf (q_buffer (myuvc_queue s) ! i))))
         (drop (unat (b_m (mb_buf (q_buffer (myuvc_queue s) ! i)))) m))"

lemma contents_world [simp]: "contents (s\<lparr>world := w\<rparr>) i = contents s i"
  by (simp add: contents_def split: option.split)

lemma contents_live:
  "uvc_live s m fs ps \<Longrightarrow> contents s i = take (unat (b_bytesused (mb_buf (q_buffer (myuvc_queue s) ! i))))
     (drop (unat (b_m (mb_buf (q_buffer (myuvc_queue s) ! i)))) m)"
  by (simp add: contents_def uvc_live_mem)

text \<open>
  The driver is receiving frame \<open>f\<close> into the pending head \<open>i\<close> and has stored \<open>data\<close> so far.
\<close>

definition receiving :: "'w uvc \<Rightarrow> nat list \<Rightarrow> nat \<Rightarrow> nat list \<Rightarrow> int \<Rightarrow> u8 list \<Rightarrow> bool" where
  "receiving s fs i ps f data \<longleftrightarrow> (\<exists>m. uvc_live s m fs (i # ps)) \<and> udev_idVendor s \<noteq> 0x1B3B \<and>
     contents s i = data \<and>
     (mb_state (q_buffer (myuvc_queue s) ! i) = VIDEOBUF_QUEUED \<and> f \<noteq> last_fid s \<or>
      mb_state (q_buffer (myuvc_queue s) ! i) = VIDEOBUF_ACTIVE \<and> f = last_fid s)"

lemma payload_length:
  "frame_packet tb f e d \<Longrightarrow> length (payload tb d) = unat (iso_actual_length d) - hdr_len tb d"
  by (auto simp: frame_packet_def packet_ok_def payload_def)

lemma video_packet_frame:
  assumes d: "frame_packet tb f e d" and l: "uvc_live s m fs (i # ps)" and v: "udev_idVendor s \<noteq> 0x1B3B"
  shows "video_packet E tb d (Some i, s) =
    store_payload E tb (unat (iso_offset d)) (int (unat (iso_actual_length d)))
      (tb ! unat (iso_offset d)) (hdr_info tb d) i (q_buffer (myuvc_queue s) ! i) (s\<lparr>fid := f\<rparr>)"
proof -
  let ?off = "unat (iso_offset d)" and ?n = "unat (iso_actual_length d)"
  have p: "packet_ok tb d" using d by (simp add: frame_packet_def)
  have h: "2 \<le> unat (tb ! ?off)" "unat (tb ! ?off) \<le> ?n" "\<not> iso_status d < 0"
    using d by (simp_all add: frame_packet_def hdr_len_def)
  then have off: "?off < length tb" "?off + 1 < length tb" using p unfolding packet_ok_def by linarith+
  have len: "sint (iso_actual_length d) = int ?n" by (rule packet_ok_len [OF p])
  have c: "\<not> int ?n < 2" "\<not> int (unat (tb ! ?off)) > int ?n" using h by linarith+
  have "\<not> tb ! ?off < 2" using h by (simp add: word_less_nat_alt)
  note c = c this
  have f: "decode_fid s tb ?off (int ?n) (hdr_info tb d) = Inr f"
    using d v by (simp add: decode_fid_def frame_packet_def)
  show ?thesis
    using c h(3) f off d unfolding video_packet_def Let_def len
    by (simp only: prod.case if_False deref_simps kbind_simps uvc_live_head(2) [OF l] mem_byte_ok
        hdr_info_def [symmetric] simp_thms frame_packet_def)
qed

text \<open>
  Copying a payload that fits: memory, length and end-of-frame decision.
\<close>

lemma copy_payload_fits:
  assumes l: "uvc_live s m fs (i # ps)" and v: "udev_idVendor s \<noteq> 0x1B3B"
    and b: "buffer_ok i b" and d: "frame_packet tb f e d"
    and fits: "unat (b_bytesused (mb_buf b)) + length (payload tb d) \<le> 77312"
  shows "\<exists>m'. mem_write m (i * 77824 + unat (b_bytesused (mb_buf b))) (payload tb d) = Inr m' \<and>
    copy_payload E tb (unat (iso_offset d)) (int (unat (iso_actual_length d)))
      (tb ! unat (iso_offset d)) (hdr_info tb d) i b s =
    end_payload i b (int (length (payload tb d))) False (hdr_info tb d) m' s"
proof -
  let ?v = "mb_buf b" and ?off = "unat (iso_offset d)"
  let ?len = "int (unat (iso_actual_length d)) - int (unat (tb ! ?off))"
  let ?max = "sint (b_length ?v - b_bytesused ?v)"
  note db = dest_bound [OF l b]
  have h: "unat (tb ! ?off) \<le> unat (iso_actual_length d)" "packet_ok tb d"
    using d by (simp_all add: frame_packet_def hdr_len_def)
  have len: "?len = int (length (payload tb d))"
    using payload_length [OF d] h(1) unfolding hdr_len_def by linarith
  have max: "?max = 77312 - int (unat (b_bytesused ?v))"
    using b maxlen_eq by (simp add: buffer_ok_def Let_def)
  have n: "min ?len ?max = int (length (payload tb d))" "\<not> int (length (payload tb d)) < 0" "\<not> ?len > ?max"
    using fits len max by linarith+
  then have ov: "(?len > ?max) = False" by blast
  have "?off + unat (tb ! ?off) + length (payload tb d) \<le> length tb"
    using h payload_length [OF d] unfolding packet_ok_def hdr_len_def by linarith
  then have rd: "mem_read tb (?off + unat (tb ! ?off)) (length (payload tb d)) = Inr (payload tb d)"
    using payload_length [OF d] by (simp add: mem_read_def payload_def hdr_len_def)
  have "i * 77824 + unat (b_bytesused ?v) + length (payload tb d) \<le> length m" using fits db by linarith
  then obtain m' where m': "mem_write m (i * 77824 + unat (b_bytesused ?v)) (payload tb d) = Inr m'"
    by (simp add: mem_write_def)
  show ?thesis
    by (rule exI [of _ m'], intro conjI m')
       (simp only: copy_payload_def Let_def ov n(1,2) if_False uvc_live_mem [OF l] deref_simps kbind_simps
          nat_int rd db(1) m' if_not_P [OF v] prod.case)
qed

text \<open>
  Appending at the end of the stored part extends the contents of this buffer and leaves the
  other buffers alone.
\<close>

lemma contents_append:
  assumes w: "mem_write m (base + k) p = Inr m'"
  shows "take (k + length p) (drop base m') = take k (drop base m) @ p"
proof -
  have le: "base + k + length p \<le> length m" and m': "m' = take (base + k) m @ p @ drop (base + k + length p) m"
    using w by (auto simp: mem_write_def split: if_splits)
  have "drop base m' = take k (drop base m) @ p @ drop (base + k + length p) m"
    using le by (simp add: m' drop_take)
  moreover have "length (take k (drop base m)) = k" using le by simp
  ultimately show ?thesis by (simp del: length_take)
qed

lemma contents_other:
  assumes w: "mem_write m off p = Inr m'" and d: "b2 + k \<le> off \<or> off + length p \<le> b2" and k: "b2 + k \<le> length m"
  shows "take k (drop b2 m') = take k (drop b2 m)"
  using mem_read_write_disjoint [OF w, of b2 k] d k mem_write_length [OF w] by (simp add: mem_read_def)

lemma contents_region:
  assumes l: "uvc_live s m fs ps" and j: "j < unat (q_count (myuvc_queue s))"
  shows "unat (b_m (mb_buf (q_buffer (myuvc_queue s) ! j))) = j * 77824"
    "unat (b_bytesused (mb_buf (q_buffer (myuvc_queue s) ! j))) \<le> 77312" "j * 77824 + 77824 \<le> length m"
    "length (contents s j) = unat (b_bytesused (mb_buf (q_buffer (myuvc_queue s) ! j)))"
proof -
  let ?b = "q_buffer (myuvc_queue s) ! j"
  have q: "live (myuvc_queue s) m fs ps" using l by (simp add: uvc_live_def)
  then have c: "unat (q_count (myuvc_queue s)) \<le> 32" "length m = unat (q_count (myuvc_queue s)) * 77824"
    by (simp_all add: live_def)
  have b: "buffer_ok j ?b" by (rule live_buffer_ok [OF q j])
  then show 1: "unat (b_m (mb_buf ?b)) = j * 77824"
    using of_nat_bufsize [of j] j c by (simp add: buffer_ok_def Let_def)
  show 2: "unat (b_bytesused (mb_buf ?b)) \<le> 77312"
    using b by (simp add: buffer_ok_def Let_def word_le_nat_alt maxVideoFrameSize_def)
  have "(j + 1) * 77824 \<le> unat (q_count (myuvc_queue s)) * 77824" using j by (intro mult_le_mono1) simp
  then show 3: "j * 77824 + 77824 \<le> length m" using c by simp
  show "length (contents s j) = unat (b_bytesused (mb_buf ?b))"
    using 1 2 3 by (simp add: contents_live [OF l])
qed

text \<open>
  The state with the payload stored in buffer \<open>i\<close>.
\<close>

definition stored :: "nat \<Rightarrow> myuvc_buffer \<Rightarrow> u32 \<Rightarrow> videobuf_state \<Rightarrow> u8 list \<Rightarrow> 'w uvc \<Rightarrow> 'w uvc" where
  "stored i b used st m s = upd_buffer i (\<lambda>_. b\<lparr>mb_buf := (mb_buf b)\<lparr>b_bytesused := used\<rparr>, mb_state := st\<rparr>)
     (s\<lparr>myuvc_queue := (myuvc_queue s)\<lparr>q_mem := Some m\<rparr>\<rparr>)"

lemma stored_contents:
  assumes l: "uvc_live s m fs (i # ps)" and b: "buffer_ok i b"
    and w: "mem_write m (i * 77824 + unat (b_bytesused (mb_buf b))) p = Inr m'"
    and u: "unat used = unat (b_bytesused (mb_buf b)) + length p" "unat used \<le> 77312"
  shows "contents (stored i b used st m' s) i = take (unat (b_bytesused (mb_buf b))) (drop (i * 77824) m) @ p"
    and "j < unat (q_count (myuvc_queue s)) \<Longrightarrow> j \<noteq> i \<Longrightarrow> contents (stored i b used st m' s) j = contents s j"
proof -
  have i: "i < length (q_buffer (myuvc_queue s))"
    using l live_index uvc_live_head(1) [OF l] by (fastforce simp: uvc_live_def)
  then show "contents (stored i b used st m' s) i = take (unat (b_bytesused (mb_buf b))) (drop (i * 77824) m) @ p"
    using contents_append [OF w] dest_bound(1) [OF l b] u(1)
    by (simp add: contents_def stored_def upd_buffer_def)
  assume j: "j < unat (q_count (myuvc_queue s))" "j \<noteq> i"
  let ?k = "unat (b_bytesused (mb_buf (q_buffer (myuvc_queue s) ! j)))"
  note r = contents_region [OF l j(1)]
  have sep: "j * 77824 + 77824 \<le> i * 77824 \<or> i * 77824 + 77824 \<le> j * 77824"
    using j(2) by (cases "j < i") (auto simp: Suc_le_eq [symmetric] not_less)
  have "j * 77824 + ?k \<le> i * 77824 + unat (b_bytesused (mb_buf b)) \<or>
      i * 77824 + unat (b_bytesused (mb_buf b)) + length p \<le> j * 77824" "j * 77824 + ?k \<le> length m"
    using r sep u by linarith+
  from contents_other [OF w this] show "contents (stored i b used st m' s) j = contents s j"
    using r(1) j(2) uvc_live_mem [OF l] by (simp add: contents_def stored_def upd_buffer_def)
qed

lemma end_payload_stored:
  assumes "mb_state b = VIDEOBUF_ACTIVE" "bit hi UVC_STREAM_EOF = e"
  shows "end_payload i b n False hi m s =
    (if e \<and> b_bytesused (mb_buf b) + of_int n \<noteq> 0
     then finish_buffer i (stored i b (b_bytesused (mb_buf b) + of_int n) VIDEOBUF_DONE m s)
     else Inr (Some i, stored i b (b_bytesused (mb_buf b) + of_int n) VIDEOBUF_ACTIVE m s))"
  by (simp only: end_payload_eq [OF assms(1)] assms(2) Let_def stored_def simp_thms)

lemma store_payload_receiving:
  assumes "mb_state b = VIDEOBUF_QUEUED \<and> f \<noteq> last_fid s \<and> b_bytesused (mb_buf b) = 0 \<or>
    mb_state b = VIDEOBUF_ACTIVE \<and> f = last_fid s"
  shows "store_payload E tb off plen hl hi i b (s\<lparr>fid := f\<rparr>) =
    copy_payload E tb off plen hl hi i (b\<lparr>mb_state := VIDEOBUF_ACTIVE\<rparr>)
      (upd_buffer i (\<lambda>_. b\<lparr>mb_state := VIDEOBUF_ACTIVE\<rparr>) (s\<lparr>fid := f\<rparr>)\<lparr>last_fid := f\<rparr>)"
  using assms by (auto simp: store_payload_def Let_def)

text \<open>
  What one packet of the frame does to a driver that is receiving it.
\<close>

lemma receiving_packet:
  assumes rc: "receiving s fs i ps f data" and d: "frame_packet tb f e d"
    and fits: "length data + length (payload tb d) \<le> 77312"
  obtains s1 b used m m' where "uvc_live s1 m fs (i # ps)" "buffer_ok i b" "length m' = length m"
    "used \<le> maxVideoFrameSize" "unat used = length data + length (payload tb d)"
    "last_fid s1 = f" "woken s1 = woken s" "udev_idVendor s1 = udev_idVendor s"
    "q_count (myuvc_queue s1) = q_count (myuvc_queue s)"
    "\<And>st. contents (stored i b used st m' s1) i = data @ payload tb d"
    "\<And>st j. j < unat (q_count (myuvc_queue s)) \<Longrightarrow> j \<noteq> i \<Longrightarrow> contents (stored i b used st m' s1) j = contents s j"
    "video_packet E tb d (Some i, s) =
      (if e \<and> used \<noteq> 0 then finish_buffer i (stored i b used VIDEOBUF_DONE m' s1)
       else Inr (Some i, stored i b used VIDEOBUF_ACTIVE m' s1))"
proof -
  obtain m where l: "uvc_live s m fs (i # ps)" and v: "udev_idVendor s \<noteq> 0x1B3B"
    and c: "contents s i = data" using rc by (auto simp: receiving_def)
  let ?c = "q_buffer (myuvc_queue s) ! i" and ?p = "payload tb d"
  let ?b = "?c\<lparr>mb_state := VIDEOBUF_ACTIVE\<rparr>"
  let ?s1 = "upd_buffer i (\<lambda>_. ?b) (s\<lparr>fid := f\<rparr>)\<lparr>last_fid := f\<rparr>"
  let ?used = "b_bytesused (mb_buf ?b) + of_int (int (length ?p))"
  note i = uvc_live_head [OF l]
  note region = contents_region [OF l i(1)]
  have phase: "mb_state ?c = VIDEOBUF_QUEUED \<and> f \<noteq> last_fid s \<and> b_bytesused (mb_buf ?c) = 0 \<or>
    mb_state ?c = VIDEOBUF_ACTIVE \<and> f = last_fid s"
    using rc i(4) by (auto simp: receiving_def phase_ok_def split: if_splits)
  have ok: "buffer_ok i ?b" using i(3) by simp
  have l1: "uvc_live ?s1 m fs (i # ps)"
    by (rule uvc_live_simps(2) [OF uvc_live_set_active [OF uvc_live_simps(1) [OF l] ok]]) simp
  have k: "unat (b_bytesused (mb_buf ?b)) = length data" using region(4) c by simp
  have fits': "unat (b_bytesused (mb_buf ?b)) + length ?p \<le> 77312" using fits k by simp
  have "b_bytesused (mb_buf ?b) \<le> maxVideoFrameSize" using ok by (simp add: buffer_ok_def Let_def)
  moreover have "0 \<le> int (length ?p)" "int (length ?p) \<le> 77312 - int (unat (b_bytesused (mb_buf ?b)))"
    using fits' by linarith+
  ultimately have u: "unat ?used = length data + length ?p" "?used \<le> maxVideoFrameSize"
    using used_plus k by (simp_all only: nat_int)
  obtain m' where w: "mem_write m (i * 77824 + unat (b_bytesused (mb_buf ?b))) ?p = Inr m'"
    and cp: "copy_payload E tb (unat (iso_offset d)) (int (unat (iso_actual_length d)))
      (tb ! unat (iso_offset d)) (hdr_info tb d) i ?b ?s1 =
      end_payload i ?b (int (length ?p)) False (hdr_info tb d) m' ?s1"
    using copy_payload_fits [OF l1 _ ok d fits'] v by (auto simp: upd_buffer_def)
  have "video_packet E tb d (Some i, s) = end_payload i ?b (int (length ?p)) False (hdr_info tb d) m' ?s1"
    unfolding video_packet_frame [OF d l v] store_payload_receiving [OF phase] by (rule cp)
  also have "\<dots> = (if e \<and> ?used \<noteq> 0 then finish_buffer i (stored i ?b ?used VIDEOBUF_DONE m' ?s1)
       else Inr (Some i, stored i ?b ?used VIDEOBUF_ACTIVE m' ?s1))"
    by (rule end_payload_stored) (use d in \<open>simp_all add: frame_packet_def\<close>)
  finally have vp: "video_packet E tb d (Some i, s) = \<dots>" .
  show thesis
  proof (rule that [OF l1 ok _ u(2,1) _ _ _ _ _ _ vp])
    show "length m' = length m" by (rule mem_write_length [OF w])
    show "contents (stored i ?b ?used st m' ?s1) i = data @ ?p" for st
      using stored_contents(1) [OF l1 ok w, of ?used] u fits' k c region(1) by (simp add: contents_live [OF l])
  next
    fix st j assume j: "j < unat (q_count (myuvc_queue s))" "j \<noteq> i"
    then have "contents (stored i ?b ?used st m' ?s1) j = contents ?s1 j"
      using stored_contents(2) [OF l1 ok w, of ?used] u fits' k by (simp add: upd_buffer_def)
    also have "\<dots> = contents s j" using j by (simp add: contents_def upd_buffer_def split: option.split)
    finally show "contents (stored i ?b ?used st m' ?s1) j = contents s j" .
  qed (simp_all add: upd_buffer_def)
qed

text \<open>
  A packet inside the frame, and the packet that ends it.
\<close>

lemma stored_active:
  assumes "uvc_live s m fs (i # ps)" "buffer_ok i b" "used \<le> maxVideoFrameSize" "length m' = length m"
  shows "uvc_live (stored i b used VIDEOBUF_ACTIVE m' s) m' fs (i # ps)"
proof -
  have "buffer_ok i (b\<lparr>mb_buf := (mb_buf b)\<lparr>b_bytesused := used\<rparr>, mb_state := VIDEOBUF_ACTIVE\<rparr>)"
    using assms(2,3) by (simp add: buffer_ok_def Let_def)
  from uvc_live_active [OF assms(1) this _ assms(4)] show ?thesis by (simp add: stored_def)
qed

lemma receiving_mid:
  assumes rc: "receiving s fs i ps f data" and d: "frame_packet tb f False d"
    and fits: "length data + length (payload tb d) \<le> 77312"
  shows "\<exists>s'. video_packet E tb d (Some i, s) = Inr (Some i, s') \<and>
    receiving s' fs i ps f (data @ payload tb d) \<and> woken s' = woken s \<and>
    q_count (myuvc_queue s') = q_count (myuvc_queue s) \<and>
    (\<forall>j<unat (q_count (myuvc_queue s)). j \<noteq> i \<longrightarrow> contents s' j = contents s j)"
proof (rule receiving_packet [OF rc d fits, of E])
  fix s1 b used m m'
  assume l: "uvc_live s1 m fs (i # ps)" and ok: "buffer_ok i b" and len: "length m' = length m"
    and u: "used \<le> maxVideoFrameSize" and fr: "last_fid s1 = f" "woken s1 = woken s"
      "udev_idVendor s1 = udev_idVendor s" "q_count (myuvc_queue s1) = q_count (myuvc_queue s)"
    and c: "\<And>st. contents (stored i b used st m' s1) i = data @ payload tb d"
      "\<And>st j. j < unat (q_count (myuvc_queue s)) \<Longrightarrow> j \<noteq> i \<Longrightarrow> contents (stored i b used st m' s1) j = contents s j"
    and p: "video_packet E tb d (Some i, s) =
      (if False \<and> used \<noteq> 0 then finish_buffer i (stored i b used VIDEOBUF_DONE m' s1)
       else Inr (Some i, stored i b used VIDEOBUF_ACTIVE m' s1))"
  let ?s = "stored i b used VIDEOBUF_ACTIVE m' s1"
  have "uvc_live ?s m' fs (i # ps)" by (rule stored_active [OF l ok u len])
  moreover have "i < length (q_buffer (myuvc_queue s1))"
    using l live_index uvc_live_head(1) [OF l] by (fastforce simp: uvc_live_def)
  ultimately have "receiving ?s fs i ps f (data @ payload tb d)"
    using c(1) fr rc by (auto simp: receiving_def stored_def upd_buffer_def)
  then show ?thesis using p c(2) fr by (auto simp: stored_def upd_buffer_def)
qed

lemma receiving_end:
  assumes rc: "receiving s fs i ps f data" and d: "frame_packet tb f True d"
    and fits: "length data + length (payload tb d) \<le> 77312" and ne: "data @ payload tb d \<noteq> []"
  shows "\<exists>s' m'. video_packet E tb d (Some i, s) = Inr (next_buffer (myuvc_queue s'), s') \<and>
    uvc_live s' m' (fs @ [i]) ps \<and> contents s' i = data @ payload tb d \<and> woken s' = woken s @ [i] \<and>
    last_fid s' = f \<and>
    (\<forall>j<unat (q_count (myuvc_queue s)). j \<noteq> i \<longrightarrow> contents s' j = contents s j)"
proof (rule receiving_packet [OF rc d fits, of E])
  fix s1 b used m m'
  assume l: "uvc_live s1 m fs (i # ps)" and ok: "buffer_ok i b" and len: "length m' = length m"
    and u: "used \<le> maxVideoFrameSize" "unat used = length data + length (payload tb d)"
    and fr: "last_fid s1 = f" "woken s1 = woken s"
    and c: "\<And>st. contents (stored i b used st m' s1) i = data @ payload tb d"
      "\<And>st j. j < unat (q_count (myuvc_queue s)) \<Longrightarrow> j \<noteq> i \<Longrightarrow> contents (stored i b used st m' s1) j = contents s j"
    and p: "video_packet E tb d (Some i, s) =
      (if True \<and> used \<noteq> 0 then finish_buffer i (stored i b used VIDEOBUF_DONE m' s1)
       else Inr (Some i, stored i b used VIDEOBUF_ACTIVE m' s1))"
  let ?b = "b\<lparr>mb_buf := (mb_buf b)\<lparr>b_bytesused := used\<rparr>, mb_state := VIDEOBUF_DONE\<rparr>"
  have "used \<noteq> 0" using u(2) ne by auto
  moreover have "buffer_ok i ?b" using ok u(1) by (simp add: buffer_ok_def Let_def)
  moreover have "mb_state ?b = VIDEOBUF_DONE" by simp
  ultimately obtain s' where fin: "finish_buffer i (stored i b used VIDEOBUF_DONE m' s1) =
      Inr (next_buffer (myuvc_queue s'), s')" "uvc_live s' m' (fs @ [i]) ps"
    "woken s' = woken s1 @ [i]" "last_fid s' = last_fid s1"
    "q_buffer (myuvc_queue s') = upd_nth i (\<lambda>_. ?b) (q_buffer (myuvc_queue s1))"
    using uvc_live_done [OF l _ _ len, of ?b] unfolding stored_def by blast
  have "contents s' j = contents (stored i b used VIDEOBUF_DONE m' s1) j" for j
    using fin(5) uvc_live_mem [OF fin(2)] by (simp add: contents_def stored_def upd_buffer_def)
  then show ?thesis
    using p \<open>used \<noteq> 0\<close> fin c fr by (intro exI [of _ s'] exI [of _ m']) simp
qed

section \<open>A frame spread over URBs\<close>

definition urb_payload :: "urb \<Rightarrow> u8 list" where
  "urb_payload u = concat (map (payload (urb_transfer_buffer u)) (urb_iso_frame_desc u))"

definition full_urb :: "urb \<Rightarrow> bool" where
  "full_urb u \<longleftrightarrow> urb_status u = 0 \<and> urb_number_of_packets u = int (length (urb_iso_frame_desc u))"

fun complete_urbs :: "'w usb_env \<Rightarrow> urb list \<Rightarrow> 'w uvc \<Rightarrow> 'w uvc kres" where
  "complete_urbs E [] s = Inr s"
| "complete_urbs E (u # us) s = kbind (myuvc_video_complete E u s) (complete_urbs E us)"

text \<open>
  What every step leaves alone: the wake-ups, the number of buffers, the other buffers.
\<close>

definition same_others :: "nat \<Rightarrow> 'w uvc \<Rightarrow> 'w uvc \<Rightarrow> bool" where
  "same_others i s s' \<longleftrightarrow> q_count (myuvc_queue s') = q_count (myuvc_queue s) \<and>
     (\<forall>j<unat (q_count (myuvc_queue s)). j \<noteq> i \<longrightarrow> contents s' j = contents s j)"

lemma same_others_trans: "same_others i s t \<Longrightarrow> same_others i t u \<Longrightarrow> same_others i s u"
  by (simp add: same_others_def)

lemma video_packets_append:
  "video_packets E tb (length a + n) (a @ ds) bs = kbind (video_packets E tb (length a) a bs) (video_packets E tb n ds)"
  by (induction a arbitrary: bs) (simp_all add: kbind_assoc)

lemma receiving_mids:
  "receiving s fs i ps f data \<Longrightarrow> \<forall>d\<in>set ds. frame_packet tb f False d \<Longrightarrow>
    length data + length (concat (map (payload tb) ds)) \<le> 77312 \<Longrightarrow>
    \<exists>s'. video_packets E tb (length ds) ds (Some i, s) = Inr (Some i, s') \<and>
      receiving s' fs i ps f (data @ concat (map (payload tb) ds)) \<and> woken s' = woken s \<and> same_others i s s'"
proof (induction ds arbitrary: s data)
  case Nil
  then show ?case by (simp add: same_others_def)
next
  case (Cons d ds)
  from receiving_mid [OF Cons.prems(1), of tb d E] Cons.prems(2,3) obtain s1 where
    1: "video_packet E tb d (Some i, s) = Inr (Some i, s1)"
      "receiving s1 fs i ps f (data @ payload tb d)" "woken s1 = woken s" "same_others i s s1"
    by (auto simp: same_others_def)
  from Cons.IH [OF 1(2)] Cons.prems(2,3) obtain s' where
    2: "video_packets E tb (length ds) ds (Some i, s1) = Inr (Some i, s')"
      "receiving s' fs i ps f ((data @ payload tb d) @ concat (map (payload tb) ds))"
      "woken s' = woken s1" "same_others i s1 s'" by auto
  then show ?case using 1 same_others_trans [OF 1(4) 2(4)] by auto
qed

lemma receiving_world: "receiving (s\<lparr>world := w\<rparr>) fs i ps f data = receiving s fs i ps f data"
  by (simp add: receiving_def uvc_live_def)

lemma receiving_next: "receiving s fs i ps f data \<Longrightarrow> next_buffer (myuvc_queue s) = Some i"
  using next_buffer_live by (fastforce simp: receiving_def uvc_live_def)

lemma receiving_urb:
  assumes rc: "receiving s fs i ps f data" and u: "full_urb u"
    and d: "\<forall>d\<in>set (urb_iso_frame_desc u). frame_packet (urb_transfer_buffer u) f False d"
    and fits: "length data + length (urb_payload u) \<le> 77312"
  shows "\<exists>s'. myuvc_video_complete E u s = Inr s' \<and> receiving s' fs i ps f (data @ urb_payload u) \<and>
    woken s' = woken s \<and> same_others i s s'"
proof -
  obtain s1 where "video_packets E (urb_transfer_buffer u) (length (urb_iso_frame_desc u))
      (urb_iso_frame_desc u) (Some i, s) = Inr (Some i, s1)"
    "receiving s1 fs i ps f (data @ urb_payload u)" "woken s1 = woken s" "same_others i s s1"
    using receiving_mids [OF rc d] fits unfolding urb_payload_def by blast
  then show ?thesis
    using u receiving_next [OF rc]
    by (auto simp: myuvc_video_complete_def full_urb_def receiving_world same_others_def)
qed

lemma receiving_urbs:
  "receiving s fs i ps f data \<Longrightarrow> \<forall>u\<in>set us. full_urb u \<Longrightarrow>
    \<forall>u\<in>set us. \<forall>d\<in>set (urb_iso_frame_desc u). frame_packet (urb_transfer_buffer u) f False d \<Longrightarrow>
    length data + length (concat (map urb_payload us)) \<le> 77312 \<Longrightarrow>
    \<exists>s'. complete_urbs E us s = Inr s' \<and> receiving s' fs i ps f (data @ concat (map urb_payload us)) \<and>
      woken s' = woken s \<and> same_others i s s'"
proof (induction us arbitrary: s data)
  case Nil
  then show ?case by (simp add: same_others_def)
next
  case (Cons u us)
  from receiving_urb [OF Cons.prems(1), of u E] Cons.prems(2-4) obtain s1 where
    1: "myuvc_video_complete E u s = Inr s1" "receiving s1 fs i ps f (data @ urb_payload u)"
      "woken s1 = woken s" "same_others i s s1" by auto
  from Cons.IH [OF 1(2)] Cons.prems(2-4) obtain s' where
    2: "complete_urbs E us s1 = Inr s'" "woken s' = woken s1" "same_others i s1 s'"
      "receiving s' fs i ps f ((data @ urb_payload u) @ concat (map urb_payload us))" by auto
  then show ?case using 1 same_others_trans [OF 1(4) 2(3)] by auto
qed

lemma receiving_last_urb:
  assumes rc: "receiving s fs i ps f data" and u: "full_urb u"
    and ds: "urb_iso_frame_desc u = ds @ [d]"
    and d: "\<forall>d\<in>set ds. frame_packet (urb_transfer_buffer u) f False d" "frame_packet (urb_transfer_buffer u) f True d"
    and fits: "length data + length (urb_payload u) \<le> 77312" and ne: "data @ urb_payload u \<noteq> []"
  shows "\<exists>s' m'. myuvc_video_complete E u s = Inr s' \<and> uvc_live s' m' (fs @ [i]) ps \<and>
    contents s' i = data @ urb_payload u \<and> woken s' = woken s @ [i] \<and> last_fid s' = f \<and>
    (\<forall>j<unat (q_count (myuvc_queue s)). j \<noteq> i \<longrightarrow> contents s' j = contents s j)"
proof -
  let ?tb = "urb_transfer_buffer u"
  have pl: "urb_payload u = concat (map (payload ?tb) ds) @ payload ?tb d" by (simp add: urb_payload_def ds)
  obtain s1 where 1: "video_packets E ?tb (length ds) ds (Some i, s) = Inr (Some i, s1)"
    "receiving s1 fs i ps f (data @ concat (map (payload ?tb) ds))" "woken s1 = woken s" "same_others i s s1"
    using receiving_mids [OF rc d(1), of E] fits pl by auto
  obtain s2 m' where 2: "video_packet E ?tb d (Some i, s1) = Inr (next_buffer (myuvc_queue s2), s2)"
    "uvc_live s2 m' (fs @ [i]) ps" "contents s2 i = data @ urb_payload u" "woken s2 = woken s1 @ [i]"
    "last_fid s2 = f" "\<forall>j<unat (q_count (myuvc_queue s1)). j \<noteq> i \<longrightarrow> contents s2 j = contents s1 j"
    using receiving_end [OF 1(2) d(2), of E] fits ne pl by auto
  have "video_packets E ?tb (length ds + 1) (ds @ [d]) (Some i, s) = Inr (next_buffer (myuvc_queue s2), s2)"
    using 1(1) 2(1) by (simp only: video_packets_append kbind_simps) simp
  then have vc: "myuvc_video_complete E u s = Inr (s2\<lparr>world := snd (usb_submit_urb E (Some u) (world s2))\<rparr>)"
    using u ds receiving_next [OF rc] by (simp add: myuvc_video_complete_def full_urb_def nat_add_distrib)
  show ?thesis
    unfolding vc using 1(3,4) 2 uvc_live_simps(4) [OF 2(2)]
    by (auto simp: same_others_def)
qed

lemma frame_stored:
  assumes inv: "uvc_inv s" and pend: "uq_pending (myuvc_queue s) = i # ps"
    and cam: "udev_idVendor s \<noteq> 0x1B3B"
    and new: "mb_state (q_buffer (myuvc_queue s) ! i) = VIDEOBUF_QUEUED" "f \<noteq> last_fid s"
    and mid: "\<forall>v\<in>set us. full_urb v \<and>
        (\<forall>d\<in>set (urb_iso_frame_desc v). frame_packet (urb_transfer_buffer v) f False d)"
    and last: "full_urb u" "urb_iso_frame_desc u = ds @ [d]"
        "\<forall>d\<in>set ds. frame_packet (urb_transfer_buffer u) f False d" "frame_packet (urb_transfer_buffer u) f True d"
    and fits: "length (concat (map urb_payload (us @ [u]))) \<le> unat maxVideoFrameSize"
        "concat (map urb_payload (us @ [u])) \<noteq> []"
  shows "\<exists>s'. complete_urbs E (us @ [u]) s = Inr s' \<and>
    contents s' i = concat (map urb_payload (us @ [u])) \<and>
    uq_filled (myuvc_queue s') = uq_filled (myuvc_queue s) @ [i] \<and> uq_pending (myuvc_queue s') = ps \<and>
    woken s' = woken s @ [i] \<and> uvc_inv s' \<and>
    (\<forall>j<unat (q_count (myuvc_queue s)). j \<noteq> i \<longrightarrow> contents s' j = contents s j)"
proof -
  obtain m where mem: "q_mem (myuvc_queue s) = Some m"
    using inv pend by (cases "q_mem (myuvc_queue s)") (auto simp: uvc_inv_def queue_inv_def uq_pending_def)
  let ?fs = "uq_filled (myuvc_queue s)"
  have l: "uvc_live s m ?fs (i # ps)" using uvc_inv_live [OF inv mem] pend by simp
  have "b_bytesused (mb_buf (q_buffer (myuvc_queue s) ! i)) = 0"
    using uvc_live_head(4) [OF l] new(1) by (auto simp: phase_ok_def split: if_splits)
  then have "receiving s ?fs i ps f []"
    using l cam new by (auto simp: receiving_def contents_live [OF l])
  then obtain s1 where 1: "complete_urbs E us s = Inr s1"
    "receiving s1 ?fs i ps f (concat (map urb_payload us))" "woken s1 = woken s" "same_others i s s1"
    using receiving_urbs [of s ?fs i ps f "[]" us E] mid fits(1) by (auto simp: maxVideoFrameSize_def)
  obtain s' m' where 2: "myuvc_video_complete E u s1 = Inr s'" "uvc_live s' m' (?fs @ [i]) ps"
    "contents s' i = concat (map urb_payload us) @ urb_payload u" "woken s' = woken s1 @ [i]"
    "\<forall>j<unat (q_count (myuvc_queue s1)). j \<noteq> i \<longrightarrow> contents s' j = contents s1 j"
    using receiving_last_urb [OF 1(2) last, of E] fits by (auto simp: maxVideoFrameSize_def)
  have "complete_urbs E (us @ [u]) s = kbind (complete_urbs E us s) (complete_urbs E [u])"
    by (induction us arbitrary: s) (simp_all add: kbind_assoc)
  then have "complete_urbs E (us @ [u]) s = Inr s'" using 1(1) 2(1) by simp
  then show ?thesis
    using 1(3,4) 2 live_lists [of "myuvc_queue s'"] uvc_live_inv [OF 2(2)]
    by (auto simp: uvc_live_def same_others_def)
qed


text \<open>
  A frame of three payload bytes in two URBs, delivered to the concrete driver state.
\<close>

definition demo_packet :: "u32 \<Rightarrow> u32 \<Rightarrow> iso_frame_desc" where
  "demo_packet off n = \<lparr>iso_offset = off, iso_length = 800, iso_actual_length = n, iso_status = 0\<rparr>"

definition demo_urb :: "u8 list \<Rightarrow> iso_frame_desc list \<Rightarrow> urb" where
  "demo_urb tb ds = \<lparr>urb_endpoint = 0x82, urb_status = 0, urb_interval = 1, urb_transfer_buffer = tb,
     urb_transfer_buffer_length = of_nat (length tb), urb_number_of_packets = int (length ds),
     urb_iso_frame_desc = ds\<rparr>"

definition demo_urb1 :: urb where
  "demo_urb1 = demo_urb [2, 0x01, 0xAA, 0xBB] [demo_packet 0 4]"

definition demo_urb2 :: urb where
  "demo_urb2 = demo_urb [2, 0x01, 2, 0x03, 0xCC] [demo_packet 0 2, demo_packet 2 3]"

lemmas demo_urb_defs = demo_urb1_def demo_urb2_def demo_urb_def demo_packet_def

lemma demo_urb_payload: "urb_payload demo_urb1 = [0xAA, 0xBB]" "urb_payload demo_urb2 = [0xCC]"
  by (simp_all add: urb_payload_def payload_def hdr_len_def demo_urb_defs)

lemma demo_urb_facts:
  "full_urb demo_urb1" "full_urb demo_urb2"
  "\<forall>d\<in>set (urb_iso_frame_desc demo_urb1). frame_packet (urb_transfer_buffer demo_urb1) 1 False d"
  "urb_iso_frame_desc demo_urb2 = [demo_packet 0 2] @ [demo_packet 2 3]"
  "\<forall>d\<in>set [demo_packet 0 2]. frame_packet (urb_transfer_buffer demo_urb2) 1 False d"
  "frame_packet (urb_transfer_buffer demo_urb2) 1 True (demo_packet 2 3)"
  by (simp_all add: full_urb_def demo_urb_defs frame_packet_def packet_ok_def hdr_len_def hdr_info_def
      wMaxPacketSize_def bit_numeral_rec)

lemma demo_complete:
  "\<exists>t m. kbind (myuvc_video_complete E demo_urb1 uvc_demo) (myuvc_video_complete E demo_urb2) = Inr t \<and>
     uvc_live t m [0] [1]"
proof -
  have l: "uvc_live uvc_demo (replicate 155648 0) [] [0, 1]"
    using uvc_inv_live [OF uvc_demo_inv] by (simp add: uvc_demo_simps)
  then have "receiving uvc_demo [] 0 [1] 1 []"
    by (simp add: receiving_def contents_live [OF l] uvc_demo_simps demo_buffer_def init_buffer_def
        myuvc_buffer_zero_def) blast
  from receiving_urb [OF this demo_urb_facts(1,3), of E] obtain s1 where
    1: "myuvc_video_complete E demo_urb1 uvc_demo = Inr s1" "receiving s1 [] 0 [1] 1 [0xAA, 0xBB]"
    by (auto simp: demo_urb_payload)
  from receiving_last_urb [OF 1(2) demo_urb_facts(2,4-6), of E] show ?thesis
    using 1(1) by (auto simp: demo_urb_payload)
qed


end
