(* ===== verification/Uvc_Fifo.thy ===== *)
theory Uvc_Fifo
  imports Uvc_Frame
begin

text \<open>
  The UVC driver implements the capture-queue contract: \<open>qbuf\<close> and \<open>dqbuf\<close> as the application
  calls them, the URB completion as the device event.
\<close>

definition uvc_qb :: "v4l2_buffer \<Rightarrow> 'w uvc \<Rightarrow> (bool \<times> 'w uvc) kres" where
  "uvc_qb v s = kbind (myuvc_vidioc_qbuf v s) (\<lambda>(ret, s'). Inr (ret = 0, s'))"

definition uvc_dq :: "'w uvc \<Rightarrow> (nat option \<times> 'w uvc) kres" where
  "uvc_dq s = kbind (myuvc_vidioc_dqbuf 0 s)
     (\<lambda>(ret, v, s'). Inr (if ret = 0 then Some (unat (b_index v)) else None, s'))"

lemma uvc_qb_cases:
  assumes inv: "uvc_inv s"
  shows "uvc_qb v s = Inr (if qbuf_valid v (myuvc_queue s)
     then (True, s\<lparr>myuvc_queue := queue_put (unat (b_index v)) (myuvc_queue s)\<rparr>) else (False, s))"
proof -
  have "queue_inv (myuvc_queue s)" using inv by (simp add: uvc_inv_def)
  then show ?thesis using qbuf_accepted [of s v] qbuf_refused [of s v] by (auto simp: uvc_qb_def)
qed

lemma uvc_dq_filled:
  assumes inv: "uvc_inv s" and f: "uq_filled (myuvc_queue s) = i # fs"
  shows "uvc_dq s = Inr (Some i, s\<lparr>myuvc_queue := queue_take i (myuvc_queue s)\<rparr>)"
proof -
  have q: "queue_inv (myuvc_queue s)" using inv by (simp add: uvc_inv_def)
  then show ?thesis
  proof (cases rule: queue_inv_cases)
    case unset
    then show ?thesis using f by (simp add: uq_filled_def)
  next
    case (set m)
    then have l: "live (myuvc_queue s) m (i # fs) (uq_pending (myuvc_queue s))" using f by simp
    then have i: "i < unat (q_count (myuvc_queue s))" "i < 32" by (simp_all add: live_def)
    have "b_index (mb_buf (q_buffer (myuvc_queue s) ! i)) = of_nat i"
      using live_buffer_ok [OF l i(1)] by (simp add: buffer_ok_def Let_def)
    moreover have "unat (of_nat i :: u32) = i" using i(2) by (simp add: unat_of_nat)
    ultimately show ?thesis by (simp add: uvc_dq_def dqbuf_filled [OF l])
  qed
qed

lemma uvc_dq_empty:
  assumes inv: "uvc_inv s" and f: "uq_filled (myuvc_queue s) = []" and r: "uvc_dq s = Inr r"
  shows "r = (None, s)"
proof -
  have q: "queue_inv (myuvc_queue s)" using inv by (simp add: uvc_inv_def)
  then show ?thesis
  proof (cases rule: queue_inv_cases)
    case unset
    then show ?thesis using r dqbuf_unset [OF unset(3), of 0] by (simp add: uvc_dq_def)
  next
    case (set m)
    then show ?thesis using r dqbuf_not_filled [of s m _ 0] f by (simp add: uvc_dq_def)
  qed
qed

lemma queue_inv_distinct: "queue_inv q \<Longrightarrow> distinct (uq_filled q @ uq_pending q)"
  by (erule queue_inv_cases) (simp_all add: uq_filled_def uq_pending_def live_def)

lemma uvc_inv_queue [simp]:
  "uvc_inv (s\<lparr>myuvc_queue := q\<rparr>) \<longleftrightarrow> queue_inv q \<and> format_ok (myuvc_format s) \<and>
     temp_ok (mem_temp s) (nArrayTemp_Size s)"
  by (simp add: uvc_inv_def)

interpretation uvc_fifo: capture_queue
  "\<lambda>s. env_ok E \<and> uvc_inv s" "\<lambda>s. uq_filled (myuvc_queue s)" "\<lambda>s. uq_pending (myuvc_queue s)"
  "\<lambda>v. unat (b_index v)" uvc_qb uvc_dq "myuvc_video_complete E"
  for E :: "'w usb_env"
proof (unfold_locales, goal_cases distinct accept refuse take empty event)
  case (distinct s)
  then show ?case using queue_inv_distinct [of "myuvc_queue s"] by (simp add: uvc_inv_def)
next
  case (accept s v s')
  then have "qbuf_valid v (myuvc_queue s)"
    and "s' = s\<lparr>myuvc_queue := queue_put (unat (b_index v)) (myuvc_queue s)\<rparr>"
    using uvc_qb_cases [of s v] by (auto split: if_splits)
  then show ?case using accept(1) queue_inv_put by (auto simp: uvc_inv_def)
next
  case (refuse s v s')
  then show ?case using uvc_qb_cases [of s v] by (auto split: if_splits)
next
  case (take s i s')
  then obtain fs where f: "uq_filled (myuvc_queue s) = i # fs"
    "s' = s\<lparr>myuvc_queue := queue_take i (myuvc_queue s)\<rparr>"
    using uvc_dq_filled [of s] uvc_dq_empty [of s] by (cases "uq_filled (myuvc_queue s)") auto
  then show ?case using take(1) queue_inv_take [OF _ f(1)] by (auto simp: uvc_inv_def)
next
  case (empty s s')
  then have "uq_filled (myuvc_queue s) = []"
    using uvc_dq_filled [of s] by (cases "uq_filled (myuvc_queue s)") auto
  then show ?case using uvc_dq_empty [of s] empty by auto
next
  case (event s u s')
  then show ?case using video_complete_inv [of E s u s'] by (auto; metis append_assoc length_append le_add2)
qed

text \<open>
  C3: First in, first out.  Start from a driver with valid state and empty queues and let the
  application and the camera act in any order (QBUF, DQBUF, URB completions with arbitrary
  contents).  The buffers DQBUF has returned are, in order, a prefix of the buffers QBUF has
  accepted; the remaining accepted buffers are exactly those still in the driver, filled ones
  first, and none of them is there twice.
\<close>

theorem uvc_capture_fifo:
  assumes "env_ok E" "uvc_inv s" "uq_filled (myuvc_queue s) = []" "uq_pending (myuvc_queue s) = []"
    and "run_queue uvc_qb uvc_dq (myuvc_video_complete E) ops s = Inr (qs, ds, t)"
  shows "ds = take (length ds) (map (\<lambda>v. unat (b_index v)) qs) \<and>
    drop (length ds) (map (\<lambda>v. unat (b_index v)) qs) = uq_filled (myuvc_queue t) @ uq_pending (myuvc_queue t) \<and>
    distinct (uq_filled (myuvc_queue t) @ uq_pending (myuvc_queue t))"
  using uvc_fifo.run_from_empty [of E s ops qs ds t] assms by auto

theorem uvc_capture_fifo_witness:
  "\<exists>t. run_queue uvc_qb uvc_dq (myuvc_video_complete demo_env)
      [QBUF (mb_buf (demo_buffer 0)), QBUF (mb_buf (demo_buffer 1)), EVENT demo_urb1, EVENT demo_urb2, DQBUF]
      (uvc_demo\<lparr>myuvc_queue := idle_queue\<rparr>) = Inr ([mb_buf (demo_buffer 0), mb_buf (demo_buffer 1)], [0], t) \<and>
    [0] = take (length [0 :: nat]) [0, 1] \<and> uq_filled (myuvc_queue t) @ uq_pending (myuvc_queue t) = [1]"
proof -
  let ?s = "uvc_demo\<lparr>myuvc_queue := idle_queue\<rparr>" and ?v = "\<lambda>i. mb_buf (demo_buffer i)"
  have inv: "uvc_inv ?s" using uvc_demo_inv idle_queue_inv by (simp add: uvc_inv_def)
  have q0: "qbuf_valid (?v 0) idle_queue" and put: "queue_inv (queue_put 0 idle_queue)"
    "uq_filled (queue_put 0 idle_queue) = []" "uq_pending (queue_put 0 idle_queue) = [0]"
    using queue_inv_put [of idle_queue "?v 0"] idle_queue_inv live_lists [OF idle_queue_live]
    by (auto simp: qbuf_valid_def demo_buffer_def init_buffer_def idle_queue_def demo_queue_def)
  have q1: "qbuf_valid (?v 1) (queue_put 0 idle_queue)"
    using put by (simp add: qbuf_valid_def demo_buffer_def init_buffer_def idle_queue_def demo_queue_def)
  have s1: "uvc_qb (?v 0) ?s = Inr (True, ?s\<lparr>myuvc_queue := queue_put 0 idle_queue\<rparr>)"
    using uvc_qb_cases [OF inv, of "?v 0"] q0 by (simp add: demo_buffer_def init_buffer_def)
  have "uvc_inv (?s\<lparr>myuvc_queue := queue_put 0 idle_queue\<rparr>)" using inv put(1) by simp
  from uvc_qb_cases [OF this, of "?v 1"] have s2:
    "uvc_qb (?v 1) (?s\<lparr>myuvc_queue := queue_put 0 idle_queue\<rparr>) = Inr (True, uvc_demo)"
    using q1 idle_queue_put by (simp add: demo_buffer_def init_buffer_def uvc_demo_def)
  obtain t m where c: "kbind (myuvc_video_complete demo_env demo_urb1 uvc_demo)
      (myuvc_video_complete demo_env demo_urb2) = Inr t" "uvc_live t m [0] [1]"
    using demo_complete by blast
  have "uvc_dq t = Inr (Some 0, t\<lparr>myuvc_queue := queue_take 0 (myuvc_queue t)\<rparr>)"
    using uvc_dq_filled [OF uvc_live_inv [OF c(2)], of 0 "[]"] live_lists [of "myuvc_queue t" m "[0]" "[1]"] c(2)
    by (simp add: uvc_live_def)
  then have r: "run_queue uvc_qb uvc_dq (myuvc_video_complete demo_env)
      [QBUF (?v 0), QBUF (?v 1), EVENT demo_urb1, EVENT demo_urb2, DQBUF] ?s =
      Inr ([?v 0, ?v 1], [0], t\<lparr>myuvc_queue := queue_take 0 (myuvc_queue t)\<rparr>)"
    using s1 s2 c(1) by (auto simp: kbind_Inr_iff)
  have "uq_filled idle_queue = []" "uq_pending idle_queue = []" using live_lists [OF idle_queue_live] by simp_all
  with uvc_capture_fifo [OF demo_env_ok inv _ _ r] r show ?thesis
    by (auto simp: demo_buffer_def init_buffer_def)
qed

end
