(* ===== verification/Uvc_Stream.thy ===== *)
theory Uvc_Stream
  imports Uvc_Fifo
begin

text \<open>
  Streaming control of the UVC driver: the probe/commit negotiation with the camera, the URBs,
  \<open>streamon\<close>, \<open>streamoff\<close> and \<open>close\<close>.
\<close>

section \<open>Negotiation\<close>

abbreviation (input) SET_CUR :: u8 where "SET_CUR \<equiv> 0x01"
abbreviation (input) GET_CUR :: u8 where "GET_CUR \<equiv> 0x81"
abbreviation (input) GET_MIN :: u8 where "GET_MIN \<equiv> 0x82"
abbreviation (input) GET_MAX :: u8 where "GET_MAX \<equiv> 0x83"
abbreviation (input) GET_RES :: u8 where "GET_RES \<equiv> 0x84"
abbreviation (input) GET_DEF :: u8 where "GET_DEF \<equiv> 0x87"
abbreviation (input) VS_PROBE_CONTROL :: u16 where "VS_PROBE_CONTROL \<equiv> 1"
abbreviation (input) VS_COMMIT_CONTROL :: u16 where "VS_COMMIT_CONTROL \<equiv> 2"
abbreviation (input) USB_DIR_IN :: u8 where "USB_DIR_IN \<equiv> 0x80"
abbreviation (input) USB_DIR_OUT :: u8 where "USB_DIR_OUT \<equiv> 0"
abbreviation (input) USB_TYPE_CLASS :: u8 where "USB_TYPE_CLASS \<equiv> 0x20"
abbreviation (input) USB_RECIP_INTERFACE :: u8 where "USB_RECIP_INTERFACE \<equiv> 0x01"

text \<open>
  \<open>type |= (req & 0x80) ? USB_DIR_IN : USB_DIR_OUT\<close>
\<close>

definition request_type :: "u8 \<Rightarrow> u8" where
  "request_type req = (USB_TYPE_CLASS OR USB_RECIP_INTERFACE) OR
     (if req AND 0x80 \<noteq> 0 then USB_DIR_IN else USB_DIR_OUT)"

definition params_size :: nat where
  "params_size = (if uvc_version \<ge> 0x0110 then 34 else 26)"

definition decode_params :: "nat \<Rightarrow> u8 list \<Rightarrow> myuvc_streaming_control \<Rightarrow> myuvc_streaming_control" where
  "decode_params sz data ctrl =
     (let c = ctrl\<lparr>bmHint := get_le16 data 0, bFormatIndex := data ! 2, bFrameIndex := data ! 3,
            dwFrameInterval := get_le32 data 4, wKeyFrameRate := get_le16 data 8,
            wPFrameRate := get_le16 data 10, wCompQuality := get_le16 data 12,
            wCompWindowSize := get_le16 data 14, wDelay := get_le16 data 16,
            dwMaxVideoFrameSize := get_le32 data 18, dwMaxPayloadTransferSize := get_le32 data 22\<rparr>
      in if sz = 34
         then c\<lparr>dwClockFrequency := get_le32 data 26, bmFramingInfo := data ! 30,
                bPreferedVersion := data ! 31, bMinVersion := data ! 32, bMaxVersion := data ! 33\<rparr>
         else c\<lparr>bmFramingInfo := 0, bPreferedVersion := 0, bMinVersion := 0, bMaxVersion := 0\<rparr>)"

text \<open>
  The fields are written back to back and fill the zeroed block completely.
\<close>

definition encode_params :: "nat \<Rightarrow> myuvc_streaming_control \<Rightarrow> u8 list" where
  "encode_params sz ctrl =
     put_le16 (bmHint ctrl) @ [bFormatIndex ctrl, bFrameIndex ctrl] @ put_le32 (dwFrameInterval ctrl) @
     put_le16 (wKeyFrameRate ctrl) @ put_le16 (wPFrameRate ctrl) @ put_le16 (wCompQuality ctrl) @
     put_le16 (wCompWindowSize ctrl) @ put_le16 (wDelay ctrl) @
     put_le32 (dwMaxVideoFrameSize ctrl) @ put_le32 (dwMaxPayloadTransferSize ctrl) @
     (if sz = 34 then put_le32 (dwClockFrequency ctrl) @
        [bmFramingInfo ctrl, bPreferedVersion ctrl, bMinVersion ctrl, bMaxVersion ctrl] else [])"

definition myuvc_get_streaming_params :: "'w usb_env \<Rightarrow> 'w uvc \<Rightarrow> int \<times> 'w uvc" where
  "myuvc_get_streaming_params E s =
     (case kmalloc E params_size (world s) of
        (None, w) \<Rightarrow> (- ENOMEM, s\<lparr>world := w\<rparr>)
      | (Some data, w) \<Rightarrow>
          (case usb_control_msg E GET_CUR (request_type GET_CUR) (push_bit 8 VS_PROBE_CONTROL)
                  (push_bit 8 0 OR myuvc_streaming_intf s) data w of
             (ret, data', w') \<Rightarrow>
               if ret < 0 then (ret, s\<lparr>world := w'\<rparr>)
               else (0, s\<lparr>world := w',
                          myuvc_params := decode_params params_size data' (myuvc_params s)\<rparr>)))"

text \<open>
  The second half of \<open>try\<close> and \<open>set\<close>: encode the parameters and send them to a control.
\<close>

definition send_params :: "'w usb_env \<Rightarrow> u16 \<Rightarrow> 'w uvc \<Rightarrow> int \<times> 'w uvc" where
  "send_params E control s =
     (case kzalloc E params_size (world s) of
        (None, w) \<Rightarrow> (- ENOMEM, s\<lparr>world := w\<rparr>)
      | (Some data, w) \<Rightarrow>
          (case usb_control_msg E SET_CUR (request_type SET_CUR) (push_bit 8 control)
                  (push_bit 8 0 OR myuvc_streaming_intf s) (encode_params params_size (myuvc_params s)) w of
             (ret, data', w') \<Rightarrow> (if ret < 0 then ret else 0, s\<lparr>world := w'\<rparr>)))"

definition myuvc_try_streaming_params :: "'w usb_env \<Rightarrow> 'w uvc \<Rightarrow> int \<times> 'w uvc" where
  "myuvc_try_streaming_params E s =
     send_params E VS_PROBE_CONTROL
       (s\<lparr>myuvc_params := 0\<lparr>bmHint := 1, bFormatIndex := 1, bFrameIndex := of_nat (frame_idx + 1),
          dwFrameInterval := 333333\<rparr>\<rparr>)"

definition myuvc_set_streaming_params :: "'w usb_env \<Rightarrow> 'w uvc \<Rightarrow> int \<times> 'w uvc" where
  "myuvc_set_streaming_params E s = send_params E VS_COMMIT_CONTROL s"

text \<open>
  Probe and \<open>streamon\<close> run the three steps in a row and ignore their return values.
\<close>

definition negotiate :: "'w usb_env \<Rightarrow> 'w uvc \<Rightarrow> 'w uvc" where
  "negotiate E s = snd (myuvc_set_streaming_params E
     (snd (myuvc_get_streaming_params E (snd (myuvc_try_streaming_params E s)))))"

section \<open>URBs\<close>

definition upd_queue :: "(myuvc_queue \<Rightarrow> myuvc_queue) \<Rightarrow> 'w uvc \<Rightarrow> 'w uvc" where
  "upd_queue f s = s\<lparr>myuvc_queue := f (myuvc_queue s)\<rparr>"

definition uninit_urb :: "'w usb_env \<Rightarrow> nat \<Rightarrow> 'w uvc \<Rightarrow> 'w uvc" where
  "uninit_urb E i s =
     (let s1 = (if q_urb_buffer (myuvc_queue s) ! i \<noteq> None
                then upd_queue (\<lambda>q. q\<lparr>q_urb_buffer := (q_urb_buffer q)[i := None]\<rparr>)
                       (s\<lparr>world := usb_buffer_free E i (world s)\<rparr>)
                else s)
      in if q_urb (myuvc_queue s1) ! i \<noteq> None
         then upd_queue (\<lambda>q. q\<lparr>q_urb := (q_urb q)[i := None]\<rparr>)
                (s1\<lparr>world := usb_free_urb E i (world s1)\<rparr>)
         else s1)"

definition myuvc_uninit_urbs :: "'w usb_env \<Rightarrow> 'w uvc \<Rightarrow> 'w uvc" where
  "myuvc_uninit_urbs E s = fold (uninit_urb E) [0..<MYUVC_URBS] s"

fun alloc_urbs :: "'w usb_env \<Rightarrow> u32 \<Rightarrow> int \<Rightarrow> nat list \<Rightarrow> 'w uvc \<Rightarrow> bool \<times> 'w uvc" where
  "alloc_urbs E sz npackets [] s = (True, s)"
| "alloc_urbs E sz npackets (i # is) s =
     (case usb_buffer_alloc E sz (world s) of (b, w) \<Rightarrow>
      case usb_alloc_urb E npackets w of (u, w') \<Rightarrow>
        let s1 = upd_queue (\<lambda>q. q\<lparr>q_urb_buffer := (q_urb_buffer q)[i := b],
                                  q_urb := (q_urb q)[i := u]\<rparr>) (s\<lparr>world := w'\<rparr>)
        in if b = None \<or> u = None then (False, s1) else alloc_urbs E sz npackets is s1)"

definition init_urb :: "u32 \<Rightarrow> u16 \<Rightarrow> int \<Rightarrow> u8 list option \<Rightarrow> urb \<Rightarrow> urb" where
  "init_urb sz psize npackets buffer u =
     u\<lparr>urb_endpoint := myuvc_bEndpointAddress, urb_interval := 1,
       urb_transfer_buffer := (case buffer of Some b \<Rightarrow> b | None \<Rightarrow> []),
       urb_number_of_packets := npackets, urb_transfer_buffer_length := sz,
       urb_iso_frame_desc := map (\<lambda>j. (urb_iso_frame_desc u ! j)
          \<lparr>iso_offset := of_nat j * ucast psize, iso_length := ucast psize\<rparr>) [0..<nat npackets]\<rparr>"

definition init_urbs :: "u32 \<Rightarrow> u16 \<Rightarrow> int \<Rightarrow> nat list \<Rightarrow> myuvc_queue \<Rightarrow> myuvc_queue" where
  "init_urbs sz psize npackets is q =
     fold (\<lambda>i q. q\<lparr>q_urb := (q_urb q)[i :=
        map_option (init_urb sz psize npackets (q_urb_buffer q ! i)) (q_urb q ! i)]\<rparr>) is q"

definition urb_npackets :: "u32 \<Rightarrow> int" where
  "urb_npackets sz = (let n = sint (DIV_ROUND_UP sz (ucast wMaxPacketSize)) in if n > 32 then 32 else n)"

definition myuvc_alloc_init_urbs :: "'w usb_env \<Rightarrow> 'w uvc \<Rightarrow> int \<times> 'w uvc" where
  "myuvc_alloc_init_urbs E s =
     (let psize = wMaxPacketSize;
          npackets = urb_npackets (dwMaxVideoFrameSize (myuvc_params s));
          sz = ucast psize * of_int npackets;
          s1 = upd_queue (\<lambda>q. q\<lparr>q_urb_size := sz\<rparr>) s
      in case alloc_urbs E sz npackets [0..<MYUVC_URBS] s1 of
           (False, s2) \<Rightarrow> (- ENOMEM, myuvc_uninit_urbs E s2)
         | (True, s2) \<Rightarrow> (0, upd_queue (init_urbs sz psize npackets [0..<MYUVC_URBS]) s2))"

section \<open>Start and stop\<close>

fun submit_urbs :: "'w usb_env \<Rightarrow> nat list \<Rightarrow> 'w uvc \<Rightarrow> int \<times> 'w uvc" where
  "submit_urbs E [] s = (0, s)"
| "submit_urbs E (i # is) s =
     (case usb_submit_urb E (q_urb (myuvc_queue s) ! i) (world s) of (ret, w) \<Rightarrow>
        let s1 = s\<lparr>world := w\<rparr> in
        if ret < 0 then (ret, myuvc_uninit_urbs E s1) else submit_urbs E is s1)"

definition myuvc_vidioc_streamon :: "'w usb_env \<Rightarrow> 'w uvc \<Rightarrow> int \<times> 'w uvc" where
  "myuvc_vidioc_streamon E s =
     (let s1 = negotiate E s;
          s2 = s1\<lparr>world := usb_set_interface E (myuvc_streaming_intf s1)
                            myuvc_streaming_bAlternateSetting (world s1)\<rparr>;
          s3 = snd (myuvc_alloc_init_urbs E s2)
      in submit_urbs E [0..<MYUVC_URBS] s3)"

definition kill_urb :: "'w usb_env \<Rightarrow> nat \<Rightarrow> 'w uvc \<Rightarrow> 'w uvc" where
  "kill_urb E i s = (if q_urb (myuvc_queue s) ! i = None then s
     else s\<lparr>world := usb_kill_urb E i (world s)\<rparr>)"

definition myuvc_vidioc_streamoff :: "'w usb_env \<Rightarrow> 'w uvc \<Rightarrow> int \<times> 'w uvc" where
  "myuvc_vidioc_streamoff E s =
     (let s1 = fold (kill_urb E) [0..<MYUVC_URBS] s;
          s2 = myuvc_uninit_urbs E s1
      in (0, s2\<lparr>world := usb_set_interface E (myuvc_streaming_intf s2) 0 (world s2)\<rparr>))"

definition myuvc_open :: "'w uvc \<Rightarrow> int \<times> 'w uvc" where
  "myuvc_open s = (0, s)"

definition myuvc_close :: "'w usb_env \<Rightarrow> 'w uvc \<Rightarrow> int \<times> 'w uvc" where
  "myuvc_close E s = (0, snd (myuvc_vidioc_streamoff E s))"

section \<open>The parameter block\<close>

lemma le16_split:
  "ucast (ucast a OR push_bit 8 (ucast b) :: u16) = (a :: u8)"
  "ucast (drop_bit 8 (ucast a OR push_bit 8 (ucast b) :: u16)) = (b :: u8)"
  by (rule bit_word_eqI; auto simp: bit_simps dest: bit_imp_le_length)+

lemma put_get_le16: "put_le16 (get_le16 d k) = [d ! k, d ! (k + 1)]"
  by (simp only: put_le16_def get_le16_def le16_split)

lemma le32_split:
  fixes a b c d :: u8
  defines "w \<equiv> (ucast a OR push_bit 8 (ucast b) OR push_bit 16 (ucast c) OR push_bit 24 (ucast d) :: u32)"
  shows "ucast w = a" "ucast (drop_bit 8 w) = b" "ucast (drop_bit 16 w) = c" "ucast (drop_bit 24 w) = d"
  unfolding w_def by (rule bit_word_eqI; auto simp: bit_simps dest: bit_imp_le_length)+

lemma put_get_le32: "put_le32 (get_le32 d k) = [d ! k, d ! (k + 1), d ! (k + 2), d ! (k + 3)]"
  by (simp only: put_le32_def get_le32_def le32_split)

lemma list_26:
  assumes "length d = 26"
  shows "d = [d ! 0, d ! 1, d ! 2, d ! 3, d ! 4, d ! 5, d ! 6, d ! 7, d ! 8, d ! 9, d ! 10, d ! 11,
    d ! 12, d ! 13, d ! 14, d ! 15, d ! 16, d ! 17, d ! 18, d ! 19, d ! 20, d ! 21, d ! 22, d ! 23,
    d ! 24, d ! 25]"
proof -
  have "d = map ((!) d) [0..<26]" using map_nth [of d] assms by simp
  then show ?thesis by (simp add: upt_rec eval_nat_numeral)
qed

lemma encode_decode_26:
  assumes "length d = 26"
  shows "encode_params 26 (decode_params 26 d c) = d"
  by (subst list_26 [OF assms]) (simp add: encode_params_def decode_params_def Let_def put_get_le16 put_get_le32)

lemma decode_encode_26:
  "decode_params 26 (encode_params 26 c) c' = c\<lparr>dwClockFrequency := dwClockFrequency c', bmFramingInfo := 0,
     bPreferedVersion := 0, bMinVersion := 0, bMaxVersion := 0\<rparr>"
  using le32_bytes le16_bytes
  by (simp add: encode_params_def decode_params_def Let_def get_le16_def get_le32_def put_le16_def
      put_le32_def)

lemma decode_encode_34: "decode_params 34 (encode_params 34 c) c' = c"
  using le32_bytes le16_bytes
  by (simp add: encode_params_def decode_params_def Let_def get_le16_def get_le32_def put_le16_def
      put_le32_def)

lemma params_size_value [simp]: "params_size = 26"
  by (simp add: params_size_def uvc_version_def)

lemma get_params_block:
  assumes E: "env_ok E" and k: "kmalloc E params_size (world s) = (Some d, w)"
    and r: "usb_control_msg E GET_CUR (request_type GET_CUR) (push_bit 8 VS_PROBE_CONTROL)
      (push_bit 8 0 OR myuvc_streaming_intf s) d w = (ret, d', w')" "0 \<le> ret"
  shows "myuvc_get_streaming_params E s = (0, s\<lparr>world := w', myuvc_params := decode_params 26 d' (myuvc_params s)\<rparr>)"
    "encode_params 26 (decode_params 26 d' (myuvc_params s)) = d'"
proof -
  show "myuvc_get_streaming_params E s = (0, s\<lparr>world := w', myuvc_params := decode_params 26 d' (myuvc_params s)\<rparr>)"
    using k r by (simp add: myuvc_get_streaming_params_def)
  have "length d' = 26"
    using usb_control_msg_length [OF E r(1)] kmalloc_length [OF E k] by simp
  then show "encode_params 26 (decode_params 26 d' (myuvc_params s)) = d'" by (rule encode_decode_26)
qed

section \<open>URB bookkeeping\<close>

text \<open>
  What the stream handlers may change: the world, the negotiated parameters and the URB part of
  the queue.
\<close>

definition with_urbs_of :: "'w uvc \<Rightarrow> 'w uvc \<Rightarrow> 'w uvc" where
  "with_urbs_of t s = s\<lparr>world := world t, myuvc_params := myuvc_params t, myuvc_queue := (myuvc_queue s)
     \<lparr>q_urb := q_urb (myuvc_queue t), q_urb_buffer := q_urb_buffer (myuvc_queue t),
      q_urb_size := q_urb_size (myuvc_queue t)\<rparr>\<rparr>"

definition urb_change :: "'w uvc \<Rightarrow> 'w uvc \<Rightarrow> bool" where
  "urb_change s s' \<longleftrightarrow> s = with_urbs_of s s' \<and>
     length (q_urb (myuvc_queue s')) = length (q_urb (myuvc_queue s)) \<and>
     length (q_urb_buffer (myuvc_queue s')) = length (q_urb_buffer (myuvc_queue s))"

lemma urb_change_refl: "urb_change s s"
  by (simp add: urb_change_def with_urbs_of_def)

lemma urb_change_trans:
  assumes "urb_change s t" "urb_change t u"
  shows "urb_change s u"
proof -
  have "with_urbs_of s u = with_urbs_of s (with_urbs_of t u)" by (simp add: with_urbs_of_def)
  then show ?thesis using assms by (simp add: urb_change_def)
qed

lemma urb_change_world: "urb_change s t \<Longrightarrow> urb_change s (t\<lparr>world := w\<rparr>)"
  by (simp add: urb_change_def with_urbs_of_def)

lemma urb_change_params: "urb_change s t \<Longrightarrow> urb_change s (t\<lparr>myuvc_params := p\<rparr>)"
  by (simp add: urb_change_def with_urbs_of_def)

lemma urb_change_urb: "urb_change s t \<Longrightarrow> urb_change s (upd_queue (\<lambda>q. q\<lparr>q_urb := (q_urb q)[i := u]\<rparr>) t)"
  by (simp add: urb_change_def with_urbs_of_def upd_queue_def)

lemma urb_change_buffer:
  "urb_change s t \<Longrightarrow> urb_change s (upd_queue (\<lambda>q. q\<lparr>q_urb_buffer := (q_urb_buffer q)[i := b]\<rparr>) t)"
  by (simp add: urb_change_def with_urbs_of_def upd_queue_def)

lemma urb_change_both:
  "urb_change s t \<Longrightarrow> urb_change s (upd_queue (\<lambda>q. q\<lparr>q_urb_buffer := (q_urb_buffer q)[i := b],
     q_urb := (q_urb q)[i := u]\<rparr>) t)"
  by (simp add: urb_change_def with_urbs_of_def upd_queue_def)

lemma urb_change_size: "urb_change s t \<Longrightarrow> urb_change s (upd_queue (\<lambda>q. q\<lparr>q_urb_size := n\<rparr>) t)"
  by (simp add: urb_change_def with_urbs_of_def upd_queue_def)

lemmas urb_changes = urb_change_refl urb_change_world urb_change_params urb_change_urb
  urb_change_buffer urb_change_both urb_change_size

lemma urb_change_inv: "urb_change s s' \<Longrightarrow> uvc_inv s \<Longrightarrow> uvc_inv s'"
proof -
  assume c: "urb_change s s'" and "uvc_inv s"
  then have "uvc_inv (with_urbs_of s s')" by (simp add: urb_change_def)
  then show "uvc_inv s'" using c
    by (auto simp: uvc_inv_def queue_inv_def live_def uq_filled_def uq_pending_def with_urbs_of_def
        urb_change_def split: option.splits)
qed

lemma with_urbs_of_frame:
  "uq_filled (myuvc_queue (with_urbs_of t s)) = uq_filled (myuvc_queue s)"
  "uq_pending (myuvc_queue (with_urbs_of t s)) = uq_pending (myuvc_queue s)"
  "q_mem (myuvc_queue (with_urbs_of t s)) = q_mem (myuvc_queue s)"
  "q_buffer (myuvc_queue (with_urbs_of t s)) = q_buffer (myuvc_queue s)"
  by (simp_all add: with_urbs_of_def uq_filled_def uq_pending_def)

lemma urb_change_frame:
  "urb_change s s' \<Longrightarrow> uq_filled (myuvc_queue s') = uq_filled (myuvc_queue s)"
  "urb_change s s' \<Longrightarrow> uq_pending (myuvc_queue s') = uq_pending (myuvc_queue s)"
  "urb_change s s' \<Longrightarrow> q_mem (myuvc_queue s') = q_mem (myuvc_queue s)"
  "urb_change s s' \<Longrightarrow> q_buffer (myuvc_queue s') = q_buffer (myuvc_queue s)"
  unfolding urb_change_def by (metis with_urbs_of_frame)+

lemma uninit_urb_change: "urb_change s (uninit_urb E i s)"
  by (simp add: uninit_urb_def Let_def urb_changes)

lemma fold_urb_change:
  assumes "\<And>i t. urb_change t (f i t)"
  shows "urb_change s (fold f is s)"
proof (induction "is" arbitrary: s)
  case (Cons i js)
  show ?case using urb_change_trans [OF assms [of s i] Cons.IH] by simp
qed (simp add: urb_change_refl)

lemma uninit_urbs_change: "urb_change s (myuvc_uninit_urbs E s)"
  unfolding myuvc_uninit_urbs_def by (rule fold_urb_change) (rule uninit_urb_change)

lemma send_params_change: "urb_change s (snd (send_params E c s))"
  by (simp add: send_params_def urb_changes split: option.split prod.split)

lemma get_params_change: "urb_change s (snd (myuvc_get_streaming_params E s))"
  by (auto simp: myuvc_get_streaming_params_def intro!: urb_changes split: option.split prod.split)

lemma negotiate_change: "urb_change s (negotiate E s)"
proof -
  have "urb_change s (snd (myuvc_try_streaming_params E s))"
    unfolding myuvc_try_streaming_params_def
    by (rule urb_change_trans [OF urb_change_params [OF urb_change_refl] send_params_change])
  then show ?thesis
    unfolding negotiate_def myuvc_set_streaming_params_def
    by (rule urb_change_trans [OF urb_change_trans [OF _ get_params_change] send_params_change])
qed

lemma alloc_urbs_change: "urb_change s (snd (alloc_urbs E n k is s))"
proof (induction "is" arbitrary: s)
  case (Cons i js)
  have h: "urb_change s (upd_queue (\<lambda>q. q\<lparr>q_urb_buffer := (q_urb_buffer q)[i := b],
     q_urb := (q_urb q)[i := u]\<rparr>) (s\<lparr>world := w\<rparr>))" for b u w
    by (intro urb_changes)
  show ?case by (auto simp: Let_def split: prod.split intro: h urb_change_trans [OF h Cons.IH])
qed (simp add: urb_change_refl)

lemma init_urbs_change: "urb_change s (upd_queue (init_urbs n p k is) s)"
proof (induction "is" arbitrary: s)
  case (Cons i js)
  let ?u = "map_option (init_urb n p k (q_urb_buffer (myuvc_queue s) ! i)) (q_urb (myuvc_queue s) ! i)"
  let ?t = "upd_queue (\<lambda>q. q\<lparr>q_urb := (q_urb q)[i := ?u]\<rparr>) s"
  have "upd_queue (init_urbs n p k (i # js)) s = upd_queue (init_urbs n p k js) ?t"
    by (simp add: init_urbs_def upd_queue_def)
  then show ?case
    using urb_change_trans [OF urb_change_urb [OF urb_change_refl] Cons.IH, of s i ?u] by simp
qed (simp add: init_urbs_def upd_queue_def urb_change_refl)

lemma alloc_init_urbs_change: "urb_change s (snd (myuvc_alloc_init_urbs E s))"
proof -
  let ?n = "urb_npackets (dwMaxVideoFrameSize (myuvc_params s))"
  let ?sz = "ucast wMaxPacketSize * of_int ?n :: u32"
  let ?r = "alloc_urbs E ?sz ?n [0..<MYUVC_URBS] (upd_queue (\<lambda>q. q\<lparr>q_urb_size := ?sz\<rparr>) s)"
  have "urb_change s (snd ?r)"
    by (rule urb_change_trans [OF urb_change_size [OF urb_change_refl] alloc_urbs_change])
  moreover have "urb_change (snd ?r) (snd (myuvc_alloc_init_urbs E s))"
    by (cases ?r) (simp add: myuvc_alloc_init_urbs_def Let_def uninit_urbs_change init_urbs_change
        split: bool.split)
  ultimately show ?thesis by (rule urb_change_trans)
qed

lemma submit_urbs_change: "urb_change s (snd (submit_urbs E is s))"
proof (induction "is" arbitrary: s)
  case (Cons i js)
  have w: "urb_change s (s\<lparr>world := w\<rparr>)" for w by (intro urb_changes)
  show ?case
    by (simp add: Let_def urb_change_trans [OF w uninit_urbs_change] urb_change_trans [OF w Cons.IH]
        split: prod.split)
qed (simp add: urb_change_refl)

lemma streamon_change: "urb_change s (snd (myuvc_vidioc_streamon E s))"
  unfolding myuvc_vidioc_streamon_def Let_def
  by (intro urb_change_trans [OF _ submit_urbs_change] urb_change_trans [OF _ alloc_init_urbs_change]
      urb_change_world negotiate_change)

lemma kill_urb_change: "urb_change s (kill_urb E i s)"
  by (simp add: kill_urb_def urb_changes)

lemma streamoff_change: "urb_change s (snd (myuvc_vidioc_streamoff E s))"
  unfolding myuvc_vidioc_streamoff_def Let_def snd_conv
  by (intro urb_change_world urb_change_trans [OF _ uninit_urbs_change] fold_urb_change kill_urb_change)

section \<open>Allocation and release of URBs\<close>

definition urbs_free :: "'w uvc \<Rightarrow> bool" where
  "urbs_free s \<longleftrightarrow> (\<forall>i<MYUVC_URBS. q_urb (myuvc_queue s) ! i = None \<and> q_urb_buffer (myuvc_queue s) ! i = None)"

lemma uninit_urb_arrays:
  "q_urb (myuvc_queue (uninit_urb E i s)) = (q_urb (myuvc_queue s))[i := None]"
  "q_urb_buffer (myuvc_queue (uninit_urb E i s)) = (q_urb_buffer (myuvc_queue s))[i := None]"
  by (auto simp: uninit_urb_def Let_def upd_queue_def) (metis list_update_id)+

lemma fold_uninit_arrays:
  "q_urb (myuvc_queue (fold (uninit_urb E) is s)) = fold (\<lambda>i l. l[i := None]) is (q_urb (myuvc_queue s))"
  "q_urb_buffer (myuvc_queue (fold (uninit_urb E) is s)) =
     fold (\<lambda>i l. l[i := None]) is (q_urb_buffer (myuvc_queue s))"
  by (induction "is" arbitrary: s) (simp_all add: uninit_urb_arrays)

lemma fold_clear_keep:
  "l ! j = None \<Longrightarrow> j < length l \<Longrightarrow> fold (\<lambda>i l. l[i := None]) is l ! j = None"
proof (induction "is" arbitrary: l)
  case (Cons i js)
  show ?case using Cons.prems Cons.IH [of "l[i := None]"] by (cases "i = j") simp_all
qed simp

lemma fold_clear_nth:
  "j \<in> set is \<Longrightarrow> j < length l \<Longrightarrow> fold (\<lambda>i l. l[i := None]) is l ! j = None"
proof (induction "is" arbitrary: l)
  case (Cons i js)
  show ?case
    using Cons.prems Cons.IH [of "l[i := None]"] fold_clear_keep [of "l[i := None]" j js]
    by (cases "i = j") simp_all
qed simp

lemma uninit_urbs_free:
  assumes "uvc_inv s"
  shows "urbs_free (myuvc_uninit_urbs E s)"
proof -
  have "length (q_urb (myuvc_queue s)) = 32" "length (q_urb_buffer (myuvc_queue s)) = 32"
    using assms by (simp_all add: uvc_inv_def queue_inv_def)
  then show ?thesis
    by (auto simp: urbs_free_def myuvc_uninit_urbs_def fold_uninit_arrays MYUVC_URBS_def intro!: fold_clear_nth)
qed

text \<open>
  A URB as \<open>alloc_init_urbs\<close> sets it up: its packets are the consecutive slots of its buffer.
\<close>

definition urb_ready :: "int \<Rightarrow> u8 list \<Rightarrow> urb \<Rightarrow> bool" where
  "urb_ready n b u \<longleftrightarrow> urb_transfer_buffer u = b \<and> urb_number_of_packets u = n \<and>
     urb_endpoint u = myuvc_bEndpointAddress \<and> length (urb_iso_frame_desc u) = nat n \<and>
     (\<forall>j<nat n. unat (iso_offset (urb_iso_frame_desc u ! j)) = j * unat wMaxPacketSize \<and>
        unat (iso_length (urb_iso_frame_desc u ! j)) = unat wMaxPacketSize \<and>
        unat (iso_offset (urb_iso_frame_desc u ! j)) + unat (iso_length (urb_iso_frame_desc u ! j)) \<le> length b)"

lemma DIV_ROUND_UP_800: "0 \<le> sint (DIV_ROUND_UP n 800)"
proof -
  have "unat (DIV_ROUND_UP n 800) = unat (n + 800 - 1) div 800" by (simp add: DIV_ROUND_UP_def unat_div)
  also have "\<dots> \<le> 2 ^ 32 div 800" using unsigned_less [of "n + 800 - 1", where 'a = nat] by (intro div_le_mono) simp
  finally have "unat (DIV_ROUND_UP n 800) < 2 ^ 31" by simp
  then show ?thesis using sint_small [of "DIV_ROUND_UP n 800"] by simp
qed

lemma urb_npackets_range: "0 \<le> urb_npackets n \<and> urb_npackets n \<le> 32"
  using DIV_ROUND_UP_800 [of n] by (simp add: urb_npackets_def wMaxPacketSize_def Let_def)

lemma urb_size_eq:
  "0 \<le> n \<Longrightarrow> n \<le> 32 \<Longrightarrow> unat (ucast wMaxPacketSize * of_int n :: u32) = 800 * nat n"
proof -
  assume n: "0 \<le> n" "n \<le> 32"
  from n(1) obtain k where "n = int k" by (rule nonneg_int_cases)
  then show ?thesis using n by (simp add: wMaxPacketSize_def unat_word_ariths unat_of_nat)
qed

lemma init_urb_ready:
  assumes n: "0 \<le> n" "n \<le> 32" and b: "length b = 800 * nat n"
  shows "urb_ready n b (init_urb sz wMaxPacketSize n (Some b) u)"
proof -
  have "unat (of_nat j * (800 :: u32)) = j * 800 \<and> j * 800 + 800 \<le> 800 * nat n" if "j < nat n" for j
    using that n by (simp add: unat_word_ariths unat_of_nat)
  then show ?thesis using b by (simp add: urb_ready_def init_urb_def wMaxPacketSize_def)
qed

lemma alloc_urbs_keep:
  "j \<notin> set is \<Longrightarrow> alloc_urbs E sz n is s = (r, s') \<Longrightarrow>
     q_urb (myuvc_queue s') ! j = q_urb (myuvc_queue s) ! j \<and>
     q_urb_buffer (myuvc_queue s') ! j = q_urb_buffer (myuvc_queue s) ! j"
proof (induction "is" arbitrary: s)
  case (Cons i js)
  obtain b w where b: "usb_buffer_alloc E sz (world s) = (b, w)" by fastforce
  obtain u w' where u: "usb_alloc_urb E n w = (u, w')" by fastforce
  let ?s = "upd_queue (\<lambda>q. q\<lparr>q_urb_buffer := (q_urb_buffer q)[i := b], q_urb := (q_urb q)[i := u]\<rparr>) (s\<lparr>world := w'\<rparr>)"
  show ?case using Cons.prems Cons.IH [of ?s] b u by (auto simp: Let_def upd_queue_def split: if_splits)
qed simp

lemma alloc_urbs_ok:
  assumes E: "env_ok E"
  shows "alloc_urbs E sz n is s = (True, s') \<Longrightarrow> distinct is \<Longrightarrow>
    \<forall>i\<in>set is. i < length (q_urb (myuvc_queue s)) \<and> i < length (q_urb_buffer (myuvc_queue s)) \<Longrightarrow>
    \<forall>i\<in>set is. \<exists>b u. q_urb_buffer (myuvc_queue s') ! i = Some b \<and> length b = unat sz \<and>
      q_urb (myuvc_queue s') ! i = Some u"
proof (induction "is" arbitrary: s)
  case (Cons i js)
  obtain b w where b: "usb_buffer_alloc E sz (world s) = (b, w)" by fastforce
  obtain u w' where u: "usb_alloc_urb E n w = (u, w')" by fastforce
  let ?s = "upd_queue (\<lambda>q. q\<lparr>q_urb_buffer := (q_urb_buffer q)[i := b], q_urb := (q_urb q)[i := u]\<rparr>) (s\<lparr>world := w'\<rparr>)"
  obtain b' u' where bu: "b = Some b'" "u = Some u'" and r: "alloc_urbs E sz n js ?s = (True, s')"
    using Cons.prems(1) b u by (auto simp: Let_def split: if_splits)
  have "length b' = unat sz" using b bu usb_buffer_alloc_length [OF E] by auto
  moreover have "q_urb (myuvc_queue s') ! i = u" "q_urb_buffer (myuvc_queue s') ! i = b"
    using alloc_urbs_keep [OF _ r, of i] Cons.prems by (simp_all add: upd_queue_def)
  ultimately show ?case using bu Cons.IH [OF r] Cons.prems by (auto simp: upd_queue_def)
qed simp

lemma init_urbs_nth:
  "distinct is \<Longrightarrow> \<forall>i\<in>set is. i < length (q_urb q) \<Longrightarrow>
     q_urb_buffer (init_urbs sz p n is q) = q_urb_buffer q \<and>
     q_urb (init_urbs sz p n is q) ! j =
       (if j \<in> set is then map_option (init_urb sz p n (q_urb_buffer q ! j)) (q_urb q ! j) else q_urb q ! j)"
proof (induction "is" arbitrary: q)
  case (Cons i js)
  let ?q = "q\<lparr>q_urb := (q_urb q)[i := map_option (init_urb sz p n (q_urb_buffer q ! i)) (q_urb q ! i)]\<rparr>"
  have "init_urbs sz p n (i # js) q = init_urbs sz p n js ?q" by (simp add: init_urbs_def)
  then show ?case using Cons.IH [of ?q] Cons.prems by (cases "j = i") simp_all
qed (simp add: init_urbs_def)

lemma alloc_init_urbs_ready:
  assumes E: "env_ok E" and inv: "uvc_inv s" and r: "myuvc_alloc_init_urbs E s = (0, s')" and i: "i < MYUVC_URBS"
  shows "\<exists>b u. q_urb_buffer (myuvc_queue s') ! i = Some b \<and> q_urb (myuvc_queue s') ! i = Some u \<and>
    urb_ready (urb_npackets (dwMaxVideoFrameSize (myuvc_params s))) b u"
proof -
  let ?n = "urb_npackets (dwMaxVideoFrameSize (myuvc_params s))"
  let ?sz = "ucast wMaxPacketSize * of_int ?n :: u32"
  let ?s1 = "upd_queue (\<lambda>q. q\<lparr>q_urb_size := ?sz\<rparr>) s"
  note n = urb_npackets_range [of "dwMaxVideoFrameSize (myuvc_params s)"]
  obtain s2 where a: "alloc_urbs E ?sz ?n [0..<MYUVC_URBS] ?s1 = (True, s2)"
    and s': "s' = upd_queue (init_urbs ?sz wMaxPacketSize ?n [0..<MYUVC_URBS]) s2"
    using r by (auto simp: myuvc_alloc_init_urbs_def Let_def split: prod.splits bool.splits)
  have len: "length (q_urb (myuvc_queue s)) = 32" "length (q_urb_buffer (myuvc_queue s)) = 32"
    using inv by (simp_all add: uvc_inv_def queue_inv_def)
  have "\<forall>i\<in>set [0..<MYUVC_URBS]. i < length (q_urb (myuvc_queue ?s1)) \<and> i < length (q_urb_buffer (myuvc_queue ?s1))"
    using len by (simp add: upd_queue_def MYUVC_URBS_def)
  from bspec [OF alloc_urbs_ok [OF E a _ this], of i] i obtain b u where
    bu: "q_urb_buffer (myuvc_queue s2) ! i = Some b" "length b = 800 * nat ?n" "q_urb (myuvc_queue s2) ! i = Some u"
    using urb_size_eq [of ?n] n by auto
  have "urb_change ?s1 s2" using alloc_urbs_change [of ?s1 E ?sz ?n "[0..<MYUVC_URBS]"] a by simp
  then have "\<forall>i\<in>set [0..<MYUVC_URBS]. i < length (q_urb (myuvc_queue s2))"
    using len by (simp add: urb_change_def upd_queue_def MYUVC_URBS_def)
  from init_urbs_nth [OF _ this] bu i s'
  show ?thesis using init_urb_ready [OF _ _ bu(2), of ?sz u] n by (simp add: upd_queue_def)
qed

lemma alloc_init_urbs_fail:
  assumes inv: "uvc_inv s" and r: "myuvc_alloc_init_urbs E s = (r, s')" "r \<noteq> 0"
  shows "r = - ENOMEM \<and> urbs_free s'"
proof -
  let ?n = "urb_npackets (dwMaxVideoFrameSize (myuvc_params s))"
  let ?sz = "ucast wMaxPacketSize * of_int ?n :: u32"
  let ?s1 = "upd_queue (\<lambda>q. q\<lparr>q_urb_size := ?sz\<rparr>) s"
  obtain s2 where a: "alloc_urbs E ?sz ?n [0..<MYUVC_URBS] ?s1 = (False, s2)"
    and s': "s' = myuvc_uninit_urbs E s2" "r = - ENOMEM"
    using r by (auto simp: myuvc_alloc_init_urbs_def Let_def split: prod.splits bool.splits)
  have "urb_change ?s1 s2" using alloc_urbs_change [of ?s1 E ?sz ?n "[0..<MYUVC_URBS]"] a by simp
  then have "uvc_inv s2"
    using urb_change_inv [OF _ inv] urb_change_trans urb_change_size [OF urb_change_refl] by blast
  then show ?thesis using s' uninit_urbs_free by blast
qed

lemma submit_urbs_fail: "uvc_inv s \<Longrightarrow> submit_urbs E is s = (r, s') \<Longrightarrow> r \<noteq> 0 \<Longrightarrow> r < 0 \<and> urbs_free s'"
proof (induction "is" arbitrary: s)
  case (Cons i js)
  obtain ret w where u: "usb_submit_urb E (q_urb (myuvc_queue s) ! i) (world s) = (ret, w)" by fastforce
  have "uvc_inv (s\<lparr>world := w\<rparr>)" using Cons.prems(1) by (simp add: uvc_inv_def)
  then show ?case
    using Cons.prems Cons.IH [of "s\<lparr>world := w\<rparr>"] u uninit_urbs_free [of "s\<lparr>world := w\<rparr>" E]
    by (auto simp: Let_def split: if_splits)
qed simp

lemma submit_urbs_ok:
  assumes E: "env_ok E"
  shows "submit_urbs E is s = (0, s') \<Longrightarrow> myuvc_queue s' = myuvc_queue s \<and>
    (\<forall>i\<in>set is. q_urb (myuvc_queue s) ! i \<noteq> None)"
proof (induction "is" arbitrary: s)
  case (Cons i js)
  obtain ret w where u: "usb_submit_urb E (q_urb (myuvc_queue s) ! i) (world s) = (ret, w)" by fastforce
  moreover have "ret = - EINVAL" if "q_urb (myuvc_queue s) ! i = None"
    using usb_submit_urb_null [OF E, of "world s"] u that by simp
  ultimately show ?case
    using Cons.prems Cons.IH [of "s\<lparr>world := w\<rparr>"] by (auto simp: Let_def split: if_splits)
qed simp

section \<open>Properties\<close>

text \<open>
  C10: Negotiation.  If the camera answers GET\_CUR on the probe control, the parameter block that
  the driver then commits is, byte for byte, the block the camera returned: decoding and encoding
  lose nothing.
\<close>

theorem negotiation_commits_probe_answer:
  assumes E: "env_ok E" and t: "snd (myuvc_try_streaming_params E s) = s1"
    and k: "kmalloc E 26 (world s1) = (Some d, w)"
    and g: "usb_control_msg E 0x81 0xA1 0x100 (myuvc_streaming_intf s1) d w = (ret, d', w')" "0 \<le> ret"
    and z: "kmalloc E 26 w' = (Some z, w'')"
  shows "world (negotiate E s) = snd (snd (usb_control_msg E 0x01 0x21 0x200 (myuvc_streaming_intf s1) d' w''))"
proof -
  have rt: "request_type 0x81 = 0xA1" "request_type 0x01 = 0x21" by (simp_all add: request_type_def)
  have k': "kmalloc E params_size (world s1) = (Some d, w)" using k by simp
  have g': "usb_control_msg E GET_CUR (request_type GET_CUR) (push_bit 8 VS_PROBE_CONTROL)
      (push_bit 8 0 OR myuvc_streaming_intf s1) d w = (ret, d', w')" using g(1) by (simp add: rt)
  show ?thesis
    using get_params_block [OF E k' g' g(2)] z t
    by (simp add: negotiate_def myuvc_set_streaming_params_def send_params_def kzalloc_def rt split: prod.split)
qed

theorem negotiation_commits_probe_answer_witness:
  "world (negotiate demo_env uvc_demo) = [1, 0, 1, 2, 0x15, 0x16, 5, 0, 0, 0, 0, 0, 0, 0, 0, 0, 0, 0, 0, 0, 0, 0, 0, 0, 0, 0]"
proof -
  let ?d = "[1, 0, 1, 2, 0x15, 0x16, 5, 0, 0, 0, 0, 0, 0, 0, 0, 0, 0, 0, 0, 0, 0, 0, 0, 0, 0, 0 :: u8]"
  have t: "world (snd (myuvc_try_streaming_params demo_env uvc_demo)) = ?d"
    by (simp add: myuvc_try_streaming_params_def send_params_def kzalloc_def demo_env_def encode_params_def
        put_le16_def put_le32_def frame_idx_def request_type_def bit_numeral_rec)
  show ?thesis
    using negotiation_commits_probe_answer [OF demo_env_ok refl, of uvc_demo "replicate 26 0xAA" _ 26 ?d _ "replicate 26 0xAA"] t
    by (simp add: demo_env_def bit_numeral_rec numeral_eq_Suc)
qed



end
