(* ===== verification/Uvc_Ctrl.thy ===== *)
theory Uvc_Ctrl
  imports Uvc_Stream
begin

text \<open>
  The brightness control of the UVC driver: the bit-field codec \<open>get_le_value\<close> /
  \<open>set_le_value\<close> and the ioctls \<open>queryctrl\<close>, \<open>g_ctrl\<close>, \<open>s_ctrl\<close>.  The codec loops run over
  the bytes of the data buffer; reading past its end is a fault.
\<close>

section \<open>Operations\<close>

text \<open>
  \<open>mask = (1 << bits) - 1\<close>, truncated to a byte.
\<close>

definition low_mask :: "int \<Rightarrow> int \<Rightarrow> u8" where
  "low_mask bits offset = of_int ((2 ^ nat bits - 1) * 2 ^ nat offset)"

fun get_le_loop :: "u8 list \<Rightarrow> int \<Rightarrow> int \<Rightarrow> u8 \<Rightarrow> s32 \<Rightarrow> s32 kres" where
  "get_le_loop [] bits offset msk value = (if bits > 0 then Inl OutOfBounds else Inr value)"
| "get_le_loop (d # ds) bits offset msk value =
     (if bits > 0 then
        let byte = ucast (d AND msk) :: s32;
            value' = value OR (if offset > 0 then drop_bit (nat offset) byte else push_bit (nat (- offset)) byte);
            bits' = bits - (8 - (if offset > 0 then offset else 0))
        in get_le_loop ds bits' (offset - 8) (low_mask bits' 0) value'
      else Inr value)"

definition myuvc_get_le_value :: "u8 list \<Rightarrow> s32 kres" where
  "myuvc_get_le_value data =
     kbind (get_le_loop data 16 0 (low_mask 16 0) 0) (\<lambda>value.
       Inr (value OR - (value AND push_bit 15 1)))"

text \<open>
  \<open>value >>= ...\<close> is the arithmetic shift of a signed integer.
\<close>

fun set_le_loop :: "u8 list \<Rightarrow> int \<Rightarrow> int \<Rightarrow> s32 \<Rightarrow> u8 list kres" where
  "set_le_loop [] bits offset value = (if bits > 0 then Inl OutOfBounds else Inr [])"
| "set_le_loop (d # ds) bits offset value =
     (if bits > 0 then
        let msk = low_mask bits offset;
            d' = (d AND NOT msk) OR (ucast (push_bit (nat offset) value) AND msk);
            value' = signed_drop_bit (if offset \<noteq> 0 then nat offset else 8) value
        in kbind (set_le_loop ds (bits - (8 - offset)) 0 value') (\<lambda>ds'. Inr (d' # ds'))
      else Inr (d # ds))"

definition myuvc_set_le_value :: "s32 \<Rightarrow> u8 list \<Rightarrow> u8 list kres" where
  "myuvc_set_le_value value data = set_le_loop data 16 0 value"

abbreviation (input) PU_BRIGHTNESS_CONTROL :: u16 where "PU_BRIGHTNESS_CONTROL \<equiv> 2"

text \<open>
  One transfer of the brightness control: two bytes from or to the processing unit.
\<close>

definition brightness_msg ::
    "'w usb_env \<Rightarrow> u8 \<Rightarrow> u8 \<Rightarrow> u8 list \<Rightarrow> 'w uvc \<Rightarrow> int \<times> u8 list \<times> 'w uvc" where
  "brightness_msg E req dir data s =
     (case usb_control_msg E req ((USB_TYPE_CLASS OR USB_RECIP_INTERFACE) OR dir)
             (push_bit 8 PU_BRIGHTNESS_CONTROL) (push_bit 8 ProcessingUnitID OR myuvc_control_intf s)
             data (world s) of
        (ret, data', w) \<Rightarrow> (ret, data', s\<lparr>world := w\<rparr>))"

text \<open>
  One of the four queries of \<open>queryctrl\<close>: store the value, or give up with \<open>-EIO\<close>.
\<close>

definition query_step ::
    "'w usb_env \<Rightarrow> u8 \<Rightarrow> (s32 \<Rightarrow> v4l2_queryctrl \<Rightarrow> v4l2_queryctrl) \<Rightarrow>
     int \<times> u8 list \<times> v4l2_queryctrl \<times> 'w uvc \<Rightarrow> (int \<times> u8 list \<times> v4l2_queryctrl \<times> 'w uvc) kres" where
  "query_step E req store st = (case st of (ret, data, ctrl, s) \<Rightarrow>
     if ret \<noteq> 0 then Inr st
     else case brightness_msg E req USB_DIR_IN data s of (n, data', s') \<Rightarrow>
       if n \<noteq> 2 then Inr (- EIO, data', ctrl, s')
       else kbind (myuvc_get_le_value data') (\<lambda>v. Inr (0, data', store v ctrl, s')))"

definition myuvc_vidioc_queryctrl ::
    "'w usb_env \<Rightarrow> v4l2_queryctrl \<Rightarrow> 'w uvc \<Rightarrow> (int \<times> v4l2_queryctrl \<times> 'w uvc) kres" where
  "myuvc_vidioc_queryctrl E ctrl s =
     (if qc_id ctrl \<noteq> V4L2_CID_BRIGHTNESS then Inr (- EINVAL, ctrl, s)
      else
        let c = \<lparr>qc_id = V4L2_CID_BRIGHTNESS, qc_type = V4L2_CTRL_TYPE_INTEGER, qc_name = ''MyUVC_BRIGHTNESS'',
                 qc_minimum = 0, qc_maximum = 0, qc_step = 0, qc_default_value = 0, qc_flags = 0\<rparr>
        in kbind (query_step E GET_MIN (\<lambda>v c. c\<lparr>qc_minimum := v\<rparr>) (0, [0, 0], c, s)) (\<lambda>st1.
           kbind (query_step E GET_MAX (\<lambda>v c. c\<lparr>qc_maximum := v\<rparr>) st1) (\<lambda>st2.
           kbind (query_step E GET_RES (\<lambda>v c. c\<lparr>qc_step := v\<rparr>) st2) (\<lambda>st3.
           kbind (query_step E GET_DEF (\<lambda>v c. c\<lparr>qc_default_value := v\<rparr>) st3) (\<lambda>(ret, data, c', s').
             Inr (ret, c', s'))))))"

text \<open>
  The two bytes on the stack are not initialised: \<open>junk\<close>.
\<close>

definition myuvc_vidioc_g_ctrl ::
    "'w usb_env \<Rightarrow> u8 list \<Rightarrow> v4l2_control \<Rightarrow> 'w uvc \<Rightarrow> (int \<times> v4l2_control \<times> 'w uvc) kres" where
  "myuvc_vidioc_g_ctrl E junk ctrl s =
     (if c_id ctrl \<noteq> V4L2_CID_BRIGHTNESS then Inr (- EINVAL, ctrl, s)
      else case brightness_msg E GET_CUR USB_DIR_IN junk s of (n, data, s') \<Rightarrow>
        if n \<noteq> 2 then Inr (- EIO, ctrl, s')
        else kbind (myuvc_get_le_value data) (\<lambda>v. Inr (0, ctrl\<lparr>c_value := v\<rparr>, s')))"

definition myuvc_vidioc_s_ctrl ::
    "'w usb_env \<Rightarrow> u8 list \<Rightarrow> v4l2_control \<Rightarrow> 'w uvc \<Rightarrow> (int \<times> 'w uvc) kres" where
  "myuvc_vidioc_s_ctrl E junk ctrl s =
     (if c_id ctrl \<noteq> V4L2_CID_BRIGHTNESS then Inr (- EINVAL, s)
      else kbind (myuvc_set_le_value (c_value ctrl) junk) (\<lambda>data.
        case brightness_msg E SET_CUR USB_DIR_OUT data s of (n, data', s') \<Rightarrow>
          Inr (if n \<noteq> 2 then - EIO else 0, s')))"

section \<open>The codec\<close>

lemma low_mask_bits [simp]: "low_mask 16 0 = 0xFF" "low_mask 8 0 = 0xFF"
  by (simp_all add: low_mask_def)

lemma and_ff [simp]: "(w :: u8) AND 0xFF = w" "(- 256 :: u8) = 0"
proof -
  have m: "(0xFF :: u8) = mask 8" by (simp add: mask_eq_exp_minus_1)
  show "w AND 0xFF = w" unfolding m by (rule bit_word_eqI) (auto simp: bit_simps)
qed simp

lemma set_le_value_two:
  "myuvc_set_le_value v [x, y] = Inr [ucast v, ucast (signed_drop_bit 8 v)]"
  by (simp add: myuvc_set_le_value_def Let_def)

lemma get_le_value_two:
  "myuvc_get_le_value [a, b] =
     (let w = ucast a OR push_bit 8 (ucast b) :: s32 in Inr (w OR - (w AND push_bit 15 1)))"
  by (simp add: myuvc_get_le_value_def Let_def)

lemma sign_bit:
  "- ((w :: s32) AND push_bit 15 1) = (if bit w 15 then NOT (mask 15) else 0)"
proof -
  have e: "bit (2 ^ 15 :: s32) n \<longleftrightarrow> n = 15" for n by (simp only: bit_exp_iff) auto
  have "push_bit 15 1 = (2 ^ 15 :: s32)" by simp
  then have "w AND push_bit 15 1 = (if bit w 15 then 2 ^ 15 else 0)"
    by (intro bit_word_eqI) (auto simp only: bit_and_iff e bit_0_eq split: if_split)
  then show ?thesis by (simp only: minus_exp_eq_not_mask if_distrib [of uminus] minus_zero)
qed

text \<open>
  Reading gives the two bytes as a signed 16-bit integer.
\<close>

lemma get_le_value_signed:
  "myuvc_get_le_value [a, b] = Inr (scast (ucast a OR push_bit 8 (ucast b) :: u16))"
proof -
  let ?w = "ucast a OR push_bit 8 (ucast b) :: s32" and ?h = "ucast a OR push_bit 8 (ucast b) :: u16"
  have a: "bit a k \<Longrightarrow> k < 8" and b: "bit b k \<Longrightarrow> k < 8" for k
    using bit_imp_le_length [of a k] bit_imp_le_length [of b k] by simp_all
  have s15: "bit ?w 15 = bit b 7" by (auto simp: bit_simps dest: a)
  have "?w OR (if bit ?w 15 then NOT (mask 15) else 0) = scast ?h"
  proof (rule bit_word_eqI)
    fix n assume "n < LENGTH(32)"
    then consider "n < 8" | "8 \<le> n" "n < 15" | "n = 15" | "15 < n" by fastforce
    then show "bit (?w OR (if bit ?w 15 then NOT (mask 15) else 0)) n = bit (scast ?h :: s32) n"
      unfolding s15 using \<open>n < LENGTH(32)\<close> by cases (auto simp: bit_simps dest: a b)
  qed
  then show ?thesis by (simp only: get_le_value_two Let_def sign_bit)
qed

lemma set_get_le_value:
  "kbind (myuvc_set_le_value v [x, y]) myuvc_get_le_value = Inr (scast (ucast v :: u16))"
proof -
  have "ucast (ucast v :: u8) OR push_bit 8 (ucast (ucast (signed_drop_bit 8 v) :: u8)) = (ucast v :: u16)"
    by (rule bit_word_eqI) (auto simp: bit_simps)
  then show ?thesis by (simp add: set_le_value_two get_le_value_signed)
qed

lemma scast_ucast_small:
  fixes v :: s32
  assumes "- (2 ^ 15) \<le> sint v" "sint v < 2 ^ 15"
  shows "scast (ucast v :: u16) = v"
proof -
  have "sint (ucast v :: u16) = signed_take_bit 15 (uint v)" by (simp add: sint_uint unsigned_ucast_eq signed_take_bit_take_bit)
  also have "\<dots> = signed_take_bit 15 (sint v)" by (simp add: sint_uint)
  also have "\<dots> = sint v" using assms by (intro signed_take_bit_int_eq_self) simp_all
  finally show ?thesis by (metis of_int_sint scast_id)
qed

section \<open>Properties\<close>

text \<open>
  Brightness codec.  Storing a value into the two data bytes, whatever they held before,
  and reading it back gives the value reduced to a signed 16-bit integer; for values in that
  range it is the value itself.
\<close>

lemma brightness_roundtrip:
  "kbind (myuvc_set_le_value v [x, y]) myuvc_get_le_value = Inr (scast (ucast v :: u16)) \<and>
   (- (2 ^ 15) \<le> sint v \<and> sint v < 2 ^ 15 \<longrightarrow>
     kbind (myuvc_set_le_value v [x, y]) myuvc_get_le_value = Inr v)"
  using set_get_le_value [of v x y] scast_ucast_small [of v] by simp

text \<open>
  C12: Setting the brightness.  A request for another control is refused; otherwise the driver sends exactly
  one SET\_CUR request for the brightness control of processing unit 3 whose two bytes are the
  little-endian value, independent of the uninitialised stack bytes, and reports \<open>-EIO\<close> unless
  both bytes were transferred.
\<close>

theorem s_ctrl_correct:
  assumes "length junk = 2"
  shows "myuvc_vidioc_s_ctrl E junk ctrl s =
    (if c_id ctrl \<noteq> V4L2_CID_BRIGHTNESS then Inr (- EINVAL, s)
     else case usb_control_msg E 0x01 0x21 0x200 (0x300 OR myuvc_control_intf s)
            [ucast (c_value ctrl), ucast (drop_bit 8 (c_value ctrl))] (world s) of
       (n, d, w) \<Rightarrow> Inr (if n = 2 then 0 else - EIO, s\<lparr>world := w\<rparr>))"
proof -
  obtain x y where j: "junk = [x, y]" using assms by (auto simp: numeral_2_eq_2 length_Suc_conv)
  have "ucast (signed_drop_bit 8 v) = (ucast (drop_bit 8 v) :: u8)" for v :: s32
    by (rule bit_word_eqI) (auto simp: bit_simps)
  then show ?thesis
    by (simp add: myuvc_vidioc_s_ctrl_def j set_le_value_two brightness_msg_def ProcessingUnitID_def split: prod.split)
qed

theorem s_ctrl_correct_witness:
  "myuvc_vidioc_s_ctrl demo_env [1, 2] \<lparr>c_id = 0x00980900, c_value = 0x1234\<rparr> uvc_demo =
     Inr (0, uvc_demo\<lparr>world := [0x34, 0x12]\<rparr>)"
  using s_ctrl_correct [of "[1, 2]" demo_env "\<lparr>c_id = 0x00980900, c_value = 0x1234\<rparr>" uvc_demo]
  by (simp add: demo_env_def bit_numeral_rec)

end
