(* ===== verification/Uvc_Driver.thy ===== *)
theory Uvc_Driver
  imports Uvc_Ctrl
begin

text \<open>
  Probe and disconnect of the UVC driver, and the driver as a transition system: one step is
  one call of a handler by the kernel.  The invariant holds in every reachable state.
\<close>

section \<open>Probe and disconnect\<close>

text \<open>
  \<open>alloc_ok\<close> says whether \<open>video_device_alloc\<close> gave a device; the code uses the result
  unchecked.  The interfaces are told apart by the order of the calls.
\<close>

definition myuvc_probe ::
    "'w usb_env \<Rightarrow> bool \<Rightarrow> u16 \<Rightarrow> u16 \<Rightarrow> 'w uvc \<Rightarrow> (int \<times> 'w uvc) kres" where
  "myuvc_probe E alloc_ok idVendor bInterfaceNumber s =
     (let cnt = probe_cnt s + 1;
          s1 = s\<lparr>udev_idVendor := idVendor, probe_cnt := cnt\<rparr>;
          s2 = (if cnt = 1 then s1\<lparr>myuvc_control_intf := bInterfaceNumber\<rparr>
                else if cnt = 2 then s1\<lparr>myuvc_streaming_intf := bInterfaceNumber\<rparr> else s1)
      in if cnt = 2
         then if alloc_ok then Inr (0, negotiate E (s2\<lparr>myuvc_vdev := True\<rparr>)) else Inl NullDeref
         else Inr (0, s2))"

definition myuvc_disconnect :: "'w uvc \<Rightarrow> 'w uvc" where
  "myuvc_disconnect s =
     (let cnt = disconnect_cnt s + 1; s1 = s\<lparr>disconnect_cnt := cnt\<rparr>
      in if cnt = 2 then s1\<lparr>myuvc_vdev := False\<rparr> else s1)"

section \<open>The transition system\<close>

inductive uvc_step :: "'w usb_env \<Rightarrow> 'w uvc \<Rightarrow> 'w uvc \<Rightarrow> bool" for E :: "'w usb_env" where
  s_fmt: "myuvc_vidioc_s_fmt_vid_cap f s = (ret, f', s') \<Longrightarrow> uvc_step E s s'"
| reqbufs: "myuvc_vidioc_reqbufs E p s = Inr (ret, s') \<Longrightarrow> uvc_step E s s'"
| qbuf: "myuvc_vidioc_qbuf v s = Inr (ret, s') \<Longrightarrow> uvc_step E s s'"
| dqbuf: "myuvc_vidioc_dqbuf v s = Inr (ret, v', s') \<Longrightarrow> uvc_step E s s'"
| mmap: "myuvc_mmap E vma s = Inr (Some (ret, vma', s')) \<Longrightarrow> uvc_step E s s'"
| vm_open: "uvc_step E s (myuvc_vm_open i s)"
| vm_close: "uvc_step E s (myuvc_vm_close i s)"
| streamon: "myuvc_vidioc_streamon E s = (ret, s') \<Longrightarrow> uvc_step E s s'"
| streamoff: "myuvc_vidioc_streamoff E s = (ret, s') \<Longrightarrow> uvc_step E s s'"
| close: "myuvc_close E s = (ret, s') \<Longrightarrow> uvc_step E s s'"
| queryctrl: "myuvc_vidioc_queryctrl E ctrl s = Inr (ret, ctrl', s') \<Longrightarrow> uvc_step E s s'"
| g_ctrl: "myuvc_vidioc_g_ctrl E junk c s = Inr (ret, c', s') \<Longrightarrow> uvc_step E s s'"
| s_ctrl: "myuvc_vidioc_s_ctrl E junk c s = Inr (ret, s') \<Longrightarrow> uvc_step E s s'"
| complete: "myuvc_video_complete E urb s = Inr s' \<Longrightarrow> uvc_step E s s'"
| probe: "myuvc_probe E ok vendor intf s = Inr (ret, s') \<Longrightarrow> uvc_step E s s'"
| disconnect: "uvc_step E s (myuvc_disconnect s)"

inductive uvc_reachable :: "'w usb_env \<Rightarrow> 'w uvc \<Rightarrow> bool" for E :: "'w usb_env" where
  init: "uvc_reachable E (uvc_init_state w)"
| step: "uvc_reachable E s \<Longrightarrow> uvc_step E s s' \<Longrightarrow> uvc_reachable E s'"

section \<open>Preservation\<close>

lemma qbuf_inv:
  assumes "uvc_inv s" "myuvc_vidioc_qbuf v s = Inr (ret, s')"
  shows "uvc_inv s'"
proof -
  have q: "queue_inv (myuvc_queue s)" using assms(1) by (simp add: uvc_inv_def)
  show ?thesis
  proof (cases "qbuf_valid v (myuvc_queue s)")
    case True
    then show ?thesis using assms qbuf_accepted [OF q True] queue_inv_put [OF q True] by (auto simp: uvc_inv_def)
  next
    case False
    then show ?thesis using assms qbuf_refused [OF q False] by simp
  qed
qed

lemma dqbuf_inv:
  assumes inv: "uvc_inv s" and r: "myuvc_vidioc_dqbuf v s = Inr (ret, v', s')"
  shows "uvc_inv s'"
proof -
  have q: "queue_inv (myuvc_queue s)" using inv by (simp add: uvc_inv_def)
  then show ?thesis
  proof (cases rule: queue_inv_cases)
    case unset
    then show ?thesis using r dqbuf_unset [OF unset(3), of v] by simp
  next
    case (set m)
    show ?thesis
    proof (cases "uq_filled (myuvc_queue s)")
      case Nil
      then show ?thesis using r inv dqbuf_not_filled [of s m _ v] set(2) by simp
    next
      case (Cons i fs)
      then show ?thesis
        using r inv dqbuf_filled [of s m i fs _ v] set(2) queue_inv_take [OF q Cons] by (auto simp: uvc_inv_def)
    qed
  qed
qed

lemma queue_inv_vma:
  assumes "\<And>b. mb_buf (f b) = mb_buf b \<and> mb_state (f b) = mb_state b" "queue_inv q"
  shows "queue_inv (q\<lparr>q_buffer := upd_nth i f (q_buffer q)\<rparr>)"
proof -
  have "mb_buf (upd_nth i f l ! j) = mb_buf (l ! j) \<and> mb_state (upd_nth i f l ! j) = mb_state (l ! j)"
    for l j using assms(1) by (cases "i < length l"; cases "j = i") (simp_all add: upd_nth_def list_update_beyond)
  then have "buffer_ok j (upd_nth i f l ! j) = buffer_ok j (l ! j)"
    "phase_ok fs ps j (upd_nth i f l ! j) = phase_ok fs ps j (l ! j)" for l j fs ps
    by (simp_all add: buffer_ok_def phase_ok_def)
  then show ?thesis
    using assms(2) by (auto simp: queue_inv_def live_def uq_filled_def uq_pending_def split: option.splits)
qed

lemma vm_open_inv: "uvc_inv s \<Longrightarrow> uvc_inv (myuvc_vm_open i s)"
  by (simp add: myuvc_vm_open_def uvc_inv_def queue_inv_vma)

lemma vm_close_inv: "uvc_inv s \<Longrightarrow> uvc_inv (myuvc_vm_close i s)"
  by (simp add: myuvc_vm_close_def uvc_inv_def queue_inv_vma)

lemma uvc_inv_frame [simp]:
  "uvc_inv (s\<lparr>world := w\<rparr>) = uvc_inv s" "uvc_inv (s\<lparr>udev_idVendor := v\<rparr>) = uvc_inv s"
  "uvc_inv (s\<lparr>probe_cnt := c\<rparr>) = uvc_inv s" "uvc_inv (s\<lparr>disconnect_cnt := c\<rparr>) = uvc_inv s"
  "uvc_inv (s\<lparr>myuvc_control_intf := n\<rparr>) = uvc_inv s" "uvc_inv (s\<lparr>myuvc_streaming_intf := n\<rparr>) = uvc_inv s"
  "uvc_inv (s\<lparr>myuvc_vdev := x\<rparr>) = uvc_inv s"
  by (simp_all add: uvc_inv_def)

lemma mmap_inv:
  assumes inv: "uvc_inv s" and r: "myuvc_mmap E vma s = Inr (Some (ret, vma', s'))"
  shows "uvc_inv s'"
proof -
  obtain found where f: "mmap_find (myuvc_queue s) (vm_pgoff vma) [0..<unat (q_count (myuvc_queue s))] = Inr found"
    using r unfolding myuvc_mmap_def Let_def kbind_Inr_iff by blast
  show ?thesis
  proof (cases found)
    case None
    then show ?thesis using r f inv by (simp add: myuvc_mmap_def Let_def)
  next
    case (Some i)
    note r' = r [unfolded myuvc_mmap_def Let_def f Some kbind_simps option.case]
    show ?thesis
    proof (cases "vm_end vma - vm_start vma = q_buf_size (myuvc_queue s)")
      case True
      then show ?thesis
        using r' inv by (cases "get_buffer (myuvc_queue s) i")
          (auto split: option.split_asm prod.split_asm if_split_asm intro: vm_open_inv)
    next
      case False
      then show ?thesis using r' inv by simp
    qed
  qed
qed

lemma brightness_msg_inv: "brightness_msg E req dir d s = (n, d', s') \<Longrightarrow> uvc_inv s' = uvc_inv s"
  by (auto simp: brightness_msg_def split: prod.splits)

lemma query_step_inv:
  "query_step E req st (r, d, c, s) = Inr (r', d', c', s') \<Longrightarrow> uvc_inv s' = uvc_inv s"
  by (auto simp: query_step_def kbind_Inr_iff dest!: brightness_msg_inv split: if_splits prod.splits)

lemma queryctrl_inv:
  "myuvc_vidioc_queryctrl E c s = Inr (r, c', s') \<Longrightarrow> uvc_inv s' = uvc_inv s"
  by (auto simp: myuvc_vidioc_queryctrl_def Let_def kbind_Inr_iff dest!: query_step_inv split: if_splits)

lemma g_ctrl_inv: "myuvc_vidioc_g_ctrl E j c s = Inr (r, c', s') \<Longrightarrow> uvc_inv s' = uvc_inv s"
  by (auto simp: myuvc_vidioc_g_ctrl_def kbind_Inr_iff dest!: brightness_msg_inv split: if_splits prod.splits)

lemma s_ctrl_inv: "myuvc_vidioc_s_ctrl E j c s = Inr (r, s') \<Longrightarrow> uvc_inv s' = uvc_inv s"
  by (cases "myuvc_set_le_value (c_value c) j")
     (auto simp: myuvc_vidioc_s_ctrl_def dest!: brightness_msg_inv split: if_split_asm prod.split_asm)

lemma probe_inv: "uvc_inv s \<Longrightarrow> myuvc_probe E ok v n s = Inr (r, s') \<Longrightarrow> uvc_inv s'"
  by (auto simp: myuvc_probe_def Let_def intro: urb_change_inv [OF negotiate_change] split: if_splits)

lemma s_fmt_inv: "uvc_inv s \<Longrightarrow> myuvc_vidioc_s_fmt_vid_cap f s = (r, g, s') \<Longrightarrow> uvc_inv s'"
  using s_fmt_format_ok [of s f r g s'] s_fmt_frame [of f s r g s']
  by (auto simp: uvc_inv_def myuvc_vidioc_s_fmt_vid_cap_def split: prod.splits if_splits)

lemma uvc_step_inv:
  assumes E: "env_ok E" and st: "uvc_step E s s'" and inv: "uvc_inv s"
  shows "uvc_inv s'"
  using st
proof (cases rule: uvc_step.cases)
  case (streamon ret)
  then show ?thesis using urb_change_inv [OF streamon_change inv, of E] by simp
next
  case (streamoff ret)
  then show ?thesis using urb_change_inv [OF streamoff_change inv, of E] by simp
next
  case (close ret)
  then show ?thesis using urb_change_inv [OF streamoff_change inv, of E] by (simp add: myuvc_close_def)
next
  case disconnect
  then show ?thesis using inv by (simp add: myuvc_disconnect_def Let_def)
qed (auto simp: inv queryctrl_inv g_ctrl_inv s_ctrl_inv vm_open_inv [OF inv] vm_close_inv [OF inv]
      dest: s_fmt_inv [OF inv] reqbufs_inv [OF E inv] qbuf_inv [OF inv] dqbuf_inv [OF inv] mmap_inv [OF inv]
        video_complete_inv [OF E inv] probe_inv [OF inv])

lemma uvc_reachable_inv:
  assumes E: "env_ok E" and r: "uvc_reachable E s"
  shows "uvc_inv s"
  using r by (induction rule: uvc_reachable.induct) (auto simp: uvc_inv_init intro: uvc_step_inv [OF E])

section \<open>Properties\<close>

lemma kmalloc_total_demo: "kmalloc_total demo_env"
  by (simp add: kmalloc_total_def demo_env_def)

text \<open>
  The concrete state is reached by \<open>s_fmt\<close>, \<open>reqbufs\<close> and two \<open>qbuf\<close>; here its first steps.
\<close>

definition demo_s_fmt :: "u8 list uvc" where
  "demo_s_fmt = (uvc_init_state [])\<lparr>myuvc_format := demo_format\<rparr>"

lemma demo_s_fmt_reachable: "uvc_reachable demo_env demo_s_fmt"
proof -
  have "myuvc_vidioc_s_fmt_vid_cap (demo_format\<lparr>f_pix := (f_pix demo_format)\<lparr>pf_sizeimage := 0\<rparr>\<rparr>)
      (uvc_init_state []) = (0, demo_format, demo_s_fmt)"
    by (simp add: kdefs demo_format_def demo_s_fmt_def frames_def frame_idx_def bBitsPerPixel_def
        maxVideoFrameSize_def Let_def)
  then show ?thesis by (meson uvc_reachable.init uvc_reachable.step uvc_step.s_fmt)
qed

text \<open>
  C4: The driver invariant.  Whatever sequence of ioctls, mappings, URB completions, probes and
  disconnects the kernel makes, the driver's data stay consistent: the buffers lie behind each
  other in the allocated block, the application's queue consists of the filled buffers followed
  by the buffers of the interrupt queue without duplicates, and the state of every buffer
  (idle, queued, active, done) says exactly which of the two it is in.
\<close>

theorem uvc_always_consistent:
  assumes "env_ok E" "uvc_reachable E s"
  shows "uvc_inv s"
  using assms by (rule uvc_reachable_inv)

theorem uvc_always_consistent_witness: "uvc_inv demo_s_fmt"
  by (rule uvc_always_consistent [OF demo_env_ok demo_s_fmt_reachable])



text \<open>
  The handler uses the current buffer before it tests it for null: whenever no buffer is
  pending, the first received packet makes it dereference a null pointer.
\<close>

lemma video_complete_null_buffer:
  assumes r: "env_ok E" "uvc_reachable E s" and p: "uq_pending (myuvc_queue s) = []"
    and u: "urb_status urb = 0" "0 < urb_number_of_packets urb" "urb_iso_frame_desc urb = d # ds" "0 \<le> iso_status d"
  shows "myuvc_video_complete E urb s = Inl NullDeref"
proof -
  have q: "queue_inv (myuvc_queue s)" using uvc_reachable_inv [OF r] by (simp add: uvc_inv_def)
  then have "next_buffer (myuvc_queue s) = None"
    by (cases rule: queue_inv_cases)
       (use p next_buffer_live [of "myuvc_queue s"] in
         \<open>auto simp: next_buffer_def list_empty_def list_first_entry_def\<close>)
  moreover obtain n where "nat (urb_number_of_packets urb) = Suc n" using u(2) by (cases "nat (urb_number_of_packets urb)") auto
  ultimately show ?thesis using u by (simp add: myuvc_video_complete_def video_packet_def)
qed

text \<open>
  The interface counters of probe and disconnect are never reset, so a camera that is
  plugged in again after its two interfaces were probed once is not set up: no third or later
  probe registers a video device or learns an interface number.
\<close>

lemma probe_only_once:
  assumes "2 \<le> probe_cnt s" "myuvc_probe E ok vendor intf s = Inr (ret, s')"
  shows "ret = 0 \<and> myuvc_vdev s' = myuvc_vdev s \<and> myuvc_control_intf s' = myuvc_control_intf s \<and>
    myuvc_streaming_intf s' = myuvc_streaming_intf s \<and> 2 \<le> probe_cnt s'"
  using assms by (auto simp: myuvc_probe_def Let_def)

end
