(* ===== verification/Vivi_Format.thy ===== *)
theory Vivi_Format
  imports V4l2_Types
begin

text \<open>
  The formats of the virtual camera driver (myvivi/6_th/vivi.c) and the rounding helpers it calls
  (linux-3.4.2/drivers/media/video/v4l2-common.c, include/asm-generic/bitops).
\<close>

section \<open>Rounding image sizes\<close>

definition clamp_align :: "u32 \<Rightarrow> u32 \<Rightarrow> u32 \<Rightarrow> nat \<Rightarrow> u32" where
  "clamp_align x mn mx align =
     (let msk = NOT (push_bit align 1 - 1);
          x1 = (if align \<noteq> 0 then (x + push_bit (align - 1) 1) AND msk else x)
      in if x1 < mn then (mn + NOT msk) AND msk
         else if x1 > mx then mx AND msk
         else x1)"

definition ffs_step :: "nat \<Rightarrow> nat \<times> u32 \<Rightarrow> nat \<times> u32" where
  "ffs_step k nw = (case nw of (num, w) \<Rightarrow>
     if w AND (push_bit k 1 - 1) = 0 then (num + k, drop_bit k w) else (num, w))"

definition ffs :: "u32 \<Rightarrow> nat" where
  "ffs w = fst (ffs_step 1 (ffs_step 2 (ffs_step 4 (ffs_step 8 (ffs_step 16 (0, w))))))"

definition fls_step :: "nat \<Rightarrow> nat \<times> u32 \<Rightarrow> nat \<times> u32" where
  "fls_step k nw = (case nw of (num, w) \<Rightarrow>
     if w AND push_bit (32 - k) (-1) = 0 then (num - k, push_bit k w) else (num, w))"

definition fls :: "u32 \<Rightarrow> nat" where
  "fls w = fst (fls_step 1 (fls_step 2 (fls_step 4 (fls_step 8 (fls_step 16 (31, w))))))"

text \<open>
  The \<open>do\<close> loop that raises the smaller alignment until the image size is aligned; one turn,
  then the test.
\<close>

partial_function (option) align_loop ::
    "u32 \<Rightarrow> u32 \<Rightarrow> u32 \<Rightarrow> u32 \<Rightarrow> nat \<Rightarrow> nat \<Rightarrow> nat \<Rightarrow> u32 \<Rightarrow> u32 \<Rightarrow> nat \<Rightarrow> nat \<Rightarrow> (u32 \<times> u32) option" where
  "align_loop wmin wmax hmin hmax wmaxa hmaxa salign w h walign halign =
     (let up = halign \<ge> hmaxa \<or> walign \<le> halign \<and> walign < wmaxa;
          w' = (if up then clamp_align w wmin wmax (walign + 1) else w);
          h' = (if up then h else clamp_align h hmin hmax (halign + 1));
          walign' = (if up then ffs w' else walign);
          halign' = (if up then halign else ffs h')
      in if halign' + walign' < salign
         then align_loop wmin wmax hmin hmax wmaxa hmaxa salign w' h' walign' halign'
         else Some (w', h'))"

definition v4l_bound_align_image ::
    "u32 \<Rightarrow> u32 \<Rightarrow> u32 \<Rightarrow> nat \<Rightarrow> u32 \<Rightarrow> u32 \<Rightarrow> u32 \<Rightarrow> nat \<Rightarrow> nat \<Rightarrow> (u32 \<times> u32) option" where
  "v4l_bound_align_image w wmin wmax walign h hmin hmax halign salign =
     (let w1 = clamp_align w wmin wmax walign; h1 = clamp_align h hmin hmax halign in
      if salign = 0 then Some (w1, h1)
      else if ffs w1 + ffs h1 < salign
      then align_loop wmin wmax hmin hmax (fls (wmax XOR (wmin - 1))) (fls (hmax XOR (hmin - 1)))
             salign w1 h1 (ffs w1) (ffs h1)
      else Some (w1, h1))"

section \<open>Format ioctls\<close>

definition myvivi_videoc_querycap :: "v4l2_capability \<Rightarrow> int \<times> v4l2_capability" where
  "myvivi_videoc_querycap cap =
     (0, cap\<lparr>cap_driver := ''myvivi'', cap_card := ''myvivi'', cap_version := 0x0001,
             cap_capabilities := V4L2_CAP_VIDEO_CAPTURE OR V4L2_CAP_STREAMING\<rparr>)"

definition myvivi_vidioc_enum_fmt_vid_cap :: "v4l2_fmtdesc \<Rightarrow> int \<times> v4l2_fmtdesc" where
  "myvivi_vidioc_enum_fmt_vid_cap f =
     (if fd_index f \<ge> 1 then (- EINVAL, f)
      else (0, f\<lparr>fd_description := ''4:2:2, packed, YUYV'', fd_pixelformat := V4L2_PIX_FMT_YUYV\<rparr>))"

definition myvivi_vidioc_g_fmt_vid_cap :: "v4l2_format \<Rightarrow> v4l2_format \<Rightarrow> int \<times> v4l2_format" where
  "myvivi_vidioc_g_fmt_vid_cap cur f = (0, cur)"

text \<open>
  \<open>None\<close> stands for a call that does not return.
\<close>

definition myvivi_vidioc_try_fmt_vid_cap :: "v4l2_format \<Rightarrow> (int \<times> v4l2_format) option" where
  "myvivi_vidioc_try_fmt_vid_cap f =
     (let p = f_pix f in
      if pf_pixelformat p \<noteq> V4L2_PIX_FMT_YUYV then Some (- EINVAL, f)
      else if pf_field p \<noteq> V4L2_FIELD_ANY \<and> pf_field p \<noteq> V4L2_FIELD_INTERLACED then Some (- EINVAL, f)
      else map_option (\<lambda>(w, h).
          let bpl = drop_bit 3 (w * 16)
          in (0, f\<lparr>f_pix := p\<lparr>pf_width := w, pf_height := h, pf_bytesperline := bpl, pf_sizeimage := h * bpl\<rparr>\<rparr>))
        (v4l_bound_align_image (pf_width p) 48 1024 2 (pf_height p) 32 768 0 0))"

definition myvivi_vidioc_s_fmt_vid_cap :: "v4l2_format \<Rightarrow> v4l2_format \<Rightarrow> (int \<times> v4l2_format \<times> v4l2_format) option" where
  "myvivi_vidioc_s_fmt_vid_cap cur f =
     map_option (\<lambda>(ret, f'). if ret < 0 then (ret, f', cur) else (ret, f', f'))
       (myvivi_vidioc_try_fmt_vid_cap f)"

section \<open>Lemmas\<close>

lemma push_bit_1_minus_1: "push_bit n 1 - 1 = (mask n :: u32)"
  by (simp add: mask_eq_exp_minus_1 push_bit_eq_mult)

lemma clamp_align_alt:
  "clamp_align x mn mx n =
     (let x1 = (if n \<noteq> 0 then (x + 2 ^ (n - 1)) AND NOT (mask n) else x)
      in if x1 < mn then (mn + mask n) AND NOT (mask n) else if x1 > mx then mx AND NOT (mask n) else x1)"
  by (simp only: clamp_align_def push_bit_1_minus_1 bit.double_compl push_bit_of_1 Let_def mask_eq_exp_minus_1)

text \<open>
  With an aligned value between the bounds the result is aligned and within the bounds.
\<close>

lemma clamp_align_bounds:
  assumes n: "n < 32" and k: "unat mn \<le> k * 2 ^ n" "k * 2 ^ n \<le> unat mx"
  shows "2 ^ n dvd unat (clamp_align x mn mx n)"
    and "unat mn \<le> unat (clamp_align x mn mx n)" "unat (clamp_align x mn mx n) \<le> unat mx"
proof -
  let ?m = "\<lambda>y :: u32. y AND NOT (mask n)"
  have N: "unat (?m y) = unat y div 2 ^ n * 2 ^ n" for y by (rule unat_and_not_mask)
  define x1 where "x1 = (if n \<noteq> 0 then ?m (x + 2 ^ (n - 1)) else x)"
  have d1: "2 ^ n dvd unat x1" by (simp add: x1_def N)
  have c: "clamp_align x mn mx n = (if x1 < mn then ?m (mn + mask n) else if x1 > mx then ?m mx else x1)"
    by (simp add: clamp_align_alt x1_def Let_def)
  have up: "unat mn \<le> unat (?m (mn + mask n))" "unat (?m (mn + mask n)) \<le> k * 2 ^ n"
    using round_up_mask [OF n k(1) le_less_trans [OF k(2)]] unsigned_less [of mx, where 'a = nat] by simp_all
  have dn: "k * 2 ^ n \<le> unat (?m mx)" "unat (?m mx) \<le> unat mx"
    using div_le_mono [OF k(2), of "2 ^ n"] by (simp_all add: N)
  show "2 ^ n dvd unat (clamp_align x mn mx n)" using d1 by (simp add: c N)
  show "unat mn \<le> unat (clamp_align x mn mx n)" "unat (clamp_align x mn mx n) \<le> unat mx"
    using up dn k by (auto simp: c word_less_nat_alt)
qed

text \<open>
  A value inside aligned bounds is rounded to the nearest aligned value.
\<close>

lemma clamp_align_inside:
  assumes n: "n < 31" and x: "unat mn \<le> unat x" "unat x \<le> unat mx" "unat mx < 2 ^ 31"
    and d: "2 ^ n dvd unat mn" "2 ^ n dvd unat mx" "n \<noteq> 0"
  shows "unat (clamp_align x mn mx n) = (unat x + 2 ^ (n - 1)) div 2 ^ n * 2 ^ n"
proof -
  let ?r = "(unat x + 2 ^ (n - 1)) div 2 ^ n * 2 ^ n"
  have h: "(2 :: nat) ^ (n - 1) < 2 ^ n" "(2 :: nat) ^ n \<le> 2 ^ 30"
    using d(3) power_increasing [of n 30 "2 :: nat"] n by (auto intro: power_strict_increasing)
  have "(2 :: nat) ^ (n - 1) < 2 ^ 32" by (rule less_le_trans [OF h(1) le_trans [OF h(2)]]) simp
  then have p: "unat (2 ^ (n - 1) :: u32) = 2 ^ (n - 1)" by (intro of_nat_inverse) simp_all
  have "unat x + 2 ^ (n - 1) < 2 ^ 31 + 2 ^ 30"
    by (rule add_less_le_mono [OF le_less_trans [OF x(2,3)] le_trans [OF less_imp_le [OF h(1)] h(2)]])
  then have r: "unat ((x + 2 ^ (n - 1)) AND NOT (mask n)) = ?r"
    unfolding unat_and_not_mask unat_word_ariths p by simp
  obtain a b where ab: "unat mn = 2 ^ n * a" "unat mx = 2 ^ n * b" using d by (auto elim!: dvdE)
  have "a \<le> (unat x + 2 ^ (n - 1)) div 2 ^ n"
    using x(1) ab(1) by (metis div_le_mono le_add1 le_trans nonzero_mult_div_cancel_left power_not_zero zero_neq_numeral)
  moreover have "unat x + 2 ^ (n - 1) < (b + 1) * 2 ^ n" 
    using add_le_less_mono [OF x(2) h(1)] by (simp only: ab(2) distrib_right mult_1 mult.commute)
  then have "(unat x + 2 ^ (n - 1)) div 2 ^ n < b + 1" by (rule less_mult_imp_div_less)
  ultimately have "unat mn \<le> ?r" "?r \<le> unat mx" by (simp_all add: ab mult.commute)
  then show ?thesis using d(3) r by (simp add: clamp_align_alt word_less_nat_alt Let_def)
qed

lemma s_fmt_result:
  "myvivi_vidioc_s_fmt_vid_cap cur f =
     (let p = f_pix f; w = clamp_align (pf_width p) 48 1024 2; h = clamp_align (pf_height p) 32 768 0;
          f' = f\<lparr>f_pix := p\<lparr>pf_width := w, pf_height := h, pf_bytesperline := drop_bit 3 (w * 16),
                             pf_sizeimage := h * drop_bit 3 (w * 16)\<rparr>\<rparr>
      in if pf_pixelformat p = V4L2_PIX_FMT_YUYV \<and> (pf_field p = V4L2_FIELD_ANY \<or> pf_field p = V4L2_FIELD_INTERLACED)
         then Some (0, f', f') else Some (- EINVAL, f, cur))"
  by (simp add: myvivi_vidioc_s_fmt_vid_cap_def myvivi_vidioc_try_fmt_vid_cap_def v4l_bound_align_image_def Let_def)

lemma yuyv_sizes:
  assumes "unat w \<le> 1024" "unat h \<le> 768"
  shows "unat (drop_bit 3 (w * 16) :: u32) = 2 * unat w" "unat (h * drop_bit 3 (w * 16) :: u32) = 2 * unat w * unat h"
proof -
  have 1: "unat (w * 16) = unat w * 16" using assms(1) by (simp add: unat_word_ariths)
  show 2: "unat (drop_bit 3 (w * 16)) = 2 * unat w" by (simp only: unat_drop_bit_eq 1) (simp add: drop_bit_eq_div)
  have "unat h * (2 * unat w) \<le> 768 * (2 * 1024)" using assms by (intro mult_le_mono) simp_all
  then show "unat (h * drop_bit 3 (w * 16)) = 2 * unat w * unat h"
    by (simp only: unat_mult_lem [THEN iffD1] unat_word_ariths 2) simp
qed

lemma height_clamp: "clamp_align h 32 768 0 = (if h < 32 then 32 else if h > 768 then 768 else h)"
  by (simp add: clamp_align_def Let_def)

text \<open>
  C17: S_FMT of the virtual camera always returns.  It accepts exactly YUYV with an unspecified or
  interlaced field order; then the width is between 48 and 1024 and a multiple of 4, the height
  between 32 and 768, the line and image sizes are those of 2 bytes per pixel without overflow,
  a requested width within the limits moves by at most 2 and a height within the limits not at
  all, and setting the resulting format again changes nothing.  A refused request changes nothing.
\<close>

theorem vivi_format_bounds:
  "\<exists>ret f' cur'. myvivi_vidioc_s_fmt_vid_cap cur f = Some (ret, f', cur') \<and>
     (let p = f_pix f; p' = f_pix f'; w = unat (pf_width p'); h = unat (pf_height p') in
      if pf_pixelformat p = V4L2_PIX_FMT_YUYV \<and> (pf_field p = V4L2_FIELD_ANY \<or> pf_field p = V4L2_FIELD_INTERLACED)
      then ret = 0 \<and> cur' = f' \<and> 48 \<le> w \<and> w \<le> 1024 \<and> 4 dvd w \<and> 32 \<le> h \<and> h \<le> 768 \<and>
        unat (pf_bytesperline p') = 2 * w \<and> unat (pf_sizeimage p') = 2 * w * h \<and>
        (48 \<le> unat (pf_width p) \<and> unat (pf_width p) \<le> 1024 \<longrightarrow> \<bar>int w - int (unat (pf_width p))\<bar> \<le> 2) \<and>
        (32 \<le> unat (pf_height p) \<and> unat (pf_height p) \<le> 768 \<longrightarrow> pf_height p' = pf_height p) \<and>
        myvivi_vidioc_s_fmt_vid_cap cur' f' = Some (0, f', f')
      else ret = - EINVAL \<and> f' = f \<and> cur' = cur)"
proof -
  let ?p = "f_pix f"
  let ?w = "clamp_align (pf_width ?p) 48 1024 2" and ?h = "clamp_align (pf_height ?p) 32 768 0"
  have w: "4 dvd unat ?w" "48 \<le> unat ?w" "unat ?w \<le> 1024"
    using clamp_align_bounds [of 2 48 12 1024 "pf_width ?p"] by simp_all
  have h: "32 \<le> unat ?h" "unat ?h \<le> 768" by (auto simp: height_clamp word_less_nat_alt)
  have near: "\<bar>int (unat ?w) - int (unat (pf_width ?p))\<bar> \<le> 2" if "48 \<le> unat (pf_width ?p)" "unat (pf_width ?p) \<le> 1024"
  proof -
    have "\<bar>int ((x + 2) div 4 * 4) - int x\<bar> \<le> 2" for x :: nat by presburger
    moreover have "unat ?w = (unat (pf_width ?p) + 2) div 4 * 4"
      using that clamp_align_inside [of 2 48 "pf_width ?p" 1024] by simp
    ultimately show ?thesis by (simp only:)
  qed
  have ww: "clamp_align ?w 48 1024 2 = ?w"
  proof -
    obtain k where k: "unat ?w = 4 * k" using w(1) by (auto elim!: dvdE)
    have "unat (clamp_align ?w 48 1024 2) = unat ?w"
      using clamp_align_inside [of 2 48 ?w 1024] w(2,3) by (simp add: k)
    then show ?thesis by (simp only: word_unat_eq_iff)
  qed
  have hh: "clamp_align ?h 32 768 0 = ?h" using h by (auto simp: height_clamp [of ?h] word_less_nat_alt)
  have hk: "?h = pf_height ?p" if "32 \<le> unat (pf_height ?p)" "unat (pf_height ?p) \<le> 768"
    using that by (auto simp: height_clamp word_less_nat_alt)
  show ?thesis
    using w h near ww hh hk yuyv_sizes [OF w(3) h(2)] by (auto simp: s_fmt_result Let_def)
qed

theorem vivi_format_bounds_witness:
  "\<exists>f'. myvivi_vidioc_s_fmt_vid_cap 0 (0\<lparr>f_pix := \<lparr>pf_width = 641, pf_height = 480, pf_pixelformat = V4L2_PIX_FMT_YUYV,
      pf_field = 0, pf_bytesperline = 0, pf_sizeimage = 0, pf_colorspace = 0, pf_priv = 0\<rparr>\<rparr>) = Some (0, f', f') \<and>
    4 dvd unat (pf_width (f_pix f')) \<and> \<bar>int (unat (pf_width (f_pix f'))) - 641\<bar> \<le> 2 \<and> pf_height (f_pix f') = 480"
  using vivi_format_bounds [of 0 "0\<lparr>f_pix := \<lparr>pf_width = 641, pf_height = 480, pf_pixelformat = V4L2_PIX_FMT_YUYV,
      pf_field = 0, pf_bytesperline = 0, pf_sizeimage = 0, pf_colorspace = 0, pf_priv = 0\<rparr>\<rparr>"]
  by (auto simp: Let_def)

end
