(* ===== verification/Videobuf.thy ===== *)
theory Videobuf
  imports V4l2_Types Capture_Queue
begin

text \<open>
  The buffer queue of the kernel's videobuf layer (linux-3.4.2/drivers/media/video/videobuf-core.c)
  with vmalloc memory (videobuf-vmalloc.c), as the virtual camera driver uses it.

  A buffer is named by its index in \<open>q->bufs\<close>.  \<open>vq_stream\<close> is the list through the buffers'
  \<open>stream\<close> links; \<open>vq_local\<close> is the list the driver keeps through their \<open>queue\<close> links.
  When a buffer is freed while it is on a list, its entry becomes \<open>dangling\<close>; following or
  linking next to a dangling entry is the fault \<open>UseAfterFree\<close>.  A vmalloc block that was
  freed without clearing the pointer is the block of length 0.

  The queue lock serialises the operations, so each is one atomic step.  Where the code sleeps,
  the result is \<open>None\<close>; the sleeper is recorded in \<open>vb_done\<close> (the wait queue of the buffer) and
  runs the operation again when it is woken.  Allocation results are arguments.
\<close>

section \<open>Structures\<close>

record videobuf_buffer =
  vb_i :: u32
  vb_width :: u32
  vb_height :: u32
  vb_bytesperline :: u32
  vb_size :: u32
  vb_input :: u32
  vb_field :: u32
  vb_state :: videobuf_state
  vb_done :: bool
  vb_field_count :: u32
  vb_ts :: nat
  vb_memory :: u32
  vb_bsize :: u32
  vb_boff :: u32
  vb_baddr :: u32
  vb_map :: "nat option"
  vb_vaddr :: "u8 list option"

record videobuf_queue =
  vq_type :: u32
  vq_inputs :: u32
  vq_field :: u32
  vq_last :: u32
  vq_bufs :: "videobuf_buffer option list"
  vq_streaming :: bool
  vq_reading :: bool
  vq_stream :: klist
  vq_read_off :: u32
  vq_read_buf :: "nat option"

text \<open>
  The queue, the driver's list, and the use counts of the mappings that were created so far.
\<close>

record vb_sys =
  vq :: videobuf_queue
  vq_local :: klist
  mappings :: "u32 list"

record videobuf_queue_ops =
  buf_setup :: "u32 \<Rightarrow> u32 \<Rightarrow> u32 \<times> u32"
  buf_prepare :: "videobuf_buffer \<Rightarrow> u32 \<Rightarrow> int \<times> videobuf_buffer"
  buf_queue :: "nat \<Rightarrow> videobuf_buffer \<Rightarrow> klist \<Rightarrow> (videobuf_buffer \<times> klist) kres"
  buf_release :: "videobuf_buffer \<Rightarrow> videobuf_buffer"

abbreviation (input) VIDEO_MAX_FRAME :: nat where "VIDEO_MAX_FRAME \<equiv> 32"
abbreviation (input) UNSET :: u32 where "UNSET \<equiv> -1"
abbreviation (input) ERESTARTSYS :: int where "ERESTARTSYS \<equiv> 512"
abbreviation (input) dangling :: nat where "dangling \<equiv> VIDEO_MAX_FRAME"

definition get_vb :: "vb_sys \<Rightarrow> nat \<Rightarrow> videobuf_buffer kres" where
  "get_vb st i = (if i < length (vq_bufs (vq st)) then deref (vq_bufs (vq st) ! i) else Inl UseAfterFree)"

definition put_vb :: "nat \<Rightarrow> videobuf_buffer \<Rightarrow> vb_sys \<Rightarrow> vb_sys" where
  "put_vb i b st = st\<lparr>vq := (vq st)\<lparr>vq_bufs := (vq_bufs (vq st))[i := Some b]\<rparr>\<rparr>"

definition vb_add_tail :: "nat \<Rightarrow> klist \<Rightarrow> klist kres" where
  "vb_add_tail i l = (if entries l \<noteq> [] \<and> last (entries l) = dangling then Inl UseAfterFree
     else list_add_tail i l)"

section \<open>Creation, cancellation, release\<close>

definition vb_zero :: videobuf_buffer where
  "vb_zero = \<lparr>vb_i = 0, vb_width = 0, vb_height = 0, vb_bytesperline = 0, vb_size = 0, vb_input = 0,
     vb_field = 0, vb_state = VIDEOBUF_NEEDS_INIT, vb_done = False, vb_field_count = 0, vb_ts = 0,
     vb_memory = 0, vb_bsize = 0, vb_boff = 0, vb_baddr = 0, vb_map = None, vb_vaddr = None\<rparr>"

definition videobuf_alloc_vb :: "bool \<Rightarrow> videobuf_buffer option" where
  "videobuf_alloc_vb mem = (if mem then Some vb_zero else None)"

definition videobuf_queue_core_init :: "u32 \<Rightarrow> u32 \<Rightarrow> videobuf_queue" where
  "videobuf_queue_core_init type field =
     \<lparr>vq_type = type, vq_inputs = 0, vq_field = field, vq_last = 0,
      vq_bufs = replicate VIDEO_MAX_FRAME None, vq_streaming = False, vq_reading = False,
      vq_stream = INIT_LIST_HEAD, vq_read_off = 0, vq_read_buf = None\<rparr>"

definition videobuf_queue_is_busy :: "videobuf_queue \<Rightarrow> bool" where
  "videobuf_queue_is_busy q = (vq_streaming q \<or> vq_reading q \<or> vq_read_buf q \<noteq> None \<or>
     list_ex (\<lambda>b. case b of None \<Rightarrow> False
       | Some vb \<Rightarrow> vb_map vb \<noteq> None \<or> vb_state vb = VIDEOBUF_QUEUED \<or> vb_state vb = VIDEOBUF_ACTIVE) (vq_bufs q))"

definition is_mapped :: "videobuf_buffer option \<Rightarrow> bool" where
  "is_mapped b = (case b of None \<Rightarrow> False | Some vb \<Rightarrow> vb_map vb \<noteq> None)"

text \<open>
  Every freed buffer is first given to \<open>buf_release\<close>; what that changes in the buffer is freed
  with it.
\<close>

definition videobuf_free :: "vb_sys \<Rightarrow> int \<times> vb_sys" where
  "videobuf_free st =
     (let q = vq st in
      if vq_streaming q \<or> vq_reading q then (- EBUSY, st)
      else if list_ex is_mapped (vq_bufs q) then (- EBUSY, st)
      else (0, st\<lparr>vq := q\<lparr>vq_bufs := map (\<lambda>_. None) (vq_bufs q),
                             vq_stream := map_option (map (\<lambda>_. dangling)) (vq_stream q)\<rparr>,
                  vq_local := map_option (map (\<lambda>_. dangling)) (vq_local st)\<rparr>))"

fun cancel_queued :: "nat list \<Rightarrow> vb_sys \<Rightarrow> vb_sys kres" where
  "cancel_queued [] st = Inr st"
| "cancel_queued (i # js) st =
     (case vq_bufs (vq st) ! i of
        None \<Rightarrow> cancel_queued js st
      | Some vb \<Rightarrow>
          if vb_state vb = VIDEOBUF_QUEUED then
            kbind (list_del i (vq_local st)) (\<lambda>l.
              cancel_queued js ((put_vb i (vb\<lparr>vb_state := VIDEOBUF_ERROR, vb_done := False\<rparr>) st)\<lparr>vq_local := l\<rparr>))
          else cancel_queued js st)"

definition videobuf_queue_cancel :: "videobuf_queue_ops \<Rightarrow> vb_sys \<Rightarrow> vb_sys kres" where
  "videobuf_queue_cancel ops st =
     kbind (cancel_queued [0..<VIDEO_MAX_FRAME]
             (st\<lparr>vq := (vq st)\<lparr>vq_streaming := False, vq_reading := False\<rparr>\<rparr>)) (\<lambda>s1.
       Inr (s1\<lparr>vq := (vq s1)\<lparr>vq_bufs := map (map_option (buf_release ops)) (vq_bufs (vq s1)),
                               vq_stream := INIT_LIST_HEAD\<rparr>\<rparr>))"

definition videobuf_next_field :: "videobuf_queue \<Rightarrow> (u32 \<times> videobuf_queue) kres" where
  "videobuf_next_field q =
     (if vq_field q = V4L2_FIELD_ANY then Inl KernelBug
      else if vq_field q = V4L2_FIELD_ALTERNATE then
        if vq_last q = V4L2_FIELD_TOP then Inr (V4L2_FIELD_BOTTOM, q\<lparr>vq_last := V4L2_FIELD_BOTTOM\<rparr>)
        else Inr (V4L2_FIELD_TOP, q\<lparr>vq_last := V4L2_FIELD_TOP\<rparr>)
      else Inr (vq_field q, q))"

definition state_flags :: "videobuf_state \<Rightarrow> u32" where
  "state_flags s = (case s of
       VIDEOBUF_PREPARED \<Rightarrow> V4L2_BUF_FLAG_QUEUED
     | VIDEOBUF_QUEUED \<Rightarrow> V4L2_BUF_FLAG_QUEUED
     | VIDEOBUF_ACTIVE \<Rightarrow> V4L2_BUF_FLAG_QUEUED
     | VIDEOBUF_ERROR \<Rightarrow> V4L2_BUF_FLAG_ERROR OR V4L2_BUF_FLAG_DONE
     | VIDEOBUF_DONE \<Rightarrow> V4L2_BUF_FLAG_DONE
     | _ \<Rightarrow> 0)"

definition videobuf_status :: "v4l2_buffer \<Rightarrow> videobuf_buffer \<Rightarrow> u32 \<Rightarrow> v4l2_buffer" where
  "videobuf_status b vb type =
     (let b1 = b\<lparr>b_index := vb_i vb, b_type := type, b_memory := vb_memory vb\<rparr>;
          b2 = (if vb_memory vb = V4L2_MEMORY_MMAP then b1\<lparr>b_m := vb_boff vb, b_length := vb_bsize vb\<rparr>
                else if vb_memory vb = V4L2_MEMORY_USERPTR then b1\<lparr>b_m := vb_baddr vb, b_length := vb_bsize vb\<rparr>
                else if vb_memory vb = V4L2_MEMORY_OVERLAY then b1\<lparr>b_m := vb_boff vb\<rparr>
                else b1);
          fl = (if vb_map vb \<noteq> None then V4L2_BUF_FLAG_MAPPED else 0) OR state_flags (vb_state vb);
          b3 = (if vb_input vb \<noteq> UNSET
                then b2\<lparr>b_flags := fl OR V4L2_BUF_FLAG_INPUT, b_input := vb_input vb\<rparr>
                else b2\<lparr>b_flags := fl\<rparr>)
      in b3\<lparr>b_field := vb_field vb, b_timestamp := vb_ts vb, b_bytesused := vb_size vb,
             b_sequence := drop_bit 1 (vb_field_count vb)\<rparr>)"

definition setup_buffer :: "nat \<Rightarrow> u32 \<Rightarrow> u32 \<Rightarrow> videobuf_buffer \<Rightarrow> videobuf_buffer" where
  "setup_buffer i bsize memory vb =
     (let vb1 = vb\<lparr>vb_i := of_nat i, vb_input := UNSET, vb_memory := memory, vb_bsize := bsize\<rparr>
      in if memory = V4L2_MEMORY_MMAP then vb1\<lparr>vb_boff := PAGE_ALIGN bsize * of_nat i\<rparr> else vb1)"

text \<open>
  The allocation loop: \<open>n\<close> turns are left, \<open>i\<close> is the next index, \<open>mem i\<close> tells whether the
  \<open>i\<close>-th allocation succeeds.  It returns the number of buffers that were set up.
\<close>

fun setup_buffers :: "(nat \<Rightarrow> bool) \<Rightarrow> nat \<Rightarrow> nat \<Rightarrow> u32 \<Rightarrow> u32 \<Rightarrow> videobuf_buffer option list
    \<Rightarrow> (nat \<times> videobuf_buffer option list) kres" where
  "setup_buffers mem 0 i bsize memory bs = Inr (i, bs)"
| "setup_buffers mem (Suc n) i bsize memory bs =
     (if i < length bs then
        case videobuf_alloc_vb (mem i) of
          None \<Rightarrow> Inr (i, bs[i := None])
        | Some vb \<Rightarrow> setup_buffers mem n (i + 1) bsize memory (bs[i := Some (setup_buffer i bsize memory vb)])
      else Inl OutOfBounds)"

definition videobuf_mmap_setup :: "(nat \<Rightarrow> bool) \<Rightarrow> u32 \<Rightarrow> u32 \<Rightarrow> u32 \<Rightarrow> vb_sys \<Rightarrow> (int \<times> vb_sys) kres" where
  "videobuf_mmap_setup mem bcount bsize memory st =
     (case videobuf_free st of (err, st1) \<Rightarrow>
        if err \<noteq> 0 then Inr (err, st1)
        else kbind (setup_buffers mem (unat bcount) 0 bsize memory (vq_bufs (vq st1))) (\<lambda>(i, bs).
          Inr (if i = 0 then - ENOMEM else int i, st1\<lparr>vq := (vq st1)\<lparr>vq_bufs := bs\<rparr>\<rparr>)))"

section \<open>Ioctls\<close>

definition videobuf_reqbufs ::
    "videobuf_queue_ops \<Rightarrow> (nat \<Rightarrow> bool) \<Rightarrow> v4l2_requestbuffers \<Rightarrow> vb_sys
     \<Rightarrow> (int \<times> v4l2_requestbuffers \<times> vb_sys) kres" where
  "videobuf_reqbufs ops mem req st =
     (if rb_count req < 1 then Inr (- EINVAL, req, st)
      else if rb_memory req \<noteq> V4L2_MEMORY_MMAP \<and> rb_memory req \<noteq> V4L2_MEMORY_USERPTR \<and>
              rb_memory req \<noteq> V4L2_MEMORY_OVERLAY then Inr (- EINVAL, req, st)
      else if rb_type req \<noteq> vq_type (vq st) then Inr (- EINVAL, req, st)
      else if vq_streaming (vq st) then Inr (- EBUSY, req, st)
      else if \<not> list_empty (vq_stream (vq st)) then Inr (- EBUSY, req, st)
      else
        let count = (if rb_count req > of_nat VIDEO_MAX_FRAME then of_nat VIDEO_MAX_FRAME else rb_count req)
        in case buf_setup ops count 0 of (count', sz) \<Rightarrow>
          kbind (videobuf_mmap_setup mem count' sz (rb_memory req) st) (\<lambda>(retval, st1).
            if retval < 0 then Inr (retval, req, st1)
            else Inr (0, req\<lparr>rb_count := of_int retval\<rparr>, st1)))"

definition videobuf_querybuf :: "v4l2_buffer \<Rightarrow> vb_sys \<Rightarrow> int \<times> v4l2_buffer" where
  "videobuf_querybuf b st =
     (if b_type b \<noteq> vq_type (vq st) then (- EINVAL, b)
      else if unat (b_index b) \<ge> VIDEO_MAX_FRAME then (- EINVAL, b)
      else case vq_bufs (vq st) ! unat (b_index b) of
          None \<Rightarrow> (- EINVAL, b)
        | Some vb \<Rightarrow> (0, videobuf_status b vb (vq_type (vq st))))"

text \<open>
  The part of QBUF after the checks: the next field, \<open>buf_prepare\<close>, and the links.
\<close>

definition qbuf_prepare :: "videobuf_queue_ops \<Rightarrow> nat \<Rightarrow> videobuf_buffer \<Rightarrow> vb_sys \<Rightarrow> (int \<times> vb_sys) kres" where
  "qbuf_prepare ops i vb st =
     kbind (videobuf_next_field (vq st)) (\<lambda>(field, q1).
       case buf_prepare ops vb field of (retval, vb1) \<Rightarrow>
         let st1 = put_vb i vb1 (st\<lparr>vq := q1\<rparr>) in
         if retval \<noteq> 0 then Inr (retval, st1)
         else kbind (vb_add_tail i (vq_stream q1)) (\<lambda>str.
           let st2 = st1\<lparr>vq := (vq st1)\<lparr>vq_stream := str\<rparr>\<rparr> in
           if vq_streaming q1 then
             kbind (buf_queue ops i vb1 (vq_local st2)) (\<lambda>(vb2, l).
               Inr (0, (put_vb i vb2 st2)\<lparr>vq_local := l\<rparr>))
           else Inr (0, st2)))"

text \<open>
  The switch on the memory type; \<open>buf\<close> is the buffer as found, \<open>buf1\<close> with its new input.
  \<open>None\<close> is the exit with \<open>-EINVAL\<close>.
\<close>

definition qbuf_memory ::
    "videobuf_queue_ops \<Rightarrow> v4l2_buffer \<Rightarrow> videobuf_queue \<Rightarrow> videobuf_buffer \<Rightarrow> videobuf_buffer \<Rightarrow> videobuf_buffer option" where
  "qbuf_memory ops b q buf buf1 =
     (if b_memory b = V4L2_MEMORY_MMAP then
        if vb_baddr buf = 0 then None
        else if vq_type q = 2 \<or> vq_type q = 5 \<or> vq_type q = 7
        then Some (buf1\<lparr>vb_size := b_bytesused b, vb_field := b_field b, vb_ts := b_timestamp b\<rparr>)
        else Some buf1
      else if b_memory b = V4L2_MEMORY_USERPTR then
        if b_length b < vb_bsize buf then None
        else let buf2 = (if vb_state buf \<noteq> VIDEOBUF_NEEDS_INIT \<and> vb_baddr buf \<noteq> b_m b
                         then buf_release ops buf1 else buf1)
             in Some (buf2\<lparr>vb_baddr := b_m b\<rparr>)
      else if b_memory b = V4L2_MEMORY_OVERLAY then Some (buf1\<lparr>vb_boff := b_m b\<rparr>)
      else None)"

definition videobuf_qbuf :: "videobuf_queue_ops \<Rightarrow> v4l2_buffer \<Rightarrow> vb_sys \<Rightarrow> (int \<times> vb_sys) kres" where
  "videobuf_qbuf ops b st =
     (let q = vq st; i = unat (b_index b) in
      if vq_reading q then Inr (- EBUSY, st)
      else if b_type b \<noteq> vq_type q then Inr (- EINVAL, st)
      else if i \<ge> VIDEO_MAX_FRAME then Inr (- EINVAL, st)
      else case vq_bufs q ! i of None \<Rightarrow> Inr (- EINVAL, st) | Some buf \<Rightarrow>
        if vb_memory buf \<noteq> b_memory b then Inr (- EINVAL, st)
        else if vb_state buf \<noteq> VIDEOBUF_NEEDS_INIT \<and> vb_state buf \<noteq> VIDEOBUF_IDLE then Inr (- EINVAL, st)
        else if b_flags b AND V4L2_BUF_FLAG_INPUT \<noteq> 0 \<and> b_input b \<ge> vq_inputs q then Inr (- EINVAL, st)
        else
          let buf1 = buf\<lparr>vb_input := if b_flags b AND V4L2_BUF_FLAG_INPUT \<noteq> 0 then b_input b else UNSET\<rparr>;
              st1 = put_vb i buf1 st
          in case qbuf_memory ops b q buf buf1 of
               None \<Rightarrow> Inr (- EINVAL, st1)
             | Some vb \<Rightarrow> qbuf_prepare ops i vb st1)"

text \<open>
  \<open>is_state_active_or_queued\<close> keeps the name it has in the source, where it is true when the
  buffer is \<open>not\<close> active or queued.  \<open>signal\<close> tells whether a signal is pending, which ends a
  sleep with \<open>-ERESTARTSYS\<close>.
\<close>

definition is_state_active_or_queued :: "videobuf_buffer \<Rightarrow> bool" where
  "is_state_active_or_queued vb = (vb_state vb \<noteq> VIDEOBUF_ACTIVE \<and> vb_state vb \<noteq> VIDEOBUF_QUEUED)"

definition videobuf_waiton :: "bool \<Rightarrow> bool \<Rightarrow> nat \<Rightarrow> videobuf_buffer \<Rightarrow> vb_sys \<Rightarrow> int option \<times> vb_sys" where
  "videobuf_waiton non_blocking signal i vb st =
     (if non_blocking then (Some (if is_state_active_or_queued vb then 0 else - EAGAIN), st)
      else if is_state_active_or_queued vb then (Some 0, st)
      else if signal then (Some (- ERESTARTSYS), st)
      else (None, put_vb i (vb\<lparr>vb_done := True\<rparr>) st))"

definition stream_next_buffer_check_queue :: "bool \<Rightarrow> bool \<Rightarrow> videobuf_queue \<Rightarrow> int option" where
  "stream_next_buffer_check_queue noblock signal q =
     (if \<not> vq_streaming q then Some (- EINVAL)
      else if list_empty (vq_stream q) then
        if noblock then Some (- EAGAIN) else if signal then Some (- ERESTARTSYS) else None
      else Some 0)"

definition stream_next_buffer ::
    "bool \<Rightarrow> bool \<Rightarrow> vb_sys \<Rightarrow> (int option \<times> nat option \<times> vb_sys) kres" where
  "stream_next_buffer nonblocking signal st =
     (case stream_next_buffer_check_queue nonblocking signal (vq st) of
        None \<Rightarrow> Inr (None, None, st)
      | Some retval \<Rightarrow>
          if retval \<noteq> 0 then Inr (Some retval, None, st)
          else kbind (deref (list_first_entry (vq_stream (vq st)))) (\<lambda>i.
            kbind (get_vb st i) (\<lambda>buf.
              case videobuf_waiton nonblocking signal i buf st of (r, st1) \<Rightarrow>
                Inr (r, if r = Some 0 then Some i else None, st1))))"

definition videobuf_dqbuf ::
    "bool \<Rightarrow> bool \<Rightarrow> vb_sys \<Rightarrow> (int option \<times> v4l2_buffer \<times> vb_sys) kres" where
  "videobuf_dqbuf nonblocking signal st =
     kbind (stream_next_buffer nonblocking signal st) (\<lambda>(r, next, st1).
       case r of None \<Rightarrow> Inr (None, 0, st1) | Some retval \<Rightarrow>
         if retval < 0 then Inr (Some retval, 0, st1)
         else kbind (deref next) (\<lambda>i. kbind (get_vb st1 i) (\<lambda>buf.
           if vb_state buf \<noteq> VIDEOBUF_ERROR \<and> vb_state buf \<noteq> VIDEOBUF_DONE then Inr (Some (- EINVAL), 0, st1)
           else
             let b = videobuf_status 0 buf (vq_type (vq st1)) in
             kbind (list_del i (vq_stream (vq st1))) (\<lambda>str.
               Inr (Some retval, b\<lparr>b_flags := b_flags b AND NOT V4L2_BUF_FLAG_DONE\<rparr>,
                 put_vb i (buf\<lparr>vb_state := VIDEOBUF_IDLE\<rparr>) (st1\<lparr>vq := (vq st1)\<lparr>vq_stream := str\<rparr>\<rparr>))))))"

fun queue_prepared :: "videobuf_queue_ops \<Rightarrow> nat list \<Rightarrow> vb_sys \<Rightarrow> vb_sys kres" where
  "queue_prepared ops [] st = Inr st"
| "queue_prepared ops (i # js) st =
     kbind (get_vb st i) (\<lambda>buf.
       if vb_state buf = VIDEOBUF_PREPARED then
         kbind (buf_queue ops i buf (vq_local st)) (\<lambda>(buf', l).
           queue_prepared ops js ((put_vb i buf' st)\<lparr>vq_local := l\<rparr>))
       else queue_prepared ops js st)"

definition videobuf_streamon :: "videobuf_queue_ops \<Rightarrow> vb_sys \<Rightarrow> (int \<times> vb_sys) kres" where
  "videobuf_streamon ops st =
     (if vq_reading (vq st) then Inr (- EBUSY, st)
      else if vq_streaming (vq st) then Inr (0, st)
      else kbind (deref (vq_stream (vq st))) (\<lambda>xs.
        kbind (queue_prepared ops xs (st\<lparr>vq := (vq st)\<lparr>vq_streaming := True\<rparr>\<rparr>)) (\<lambda>st1. Inr (0, st1))))"

definition videobuf_streamoff :: "videobuf_queue_ops \<Rightarrow> vb_sys \<Rightarrow> (int \<times> vb_sys) kres" where
  "videobuf_streamoff ops st =
     (if \<not> vq_streaming (vq st) then Inr (- EINVAL, st)
      else kbind (videobuf_queue_cancel ops st) (\<lambda>st1. Inr (0, st1)))"

section \<open>Poll and the read mode it starts\<close>

fun read_prepare :: "videobuf_queue_ops \<Rightarrow> nat list \<Rightarrow> vb_sys \<Rightarrow> (int \<times> vb_sys) kres" where
  "read_prepare ops [] st = Inr (0, st)"
| "read_prepare ops (i # js) st =
     kbind (videobuf_next_field (vq st)) (\<lambda>(field, q1).
     kbind (get_vb st i) (\<lambda>buf.
       case buf_prepare ops buf field of (err, buf1) \<Rightarrow>
         let st1 = put_vb i buf1 (st\<lparr>vq := q1\<rparr>) in
         if err \<noteq> 0 then Inr (err, st1)
         else kbind (vb_add_tail i (vq_stream q1)) (\<lambda>str.
           read_prepare ops js (st1\<lparr>vq := (vq st1)\<lparr>vq_stream := str\<rparr>\<rparr>))))"

fun read_queue :: "videobuf_queue_ops \<Rightarrow> nat list \<Rightarrow> vb_sys \<Rightarrow> vb_sys kres" where
  "read_queue ops [] st = Inr st"
| "read_queue ops (i # js) st =
     kbind (get_vb st i) (\<lambda>buf.
     kbind (buf_queue ops i buf (vq_local st)) (\<lambda>(buf', l).
       read_queue ops js ((put_vb i buf' st)\<lparr>vq_local := l\<rparr>)))"

definition videobuf_read_start :: "videobuf_queue_ops \<Rightarrow> (nat \<Rightarrow> bool) \<Rightarrow> vb_sys \<Rightarrow> (int \<times> vb_sys) kres" where
  "videobuf_read_start ops mem st =
     (case buf_setup ops 0 0 of (count, sz) \<Rightarrow>
        let count1 = (if count < 2 then 2 else count);
            count2 = (if count1 > of_nat VIDEO_MAX_FRAME then of_nat VIDEO_MAX_FRAME else count1)
        in kbind (videobuf_mmap_setup mem count2 (PAGE_ALIGN sz) V4L2_MEMORY_USERPTR st) (\<lambda>(err, st1).
             if err < 0 then Inr (err, st1)
             else kbind (read_prepare ops [0..<nat err] st1) (\<lambda>(err2, st2).
               if err2 \<noteq> 0 then Inr (err2, st2)
               else kbind (read_queue ops [0..<nat err] st2) (\<lambda>st3.
                 Inr (0, st3\<lparr>vq := (vq st3)\<lparr>vq_reading := True\<rparr>\<rparr>)))))"

definition videobuf_read_stop :: "videobuf_queue_ops \<Rightarrow> vb_sys \<Rightarrow> vb_sys kres" where
  "videobuf_read_stop ops st =
     kbind (videobuf_queue_cancel ops st) (\<lambda>st1.
       case videobuf_free st1 of (err, st2) \<Rightarrow>
         Inr (st2\<lparr>vq := (vq st2)\<lparr>vq_stream := INIT_LIST_HEAD, vq_bufs := map (\<lambda>_. None) (vq_bufs (vq st2)),
                                   vq_read_buf := None\<rparr>\<rparr>))"

definition videobuf_stop :: "videobuf_queue_ops \<Rightarrow> vb_sys \<Rightarrow> vb_sys kres" where
  "videobuf_stop ops st =
     kbind (if vq_streaming (vq st)
            then kbind (videobuf_streamoff ops st) (\<lambda>(ret, st1). Inr st1) else Inr st) (\<lambda>st1.
       if vq_reading (vq st1) then videobuf_read_stop ops st1 else Inr st1)"

text \<open>
  Which buffer \<open>videobuf_poll_stream\<close> looks at; outside streaming it starts the read mode and
  takes the first buffer off the stream list.
\<close>

definition poll_buffer :: "videobuf_queue_ops \<Rightarrow> (nat \<Rightarrow> bool) \<Rightarrow> vb_sys \<Rightarrow> (nat option \<times> vb_sys) kres" where
  "poll_buffer ops mem st =
     (if vq_streaming (vq st) then
        if \<not> list_empty (vq_stream (vq st))
        then kbind (deref (list_first_entry (vq_stream (vq st)))) (\<lambda>i. Inr (Some i, st))
        else Inr (None, st)
      else
        kbind (if \<not> vq_reading (vq st)
               then kbind (videobuf_read_start ops mem st) (\<lambda>(err, st1). Inr st1) else Inr st) (\<lambda>st1.
          if vq_reading (vq st1) \<and> vq_read_buf (vq st1) = None then
            kbind (deref (list_first_entry (vq_stream (vq st1)))) (\<lambda>i.
            kbind (list_del i (vq_stream (vq st1))) (\<lambda>str.
              Inr (Some i, st1\<lparr>vq := (vq st1)\<lparr>vq_stream := str, vq_read_buf := Some i, vq_read_off := 0\<rparr>\<rparr>)))
          else Inr (if vq_reading (vq st1) then vq_read_buf (vq st1) else None, st1)))"

text \<open>
  A poll that finds nothing leaves the caller on the buffer's wait queue; a poll that finds an
  event returns and takes it off again.
\<close>

definition videobuf_poll_stream ::
    "videobuf_queue_ops \<Rightarrow> (nat \<Rightarrow> bool) \<Rightarrow> vb_sys \<Rightarrow> (u32 \<times> vb_sys) kres" where
  "videobuf_poll_stream ops mem st =
     kbind (poll_buffer ops mem st) (\<lambda>(buf, st1).
       case buf of None \<Rightarrow> Inr (POLLERR, st1)
       | Some i \<Rightarrow> kbind (get_vb st1 i) (\<lambda>vb.
           if vb_state vb = VIDEOBUF_DONE \<or> vb_state vb = VIDEOBUF_ERROR then
             Inr (if vq_type (vq st1) = 2 \<or> vq_type (vq st1) = 5 \<or> vq_type (vq st1) = 7
                  then POLLOUT OR POLLWRNORM else POLLIN OR POLLRDNORM, st1)
           else Inr (0, put_vb i (vb\<lparr>vb_done := True\<rparr>) st1)))"

section \<open>Mapping\<close>


definition videobuf_vm_open :: "nat \<Rightarrow> vb_sys \<Rightarrow> vb_sys" where
  "videobuf_vm_open m st = st\<lparr>mappings := upd_nth m (\<lambda>c. c + 1) (mappings st)\<rparr>"

definition unmap_vb :: "nat \<Rightarrow> videobuf_buffer \<Rightarrow> videobuf_buffer" where
  "unmap_vb m vb = (if vb_map vb = Some m then vb\<lparr>vb_vaddr := None, vb_map := None, vb_baddr := 0\<rparr> else vb)"

definition videobuf_vm_close :: "videobuf_queue_ops \<Rightarrow> nat \<Rightarrow> vb_sys \<Rightarrow> vb_sys kres" where
  "videobuf_vm_close ops m st =
     (let st1 = st\<lparr>mappings := upd_nth m (\<lambda>c. c - 1) (mappings st)\<rparr> in
      if mappings st1 ! m = 0 then
        kbind (if vq_streaming (vq st1) then videobuf_queue_cancel ops st1 else Inr st1) (\<lambda>st2.
          Inr (st2\<lparr>vq := (vq st2)\<lparr>vq_bufs := map (map_option (unmap_vb m)) (vq_bufs (vq st2))\<rparr>\<rparr>))
      else Inr st1)"

text \<open>
  The vmalloc mapper.  \<open>kz\<close> and \<open>vm\<close> tell whether the two allocations succeed, \<open>remap\<close> is the
  result of \<open>remap_vmalloc_range\<close>.  On the error path the buffer keeps its pointer to the freed
  mapping (whose use count stays 0), and after a failed remap also to the freed memory.
\<close>

definition vmalloc_mmap_mapper ::
    "bool \<Rightarrow> bool \<Rightarrow> int \<Rightarrow> nat \<Rightarrow> videobuf_buffer \<Rightarrow> vm_area \<Rightarrow> vb_sys \<Rightarrow> int \<times> vm_area \<times> vb_sys" where
  "vmalloc_mmap_mapper kz vm remap i buf vma st =
     (if \<not> kz then (- ENOMEM, vma, st)
      else
        let m = length (mappings st);
            st1 = st\<lparr>mappings := mappings st @ [0]\<rparr>;
            buf1 = buf\<lparr>vb_map := Some m, vb_baddr := vm_start vma\<rparr>;
            pages = PAGE_ALIGN (vm_end vma - vm_start vma)
        in if \<not> vm then (- ENOMEM, vma, put_vb i (buf1\<lparr>vb_vaddr := None\<rparr>) st1)
           else if remap < 0 then (- ENOMEM, vma, put_vb i (buf1\<lparr>vb_vaddr := Some []\<rparr>) st1)
           else (0, vma\<lparr>vm_ops := True, vm_flags := vm_flags vma OR VM_DONTEXPAND OR VM_RESERVED,
                         vm_private_data := Some m\<rparr>,
                 videobuf_vm_open m (put_vb i (buf1\<lparr>vb_vaddr := Some (replicate (unat pages) 0)\<rparr>) st1)))"

fun find_offset :: "videobuf_buffer option list \<Rightarrow> nat \<Rightarrow> u32 \<Rightarrow> nat option" where
  "find_offset [] i off = None"
| "find_offset (b # bs) i off =
     (case b of
        Some vb \<Rightarrow> if vb_memory vb = V4L2_MEMORY_MMAP \<and> vb_boff vb = off then Some i else find_offset bs (i + 1) off
      | None \<Rightarrow> find_offset bs (i + 1) off)"

definition videobuf_mmap_mapper ::
    "bool \<Rightarrow> bool \<Rightarrow> int \<Rightarrow> vm_area \<Rightarrow> vb_sys \<Rightarrow> int \<times> vm_area \<times> vb_sys" where
  "videobuf_mmap_mapper kz vm remap vma st =
     (if vm_flags vma AND VM_WRITE = 0 \<or> vm_flags vma AND VM_SHARED = 0 then (- EINVAL, vma, st)
      else case find_offset (vq_bufs (vq st)) 0 (push_bit 12 (vm_pgoff vma)) of
          None \<Rightarrow> (- EINVAL, vma, st)
        | Some i \<Rightarrow>
            (case vq_bufs (vq st) ! i of
               None \<Rightarrow> (- EINVAL, vma, st)
             | Some buf \<Rightarrow> vmalloc_mmap_mapper kz vm remap i buf vma st))"

definition videobuf_vmalloc_free :: "videobuf_buffer \<Rightarrow> videobuf_buffer" where
  "videobuf_vmalloc_free buf =
     (if vb_memory buf \<noteq> V4L2_MEMORY_USERPTR \<or> vb_baddr buf \<noteq> 0 then buf else buf\<lparr>vb_vaddr := None\<rparr>)"

end
