(* ===== verification/Videobuf_Inv.thy ===== *)
theory Videobuf_Inv
  imports Videobuf
begin

text \<open>
  What the videobuf layer promises a driver.  The driver side of the interface is the locale
  \<open>videobuf_driver\<close>: the four callbacks and what videobuf relies on of them.  Inside it every
  videobuf operation is shown to keep the invariant: the driver's list holds exactly the queued
  buffers, each once; the stream list holds exactly the buffers the application handed in, the
  finished ones first.
\<close>

section \<open>The invariant\<close>

definition buf_st :: "vb_sys \<Rightarrow> nat \<Rightarrow> videobuf_state option" where
  "buf_st st i = (if i < length (vq_bufs (vq st)) then map_option vb_state (vq_bufs (vq st) ! i) else None)"

definition busy :: "videobuf_state \<Rightarrow> bool" where
  "busy s = (s \<noteq> VIDEOBUF_NEEDS_INIT \<and> s \<noteq> VIDEOBUF_IDLE)"

definition finished :: "videobuf_state option \<Rightarrow> bool" where
  "finished s = (s = Some VIDEOBUF_DONE \<or> s = Some VIDEOBUF_ERROR)"

text \<open>
  Three situations: normal use (stream list \<open>xs\<close>, driver list \<open>ls\<close>); the read mode that a poll
  outside streaming enters; and a queue whose buffers were freed while they were on the stream
  list, which the next \<open>open\<close> initialises again.
\<close>

definition stream_phase :: "bool \<Rightarrow> (nat \<Rightarrow> videobuf_state option) \<Rightarrow> nat list \<Rightarrow> nat list \<Rightarrow> bool" where
  "stream_phase on bst xs ls \<longleftrightarrow>
     (if on then \<exists>ds. xs = ds @ ls \<and> (\<forall>i\<in>set ds. finished (bst i))
      else ls = [] \<and> (\<forall>i\<in>set xs. bst i = Some VIDEOBUF_PREPARED))"

definition vb_live :: "vb_sys \<Rightarrow> nat list \<Rightarrow> nat list \<Rightarrow> bool" where
  "vb_live st xs ls \<longleftrightarrow> length (vq_bufs (vq st)) = 32 \<and> vq_stream (vq st) = Some xs \<and> vq_local st = Some ls \<and>
     distinct xs \<and> \<not> vq_reading (vq st) \<and> vq_read_buf (vq st) = None \<and>
     (\<forall>i. i \<in> set xs \<longleftrightarrow> (\<exists>s. buf_st st i = Some s \<and> busy s)) \<and>
     (\<forall>i. i \<in> set ls \<longleftrightarrow> buf_st st i = Some VIDEOBUF_QUEUED) \<and>
     stream_phase (vq_streaming (vq st)) (buf_st st) xs ls"

definition vb_reading :: "vb_sys \<Rightarrow> nat list \<Rightarrow> bool" where
  "vb_reading st ls \<longleftrightarrow> length (vq_bufs (vq st)) = 32 \<and> vq_reading (vq st) \<and> \<not> vq_streaming (vq st) \<and>
     vq_local st = Some ls \<and> distinct ls \<and> (\<forall>i. i \<in> set ls \<longleftrightarrow> buf_st st i = Some VIDEOBUF_QUEUED) \<and>
     vq_stream (vq st) \<noteq> None \<and> (\<exists>i. vq_read_buf (vq st) = Some i \<and> buf_st st i \<noteq> None)"

definition vb_stale :: "vb_sys \<Rightarrow> bool" where
  "vb_stale st \<longleftrightarrow> vq_bufs (vq st) = replicate 32 None \<and> \<not> vq_streaming (vq st) \<and> \<not> vq_reading (vq st) \<and>
     vq_local st = Some [] \<and> vq_read_buf (vq st) = None \<and> (\<exists>n. vq_stream (vq st) = Some (replicate n dangling))"

definition vb_inv :: "vb_sys \<Rightarrow> bool" where
  "vb_inv st \<longleftrightarrow> (\<exists>xs ls. vb_live st xs ls) \<or> (\<exists>ls. vb_reading st ls) \<or> vb_stale st"

definition vb_filled :: "vb_sys \<Rightarrow> nat list" where
  "vb_filled st = (if vq_streaming (vq st) then filter (\<lambda>i. finished (buf_st st i)) (entries (vq_stream (vq st))) else [])"

definition vb_pending :: "vb_sys \<Rightarrow> nat list" where
  "vb_pending st = (if vq_reading (vq st) then []
     else filter (\<lambda>i. buf_st st i \<noteq> None \<and> \<not> finished (buf_st st i)) (entries (vq_stream (vq st))))"

lemma vb_inv_cases [consumes 1, case_names live reading stale]:
  assumes "vb_inv st"
  obtains xs ls where "vb_live st xs ls" | ls where "vb_reading st ls" | "vb_stale st"
  using assms by (auto simp: vb_inv_def)

lemma stream_phase_cong:
  "(\<And>i. i \<in> set xs \<Longrightarrow> bst' i = bst i) \<Longrightarrow> stream_phase on bst' xs ls = stream_phase on bst xs ls"
  by (auto simp: stream_phase_def)

lemma stream_phase_simps [simp]:
  "stream_phase on bst [] [] = True"
  "stream_phase False bst xs ls = (ls = [] \<and> (\<forall>i\<in>set xs. bst i = Some VIDEOBUF_PREPARED))"
  by (simp_all add: stream_phase_def)

lemma stream_phase_True: "stream_phase True bst xs ls = (\<exists>ds. xs = ds @ ls \<and> (\<forall>i\<in>set ds. finished (bst i)))"
  by (simp add: stream_phase_def)

lemma stream_phase_queue: "stream_phase True bst xs ls \<Longrightarrow> stream_phase True bst (xs @ [i]) (ls @ [i])"
  by (auto simp: stream_phase_def)

lemma buf_st_SomeD: "buf_st st i = Some s \<Longrightarrow>
    \<exists>vb. i < length (vq_bufs (vq st)) \<and> vq_bufs (vq st) ! i = Some vb \<and> vb_state vb = s \<and> get_vb st i = Inr vb"
  by (auto simp: buf_st_def get_vb_def split: if_splits)

lemma put_vb_simps [simp]:
  "length (vq_bufs (vq (put_vb i b st))) = length (vq_bufs (vq st))"
  "vq_stream (vq (put_vb i b st)) = vq_stream (vq st)" "vq_local (put_vb i b st) = vq_local st"
  "vq_streaming (vq (put_vb i b st)) = vq_streaming (vq st)" "vq_reading (vq (put_vb i b st)) = vq_reading (vq st)"
  "vq_read_buf (vq (put_vb i b st)) = vq_read_buf (vq st)" "vq_type (vq (put_vb i b st)) = vq_type (vq st)"
  "vq_field (vq (put_vb i b st)) = vq_field (vq st)" "mappings (put_vb i b st) = mappings st"
  by (simp_all add: put_vb_def)

lemma buf_st_put_vb [simp]:
  "i < length (vq_bufs (vq st)) \<Longrightarrow> buf_st (put_vb i b st) = (buf_st st)(i := Some (vb_state b))"
  by (auto simp: buf_st_def put_vb_def fun_eq_iff nth_list_update)

lemma buf_st_local [simp]: "buf_st (st\<lparr>vq_local := l\<rparr>) = buf_st st"
  by (simp add: buf_st_def fun_eq_iff)

lemma buf_st_queue [simp]:
  "buf_st (st\<lparr>vq := (vq st)\<lparr>vq_streaming := a\<rparr>\<rparr>) = buf_st st"
  "buf_st (st\<lparr>vq := (vq st)\<lparr>vq_streaming := a, vq_reading := b\<rparr>\<rparr>) = buf_st st"
  "buf_st (st\<lparr>vq := (vq st)\<lparr>vq_stream := l\<rparr>\<rparr>) = buf_st st"
  "buf_st (st\<lparr>vq := (vq st)\<lparr>vq_reading := b\<rparr>\<rparr>) = buf_st st"
  "buf_st (st\<lparr>vq := (vq st)\<lparr>vq_last := f\<rparr>\<rparr>) = buf_st st"
  "buf_st (st\<lparr>vq := (vq st)\<lparr>vq_stream := l, vq_read_buf := r, vq_read_off := x\<rparr>\<rparr>) = buf_st st"
  "buf_st (st\<lparr>mappings := ms\<rparr>) = buf_st st"
  by (simp_all add: buf_st_def fun_eq_iff)

text \<open>
  A change of the buffers that keeps their states keeps the invariant.
\<close>

definition same_phase :: "vb_sys \<Rightarrow> vb_sys \<Rightarrow> bool" where
  "same_phase st st' \<longleftrightarrow> length (vq_bufs (vq st')) = length (vq_bufs (vq st)) \<and> buf_st st' = buf_st st \<and>
     vq_stream (vq st') = vq_stream (vq st) \<and> vq_local st' = vq_local st \<and>
     vq_streaming (vq st') = vq_streaming (vq st) \<and> vq_reading (vq st') = vq_reading (vq st) \<and>
     vq_read_buf (vq st') = vq_read_buf (vq st)"

lemma buf_st_all_None: "length (vq_bufs (vq st)) = n \<Longrightarrow> (\<forall>i. buf_st st i = None) \<longleftrightarrow> vq_bufs (vq st) = replicate n None"
  by (auto simp: buf_st_def list_eq_iff_nth_eq)

lemma same_phase_keeps:
  assumes "same_phase st st'"
  shows "vb_live st' xs ls = vb_live st xs ls" "vb_reading st' ls = vb_reading st ls" "vb_stale st' = vb_stale st"
    "vb_inv st' = vb_inv st" "vb_filled st' = vb_filled st" "vb_pending st' = vb_pending st"
proof -
  have s: "vb_stale st' = vb_stale st"
    using assms buf_st_all_None [of st 32] buf_st_all_None [of st' 32]
    by (auto simp: same_phase_def vb_stale_def)
  have l: "vb_live st' xs ls = vb_live st xs ls" "vb_reading st' ls = vb_reading st ls" for xs ls
    using assms by (auto simp: same_phase_def vb_live_def vb_reading_def)
  show "vb_live st' xs ls = vb_live st xs ls" "vb_reading st' ls = vb_reading st ls" "vb_stale st' = vb_stale st"
    "vb_inv st' = vb_inv st" by (simp_all add: s l vb_inv_def)
  show "vb_filled st' = vb_filled st" "vb_pending st' = vb_pending st"
    using assms by (simp_all add: same_phase_def vb_filled_def vb_pending_def)
qed

lemma same_phase_put:
  assumes "vq_bufs (vq st) ! i = Some vb" "i < length (vq_bufs (vq st))" "vb_state vb' = vb_state vb"
  shows "same_phase st (put_vb i vb' st)"
proof -
  have "buf_st st i = Some (vb_state vb')" using assms by (simp add: buf_st_def)
  then have "(buf_st st)(i := Some (vb_state vb')) = buf_st st" by (simp add: fun_eq_iff)
  then show ?thesis using assms(2) by (simp add: same_phase_def)
qed

lemma live_buffer:
  assumes "vb_live st xs ls" "i \<in> set xs"
  obtains vb where "vq_bufs (vq st) ! i = Some vb" "i < 32" "buf_st st i = Some (vb_state vb)" "get_vb st i = Inr vb"
proof -
  obtain s where "buf_st st i = Some s" "length (vq_bufs (vq st)) = 32" using assms by (auto simp: vb_live_def)
  then show ?thesis using buf_st_SomeD [of st i s] that by auto
qed

lemma vb_live_lists:
  assumes "vb_live st xs ls"
  shows "vb_filled st @ vb_pending st = xs"
    and "vq_streaming (vq st) \<Longrightarrow> vb_pending st = ls"
    and "\<not> vq_streaming (vq st) \<Longrightarrow> vb_filled st = [] \<and> vb_pending st = xs"
proof -
  have s: "i \<in> set xs \<Longrightarrow> buf_st st i \<noteq> None" for i using assms by (auto simp: vb_live_def)
  have q: "i \<in> set ls \<Longrightarrow> buf_st st i = Some VIDEOBUF_QUEUED" for i using assms by (auto simp: vb_live_def)
  show off: "vb_filled st = [] \<and> vb_pending st = xs" if "\<not> vq_streaming (vq st)"
    using assms that by (auto simp: vb_live_def vb_filled_def vb_pending_def finished_def filter_id_conv)
  have on: "vb_filled st @ vb_pending st = xs \<and> vb_pending st = ls" if s: "vq_streaming (vq st)"
  proof -
    obtain ds where ds: "xs = ds @ ls" "\<forall>i\<in>set ds. finished (buf_st st i)"
      using assms s by (auto simp: vb_live_def stream_phase_True)
    have "filter (\<lambda>i. finished (buf_st st i)) xs = ds"
      "filter (\<lambda>i. buf_st st i \<noteq> None \<and> \<not> finished (buf_st st i)) xs = ls"
      using ds q by (auto simp: filter_empty_conv filter_id_conv finished_def)
    then show ?thesis using assms s ds(1) by (simp add: vb_live_def vb_filled_def vb_pending_def)
  qed
  show "vq_streaming (vq st) \<Longrightarrow> vb_pending st = ls" using on by simp
  show "vb_filled st @ vb_pending st = xs" using on off by (cases "vq_streaming (vq st)") auto
qed

lemma reading_lists: "vb_reading st ls \<Longrightarrow> vb_filled st = [] \<and> vb_pending st = []"
  by (simp add: vb_reading_def vb_filled_def vb_pending_def)

lemma stale_lists: "vb_stale st \<Longrightarrow> vb_filled st = [] \<and> vb_pending st = []"
  by (auto simp: vb_stale_def vb_filled_def vb_pending_def buf_st_def)

section \<open>Cancelling\<close>

lemma cancel_queued_ok:
  assumes "length (vq_bufs (vq st)) = 32" "vq_local st = Some ls" "set js \<subseteq> {..<32}" "distinct js"
    and "\<forall>i\<in>set js. buf_st st i = Some VIDEOBUF_QUEUED \<longleftrightarrow> i \<in> set ls" "distinct ls"
  shows "\<exists>st'. cancel_queued js st = Inr st' \<and> length (vq_bufs (vq st')) = 32 \<and>
    vq_local st' = Some (filter (\<lambda>i. i \<notin> set js) ls) \<and> vq_streaming (vq st') = vq_streaming (vq st) \<and>
    vq_reading (vq st') = vq_reading (vq st) \<and> vq_stream (vq st') = vq_stream (vq st) \<and> 
    vq_read_buf (vq st') = vq_read_buf (vq st) \<and> (\<forall>i. buf_st st' i = None \<longleftrightarrow> buf_st st i = None)"
  using assms
proof (induction js arbitrary: st ls)
  case Nil
  then show ?case by simp
next
  case (Cons i js)
  show ?case
  proof (cases "buf_st st i = Some VIDEOBUF_QUEUED")
    case True
    then obtain vb where vb: "vq_bufs (vq st) ! i = Some vb" "vb_state vb = VIDEOBUF_QUEUED"
      using buf_st_SomeD [OF True] by blast
    let ?st = "(put_vb i (vb\<lparr>vb_state := VIDEOBUF_ERROR, vb_done := False\<rparr>) st)\<lparr>vq_local := Some (removeAll i ls)\<rparr>"
    have i: "i < 32" "i \<in> set ls" "i \<notin> set js" using Cons.prems True by auto
    have "\<forall>j\<in>set js. buf_st ?st j = Some VIDEOBUF_QUEUED \<longleftrightarrow> j \<in> set (removeAll i ls)"
      using Cons.prems(1,5) i by auto
    moreover have "filter (\<lambda>j. j \<notin> set js) (removeAll i ls) = filter (\<lambda>j. j \<notin> set (i # js)) ls"
      by (simp add: removeAll_filter_not_eq) (metis (lifting))
    moreover have "\<forall>j. buf_st ?st j = None \<longleftrightarrow> buf_st st j = None" using Cons.prems(1) i(1) True by simp
    moreover have "cancel_queued (i # js) st = cancel_queued js ?st"
      using vb i(2) Cons.prems(2) by (simp add: list_del_def)
    ultimately show ?thesis
      using Cons.IH [of ?st "removeAll i ls"] Cons.prems i(1) by (simp add: distinct_removeAll)
  next
    case False
    then have "cancel_queued (i # js) st = cancel_queued js st"
      using Cons.prems by (auto simp: buf_st_def split: option.split)
    moreover have "filter (\<lambda>j. j \<notin> set js) ls = filter (\<lambda>j. j \<notin> set (i # js)) ls"
      using Cons.prems(5) False by (intro filter_cong) auto
    ultimately show ?thesis using Cons.IH [of st ls] Cons.prems by simp
  qed
qed

section \<open>Setting up buffers\<close>

lemma setup_buffers_ok:
  "i + n \<le> length bs \<Longrightarrow> \<exists>j bs'. setup_buffers mem n i bsize memory bs = Inr (j, bs') \<and> length bs' = length bs \<and>
     i \<le> j \<and> j \<le> i + n \<and> (mem i \<and> 0 < n \<longrightarrow> i < j) \<and> (\<forall>k<length bs. bs' ! k = (if i \<le> k \<and> k < j then Some (setup_buffer k bsize memory vb_zero)
       else if k = j \<and> j < i + n then None else bs ! k))"
proof (induction n arbitrary: i bs)
  case 0
  then show ?case by auto
next
  case (Suc n)
  show ?case
  proof (cases "mem i")
    case True
    let ?bs = "bs[i := Some (setup_buffer i bsize memory vb_zero)]"
    obtain j bs' where j: "setup_buffers mem n (i + 1) bsize memory ?bs = Inr (j, bs')" "length bs' = length bs"
      "i + 1 \<le> j" "j \<le> i + 1 + n"
      "\<forall>k<length bs. bs' ! k = (if i + 1 \<le> k \<and> k < j then Some (setup_buffer k bsize memory vb_zero)
         else if k = j \<and> j < i + 1 + n then None else ?bs ! k)"
      using Suc.IH [of "i + 1" ?bs] Suc.prems by auto
    moreover have "setup_buffers mem (Suc n) i bsize memory bs = Inr (j, bs')"
      using j(1) True Suc.prems by (simp add: videobuf_alloc_vb_def)
    ultimately show ?thesis using Suc.prems by (intro exI [of _ j] exI [of _ bs']) (auto simp: nth_list_update not_less_eq_eq dest: le_antisym)
  next
    case False
    then show ?thesis using Suc.prems
      by (intro exI [of _ i] exI [of _ "bs[i := None]"]) (auto simp: videobuf_alloc_vb_def nth_list_update)
  qed
qed

lemma free_cases:
  assumes "vb_live st xs ls \<or> vb_stale st"
  obtains "videobuf_free st = (- EBUSY, st)"
  | st' where "videobuf_free st = (0, st')" "vb_stale st'" "vq_streaming (vq st) = False"
      "list_empty (vq_stream (vq st)) \<longrightarrow> vq_stream (vq st') = Some []"
      "vq_stream (vq st') = map_option (map (\<lambda>_. dangling)) (vq_stream (vq st))" 
      "vq_read_buf (vq st') = vq_read_buf (vq st)" "vq_field (vq st') = vq_field (vq st)"
proof (cases "vq_streaming (vq st) \<or> vq_reading (vq st) \<or> list_ex is_mapped (vq_bufs (vq st))")
  case True
  then show ?thesis using that(1) by (auto simp: videobuf_free_def Let_def)
next
  case False
  then have "vq_local st = Some []" "length (vq_bufs (vq st)) = 32" "vq_stream (vq st) \<noteq> None" "vq_read_buf (vq st) = None"
    using assms by (auto simp: vb_live_def vb_stale_def)
  then show ?thesis using that(2) False
    by (auto simp: videobuf_free_def Let_def vb_stale_def map_replicate_const)
qed

text \<open>
  With a count of at most 32, \<open>__videobuf_mmap_setup\<close> does not fault; on success the first
  buffers are fresh and the rest are missing.
\<close>

lemma mmap_setup_cases:
  assumes st: "vb_live st xs ls \<or> vb_stale st" and c: "unat bcount \<le> 32"
  obtains "videobuf_mmap_setup mem bcount bsize memory st = Inr (- EBUSY, st)"
  | st' where "videobuf_mmap_setup mem bcount bsize memory st = Inr (- ENOMEM, st')" "vb_stale st'"
      "mem 0 \<longrightarrow> bcount = 0"
  | n st' where "videobuf_mmap_setup mem bcount bsize memory st = Inr (int n, st')" "0 < n" "n \<le> unat bcount"
      "length (vq_bufs (vq st')) = 32"
      "\<forall>k<32. vq_bufs (vq st') ! k = (if k < n then Some (setup_buffer k bsize memory vb_zero) else None)"
      "vq_stream (vq st') = map_option (map (\<lambda>_. dangling)) (vq_stream (vq st))" "vq_local st' = Some []"
      "\<not> vq_streaming (vq st')" "\<not> vq_reading (vq st')" "vq_read_buf (vq st') = None"
proof (rule free_cases [OF st])
  assume "videobuf_free st = (- EBUSY, st)"
  then show ?thesis using that(1) by (simp add: videobuf_mmap_setup_def)
next
  fix st1 assume f: "videobuf_free st = (0, st1)" and s: "vb_stale st1"
    and str: "vq_stream (vq st1) = map_option (map (\<lambda>_. dangling)) (vq_stream (vq st))"
  have b: "vq_bufs (vq st1) = replicate 32 None" using s by (simp add: vb_stale_def)
  let ?N = "replicate 32 None :: videobuf_buffer option list"
  have "0 + unat bcount \<le> length ?N" using c by simp
  from setup_buffers_ok [OF this, of mem bsize memory] obtain j bs' where
    "setup_buffers mem (unat bcount) 0 bsize memory ?N = Inr (j, bs')" "length bs' = length ?N"
    "j \<le> 0 + unat bcount" "mem 0 \<and> 0 < unat bcount \<longrightarrow> 0 < j"
    "\<forall>k<length ?N. bs' ! k = (if 0 \<le> k \<and> k < j then Some (setup_buffer k bsize memory vb_zero)
       else if k = j \<and> j < 0 + unat bcount then None else ?N ! k)"
    by blast
  then have j: "setup_buffers mem (unat bcount) 0 bsize memory (replicate 32 None) = Inr (j, bs')" "length bs' = 32"
    "j \<le> unat bcount" "mem 0 \<and> 0 < unat bcount \<longrightarrow> 0 < j"
    "\<forall>k<32. bs' ! k = (if k < j then Some (setup_buffer k bsize memory vb_zero) else None)"
    by auto
  let ?st = "st1\<lparr>vq := (vq st1)\<lparr>vq_bufs := bs'\<rparr>\<rparr>"
  have m: "videobuf_mmap_setup mem bcount bsize memory st = Inr (if j = 0 then - ENOMEM else int j, ?st)"
    using f b j(1) by (simp add: videobuf_mmap_setup_def)
  show ?thesis
  proof (cases "j = 0")
    case True
    then have "bs' = replicate 32 None" using j(2,5) by (simp add: list_eq_iff_nth_eq)
    moreover have "mem 0 \<longrightarrow> bcount = 0" using True j(4) by (auto simp: unat_gt_0)
    ultimately show ?thesis using that(2) [of ?st] m True s by (simp add: vb_stale_def)
  next
    case False
    then show ?thesis using that(3) [of j ?st] m j s str by (simp add: vb_stale_def)
  qed
qed

lemma fresh_live:
  assumes "length (vq_bufs (vq st)) = 32" "vq_stream (vq st) = Some []" "vq_local st = Some []"
    "\<not> vq_streaming (vq st)" "\<not> vq_reading (vq st)" "vq_read_buf (vq st) = None"
    "\<forall>k<32. vq_bufs (vq st) ! k = (if k < n then Some (setup_buffer k bsize memory vb_zero) else None)"
  shows "vb_live st [] []"
  using assms by (auto simp: vb_live_def buf_st_def busy_def setup_buffer_def vb_zero_def Let_def)

lemma mmap_setup_inv:
  assumes st: "vb_live st xs ls \<or> vb_stale st" and x: "vq_stream (vq st) = Some []" and c: "unat bcount \<le> 32"
    and m: "videobuf_mmap_setup mem bcount bsize memory st = Inr (rv, st')"
  shows "vb_inv st'"
proof (rule mmap_setup_cases [OF st c, of mem bsize memory])
  fix n st1 assume s: "videobuf_mmap_setup mem bcount bsize memory st = Inr (int n, st1)"
    "length (vq_bufs (vq st1)) = 32"
    "\<forall>k<32. vq_bufs (vq st1) ! k = (if k < n then Some (setup_buffer k bsize memory vb_zero) else None)"
    "vq_stream (vq st1) = map_option (map (\<lambda>_. dangling)) (vq_stream (vq st))" "vq_local st1 = Some []"
    "\<not> vq_streaming (vq st1)" "\<not> vq_reading (vq st1)" "vq_read_buf (vq st1) = None"
  have "vb_live st1 [] []" by (rule fresh_live [OF s(2) _ s(5-8,3)]) (simp add: s(4) x)
  then show ?thesis using m s(1) by (auto simp: vb_inv_def)
qed (use m st in \<open>auto simp: vb_inv_def\<close>)

section \<open>The driver's side of the interface\<close>

locale videobuf_driver =
  fixes ops :: videobuf_queue_ops
  assumes setup_count: "unat c \<le> 32 \<Longrightarrow> unat (fst (buf_setup ops c s)) \<le> 32"
    and prepare_state: "buf_prepare ops vb f = (r, vb') \<Longrightarrow> r = 0 \<and> vb_state vb' = VIDEOBUF_PREPARED"
    and queue_links: "buf_queue ops i vb (Some ls) = Inr (vb', l') \<Longrightarrow>
      vb_state vb' = VIDEOBUF_QUEUED \<and> l' = Some (ls @ [i])"
    and release_state: "vb_state (buf_release ops vb) = VIDEOBUF_NEEDS_INIT"
begin

lemma cancel_ok:
  assumes "length (vq_bufs (vq st)) = 32" "vq_local st = Some ls" "distinct ls"
    and "\<forall>i. i \<in> set ls \<longleftrightarrow> buf_st st i = Some VIDEOBUF_QUEUED"
  shows "\<exists>st'. videobuf_queue_cancel ops st = Inr st' \<and> \<not> vq_streaming (vq st') \<and>
    vq_read_buf (vq st') = vq_read_buf (vq st) \<and> vb_live (st'\<lparr>vq := (vq st')\<lparr>vq_read_buf := None\<rparr>\<rparr>) [] []"
proof -
  let ?s0 = "st\<lparr>vq := (vq st)\<lparr>vq_streaming := False, vq_reading := False\<rparr>\<rparr>"
  obtain s1 where s1: "cancel_queued [0..<32] ?s0 = Inr s1" "length (vq_bufs (vq s1)) = 32"
    "vq_local s1 = Some (filter (\<lambda>i. i \<notin> set [0..<32]) ls)" "\<not> vq_streaming (vq s1)" "\<not> vq_reading (vq s1)"
    "vq_read_buf (vq s1) = vq_read_buf (vq st)"
    using cancel_queued_ok [of ?s0 ls "[0..<32]"] assms by (auto simp: lessThan_atLeast0)
  have "i < 32" if "i \<in> set ls" for i using that assms(1,4) by (auto simp: buf_st_def split: if_splits)
  then have "vq_local s1 = Some []" using s1(3) by (auto simp: filter_empty_conv)
  moreover have "map_option vb_state (map_option (buf_release ops) b) \<noteq> Some s" if "busy s" for b s
    using that by (cases b) (auto simp: busy_def release_state)
  ultimately have "vb_live (s1\<lparr>vq := (vq s1)\<lparr>vq_bufs := map (map_option (buf_release ops)) (vq_bufs (vq s1)),
      vq_stream := Some [], vq_read_buf := None\<rparr>\<rparr>) [] []"
    using s1(2,4,5) by (auto simp: vb_live_def buf_st_def busy_def release_state)
  then show ?thesis
    using s1 by (auto simp: videobuf_queue_cancel_def INIT_LIST_HEAD_def)
qed

lemma cancel_inv:
  assumes "vb_live st xs ls \<or> vb_reading st ls"
  shows "\<exists>st'. videobuf_queue_cancel ops st = Inr st' \<and> \<not> vq_streaming (vq st') \<and>
    vq_read_buf (vq st') = vq_read_buf (vq st) \<and> vb_live (st'\<lparr>vq := (vq st')\<lparr>vq_read_buf := None\<rparr>\<rparr>) [] []"
proof (rule cancel_ok)
  show "distinct ls" using assms by (auto simp: vb_live_def vb_reading_def stream_phase_def split: if_splits)
qed (use assms in \<open>auto simp: vb_live_def vb_reading_def\<close>)

end

section \<open>The ioctls keep the invariant\<close>

context videobuf_driver
begin

lemma vb_reqbufs_inv:
  assumes inv: "vb_inv st" and r: "videobuf_reqbufs ops mem req st = Inr (ret, req', st')"
  shows "vb_inv st'"
proof (cases "st' = st")
  case False
  let ?c = "if rb_count req > of_nat 32 then of_nat 32 else rb_count req"
  let ?n = "fst (buf_setup ops ?c 0)" and ?sz = "snd (buf_setup ops ?c 0)"
  have e: "list_empty (vq_stream (vq st))"
    and m: "\<exists>rv. videobuf_mmap_setup mem ?n ?sz (rb_memory req) st = Inr (rv, st')"
    using r False
    by (auto simp: videobuf_reqbufs_def Let_def kbind_Inr_iff split: if_splits prod.splits)
  have c: "unat ?n \<le> 32" by (rule setup_count) (simp add: word_less_nat_alt)
  from inv show ?thesis
  proof (cases rule: vb_inv_cases)
    case (reading ls)
    then have "videobuf_free st = (- EBUSY, st)" by (simp add: vb_reading_def videobuf_free_def Let_def)
    then show ?thesis using m inv by (auto simp: videobuf_mmap_setup_def)
  next
    case (live xs ls)
    then have "vq_stream (vq st) = Some []" using e by (auto simp: vb_live_def)
    then show ?thesis using m mmap_setup_inv [OF disjI1 [OF live] _ c] by blast
  next
    case stale
    then have "vq_stream (vq st) = Some []" using e by (auto simp: vb_stale_def)
    then show ?thesis using m mmap_setup_inv [OF disjI2 [OF stale] _ c] by blast
  qed
qed (use inv in simp)

text \<open>
  Preparing a free buffer and linking it at the end of the stream list.
\<close>

lemma next_field_frame:
  "videobuf_next_field q = Inr (f, q') \<Longrightarrow> \<exists>l. q' = q\<lparr>vq_last := l\<rparr>"
  by (auto simp: videobuf_next_field_def split: if_splits intro: exI [of _ "vq_last q"])

lemma live_append:
  assumes l: "vb_live st xs ls" and i: "buf_st st i = Some s" "\<not> busy s"
    and f: "buf_st st' = (buf_st st)(i := Some (if vq_streaming (vq st) then VIDEOBUF_QUEUED else VIDEOBUF_PREPARED))"
    "length (vq_bufs (vq st')) = 32" "vq_stream (vq st') = Some (xs @ [i])"
    "vq_local st' = Some (if vq_streaming (vq st) then ls @ [i] else ls)"
    "vq_streaming (vq st') = vq_streaming (vq st)" "vq_reading (vq st') = vq_reading (vq st)"
    "vq_read_buf (vq st') = vq_read_buf (vq st)"
  shows "vb_live st' (xs @ [i]) (if vq_streaming (vq st) then ls @ [i] else ls)"
proof -
  have n: "i \<notin> set xs" "i \<notin> set ls" using l i by (auto simp: vb_live_def busy_def)
  have "stream_phase on (buf_st st') xs ls = stream_phase on (buf_st st) xs ls" for on
    by (rule stream_phase_cong) (use n(1) in \<open>auto simp: f(1)\<close>)
  then have "stream_phase (vq_streaming (vq st)) (buf_st st') xs ls" using l by (simp add: vb_live_def)
  then have "stream_phase (vq_streaming (vq st)) (buf_st st') (xs @ [i]) (if vq_streaming (vq st) then ls @ [i] else ls)"
    using f(1) stream_phase_queue by (cases "vq_streaming (vq st)") auto
  then show ?thesis using l i f n by (auto simp: vb_live_def busy_def)
qed

lemma qbuf_prepare_live:
  assumes l: "vb_live st xs ls" and i: "buf_st st i = Some s" "\<not> busy s"
    and r: "qbuf_prepare ops i vb st = Inr (ret, st')"
  shows "ret = 0 \<and> vq_streaming (vq st') = vq_streaming (vq st) \<and>
    vb_live st' (xs @ [i]) (if vq_streaming (vq st) then ls @ [i] else ls)"
proof -
  have x: "i < 32" "length (vq_bufs (vq st)) = 32" "vq_stream (vq st) = Some xs" "vq_local st = Some ls"
    using l i buf_st_SomeD [OF i(1)] by (auto simp: vb_live_def)
  obtain field q1 k where q1: "videobuf_next_field (vq st) = Inr (field, q1)" "q1 = (vq st)\<lparr>vq_last := k\<rparr>"
    using r next_field_frame [of "vq st"] by (fastforce simp: qbuf_prepare_def kbind_Inr_iff)
  obtain vb1 where p: "buf_prepare ops vb field = (0, vb1)" and ps: "vb_state vb1 = VIDEOBUF_PREPARED"
    using prepare_state by (cases "buf_prepare ops vb field") auto
  have "xs = [] \<or> last xs \<in> set xs" by (cases "xs = []") simp_all
  then have nd: "xs = [] \<or> last xs \<noteq> dangling" using l x(2) by (auto simp: vb_live_def buf_st_def)
  let ?st1 = "put_vb i vb1 (st\<lparr>vq := q1\<rparr>)"
  have b1: "buf_st ?st1 = (buf_st st)(i := Some VIDEOBUF_PREPARED)" using x(1,2) ps by (simp add: q1(2))
  let ?st2 = "?st1\<lparr>vq := (vq ?st1)\<lparr>vq_stream := Some (xs @ [i])\<rparr>\<rparr>"
  have add: "vb_add_tail i (vq_stream q1) = Inr (Some (xs @ [i]))"
    using nd x(3) by (auto simp: vb_add_tail_def q1(2))
  show ?thesis
  proof (cases "vq_streaming (vq st)")
    case False
    then have st': "ret = 0" "st' = ?st2" using r q1 p add by (simp_all add: qbuf_prepare_def Let_def)
    have "buf_st st' = (buf_st st)(i := Some VIDEOBUF_PREPARED)" using b1 by (simp add: st')
    then show ?thesis using live_append [OF l i, of st'] False x by (simp add: st' q1(2))
  next
    case s: True
    obtain vb2 l2 where bq: "buf_queue ops i vb1 (Some ls) = Inr (vb2, l2)"
      and st': "ret = 0" "st' = (put_vb i vb2 ?st2)\<lparr>vq_local := l2\<rparr>"
      using r q1 p add s x(4) by (auto simp: qbuf_prepare_def Let_def kbind_Inr_iff)
    have v2: "vb_state vb2 = VIDEOBUF_QUEUED" "l2 = Some (ls @ [i])" using queue_links [OF bq] by simp_all
    have "buf_st st' = (buf_st st)(i := Some VIDEOBUF_QUEUED)"
      using b1 v2(1) x(1,2) by (simp add: st' q1(2))
    then show ?thesis using live_append [OF l i, of st'] s x v2(2) by (simp add: st' q1(2))
  qed
qed

text \<open>
  QBUF: an accepted buffer goes to the end of the pending ones, a refusal leaves the lists alone.
\<close>

lemma qbuf_cases:
  assumes r: "videobuf_qbuf ops b st = Inr (ret, st')" and rd: "\<not> vq_reading (vq st)" and i: "i = unat (b_index b)"
  obtains (same) "ret \<noteq> 0" "st' = st"
  | (input) buf n where "ret \<noteq> 0" "i < 32" "vq_bufs (vq st) ! i = Some buf" "st' = put_vb i (buf\<lparr>vb_input := n\<rparr>) st"
  | (prepare) buf n vb where "i < 32" "vq_bufs (vq st) ! i = Some buf" "\<not> busy (vb_state buf)"
      "qbuf_prepare ops i vb (put_vb i (buf\<lparr>vb_input := n\<rparr>) st) = Inr (ret, st')"
      "qbuf_memory ops b (vq st) buf (buf\<lparr>vb_input := n\<rparr>) = Some vb"
proof (cases "b_type b \<noteq> vq_type (vq st) \<or> i \<ge> 32 \<or> vq_bufs (vq st) ! i = None")
  case True
  then have "ret \<noteq> 0 \<and> st' = st" using r rd by (auto simp: videobuf_qbuf_def Let_def i split: if_splits)
  then show ?thesis using same by blast
next
  case False
  then obtain buf where b: "vq_bufs (vq st) ! i = Some buf" by auto
  show ?thesis
  proof (cases "vb_memory buf \<noteq> b_memory b \<or> busy (vb_state buf) \<or>
      b_flags b AND V4L2_BUF_FLAG_INPUT \<noteq> 0 \<and> b_input b \<ge> vq_inputs (vq st)")
    case True
    then have "ret = - EINVAL \<and> st' = st"
      using r rd False b unfolding videobuf_qbuf_def Let_def i busy_def by (simp only: option.case if_False simp_thms) (simp split: if_splits)
    then show ?thesis using same by simp
  next
    case ok: False
    define n where "n = (if b_flags b AND V4L2_BUF_FLAG_INPUT \<noteq> 0 then b_input b else -1)"
    have "(case qbuf_memory ops b (vq st) buf (buf\<lparr>vb_input := n\<rparr>) of
        None \<Rightarrow> Inr (- EINVAL, put_vb i (buf\<lparr>vb_input := n\<rparr>) st)
      | Some vb \<Rightarrow> qbuf_prepare ops i vb (put_vb i (buf\<lparr>vb_input := n\<rparr>) st)) = Inr (ret, st')"
      using r rd False b ok unfolding videobuf_qbuf_def Let_def i n_def busy_def
      by (simp only: option.case if_False simp_thms de_Morgan_disj)
    then show ?thesis
      using False ok b input [of buf n] prepare [of buf _ n] by (auto split: option.splits)
  qed
qed

lemma qbuf_live:
  assumes l: "vb_live st xs ls" and r: "videobuf_qbuf ops b st = Inr (ret, st')"
  shows "vq_streaming (vq st') = vq_streaming (vq st) \<and>
    (if ret = 0 then vb_live st' (xs @ [unat (b_index b)]) (if vq_streaming (vq st) then ls @ [unat (b_index b)] else ls)
     else vb_live st' xs ls)"
proof -
  let ?i = "unat (b_index b)"
  have len: "length (vq_bufs (vq st)) = 32" and rd: "\<not> vq_reading (vq st)" using l by (auto simp: vb_live_def)
  show ?thesis
  proof (cases rule: qbuf_cases [OF r rd refl, case_names same input prepare])
    case same
    then show ?thesis using l by simp
  next
    case (input buf n)
    have sp: "same_phase st st'" unfolding input(4) by (rule same_phase_put [OF input(3)]) (use input(2) len in simp_all)
    then have "vq_streaming (vq st') = vq_streaming (vq st)" by (simp add: same_phase_def)
    then show ?thesis using same_phase_keeps(1) [OF sp, of xs ls] l input(1) by simp
  next
    case (prepare buf n vb)
    let ?st1 = "put_vb ?i (buf\<lparr>vb_input := n\<rparr>) st"
    have sp: "same_phase st ?st1" by (rule same_phase_put [OF prepare(2)]) (use prepare(1) len in simp_all)
    have sb: "buf_st ?st1 ?i = Some (vb_state buf)" using prepare(1) len by simp
    have lv: "vb_live ?st1 xs ls" using same_phase_keeps(1) [OF sp, of xs ls] l by simp
    show ?thesis using qbuf_prepare_live [OF lv sb prepare(3,4)] by simp
  qed
qed

lemma vb_qbuf_inv:
  assumes inv: "vb_inv st" and r: "videobuf_qbuf ops b st = Inr (ret, st')"
  shows "vb_inv st' \<and> vb_filled st' = vb_filled st \<and>
    vb_pending st' = (if ret = 0 then vb_pending st @ [unat (b_index b)] else vb_pending st)"
  using inv
proof (cases rule: vb_inv_cases)
  case (live xs ls)
  note q = qbuf_live [OF live r]
  let ?x = "if ret = 0 then xs @ [unat (b_index b)] else xs"
  let ?l = "if ret = 0 \<and> vq_streaming (vq st) then ls @ [unat (b_index b)] else ls"
  have l': "vb_live st' ?x ?l" using q by (auto split: if_splits)
  then have "vb_inv st'" by (auto simp: vb_inv_def)
  then show ?thesis
    using vb_live_lists [OF live] vb_live_lists [OF l'] q by (cases "vq_streaming (vq st)") (auto split: if_splits)
next
  case (reading ls)
  then have "ret \<noteq> 0 \<and> st' = st" using r by (auto simp: videobuf_qbuf_def vb_reading_def Let_def)
  then show ?thesis using inv by simp
next
  case stale
  then have rd: "\<not> vq_reading (vq st)" and b: "vq_bufs (vq st) = replicate 32 None" by (simp_all add: vb_stale_def)
  show ?thesis by (rule qbuf_cases [OF r rd refl]) (use inv b in auto)
qed

lemma live_head:
  assumes l: "vb_live st (i # ys) ls" and on: "vq_streaming (vq st)"
  shows "\<not> finished (buf_st st i) \<Longrightarrow> vb_filled st = []"
    and "finished (buf_st st i) \<Longrightarrow> stream_phase True (buf_st st) ys ls"
proof -
  obtain ds where ds: "i # ys = ds @ ls" "\<forall>j\<in>set ds. finished (buf_st st j)"
    using l on by (auto simp: vb_live_def stream_phase_True)
  show "vb_filled st = []" if nf: "\<not> finished (buf_st st i)"
  proof -
    have "ds = []" using ds nf by (cases ds) auto
    then show ?thesis using ds(1) vb_live_lists(1,2) [OF l] on by simp
  qed
  show "stream_phase True (buf_st st) ys ls" if f: "finished (buf_st st i)"
  proof -
    have "i \<notin> set ls" using f l by (auto simp: vb_live_def finished_def)
    then obtain ds' where "ds = i # ds'" using ds(1) by (cases ds) auto
    then show ?thesis using ds by (auto simp: stream_phase_True)
  qed
qed

lemma vb_live_take:
  assumes l: "vb_live st (i # ys) ls" and on: "vq_streaming (vq st)" and f: "finished (buf_st st i)"
    and st': "buf_st st' = (buf_st st)(i := Some VIDEOBUF_IDLE)" "length (vq_bufs (vq st')) = 32"
    "vq_stream (vq st') = Some ys" "vq_local st' = Some ls" "vq_streaming (vq st')" "\<not> vq_reading (vq st')"
    "vq_read_buf (vq st') = None"
  shows "vb_live st' ys ls"
proof -
  have n: "i \<notin> set ys" "i \<notin> set ls" using l f by (auto simp: vb_live_def finished_def)
  have "stream_phase True (buf_st st') ys ls = stream_phase True (buf_st st) ys ls"
    by (rule stream_phase_cong) (use n(1) in \<open>auto simp: st'(1)\<close>)
  then have p: "stream_phase True (buf_st st') ys ls" using live_head(2) [OF l on f] by simp
  show ?thesis using l n st' p by (auto simp: vb_live_def busy_def)
qed

text \<open>
  DQBUF: the oldest finished buffer, or nothing.  The first entry of the stream list decides.
\<close>

lemma dqbuf_head:
  assumes "vb_live st (i # xs) ls" "vq_streaming (vq st)" "vq_bufs (vq st) ! i = Some vb" "i < 32"
  shows "videobuf_dqbuf nb sg st =
    (if finished (Some (vb_state vb)) then
       Inr (Some 0, (videobuf_status 0 vb (vq_type (vq st)))\<lparr>b_flags := b_flags (videobuf_status 0 vb (vq_type (vq st))) AND NOT V4L2_BUF_FLAG_DONE\<rparr>,
         put_vb i (vb\<lparr>vb_state := VIDEOBUF_IDLE\<rparr>) (st\<lparr>vq := (vq st)\<lparr>vq_stream := Some xs\<rparr>\<rparr>))
     else if is_state_active_or_queued vb then Inr (Some (- EINVAL), 0, st)
     else if nb then Inr (Some (- EAGAIN), 0, st)
     else if sg then Inr (Some (- ERESTARTSYS), 0, st)
     else Inr (None, 0, put_vb i (vb\<lparr>vb_done := True\<rparr>) st))"
proof -
  have x: "vq_stream (vq st) = Some (i # xs)" "length (vq_bufs (vq st)) = 32" "i \<notin> set xs"
    using assms(1) by (auto simp: vb_live_def)
  have g: "get_vb st i = Inr vb" using assms(3,4) x(2) by (simp add: get_vb_def)
  show ?thesis
    using assms(2) x g
    by (auto simp: videobuf_dqbuf_def stream_next_buffer_def stream_next_buffer_check_queue_def videobuf_waiton_def
        is_state_active_or_queued_def finished_def Let_def)
qed

lemma vb_dqbuf_inv:
  assumes inv: "vb_inv st" and r: "videobuf_dqbuf nb sg st = Inr (ret, b, st')"
  shows "vb_inv st' \<and> vb_pending st' = vb_pending st \<and>
    (if ret = Some 0 then vb_filled st \<noteq> [] \<and> vb_filled st' = tl (vb_filled st) \<and>
       (\<exists>vb. vq_bufs (vq st) ! hd (vb_filled st) = Some vb \<and> b_index b = vb_i vb)
     else vb_filled st' = vb_filled st \<and> vb_filled st = [])"
proof (cases "vq_streaming (vq st)")
  case False
  then have "ret = Some (- EINVAL) \<and> st' = st"
    using r by (auto simp: videobuf_dqbuf_def stream_next_buffer_def stream_next_buffer_check_queue_def)
  then show ?thesis using inv False by (simp add: vb_filled_def)
next
  case on: True
  then obtain xs ls where l: "vb_live st xs ls"
    using inv by (auto simp: vb_inv_def vb_reading_def vb_stale_def)
  note ll = vb_live_lists(1,2) [OF l]
  show ?thesis
  proof (cases xs)
    case Nil
    then have "ret \<noteq> Some 0 \<and> st' = st" using r l on
      by (auto simp: videobuf_dqbuf_def stream_next_buffer_def stream_next_buffer_check_queue_def vb_live_def split: if_splits)
    then show ?thesis using inv ll Nil by simp
  next
    case (Cons i ys)
    then have "i \<in> set xs" by simp
    then obtain vb where vb: "vq_bufs (vq st) ! i = Some vb" "i < 32" "buf_st st i = Some (vb_state vb)"
      by (rule live_buffer [OF l])
    note d = dqbuf_head [OF l [unfolded Cons] on vb(1,2), of nb sg]
    show ?thesis
    proof (cases "finished (Some (vb_state vb))")
      case False
      have sp: "same_phase st (put_vb i (vb\<lparr>vb_done := True\<rparr>) st)"
        by (rule same_phase_put [OF vb(1)]) (use vb(2) l in \<open>auto simp: vb_live_def\<close>)
      have e: "vb_filled st = []" using live_head(1) [OF l [unfolded Cons] on] False vb(3) by simp
      show ?thesis using r d False e same_phase_keeps(4-6) [OF sp] inv by (auto split: if_splits)
    next
      case True
      let ?st = "put_vb i (vb\<lparr>vb_state := VIDEOBUF_IDLE\<rparr>) (st\<lparr>vq := (vq st)\<lparr>vq_stream := Some ys\<rparr>\<rparr>)"
      have l': "vb_live ?st ys ls"
        by (rule vb_live_take [OF l [unfolded Cons] on]) (use True vb l on in \<open>auto simp: vb_live_def\<close>)
      have "vb_filled st @ vb_pending st = i # ys" "vb_filled ?st @ vb_pending ?st = ys" "vb_pending ?st = vb_pending st"
        using ll vb_live_lists(1,2) [OF l'] on Cons by simp_all
      moreover have "vb_filled st \<noteq> []"
        using True vb(3) Cons l on by (auto simp: vb_filled_def vb_live_def)
      ultimately have f: "vb_filled st = i # vb_filled ?st" by (cases "vb_filled st") auto
      have s: "ret = Some 0" "b_index b = vb_i vb" "st' = ?st"
        using r d True by (auto simp: videobuf_status_def Let_def split: if_splits)
      show ?thesis
        using f l' vb(1) \<open>vb_pending ?st = vb_pending st\<close> by (auto simp: s vb_inv_def)
    qed
  qed
qed

end

end
