(* ===== verification/Videobuf_Stream.thy ===== *)
theory Videobuf_Stream
  imports Videobuf_Inv
begin

text \<open>
  The invariant of the videobuf queue under STREAMON and STREAMOFF, poll with the read mode it may
  start, stopping, and mapping.
\<close>

context videobuf_driver
begin

text \<open>
  Handing a list of buffers to the driver.
\<close>

lemma read_queue_ok:
  assumes "length (vq_bufs (vq st)) = 32" "vq_local st = Some ls" "read_queue ops js st = Inr st'"
  shows "length (vq_bufs (vq st')) = 32 \<and> vq_local st' = Some (ls @ js) \<and>
    buf_st st' = (\<lambda>i. if i \<in> set js then Some VIDEOBUF_QUEUED else buf_st st i) \<and>
    vq_stream (vq st') = vq_stream (vq st) \<and> vq_streaming (vq st') = vq_streaming (vq st) \<and>
    vq_reading (vq st') = vq_reading (vq st) \<and> vq_read_buf (vq st') = vq_read_buf (vq st)"
  using assms
proof (induction js arbitrary: st ls)
  case Nil
  then show ?case by simp
next
  case (Cons i js)
  obtain buf buf' l where b: "get_vb st i = Inr buf" "buf_queue ops i buf (Some ls) = Inr (buf', l)"
    and r: "read_queue ops js ((put_vb i buf' st)\<lparr>vq_local := l\<rparr>) = Inr st'"
    using Cons.prems by (auto simp: kbind_Inr_iff)
  have i: "i < 32" using b(1) Cons.prems(1) by (auto simp: get_vb_def split: if_splits)
  have q: "vb_state buf' = VIDEOBUF_QUEUED" "l = Some (ls @ [i])" using queue_links [OF b(2)] by simp_all
  show ?case using Cons.IH [OF _ _ r, of "ls @ [i]"] Cons.prems(1) i q by (auto simp: fun_eq_iff)
qed

lemma queue_prepared_read_queue:
  "length (vq_bufs (vq st)) = 32 \<Longrightarrow> distinct js \<Longrightarrow> \<forall>i\<in>set js. buf_st st i = Some VIDEOBUF_PREPARED \<Longrightarrow>
     queue_prepared ops js st = read_queue ops js st"
proof (induction js arbitrary: st)
  case (Cons i js)
  then have "buf_st st i = Some VIDEOBUF_PREPARED" by simp
  then obtain buf where b: "get_vb st i = Inr buf" "vb_state buf = VIDEOBUF_PREPARED" "i < 32"
    using buf_st_SomeD [of st i] Cons.prems(1) by auto
  have "queue_prepared ops js ((put_vb i buf' st)\<lparr>vq_local := l\<rparr>) = read_queue ops js ((put_vb i buf' st)\<lparr>vq_local := l\<rparr>)" for buf' l
    by (rule Cons.IH) (use Cons.prems b(3) in auto)
  then show ?case using b by (auto intro!: kbind_cong)
qed simp

lemma streamon_inv:
  assumes inv: "vb_inv st" and r: "videobuf_streamon ops st = Inr (ret, st')"
  shows "vb_inv st' \<and> vb_filled st' = vb_filled st \<and> vb_pending st' = vb_pending st \<and>
    (ret = 0 \<longrightarrow> vq_streaming (vq st'))"
proof (cases "vq_reading (vq st) \<or> vq_streaming (vq st)")
  case True
  then show ?thesis using r inv by (auto simp: videobuf_streamon_def split: if_splits)
next
  case off: False
  let ?st = "st\<lparr>vq := (vq st)\<lparr>vq_streaming := True\<rparr>\<rparr>"
  obtain xs where x: "vq_stream (vq st) = Some xs" and q: "queue_prepared ops xs ?st = Inr st'" and ret: "ret = 0"
    using r off by (auto simp: videobuf_streamon_def kbind_Inr_iff deref_Inr_iff)
  from inv show ?thesis
  proof (cases rule: vb_inv_cases)
    case (live xs' ls)
    then have "xs' = xs \<and> ls = []" using x off by (auto simp: vb_live_def)
    then have l: "vb_live st xs []" using live by simp
    then have p: "length (vq_bufs (vq st)) = 32" "distinct xs" "\<forall>i\<in>set xs. buf_st st i = Some VIDEOBUF_PREPARED"
      using off by (auto simp: vb_live_def)
    have lf: "vq_local st = Some []" "vq_read_buf (vq st) = None" using l by (auto simp: vb_live_def)
    have rq: "read_queue ops xs ?st = Inr st'" using queue_prepared_read_queue [of ?st xs] p q by simp
    have s: "length (vq_bufs (vq st')) = 32" "vq_local st' = Some xs" "vq_stream (vq st') = Some xs"
      "buf_st st' = (\<lambda>i. if i \<in> set xs then Some VIDEOBUF_QUEUED else buf_st st i)"
      "vq_streaming (vq st')" "\<not> vq_reading (vq st')" "vq_read_buf (vq st') = None"
      using read_queue_ok [OF _ _ rq, of "[]", unfolded buf_st_queue] lf p(1) x off by simp_all
    have "stream_phase True (buf_st st') xs xs" by (simp add: stream_phase_True)
    then have l': "vb_live st' xs xs" using l s p by (auto simp: vb_live_def busy_def)
    then have "vb_pending st' = xs" "vb_filled st' = []" using vb_live_lists [OF l'] s(5) by simp_all
    then show ?thesis using vb_live_lists(3) [OF l] off l' s(5) by (auto simp: vb_inv_def)
  next
    case stale
    then obtain n where n: "xs = replicate n dangling" using x by (auto simp: vb_stale_def)
    have "n = 0" using q stale by (cases n) (auto simp: n vb_stale_def get_vb_def)
    then have "st' = ?st" using q n by simp
    moreover have "vb_live ?st [] []"
      using stale x n \<open>n = 0\<close> by (auto simp: vb_live_def vb_stale_def buf_st_def)
    ultimately show ?thesis
      using stale_lists [OF stale] vb_live_lists(1) [of ?st "[]" "[]"] by (auto simp: vb_inv_def)
  qed (use off in \<open>simp add: vb_reading_def\<close>)
qed

lemma live_cancel:
  assumes l: "vb_live st xs ls"
  shows "\<exists>st'. videobuf_queue_cancel ops st = Inr st' \<and> vb_live st' [] [] \<and> \<not> vq_streaming (vq st')"
proof -
  obtain st' where s: "videobuf_queue_cancel ops st = Inr st'" "\<not> vq_streaming (vq st')"
    "vq_read_buf (vq st') = vq_read_buf (vq st)" "vb_live (st'\<lparr>vq := (vq st')\<lparr>vq_read_buf := None\<rparr>\<rparr>) [] []"
    using cancel_inv [of st xs ls] l by blast
  have "st'\<lparr>vq := (vq st')\<lparr>vq_read_buf := None\<rparr>\<rparr> = st'" using s(3) l by (simp add: vb_live_def)
  then show ?thesis using s by simp
qed

lemma streamoff_ok:
  assumes inv: "vb_inv st"
  shows "\<exists>ret st'. videobuf_streamoff ops st = Inr (ret, st') \<and> vb_inv st' \<and> \<not> vq_streaming (vq st') \<and>
    (vq_streaming (vq st) \<longrightarrow> ret = 0 \<and> vb_live st' [] []) \<and> (\<not> vq_streaming (vq st) \<longrightarrow> ret = - EINVAL \<and> st' = st)"
proof (cases "vq_streaming (vq st)")
  case True
  then obtain xs ls where l: "vb_live st xs ls"
    using inv by (auto simp: vb_inv_def vb_reading_def vb_stale_def)
  then show ?thesis using live_cancel [OF l] True by (auto simp: videobuf_streamoff_def vb_inv_def)
qed (use inv in \<open>simp add: videobuf_streamoff_def\<close>)

text \<open>
  Stopping always succeeds and leaves no buffer with the driver.
\<close>

lemma stop_ok:
  assumes inv: "vb_inv st"
  shows "\<exists>st'. videobuf_stop ops st = Inr st' \<and> vb_inv st' \<and> \<not> vq_streaming (vq st') \<and> \<not> vq_reading (vq st')"
  using inv
proof (cases rule: vb_inv_cases)
  case (live xs ls)
  then show ?thesis using streamoff_ok [OF inv] inv
    by (cases "vq_streaming (vq st)") (auto simp: videobuf_stop_def vb_live_def)
next
  case stale
  then show ?thesis using inv by (simp add: videobuf_stop_def vb_stale_def)
next
  case (reading ls)
  obtain st1 where s: "videobuf_queue_cancel ops st = Inr st1" "\<not> vq_streaming (vq st1)"
    "vb_live (st1\<lparr>vq := (vq st1)\<lparr>vq_read_buf := None\<rparr>\<rparr>) [] []"
    using cancel_inv [of st "[]" ls] reading by blast
  obtain err st2 where f: "videobuf_free st1 = (err, st2)" by fastforce
  let ?st = "st2\<lparr>vq := (vq st2)\<lparr>vq_stream := INIT_LIST_HEAD, vq_bufs := map (\<lambda>_. None) (vq_bufs (vq st2)), vq_read_buf := None\<rparr>\<rparr>"
  have "length (vq_bufs (vq st2)) = 32" "vq_local st2 = Some []" "\<not> vq_streaming (vq st2)" "\<not> vq_reading (vq st2)"
    using f s(2,3) by (auto simp: videobuf_free_def vb_live_def Let_def split: if_splits)
  then have "vb_stale ?st"
    by (auto simp: vb_stale_def INIT_LIST_HEAD_def map_replicate_const intro: exI [of _ 0])
  moreover have "videobuf_stop ops st = Inr ?st"
    using reading s f by (simp add: videobuf_stop_def videobuf_read_stop_def vb_reading_def)
  ultimately show ?thesis by (auto simp: vb_inv_def vb_stale_def)
qed

text \<open>
  Starting the read mode: the buffers are prepared and linked one by one, as QBUF does outside
  streaming, and then handed to the driver together.
\<close>

lemma qbuf_prepare_others:
  assumes r: "qbuf_prepare ops i vb st = Inr (ret, st')" and "\<not> vq_streaming (vq st)"
    and "length (vq_bufs (vq st)) = 32" and j: "j \<noteq> i"
  shows "buf_st st' j = buf_st st j"
proof -
  obtain f q1 k where q: "videobuf_next_field (vq st) = Inr (f, q1)" "q1 = (vq st)\<lparr>vq_last := k\<rparr>"
    using r next_field_frame [of "vq st"] by (fastforce simp: qbuf_prepare_def kbind_Inr_iff)
  have "buf_st st' j = buf_st (put_vb i (snd (buf_prepare ops vb f)) (st\<lparr>vq := q1\<rparr>)) j"
    using r q assms(2) by (auto simp: qbuf_prepare_def Let_def kbind_Inr_iff split: prod.splits if_splits)
  also have "\<dots> = buf_st st j" using j by (simp add: buf_st_def put_vb_def q(2))
  finally show ?thesis .
qed

lemma read_prepare_Cons:
  assumes "\<not> vq_streaming (vq st)" "get_vb st i = Inr buf"
  shows "read_prepare ops (i # js) st =
    kbind (qbuf_prepare ops i buf st) (\<lambda>(err, st1). if err \<noteq> 0 then Inr (err, st1) else read_prepare ops js st1)"
proof (cases "videobuf_next_field (vq st)")
  case (Inr p)
  then obtain f q1 where p: "videobuf_next_field (vq st) = Inr (f, q1)" by (cases p) simp
  then have "\<not> vq_streaming q1" using next_field_frame [OF p] assms(1) by auto
  then show ?thesis using p assms by (simp add: qbuf_prepare_def Let_def kbind_assoc split: prod.split)
qed (use assms in \<open>simp add: qbuf_prepare_def\<close>)

lemma read_prepare_live:
  assumes "vb_live st xs []" "\<not> vq_streaming (vq st)" "distinct js" "\<forall>i\<in>set js. \<exists>s. buf_st st i = Some s \<and> \<not> busy s"
    and "read_prepare ops js st = Inr (err, st')"
  shows "err = 0 \<and> vb_live st' (xs @ js) [] \<and> \<not> vq_streaming (vq st')"
  using assms
proof (induction js arbitrary: st xs)
  case Nil
  then show ?case by simp
next
  case (Cons i js)
  then obtain s where s: "buf_st st i = Some s" "\<not> busy s" by auto
  then obtain buf where b: "get_vb st i = Inr buf" using buf_st_SomeD by blast
  obtain e st1 where p: "qbuf_prepare ops i buf st = Inr (e, st1)"
    and r: "(if e \<noteq> 0 then Inr (e, st1) else read_prepare ops js st1) = Inr (err, st')"
    using Cons.prems(5) read_prepare_Cons [OF Cons.prems(2) b(1)] by (auto simp: kbind_Inr_iff)
  have l: "e = 0" "\<not> vq_streaming (vq st1)" "vb_live st1 (xs @ [i]) []"
    using qbuf_prepare_live [OF Cons.prems(1) s p] Cons.prems(2) by simp_all
  have len: "length (vq_bufs (vq st)) = 32" using Cons.prems(1) by (simp add: vb_live_def)
  have "\<exists>s. buf_st st1 j = Some s \<and> \<not> busy s" if j: "j \<in> set js" for j
  proof -
    have "j \<noteq> i" "\<exists>s. buf_st st j = Some s \<and> \<not> busy s" using j Cons.prems(3,4) by auto
    then show ?thesis using qbuf_prepare_others [OF p Cons.prems(2) len, of j] by simp
  qed
  then show ?case using Cons.IH [OF l(3,2)] Cons.prems(3) r l(1) by simp
qed

lemma read_prepare_dangling:
  assumes "vq_stream (vq st) = Some (replicate (Suc m) dangling)"
  shows "read_prepare ops (i # js) st \<noteq> Inr r"
proof
  assume r: "read_prepare ops (i # js) st = Inr r"
  then obtain f q1 buf where q: "videobuf_next_field (vq st) = Inr (f, q1)" and g: "get_vb st i = Inr buf"
    by (auto simp: kbind_Inr_iff)
  obtain vb1 where p: "buf_prepare ops buf f = (0, vb1)" using prepare_state by (cases "buf_prepare ops buf f") auto
  have "vb_add_tail i (vq_stream q1) = Inl UseAfterFree"
    using next_field_frame [OF q] assms by (auto simp: vb_add_tail_def last_replicate split: if_splits)
  then show False using r q g p by (simp add: Let_def)
qed

lemma read_start_inv:
  assumes inv: "vb_inv st" and off: "\<not> vq_streaming (vq st)" "\<not> vq_reading (vq st)"
    and r: "videobuf_read_start ops mem st = Inr (err, st')"
  shows "if vq_reading (vq st')
    then \<exists>n. 0 < n \<and> vb_pending st = [] \<and> vq_stream (vq st') = Some [0..<n] \<and> vq_read_buf (vq st') = None \<and>
      \<not> vq_streaming (vq st') \<and> length (vq_bufs (vq st')) = 32 \<and> vq_local st' = Some [0..<n] \<and>
      (\<forall>i. i < n \<longleftrightarrow> buf_st st' i = Some VIDEOBUF_QUEUED)
    else st' = st \<or> vb_stale st' \<and> \<not> mem 0"
proof -
  obtain c sz where su: "buf_setup ops 0 0 = (c, sz)" by fastforce
  let ?c = "if (if c < 2 then 2 else c) > of_nat 32 then of_nat 32 else (if c < 2 then 2 else c)"
  have cb: "unat ?c \<le> 32" by (auto simp: word_less_nat_alt)
  obtain e st1 where m: "videobuf_mmap_setup mem ?c (PAGE_ALIGN sz) V4L2_MEMORY_USERPTR st = Inr (e, st1)"
    and r1: "(if e < 0 then Inr (e, st1) else kbind (read_prepare ops [0..<nat e] st1) (\<lambda>(err2, st2).
        if err2 \<noteq> 0 then Inr (err2, st2) else kbind (read_queue ops [0..<nat e] st2) (\<lambda>st3.
          Inr (0, st3\<lparr>vq := (vq st3)\<lparr>vq_reading := True\<rparr>\<rparr>)))) = Inr (err, st')"
    using r su by (auto simp: videobuf_read_start_def Let_def kbind_Inr_iff)
  obtain xs ls where st: "vb_live st xs ls \<or> vb_stale st"
    using inv off by (auto simp: vb_inv_def vb_reading_def)
  show ?thesis
  proof (rule mmap_setup_cases [OF st cb, of mem "PAGE_ALIGN sz" V4L2_MEMORY_USERPTR])
    fix n st2 assume s: "videobuf_mmap_setup mem ?c (PAGE_ALIGN sz) V4L2_MEMORY_USERPTR st = Inr (int n, st2)" "0 < n" "n \<le> unat ?c"
      "length (vq_bufs (vq st2)) = 32" "\<forall>k<32. vq_bufs (vq st2) ! k = (if k < n then Some (setup_buffer k (PAGE_ALIGN sz) V4L2_MEMORY_USERPTR vb_zero) else None)"
      "vq_stream (vq st2) = map_option (map (\<lambda>_. dangling)) (vq_stream (vq st))" "vq_local st2 = Some []"
      "\<not> vq_streaming (vq st2)" "\<not> vq_reading (vq st2)" "vq_read_buf (vq st2) = None"
    obtain m2 where str: "vq_stream (vq st2) = Some (replicate m2 dangling)" and pend: "m2 = 0 \<longrightarrow> vb_pending st = []"
      using st s(6) off stale_lists [of st] vb_live_lists(3) [of st xs ls]
      by (auto simp: vb_live_def vb_stale_def map_replicate_const)
    have e: "e = int n" "st1 = st2" using m s(1) by simp_all
    obtain e2 st3 st4 where p: "read_prepare ops [0..<n] st2 = Inr (e2, st3)"
      and q: "if e2 \<noteq> 0 then err = e2 \<and> st' = st3
        else read_queue ops [0..<n] st3 = Inr st4 \<and> st' = st4\<lparr>vq := (vq st4)\<lparr>vq_reading := True\<rparr>\<rparr>"
      using r1 by (auto simp: e kbind_Inr_iff split: if_splits)
    have "[0..<n] = 0 # [1..<n]" using s(2) by (simp add: upt_conv_Cons)
    then have m2: "m2 = 0" using p str read_prepare_dangling [of st2 _ 0 "[1..<n]"] by (cases m2) auto
    have n: "n \<le> 32" using s(3) cb by simp
    have l2: "vb_live st2 [] []" by (rule fresh_live [OF s(4) _ s(7-10,5)]) (simp add: str m2)
    have fr: "\<forall>i\<in>set [0..<n]. \<exists>s. buf_st st2 i = Some s \<and> \<not> busy s"
      using s(4,5) n by (auto simp: buf_st_def busy_def setup_buffer_def vb_zero_def Let_def)
    have l3: "e2 = 0" "vb_live st3 [0..<n] []" "\<not> vq_streaming (vq st3)"
      using read_prepare_live [OF l2 s(8) _ fr p] by simp_all
    have rq: "read_queue ops [0..<n] st3 = Inr st4" and st': "st' = st4\<lparr>vq := (vq st4)\<lparr>vq_reading := True\<rparr>\<rparr>"
      using q l3(1) by simp_all
    have lf: "length (vq_bufs (vq st3)) = 32" "vq_local st3 = Some []" "vq_stream (vq st3) = Some [0..<n]"
      "vq_read_buf (vq st3) = None" "\<forall>i. buf_st st3 i \<noteq> Some VIDEOBUF_QUEUED"
      using l3(2) by (auto simp: vb_live_def)
    show ?thesis
      using read_queue_ok [OF lf(1,2) rq] lf l3(3) s(2) pend m2 by (auto simp: st')
  next
    fix st2 assume "videobuf_mmap_setup mem ?c (PAGE_ALIGN sz) V4L2_MEMORY_USERPTR st = Inr (- ENOMEM, st2)" "vb_stale st2"
      "mem 0 \<longrightarrow> ?c = 0"
    moreover have "?c \<noteq> 0" by auto
    ultimately show ?thesis using m r1 by (auto simp: vb_stale_def)
  qed (use m r1 off in auto)
qed

lemma poll_buffer_inv:
  assumes inv: "vb_inv st" and r: "poll_buffer ops mem st = Inr (buf, st')"
  shows "vb_inv st' \<and> (mem 0 \<longrightarrow> vb_filled st' = vb_filled st \<and> vb_pending st' = vb_pending st) \<and>
    (\<forall>i. buf = Some i \<longrightarrow> buf_st st' i \<noteq> None)"
proof (cases "vq_streaming (vq st) \<or> vq_reading (vq st)")
  case True
  from inv show ?thesis
  proof (cases rule: vb_inv_cases)
    case (live xs ls)
    then have x: "vq_stream (vq st) = Some xs" "vq_streaming (vq st)" using True by (auto simp: vb_live_def)
    show ?thesis
    proof (cases xs)
      case Nil
      then show ?thesis using r x inv by (simp add: poll_buffer_def)
    next
      case (Cons i ys)
      then have "buf_st st i \<noteq> None" using live by (auto simp: vb_live_def)
      then show ?thesis using r x inv Cons by (auto simp: poll_buffer_def)
    qed
  next
    case (reading ls)
    then show ?thesis using r inv by (auto simp: poll_buffer_def vb_reading_def)
  qed (use True in \<open>simp add: vb_stale_def\<close>)
next
  case False
  then obtain err st1 where rs: "videobuf_read_start ops mem st = Inr (err, st1)"
    using r by (auto simp: poll_buffer_def kbind_Inr_iff)
  note rd = read_start_inv [OF inv _ _ rs]
  show ?thesis
  proof (cases "vq_reading (vq st1)")
    case True
    then obtain n where n: "0 < n" "vb_pending st = []" "vq_stream (vq st1) = Some [0..<n]" "vq_read_buf (vq st1) = None"
      "\<not> vq_streaming (vq st1)" "length (vq_bufs (vq st1)) = 32" "vq_local st1 = Some [0..<n]"
      "\<forall>i. i < n \<longleftrightarrow> buf_st st1 i = Some VIDEOBUF_QUEUED"
      using rd False by auto
    have u: "[0..<n] = 0 # [1..<n]" using n(1) by (simp add: upt_conv_Cons)
    have "st' = st1\<lparr>vq := (vq st1)\<lparr>vq_stream := Some [1..<n], vq_read_buf := Some 0, vq_read_off := 0\<rparr>\<rparr>"
      and b: "buf = Some 0"
      using r rs False True n(3,4) by (auto simp: poll_buffer_def u)
    moreover have z: "buf_st st1 0 = Some VIDEOBUF_QUEUED" using n(1,8) by blast
    ultimately have l: "vb_reading st' [0..<n]" and "buf_st st' 0 = Some VIDEOBUF_QUEUED"
      using n True by (simp_all add: vb_reading_def)
    then show ?thesis using reading_lists [OF l] n(2) False b by (auto simp: vb_inv_def vb_filled_def)
  next
    case off: False
    then have "st' = st1" "buf = None" using r rs False by (simp_all add: poll_buffer_def)
    moreover have "st1 = st \<or> vb_stale st1 \<and> \<not> mem 0" using rd off False by simp
    ultimately show ?thesis using inv by (auto simp: vb_inv_def)
  qed
qed

lemma poll_inv:
  assumes inv: "vb_inv st" and r: "videobuf_poll_stream ops mem st = Inr (rc, st')"
  shows "vb_inv st' \<and> (mem 0 \<longrightarrow> vb_filled st' = vb_filled st \<and> vb_pending st' = vb_pending st)"
proof -
  obtain buf st1 where p: "poll_buffer ops mem st = Inr (buf, st1)"
    using r by (auto simp: videobuf_poll_stream_def kbind_Inr_iff)
  note pi = poll_buffer_inv [OF inv p]
  have "same_phase st1 st'"
  proof (cases buf)
    case None
    then show ?thesis using r p by (simp add: videobuf_poll_stream_def same_phase_def)
  next
    case (Some i)
    then obtain s where "buf_st st1 i = Some s" using pi by auto
    then obtain vb where vb: "i < length (vq_bufs (vq st1))" "vq_bufs (vq st1) ! i = Some vb" "get_vb st1 i = Inr vb"
      using buf_st_SomeD [of st1 i s] by auto
    then have "same_phase st1 (put_vb i (vb\<lparr>vb_done := True\<rparr>) st1)" by (intro same_phase_put) simp_all
    moreover have "same_phase st1 st1" by (simp add: same_phase_def)
    ultimately show ?thesis using r p Some vb(3) by (auto simp: videobuf_poll_stream_def split: if_splits)
  qed
  then show ?thesis using pi by (simp add: same_phase_keeps [of st1 st'])
qed

lemma unmap_phase:
  "same_phase st (st\<lparr>vq := (vq st)\<lparr>vq_bufs := map (map_option (unmap_vb m)) (vq_bufs (vq st))\<rparr>\<rparr>)"
  by (auto simp: same_phase_def buf_st_def fun_eq_iff unmap_vb_def option.map_comp o_def intro!: option.map_cong)

lemma vb_vm_close_inv:
  assumes inv: "vb_inv st" and r: "videobuf_vm_close ops m st = Inr st'"
  shows "vb_inv st'"
proof -
  let ?st1 = "st\<lparr>mappings := upd_nth m (\<lambda>c. c - 1) (mappings st)\<rparr>"
  have sp: "same_phase st ?st1" by (simp add: same_phase_def)
  then have i1: "vb_inv ?st1" using inv by (simp add: same_phase_keeps(4))
  show ?thesis
  proof (cases "mappings ?st1 ! m = 0 \<and> vq_streaming (vq ?st1)")
    case True
    then obtain xs ls where "vb_live ?st1 xs ls" using i1 by (auto simp: vb_inv_def vb_reading_def vb_stale_def)
    from live_cancel [OF this] obtain st2 where "videobuf_queue_cancel ops ?st1 = Inr st2" "vb_live st2 [] []" by blast
    then have "vb_inv st2" and st': "st' = st2\<lparr>vq := (vq st2)\<lparr>vq_bufs := map (map_option (unmap_vb m)) (vq_bufs (vq st2))\<rparr>\<rparr>"
      using r True by (auto simp: videobuf_vm_close_def Let_def vb_inv_def)
    then show ?thesis using same_phase_keeps(4) [OF unmap_phase [of st2 m]] by simp
  next
    case False
    then show ?thesis using r i1 same_phase_keeps(4) [OF unmap_phase [of ?st1 m]]
      by (auto simp: videobuf_vm_close_def Let_def split: if_splits)
  qed
qed

end

text \<open>
  Mapping a buffer changes no list and no state.
\<close>

lemma find_offset_Some:
  "find_offset bs k off = Some i \<Longrightarrow>
     k \<le> i \<and> i < k + length bs \<and> (\<exists>vb. bs ! (i - k) = Some vb \<and> vb_memory vb = V4L2_MEMORY_MMAP \<and> vb_boff vb = off)"
proof (induction bs arbitrary: k)
  case (Cons b bs)
  show ?case
  proof (cases "\<exists>vb. b = Some vb \<and> vb_memory vb = V4L2_MEMORY_MMAP \<and> vb_boff vb = off")
    case True
    then show ?thesis using Cons.prems by auto
  next
    case False
    then have "find_offset bs (k + 1) off = Some i" using Cons.prems by (auto split: option.splits if_splits)
    from Cons.IH [OF this] show ?thesis by (auto simp: nth_Cons')
  qed
qed simp

lemma mmap_mapper_phase:
  assumes "videobuf_mmap_mapper kz vm remap vma st = (ret, vma', st')"
  shows "same_phase st st'"
proof (cases "find_offset (vq_bufs (vq st)) 0 (push_bit 12 (vm_pgoff vma))")
  case None
  then show ?thesis using assms by (auto simp: videobuf_mmap_mapper_def same_phase_def split: if_splits)
next
  case (Some i)
  then obtain vb where vb: "i < length (vq_bufs (vq st))" "vq_bufs (vq st) ! i = Some vb"
    using find_offset_Some [OF Some] by auto
  have p: "same_phase st (put_vb i vb' (st\<lparr>mappings := ms\<rparr>))" if "vb_state vb' = vb_state vb" for vb' ms
    using same_phase_put [of "st\<lparr>mappings := ms\<rparr>" i vb vb'] vb that by (simp add: same_phase_def)
  have q: "same_phase st (videobuf_vm_open m (put_vb i vb' (st\<lparr>mappings := ms\<rparr>)))" if "vb_state vb' = vb_state vb" for vb' ms m
    using p [OF that, of ms] by (simp add: same_phase_def videobuf_vm_open_def)
  show ?thesis
    using assms Some vb p q by (auto simp: videobuf_mmap_mapper_def vmalloc_mmap_mapper_def Let_def same_phase_def split: if_splits)
qed

end
