(* ===== verification/Vivi.thy ===== *)
theory Vivi
  imports Vivi_Format Videobuf_Stream
begin

text \<open>
  The virtual camera driver (myvivi/6_th/vivi.c): its videobuf callbacks, its timer, which plays
  the camera, and its file operations.  The state is the videobuf queue with the driver's local
  list, the current format, and the timer (\<open>Some\<close> of its expiry time when it is pending).
\<close>

section \<open>Operations\<close>

record vivi =
  vivi_sys :: vb_sys
  myvivi_format :: v4l2_format
  myvivi_timer :: "u32 option"

abbreviation (input) HZ :: u32 where "HZ \<equiv> 200"

definition myvivi_buffer_setup :: "v4l2_format \<Rightarrow> u32 \<Rightarrow> u32 \<Rightarrow> u32 \<times> u32" where
  "myvivi_buffer_setup fmt count sz = (if count = 0 then 32 else count, pf_sizeimage (f_pix fmt))"

definition myvivi_buffer_prepare :: "v4l2_format \<Rightarrow> videobuf_buffer \<Rightarrow> u32 \<Rightarrow> int \<times> videobuf_buffer" where
  "myvivi_buffer_prepare fmt vb field =
     (0, vb\<lparr>vb_size := pf_sizeimage (f_pix fmt), vb_bytesperline := pf_bytesperline (f_pix fmt),
            vb_width := pf_width (f_pix fmt), vb_height := pf_height (f_pix fmt), vb_field := field,
            vb_state := VIDEOBUF_PREPARED\<rparr>)"

definition myvivi_buffer_queue :: "nat \<Rightarrow> videobuf_buffer \<Rightarrow> klist \<Rightarrow> (videobuf_buffer \<times> klist) kres" where
  "myvivi_buffer_queue i vb l = kbind (vb_add_tail i l) (\<lambda>l'. Inr (vb\<lparr>vb_state := VIDEOBUF_QUEUED\<rparr>, l'))"

definition myvivi_buffer_release :: "videobuf_buffer \<Rightarrow> videobuf_buffer" where
  "myvivi_buffer_release vb = (videobuf_vmalloc_free vb)\<lparr>vb_state := VIDEOBUF_NEEDS_INIT\<rparr>"

definition myvivi_video_qops :: "v4l2_format \<Rightarrow> videobuf_queue_ops" where
  "myvivi_video_qops fmt = \<lparr>buf_setup = myvivi_buffer_setup fmt, buf_prepare = myvivi_buffer_prepare fmt,
     buf_queue = myvivi_buffer_queue, buf_release = myvivi_buffer_release\<rparr>"

abbreviation (input) qops :: "vivi \<Rightarrow> videobuf_queue_ops" where "qops s \<equiv> myvivi_video_qops (myvivi_format s)"

text \<open>
  The timer function fills the oldest buffer on the local list, if somebody waits for it, and
  starts the timer again.  \<open>ts\<close> is the time of day.
\<close>

definition fill_buffer :: "nat \<Rightarrow> nat \<Rightarrow> videobuf_buffer \<Rightarrow> vb_sys \<Rightarrow> vb_sys kres" where
  "fill_buffer ts i vb st =
     kbind (if vb_size vb = 0 then Inr (vb_vaddr vb)
            else kbind (deref (vb_vaddr vb)) (\<lambda>m.
              kbind (mem_write m 0 (replicate (unat (vb_size vb)) 0xff)) (\<lambda>m'. Inr (Some m')))) (\<lambda>v.
     kbind (list_del i (vq_local st)) (\<lambda>l.
       Inr ((put_vb i (vb\<lparr>vb_vaddr := v, vb_field_count := vb_field_count vb + 1, vb_ts := ts,
                           vb_state := VIDEOBUF_DONE, vb_done := False\<rparr>) st)\<lparr>vq_local := l\<rparr>)))"

definition myvivi_timer_function :: "u32 \<Rightarrow> nat \<Rightarrow> vivi \<Rightarrow> vivi kres" where
  "myvivi_timer_function jiffies ts s =
     (let st = vivi_sys s; rearm = (\<lambda>st'. s\<lparr>vivi_sys := st', myvivi_timer := Some (jiffies + HZ div 30)\<rparr>) in
      if list_empty (vq_local st) then Inr (rearm st)
      else kbind (deref (list_first_entry (vq_local st))) (\<lambda>i.
        kbind (get_vb st i) (\<lambda>vb.
          if \<not> vb_done vb then Inr (rearm st)
          else kbind (fill_buffer ts i vb st) (\<lambda>st'. Inr (rearm st')))))"

definition myvivi_vidioc_s_fmt :: "v4l2_format \<Rightarrow> vivi \<Rightarrow> (int \<times> v4l2_format \<times> vivi) option" where
  "myvivi_vidioc_s_fmt f s =
     map_option (\<lambda>(ret, f', cur). (ret, f', s\<lparr>myvivi_format := cur\<rparr>)) (myvivi_vidioc_s_fmt_vid_cap (myvivi_format s) f)"

definition myvivi_vidioc_reqbufs ::
    "(nat \<Rightarrow> bool) \<Rightarrow> v4l2_requestbuffers \<Rightarrow> vivi \<Rightarrow> (int \<times> v4l2_requestbuffers \<times> vivi) kres" where
  "myvivi_vidioc_reqbufs mem p s =
     kbind (videobuf_reqbufs (qops s) mem p (vivi_sys s)) (\<lambda>(ret, p', st). Inr (ret, p', s\<lparr>vivi_sys := st\<rparr>))"

definition myvivi_vidioc_querybuf :: "v4l2_buffer \<Rightarrow> vivi \<Rightarrow> int \<times> v4l2_buffer" where
  "myvivi_vidioc_querybuf p s = videobuf_querybuf p (vivi_sys s)"

definition myvivi_vidioc_qbuf :: "v4l2_buffer \<Rightarrow> vivi \<Rightarrow> (int \<times> vivi) kres" where
  "myvivi_vidioc_qbuf p s =
     kbind (videobuf_qbuf (qops s) p (vivi_sys s)) (\<lambda>(ret, st). Inr (ret, s\<lparr>vivi_sys := st\<rparr>))"

definition myvivi_vidioc_dqbuf :: "bool \<Rightarrow> bool \<Rightarrow> vivi \<Rightarrow> (int option \<times> v4l2_buffer \<times> vivi) kres" where
  "myvivi_vidioc_dqbuf nonblock signal s =
     kbind (videobuf_dqbuf nonblock signal (vivi_sys s)) (\<lambda>(ret, b, st). Inr (ret, b, s\<lparr>vivi_sys := st\<rparr>))"

definition myvivi_vidioc_streamon :: "vivi \<Rightarrow> (int \<times> vivi) kres" where
  "myvivi_vidioc_streamon s =
     kbind (videobuf_streamon (qops s) (vivi_sys s)) (\<lambda>(ret, st). Inr (ret, s\<lparr>vivi_sys := st\<rparr>))"

definition myvivi_vidioc_streamoff :: "vivi \<Rightarrow> (int \<times> vivi) kres" where
  "myvivi_vidioc_streamoff s =
     kbind (videobuf_streamoff (qops s) (vivi_sys s)) (\<lambda>(ret, st). Inr (0, s\<lparr>vivi_sys := st\<rparr>))"

text \<open>
  \<open>add_timer\<close> is an assertion failure when the timer is pending.
\<close>

definition myvivi_open :: "u32 \<Rightarrow> vivi \<Rightarrow> (int \<times> vivi) kres" where
  "myvivi_open jiffies s =
     (let st = (vivi_sys s)\<lparr>vq := videobuf_queue_core_init V4L2_BUF_TYPE_VIDEO_CAPTURE V4L2_FIELD_INTERLACED\<rparr>
      in case myvivi_timer s of
           Some e \<Rightarrow> Inl KernelBug
         | None \<Rightarrow> Inr (0, s\<lparr>vivi_sys := st, myvivi_timer := Some (jiffies + 1)\<rparr>))"

definition myvivi_close :: "vivi \<Rightarrow> (int \<times> vivi) kres" where
  "myvivi_close s =
     kbind (videobuf_stop (qops s) (vivi_sys s)) (\<lambda>st.
       Inr (0, s\<lparr>vivi_sys := snd (videobuf_free st), myvivi_timer := None\<rparr>))"

definition myvivi_mmap :: "bool \<Rightarrow> bool \<Rightarrow> int \<Rightarrow> vm_area \<Rightarrow> vivi \<Rightarrow> int \<times> vm_area \<times> vivi" where
  "myvivi_mmap kz vm remap vma s =
     (case videobuf_mmap_mapper kz vm remap vma (vivi_sys s) of (ret, vma', st) \<Rightarrow> (ret, vma', s\<lparr>vivi_sys := st\<rparr>))"

definition myvivi_munmap :: "nat \<Rightarrow> vivi \<Rightarrow> vivi kres" where
  "myvivi_munmap m s = kbind (videobuf_vm_close (qops s) m (vivi_sys s)) (\<lambda>st. Inr (s\<lparr>vivi_sys := st\<rparr>))"

definition myvivi_poll :: "(nat \<Rightarrow> bool) \<Rightarrow> vivi \<Rightarrow> (u32 \<times> vivi) kres" where
  "myvivi_poll mem s =
     kbind (videobuf_poll_stream (qops s) mem (vivi_sys s)) (\<lambda>(rc, st). Inr (rc, s\<lparr>vivi_sys := st\<rparr>))"

text \<open>
  The end of a poll that timed out: the caller leaves the buffer's wait queue.
\<close>

definition poll_timeout :: "nat \<Rightarrow> vivi \<Rightarrow> vivi kres" where
  "poll_timeout i s = kbind (get_vb (vivi_sys s) i) (\<lambda>vb.
     Inr (s\<lparr>vivi_sys := put_vb i (vb\<lparr>vb_done := False\<rparr>) (vivi_sys s)\<rparr>))"

definition vivi_zero_queue :: videobuf_queue where
  "vivi_zero_queue = \<lparr>vq_type = 0, vq_inputs = 0, vq_field = 0, vq_last = 0, vq_bufs = replicate 32 None,
     vq_streaming = False, vq_reading = False, vq_stream = None, vq_read_off = 0, vq_read_buf = None\<rparr>"

text \<open>
  The state after \<open>module_init\<close>; \<open>error\<close> is the result of registering the device.
\<close>

definition myvivi_init :: "int \<Rightarrow> int \<times> vivi" where
  "myvivi_init error = (error, \<lparr>vivi_sys = \<lparr>vq = vivi_zero_queue, vq_local = INIT_LIST_HEAD, mappings = []\<rparr>,
     myvivi_format = 0, myvivi_timer = None\<rparr>)"

section \<open>Reachable states\<close>

text \<open>
  The driver's entry points.  File operations need an open file (the timer is pending from open
  to close); an unmap can come later.
\<close>

inductive vivi_step :: "vivi \<Rightarrow> vivi \<Rightarrow> bool" where
  opens: "myvivi_open j s = Inr (r, s') \<Longrightarrow> vivi_step s s'"
| closes: "myvivi_timer s \<noteq> None \<Longrightarrow> myvivi_close s = Inr (r, s') \<Longrightarrow> vivi_step s s'"
| tick: "myvivi_timer s \<noteq> None \<Longrightarrow> myvivi_timer_function j ts s = Inr s' \<Longrightarrow> vivi_step s s'"
| s_fmt: "myvivi_timer s \<noteq> None \<Longrightarrow> myvivi_vidioc_s_fmt f s = Some (r, f', s') \<Longrightarrow> vivi_step s s'"
| reqbufs: "myvivi_timer s \<noteq> None \<Longrightarrow> myvivi_vidioc_reqbufs mem p s = Inr (r, p', s') \<Longrightarrow> vivi_step s s'"
| qbuf: "myvivi_timer s \<noteq> None \<Longrightarrow> myvivi_vidioc_qbuf b s = Inr (r, s') \<Longrightarrow> vivi_step s s'"
| dqbuf: "myvivi_timer s \<noteq> None \<Longrightarrow> myvivi_vidioc_dqbuf nb sg s = Inr (r', b', s') \<Longrightarrow> vivi_step s s'"
| streamon: "myvivi_timer s \<noteq> None \<Longrightarrow> myvivi_vidioc_streamon s = Inr (r, s') \<Longrightarrow> vivi_step s s'"
| streamoff: "myvivi_timer s \<noteq> None \<Longrightarrow> myvivi_vidioc_streamoff s = Inr (r, s') \<Longrightarrow> vivi_step s s'"
| mmap: "myvivi_timer s \<noteq> None \<Longrightarrow> myvivi_mmap kz vm rm vma s = (r, vma', s') \<Longrightarrow> vivi_step s s'"
| poll: "myvivi_timer s \<noteq> None \<Longrightarrow> myvivi_poll mem s = Inr (rc, s') \<Longrightarrow> vivi_step s s'"
| timeout: "myvivi_timer s \<noteq> None \<Longrightarrow> poll_timeout i s = Inr s' \<Longrightarrow> vivi_step s s'"
| munmap: "myvivi_munmap m s = Inr s' \<Longrightarrow> vivi_step s s'"

definition vivi_reachable :: "vivi \<Rightarrow> bool" where
  "vivi_reachable s \<longleftrightarrow> (\<exists>error. vivi_step\<^sup>*\<^sup>* (snd (myvivi_init error)) s)"

definition vivi_inv :: "vivi \<Rightarrow> bool" where
  "vivi_inv s \<longleftrightarrow> (if myvivi_timer s = None then vq_local (vivi_sys s) = Some [] \<and> \<not> vq_streaming (vq (vivi_sys s))
     else vb_inv (vivi_sys s))"

interpretation vivi_ops: videobuf_driver "myvivi_video_qops fmt" for fmt
proof (unfold_locales, goal_cases)
  case (1 c s)
  then show ?case by (simp add: myvivi_video_qops_def myvivi_buffer_setup_def)
next
  case (2 vb f r vb')
  then show ?case by (auto simp: myvivi_video_qops_def myvivi_buffer_prepare_def)
next
  case (3 i vb ls vb' l')
  then show ?case
    by (auto simp: myvivi_video_qops_def myvivi_buffer_queue_def vb_add_tail_def kbind_Inr_iff split: if_splits)
next
  case (4 vb)
  then show ?case by (simp add: myvivi_video_qops_def myvivi_buffer_release_def)
qed

text \<open>
  The timer moves the first queued buffer to the finished ones, or does nothing.
\<close>

lemma fill_buffer_phase:
  assumes "fill_buffer ts i vb st = Inr st'" "vq_local st = Some (i # ls)" "i \<notin> set ls" "i < length (vq_bufs (vq st))"
  shows "buf_st st' = (buf_st st)(i := Some VIDEOBUF_DONE) \<and> vq_local st' = Some ls \<and> vq_stream (vq st') = vq_stream (vq st) \<and>
    length (vq_bufs (vq st')) = length (vq_bufs (vq st)) \<and> vq_streaming (vq st') = vq_streaming (vq st) \<and>
    vq_reading (vq st') = vq_reading (vq st) \<and> vq_read_buf (vq st') = vq_read_buf (vq st)"
  using assms by (auto simp: fill_buffer_def kbind_Inr_iff split: if_splits)

lemma fill_live:
  assumes l: "vb_live st xs (i # ls)" and f: "fill_buffer ts i vb st = Inr st'"
  shows "vb_live st' xs ls \<and> vq_streaming (vq st) \<and> vq_streaming (vq st')"
proof -
  have on: "vq_streaming (vq st)" using l by (auto simp: vb_live_def stream_phase_def split: if_splits)
  then obtain ds where ds: "xs = ds @ i # ls" "\<forall>j\<in>set ds. finished (buf_st st j)"
    using l by (auto simp: vb_live_def stream_phase_True)
  have q: "buf_st st i = Some VIDEOBUF_QUEUED" using l by (auto simp: vb_live_def)
  have i: "i \<notin> set ls" "i \<notin> set ds" "i < length (vq_bufs (vq st))" "vq_local st = Some (i # ls)"
    using l ds buf_st_SomeD [OF q] by (auto simp: vb_live_def)
  note p = fill_buffer_phase [OF f i(4,1,3)]
  have "stream_phase True (buf_st st') xs ls"
    unfolding stream_phase_True using ds p i(2) by (intro exI [of _ "ds @ [i]"]) (auto simp: finished_def)
  then show ?thesis using l p i q on ds by (auto simp: vb_live_def busy_def)
qed

lemma fill_reading:
  assumes l: "vb_reading st (i # ls)" and f: "fill_buffer ts i vb st = Inr st'"
  shows "vb_reading st' ls"
proof -
  have q: "buf_st st i = Some VIDEOBUF_QUEUED" using l by (auto simp: vb_reading_def)
  have i: "i \<notin> set ls" "i < length (vq_bufs (vq st))" "vq_local st = Some (i # ls)"
    using l buf_st_SomeD [OF q] by (auto simp: vb_reading_def)
  show ?thesis using l fill_buffer_phase [OF f i(3,1,2)] i by (auto simp: vb_reading_def)
qed

lemma timer_cases:
  assumes r: "myvivi_timer_function j ts s = Inr s'"
  obtains "s' = s\<lparr>myvivi_timer := Some (j + HZ div 30)\<rparr>"
  | i vb st' where "list_first_entry (vq_local (vivi_sys s)) = Some i" "get_vb (vivi_sys s) i = Inr vb" "vb_done vb"
      "fill_buffer ts i vb (vivi_sys s) = Inr st'" "s' = s\<lparr>vivi_sys := st', myvivi_timer := Some (j + HZ div 30)\<rparr>"
  using r by (auto simp: myvivi_timer_function_def Let_def kbind_Inr_iff deref_Inr_iff split: if_splits)

lemma timer_inv:
  assumes inv: "vb_inv (vivi_sys s)" and r: "myvivi_timer_function j ts s = Inr s'"
  shows "vb_inv (vivi_sys s') \<and> myvivi_timer s' \<noteq> None \<and> myvivi_format s' = myvivi_format s \<and>
    vb_filled (vivi_sys s') @ vb_pending (vivi_sys s') = vb_filled (vivi_sys s) @ vb_pending (vivi_sys s) \<and>
    length (vb_pending (vivi_sys s')) \<le> length (vb_pending (vivi_sys s))"
  using r
proof (cases rule: timer_cases [case_names idle fill])
  case idle
  then show ?thesis using inv by simp
next
  case (fill i vb st')
  from inv show ?thesis
  proof (cases rule: vb_inv_cases)
    case (live xs ls)
    then obtain ls' where ls: "ls = i # ls'" using fill(1) by (cases ls) (auto simp: vb_live_def list_first_entry_def)
    note f = fill_live [OF live [unfolded ls] fill(4)]
    have "vb_live st' xs ls'" "vq_streaming (vq st')" "vq_streaming (vq (vivi_sys s))" using f by simp_all
    then show ?thesis
      using vb_live_lists(1,2) [OF live] vb_live_lists(1,2) [of st' xs ls'] fill(5) ls by (auto simp: vb_inv_def)
  next
    case (reading ls)
    then obtain ls' where ls: "ls = i # ls'" using fill(1) by (cases ls) (auto simp: vb_reading_def list_first_entry_def)
    have l: "vb_reading st' ls'" by (rule fill_reading [OF reading [unfolded ls] fill(4)])
    then show ?thesis using reading_lists [OF l] reading_lists [OF reading] fill(5) by (auto simp: vb_inv_def)
  next
    case stale
    then show ?thesis using fill(1) by (simp add: vb_stale_def list_first_entry_def)
  qed
qed

lemma open_inv: "vivi_inv s \<Longrightarrow> myvivi_open j s = Inr (r, s') \<Longrightarrow> vivi_inv s'"
  by (auto simp: myvivi_open_def vivi_inv_def videobuf_queue_core_init_def INIT_LIST_HEAD_def vb_inv_def vb_live_def
      buf_st_def split: option.splits if_splits)

lemma close_inv:
  assumes inv: "vb_inv (vivi_sys s)" and r: "myvivi_close s = Inr (ret, s')"
  shows "vivi_inv s'"
proof -
  obtain st where st: "videobuf_stop (qops s) (vivi_sys s) = Inr st" "vb_inv st" "\<not> vq_streaming (vq st)" "\<not> vq_reading (vq st)"
    using vivi_ops.stop_ok [OF inv] by blast
  then have "vq_local st = Some []" by (auto simp: vb_inv_def vb_live_def vb_reading_def vb_stale_def)
  then have "vq_local (snd (videobuf_free st)) = Some []" "\<not> vq_streaming (vq (snd (videobuf_free st)))"
    using st(3) by (auto simp: videobuf_free_def Let_def)
  then show ?thesis using r st(1) by (auto simp: myvivi_close_def vivi_inv_def)
qed

lemma munmap_inv:
  assumes inv: "vivi_inv s" and r: "myvivi_munmap m s = Inr s'"
  shows "vivi_inv s'"
proof (cases "myvivi_timer s = None")
  case True
  then show ?thesis using inv r
    by (auto simp: vivi_inv_def myvivi_munmap_def videobuf_vm_close_def Let_def kbind_Inr_iff split: if_splits)
next
  case False
  then show ?thesis using inv r vivi_ops.vb_vm_close_inv [of "vivi_sys s" "myvivi_format s" m]
    by (auto simp: vivi_inv_def myvivi_munmap_def kbind_Inr_iff)
qed

lemma poll_timeout_inv:
  assumes inv: "vb_inv (vivi_sys s)" and r: "poll_timeout i s = Inr s'"
  shows "vb_inv (vivi_sys s')"
proof -
  obtain vb where vb: "get_vb (vivi_sys s) i = Inr vb"
    and s': "s' = s\<lparr>vivi_sys := put_vb i (vb\<lparr>vb_done := False\<rparr>) (vivi_sys s)\<rparr>"
    using r by (auto simp: poll_timeout_def kbind_Inr_iff)
  have "same_phase (vivi_sys s) (put_vb i (vb\<lparr>vb_done := False\<rparr>) (vivi_sys s))"
    by (rule same_phase_put) (use vb in \<open>auto simp: get_vb_def deref_Inr_iff split: if_splits\<close>)
  then show ?thesis using inv by (simp add: s' same_phase_keeps(4))
qed

lemma vivi_mmap_inv: "vb_inv (vivi_sys s) \<Longrightarrow> myvivi_mmap kz vm rm vma s = (r, vma', s') \<Longrightarrow>
    vb_inv (vivi_sys s') \<and> myvivi_timer s' = myvivi_timer s"
  using same_phase_keeps(4) [OF mmap_mapper_phase [of kz vm rm vma "vivi_sys s"]]
  by (auto simp: myvivi_mmap_def split: prod.splits)

lemma vivi_step_inv:
  assumes inv: "vivi_inv s" and st: "vivi_step s s'"
  shows "vivi_inv s'"
proof -
  have op: "vb_inv (vivi_sys s)" if "myvivi_timer s \<noteq> None" using inv that by (simp add: vivi_inv_def)
  have ioctl: "vivi_inv s'" if "vb_inv (vivi_sys s')" "myvivi_timer s' \<noteq> None" using that by (auto simp: vivi_inv_def)
  from st show ?thesis
  proof (cases rule: vivi_step.cases)
    case (opens j r)
    then show ?thesis using open_inv [OF inv] by blast
  next
    case (closes r)
    then show ?thesis using close_inv [OF op] by blast
  next
    case (tick j ts)
    then show ?thesis using timer_inv [OF op tick(2)] ioctl by simp
  next
    case (s_fmt f r f')
    then show ?thesis using op ioctl by (auto simp: myvivi_vidioc_s_fmt_def)
  next
    case (reqbufs mem p r p')
    then show ?thesis using vivi_ops.vb_reqbufs_inv [OF op] ioctl by (auto simp: myvivi_vidioc_reqbufs_def kbind_Inr_iff)
  next
    case (qbuf b r)
    then show ?thesis using vivi_ops.vb_qbuf_inv [OF op] ioctl by (auto simp: myvivi_vidioc_qbuf_def kbind_Inr_iff)
  next
    case (dqbuf nb sg r' b')
    then show ?thesis using vivi_ops.vb_dqbuf_inv [OF op] ioctl by (auto simp: myvivi_vidioc_dqbuf_def kbind_Inr_iff)
  next
    case (streamon r)
    then show ?thesis using vivi_ops.streamon_inv [OF op] ioctl by (auto simp: myvivi_vidioc_streamon_def kbind_Inr_iff)
  next
    case (streamoff r)
    then show ?thesis using vivi_ops.streamoff_ok [OF op, of "myvivi_format s"] ioctl
      by (auto simp: myvivi_vidioc_streamoff_def kbind_Inr_iff)
  next
    case (mmap kz vm rm vma r vma')
    then show ?thesis using vivi_mmap_inv [OF op mmap(2)] ioctl by simp
  next
    case (poll mem rc)
    then show ?thesis using vivi_ops.poll_inv [OF op] ioctl by (auto simp: myvivi_poll_def kbind_Inr_iff)
  next
    case (timeout i)
    then show ?thesis using poll_timeout_inv [OF op timeout(2)] ioctl by (auto simp: poll_timeout_def kbind_Inr_iff)
  next
    case (munmap m)
    then show ?thesis using munmap_inv [OF inv] by blast
  qed
qed

lemma vivi_reachable_inv:
  assumes "vivi_reachable s"
  shows "vivi_inv s"
proof -
  obtain e where "vivi_step\<^sup>*\<^sup>* (snd (myvivi_init e)) s" using assms by (auto simp: vivi_reachable_def)
  then show ?thesis
  proof induction
    case base
    show ?case by (simp add: vivi_inv_def myvivi_init_def INIT_LIST_HEAD_def vivi_zero_queue_def)
  next
    case (step s s')
    then show ?case by (blast intro: vivi_step_inv)
  qed
qed

end
