(* ===== verification/Vivi_Fifo.thy ===== *)
theory Vivi_Fifo
  imports Vivi
begin

text \<open>
  The virtual camera implements the capture-queue contract.  The events between QBUF and DQBUF are
  timer ticks, polls and STREAMON.
\<close>

section \<open>Buffers keep their index\<close>

text \<open>
  A driver whose callbacks leave the index of a buffer alone.
\<close>

locale videobuf_indexed = videobuf_driver +
  assumes prepare_index: "vb_i (snd (buf_prepare ops vb f)) = vb_i vb"
    and queue_index: "buf_queue ops i vb l = Inr (vb', l') \<Longrightarrow> vb_i vb' = vb_i vb"
    and release_index: "vb_i (buf_release ops vb) = vb_i vb"

definition numbered_list :: "videobuf_buffer option list \<Rightarrow> bool" where
  "numbered_list bs \<longleftrightarrow> (\<forall>i<length bs. \<forall>vb. bs ! i = Some vb \<longrightarrow> vb_i vb = of_nat i)"

definition numbered :: "vb_sys \<Rightarrow> bool" where
  "numbered st \<longleftrightarrow> numbered_list (vq_bufs (vq st))"

lemma numbered_list_upd:
  "numbered_list bs \<Longrightarrow> (\<And>vb. b = Some vb \<Longrightarrow> vb_i vb = of_nat i) \<Longrightarrow> numbered_list (bs[i := b])"
  unfolding numbered_list_def by (metis length_list_update nth_list_update_eq nth_list_update_neq)

lemma numbered_put [simp]: "numbered st \<Longrightarrow> vb_i b = of_nat i \<Longrightarrow> numbered (put_vb i b st)"
  by (auto simp: numbered_def put_vb_def intro: numbered_list_upd)

lemma numbered_get: "numbered st \<Longrightarrow> get_vb st i = Inr vb \<Longrightarrow> vb_i vb = of_nat i"
  by (auto simp: numbered_def numbered_list_def get_vb_def deref_Inr_iff split: if_splits)

lemma setup_numbered:
  "setup_buffers mem n i bsize memory bs = Inr (j, bs') \<Longrightarrow> numbered_list bs \<Longrightarrow> numbered_list bs'"
proof (induction n arbitrary: i bs)
  case (Suc n)
  have "numbered_list (bs[i := Some (setup_buffer i bsize memory vb_zero)])" "numbered_list (bs[i := None])"
    by (rule numbered_list_upd [OF Suc.prems(2)]; auto simp: setup_buffer_def Let_def)+
  then show ?case
    using Suc.IH [of "i + 1" "bs[i := Some (setup_buffer i bsize memory vb_zero)]"] Suc.prems
    by (auto simp: videobuf_alloc_vb_def split: if_splits)
qed simp

lemma mmap_setup_numbered:
  assumes "numbered st" "videobuf_mmap_setup mem c bsize memory st = Inr (r, st')"
  shows "numbered st'"
proof -
  obtain e st1 where f: "videobuf_free st = (e, st1)" by fastforce
  have n1: "numbered st1" using assms(1) f
    by (auto simp: videobuf_free_def numbered_def numbered_list_def Let_def split: if_splits)
  show ?thesis
  proof (cases "e = 0")
    case True
    then obtain j bs where b: "setup_buffers mem (unat c) 0 bsize memory (vq_bufs (vq st1)) = Inr (j, bs)"
      and st': "st' = st1\<lparr>vq := (vq st1)\<lparr>vq_bufs := bs\<rparr>\<rparr>"
      using assms(2) f by (auto simp: videobuf_mmap_setup_def kbind_Inr_iff)
    then show ?thesis using setup_numbered [OF b] n1 by (simp add: numbered_def)
  next
    case False
    then show ?thesis using assms(2) f n1 by (simp add: videobuf_mmap_setup_def)
  qed
qed

context videobuf_indexed
begin

lemma qbuf_prepare_numbered:
  assumes n: "numbered st" and v: "vb_i vb = of_nat i" and r: "qbuf_prepare ops i vb st = Inr (ret, st')"
  shows "numbered st'"
proof -
  obtain f q1 k where q: "videobuf_next_field (vq st) = Inr (f, q1)" "q1 = (vq st)\<lparr>vq_last := k\<rparr>"
    using r next_field_frame [of "vq st"] by (fastforce simp: qbuf_prepare_def kbind_Inr_iff)
  obtain rv vb1 where p: "buf_prepare ops vb f = (rv, vb1)" by fastforce
  have v1: "vb_i vb1 = of_nat i" using prepare_index [of vb f] v p by simp
  let ?st1 = "put_vb i vb1 (st\<lparr>vq := q1\<rparr>)"
  have "numbered (st\<lparr>vq := q1\<rparr>)" using n by (simp add: numbered_def q(2))
  then have n1: "numbered ?st1" using v1 by simp
  then have n2: "numbered (?st1\<lparr>vq := (vq ?st1)\<lparr>vq_stream := str\<rparr>\<rparr>)" for str by (simp add: numbered_def)
  have n3: "numbered ((put_vb i vb2 (?st1\<lparr>vq := (vq ?st1)\<lparr>vq_stream := str\<rparr>\<rparr>))\<lparr>vq_local := l\<rparr>)"
    if "buf_queue ops i vb1 l0 = Inr (vb2, l)" for vb2 l l0 str
    using queue_index [OF that] v1 n2 [of str] numbered_put [of _ vb2 i] by (simp add: numbered_def)
  show ?thesis
    using r q(1) p n1 n2 n3 by (auto simp: qbuf_prepare_def Let_def kbind_Inr_iff split: if_splits)
qed

lemma qbuf_numbered:
  assumes n: "numbered st" and len: "length (vq_bufs (vq st)) = 32" and r: "videobuf_qbuf ops b st = Inr (ret, st')"
  shows "numbered st'"
proof (cases "vq_reading (vq st)")
  case True
  then show ?thesis using r n by (simp add: videobuf_qbuf_def Let_def)
next
  case False
  let ?i = "unat (b_index b)"
  show ?thesis
  proof (cases rule: qbuf_cases [OF r False refl, case_names same input prepare])
    case (input buf k)
    then have "vb_i buf = of_nat ?i" using n len by (auto simp: numbered_def numbered_list_def)
    then show ?thesis using n input(4) by simp
  next
    case (prepare buf k vb)
    then have v: "vb_i buf = of_nat ?i" using n len by (auto simp: numbered_def numbered_list_def)
    then have p: "numbered (put_vb ?i (buf\<lparr>vb_input := k\<rparr>) st)" using n by simp
    have "vb_i vb = of_nat ?i" using prepare(5) v by (auto simp: qbuf_memory_def release_index Let_def split: if_splits)
    then show ?thesis using qbuf_prepare_numbered [OF p _ prepare(4)] by simp
  qed (use n in simp)
qed

lemma read_queue_numbered:
  "numbered st \<Longrightarrow> read_queue ops js st = Inr st' \<Longrightarrow> numbered st'"
proof (induction js arbitrary: st)
  case (Cons i js)
  then obtain buf buf' l where b: "get_vb st i = Inr buf" "buf_queue ops i buf (vq_local st) = Inr (buf', l)"
    and r: "read_queue ops js ((put_vb i buf' st)\<lparr>vq_local := l\<rparr>) = Inr st'"
    by (auto simp: kbind_Inr_iff)
  have "vb_i buf' = of_nat i" using queue_index [OF b(2)] numbered_get [OF Cons.prems(1) b(1)] by simp
  then have "numbered ((put_vb i buf' st)\<lparr>vq_local := l\<rparr>)"
    using numbered_put [OF Cons.prems(1), of buf' i] by (simp add: numbered_def)
  then show ?case using Cons.IH r by blast
qed simp

lemma queue_prepared_numbered:
  "numbered st \<Longrightarrow> queue_prepared ops js st = Inr st' \<Longrightarrow> numbered st'"
proof (induction js arbitrary: st)
  case (Cons i js)
  obtain buf where b: "get_vb st i = Inr buf" using Cons.prems(2) by (auto simp: kbind_Inr_iff)
  show ?case
  proof (cases "vb_state buf = VIDEOBUF_PREPARED")
    case True
    then obtain buf' l where q: "buf_queue ops i buf (vq_local st) = Inr (buf', l)"
      and r: "queue_prepared ops js ((put_vb i buf' st)\<lparr>vq_local := l\<rparr>) = Inr st'"
      using Cons.prems(2) b by (auto simp: kbind_Inr_iff)
    have "vb_i buf' = of_nat i" using queue_index [OF q] numbered_get [OF Cons.prems(1) b] by simp
    then have "numbered ((put_vb i buf' st)\<lparr>vq_local := l\<rparr>)"
      using numbered_put [OF Cons.prems(1), of buf' i] by (simp add: numbered_def)
    then show ?thesis using Cons.IH r by blast
  next
    case False
    then show ?thesis using Cons b by simp
  qed
qed simp

lemma streamon_numbered:
  "numbered st \<Longrightarrow> videobuf_streamon ops st = Inr (r, st') \<Longrightarrow> numbered st'"
  using queue_prepared_numbered [of "st\<lparr>vq := (vq st)\<lparr>vq_streaming := True\<rparr>\<rparr>"]
  by (auto simp: videobuf_streamon_def kbind_Inr_iff numbered_def split: if_splits)

lemma read_prepare_numbered:
  "numbered st \<Longrightarrow> read_prepare ops js st = Inr (e, st') \<Longrightarrow> numbered st'"
proof (induction js arbitrary: st)
  case (Cons i js)
  then obtain f q1 buf where q: "videobuf_next_field (vq st) = Inr (f, q1)" and b: "get_vb st i = Inr buf"
    by (auto simp: kbind_Inr_iff)
  obtain rv vb1 where p: "buf_prepare ops buf f = (rv, vb1)" by fastforce
  let ?st1 = "put_vb i vb1 (st\<lparr>vq := q1\<rparr>)"
  have "vb_i vb1 = of_nat i" using prepare_index [of buf f] numbered_get [OF Cons.prems(1) b] p by simp
  moreover have "numbered (st\<lparr>vq := q1\<rparr>)"
    using next_field_frame [OF q] Cons.prems(1) by (auto simp: numbered_def)
  ultimately have n1: "numbered ?st1" by simp
  then have "numbered (?st1\<lparr>vq := (vq ?st1)\<lparr>vq_stream := str\<rparr>\<rparr>)" for str by (simp add: numbered_def)
  then show ?case
    using Cons.prems(2) q b p n1 Cons.IH by (auto simp: Let_def kbind_Inr_iff split: if_splits)
qed simp

lemma read_start_numbered:
  assumes n: "numbered st" and r: "videobuf_read_start ops mem st = Inr (e, st')"
  shows "numbered st'"
proof -
  obtain c sz where su: "buf_setup ops 0 0 = (c, sz)" by fastforce
  let ?c = "if (if c < 2 then 2 else c) > of_nat 32 then of_nat 32 else (if c < 2 then 2 else c)"
  obtain e1 st1 where m: "videobuf_mmap_setup mem ?c (PAGE_ALIGN sz) V4L2_MEMORY_USERPTR st = Inr (e1, st1)"
    and r1: "(if e1 < 0 then Inr (e1, st1) else kbind (read_prepare ops [0..<nat e1] st1) (\<lambda>(err2, st2).
        if err2 \<noteq> 0 then Inr (err2, st2) else kbind (read_queue ops [0..<nat e1] st2) (\<lambda>st3.
          Inr (0, st3\<lparr>vq := (vq st3)\<lparr>vq_reading := True\<rparr>\<rparr>)))) = Inr (e, st')"
    using r su by (auto simp: videobuf_read_start_def Let_def kbind_Inr_iff)
  have n1: "numbered st1" by (rule mmap_setup_numbered [OF n m])
  have n3: "numbered (st3\<lparr>vq := (vq st3)\<lparr>vq_reading := True\<rparr>\<rparr>)"
    if "read_prepare ops js st1 = Inr (0, st2)" "read_queue ops js st2 = Inr st3" for js st2 st3
    using read_queue_numbered [OF read_prepare_numbered [OF n1 that(1)] that(2)] by (simp add: numbered_def)
  show ?thesis
    using r1 n1 n3 read_prepare_numbered [OF n1] by (auto simp: kbind_Inr_iff split: if_splits)
qed

lemma poll_numbered:
  assumes n: "numbered st" and r: "videobuf_poll_stream ops mem st = Inr (rc, st')"
  shows "numbered st'"
proof -
  obtain buf st1 where p: "poll_buffer ops mem st = Inr (buf, st1)"
    using r by (auto simp: videobuf_poll_stream_def kbind_Inr_iff)
  have n1: "numbered st1"
    using p n read_start_numbered [OF n]
    by (auto simp: poll_buffer_def kbind_Inr_iff numbered_def split: if_splits)
  then have "numbered (put_vb i (vb\<lparr>vb_done := True\<rparr>) st1)" if "get_vb st1 i = Inr vb" for i vb
    using numbered_get [OF n1 that] by simp
  then show ?thesis
    using r p n1 by (auto simp: videobuf_poll_stream_def kbind_Inr_iff split: option.splits if_splits)
qed

end

interpretation vivi_indexed: videobuf_indexed "myvivi_video_qops fmt" for fmt
  by unfold_locales
    (auto simp: myvivi_video_qops_def myvivi_buffer_prepare_def myvivi_buffer_queue_def myvivi_buffer_release_def
      videobuf_vmalloc_free_def kbind_Inr_iff)

lemma next_buffer_state:
  assumes "stream_next_buffer nb sg st = Inr (r, nx, st1)"
  shows "st1 = st \<or> (\<exists>i vb. get_vb st i = Inr vb \<and> st1 = put_vb i (vb\<lparr>vb_done := True\<rparr>) st)"
proof (cases "stream_next_buffer_check_queue nb sg (vq st) = Some 0")
  case True
  then obtain i vb where g: "get_vb st i = Inr vb" and w: "st1 = snd (videobuf_waiton nb sg i vb st)"
    using assms by (auto simp: stream_next_buffer_def kbind_Inr_iff case_prod_beta)
  then show ?thesis by (auto simp: videobuf_waiton_def)
next
  case False
  then show ?thesis using assms by (auto simp: stream_next_buffer_def split: option.splits if_splits)
qed

lemma dqbuf_numbered:
  assumes n: "numbered st" and r: "videobuf_dqbuf nb sg st = Inr (ret, b, st')"
  shows "numbered st'"
proof -
  obtain rr nx st1 where s: "stream_next_buffer nb sg st = Inr (rr, nx, st1)"
    using r by (auto simp: videobuf_dqbuf_def kbind_Inr_iff)
  have n1: "numbered st1" using next_buffer_state [OF s] n numbered_get [OF n] by auto
  have t: "numbered (put_vb i (vb\<lparr>vb_state := VIDEOBUF_IDLE\<rparr>) (st1\<lparr>vq := (vq st1)\<lparr>vq_stream := str\<rparr>\<rparr>))"
    if "get_vb st1 i = Inr vb" for i vb str
    using numbered_get [OF n1 that] n1 by (auto simp: numbered_def put_vb_def intro: numbered_list_upd)
  have "st' = st1 \<or> (\<exists>i vb str. get_vb st1 i = Inr vb \<and>
      st' = put_vb i (vb\<lparr>vb_state := VIDEOBUF_IDLE\<rparr>) (st1\<lparr>vq := (vq st1)\<lparr>vq_stream := str\<rparr>\<rparr>))"
    using r s by (fastforce simp: videobuf_dqbuf_def kbind_Inr_iff Let_def split: option.splits if_splits)
  then show ?thesis using n1 t by auto
qed

lemma timer_numbered:
  assumes n: "numbered (vivi_sys s)" and r: "myvivi_timer_function j ts s = Inr s'"
  shows "numbered (vivi_sys s')"
  using r
proof (cases rule: timer_cases [case_names idle fill])
  case idle
  then show ?thesis using n by simp
next
  case (fill i vb st')
  obtain v l where st': "st' = (put_vb i (vb\<lparr>vb_vaddr := v, vb_field_count := vb_field_count vb + 1, vb_ts := ts,
      vb_state := VIDEOBUF_DONE, vb_done := False\<rparr>) (vivi_sys s))\<lparr>vq_local := l\<rparr>"
    using fill(4) by (auto simp: fill_buffer_def kbind_Inr_iff)
  have "vb_i vb = of_nat i" by (rule numbered_get [OF n fill(2)])
  then show ?thesis using fill(5) n by (auto simp: st' numbered_def put_vb_def intro: numbered_list_upd)
qed

section \<open>First in, first out\<close>

datatype vivi_event = TICK u32 nat | POLL | STREAMON

text \<open>
  Polls of this sequence find memory for the buffers of the read mode.
\<close>

definition vivi_event :: "vivi_event \<Rightarrow> vivi \<Rightarrow> vivi kres" where
  "vivi_event e s = (case e of
       TICK j ts \<Rightarrow> myvivi_timer_function j ts s
     | POLL \<Rightarrow> kbind (myvivi_poll (\<lambda>_. True) s) (\<lambda>(rc, s'). Inr s')
     | STREAMON \<Rightarrow> kbind (myvivi_vidioc_streamon s) (\<lambda>(r, s'). Inr s'))"

definition vivi_qb :: "v4l2_buffer \<Rightarrow> vivi \<Rightarrow> (bool \<times> vivi) kres" where
  "vivi_qb b s = kbind (myvivi_vidioc_qbuf b s) (\<lambda>(ret, s'). Inr (ret = 0, s'))"

definition vivi_dq :: "vivi \<Rightarrow> (nat option \<times> vivi) kres" where
  "vivi_dq s = kbind (myvivi_vidioc_dqbuf True False s)
     (\<lambda>(ret, b, s'). Inr (if ret = Some 0 then Some (unat (b_index b)) else None, s'))"

lemma live_distinct:
  assumes "vb_inv st"
  shows "distinct (vb_filled st @ vb_pending st)"
  using assms
proof (cases rule: vb_inv_cases)
  case (live xs ls)
  then show ?thesis using vb_live_lists(1) [OF live] by (simp add: vb_live_def)
qed (use reading_lists stale_lists in auto)

lemma inv_length: "vb_inv st \<Longrightarrow> length (vq_bufs (vq st)) = 32"
  by (auto simp: vb_inv_def vb_live_def vb_reading_def vb_stale_def)

lemma filled_index:
  assumes "vb_inv st" "numbered st" "vb_filled st \<noteq> []" "vq_bufs (vq st) ! hd (vb_filled st) = Some vb"
  shows "unat (vb_i vb) = hd (vb_filled st)"
proof -
  have "hd (vb_filled st) \<in> set (vb_filled st)" using assms(3) by simp
  then have "buf_st st (hd (vb_filled st)) \<noteq> None" by (auto simp: vb_filled_def finished_def split: if_splits)
  then have "hd (vb_filled st) < 32" using inv_length [OF assms(1)] by (auto simp: buf_st_def split: if_splits)
  then show ?thesis using assms(2,4) inv_length [OF assms(1)] by (simp add: numbered_def numbered_list_def unat_of_nat)
qed

interpretation vivi_fifo: capture_queue
  "\<lambda>s. vb_inv (vivi_sys s) \<and> numbered (vivi_sys s)" "\<lambda>s. vb_filled (vivi_sys s)" "\<lambda>s. vb_pending (vivi_sys s)"
  "\<lambda>b. unat (b_index b)" vivi_qb vivi_dq vivi_event
proof (unfold_locales, goal_cases distinct accept refuse take empty event)
  case (distinct s)
  then show ?case using live_distinct by blast
next
  case (accept s b s')
  then obtain st where q: "videobuf_qbuf (qops s) b (vivi_sys s) = Inr (0, st)" "s' = s\<lparr>vivi_sys := st\<rparr>"
    by (auto simp: vivi_qb_def myvivi_vidioc_qbuf_def kbind_Inr_iff)
  then show ?case using accept vivi_ops.vb_qbuf_inv [OF _ q(1)] vivi_indexed.qbuf_numbered [OF _ inv_length q(1)] by auto
next
  case (refuse s b s')
  then obtain r st where q: "videobuf_qbuf (qops s) b (vivi_sys s) = Inr (r, st)" "s' = s\<lparr>vivi_sys := st\<rparr>" "r \<noteq> 0"
    by (auto simp: vivi_qb_def myvivi_vidioc_qbuf_def kbind_Inr_iff)
  then show ?case using refuse vivi_ops.vb_qbuf_inv [OF _ q(1)] vivi_indexed.qbuf_numbered [OF _ inv_length q(1)] by auto
next
  case (take s i s')
  then obtain b st where d: "videobuf_dqbuf True False (vivi_sys s) = Inr (Some 0, b, st)" "s' = s\<lparr>vivi_sys := st\<rparr>"
    and i: "i = unat (b_index b)"
    by (auto simp: vivi_dq_def myvivi_vidioc_dqbuf_def kbind_Inr_iff split: if_splits)
  note D = vivi_ops.vb_dqbuf_inv [OF conjunct1 [OF take(1)] d(1)]
  then obtain vb where "vb_filled (vivi_sys s) \<noteq> []" "vq_bufs (vq (vivi_sys s)) ! hd (vb_filled (vivi_sys s)) = Some vb"
    "b_index b = vb_i vb" by auto
  then have "vb_filled (vivi_sys s) = i # tl (vb_filled (vivi_sys s))"
    using filled_index [of "vivi_sys s" vb] take(1) i by (cases "vb_filled (vivi_sys s)") auto
  then show ?case using D d(2) dqbuf_numbered [OF conjunct2 [OF take(1)] d(1)] by auto
next
  case (empty s s')
  then obtain r b st where d: "videobuf_dqbuf True False (vivi_sys s) = Inr (r, b, st)" "s' = s\<lparr>vivi_sys := st\<rparr>" "r \<noteq> Some 0"
    by (auto simp: vivi_dq_def myvivi_vidioc_dqbuf_def kbind_Inr_iff split: if_splits)
  then show ?case
    using vivi_ops.vb_dqbuf_inv [OF conjunct1 [OF empty(1)] d(1)] dqbuf_numbered [OF conjunct2 [OF empty(1)] d(1)] by auto
next
  case (event s e s')
  then have inv: "vb_inv (vivi_sys s)" "numbered (vivi_sys s)" by simp_all
  show ?case
  proof (cases e)
    case (TICK j ts)
    then have t: "myvivi_timer_function j ts s = Inr s'" using event(2) by (simp add: vivi_event_def)
    show ?thesis using timer_inv [OF inv(1) t] timer_numbered [OF inv(2) t] by simp
  next
    case POLL
    then obtain rc st where p: "videobuf_poll_stream (qops s) (\<lambda>_. True) (vivi_sys s) = Inr (rc, st)" "s' = s\<lparr>vivi_sys := st\<rparr>"
      using event(2) by (auto simp: vivi_event_def myvivi_poll_def kbind_Inr_iff)
    then show ?thesis using vivi_ops.poll_inv [OF inv(1) p(1)] vivi_indexed.poll_numbered [OF inv(2) p(1)] by simp
  next
    case STREAMON
    then obtain r st where p: "videobuf_streamon (qops s) (vivi_sys s) = Inr (r, st)" "s' = s\<lparr>vivi_sys := st\<rparr>"
      using event(2) by (auto simp: vivi_event_def myvivi_vidioc_streamon_def kbind_Inr_iff)
    then show ?thesis using vivi_ops.streamon_inv [OF inv(1) p(1)] vivi_indexed.streamon_numbered [OF inv(2) p(1)] by simp
  qed
qed

end
