(* ===== verification/Vivi_Props.thy ===== *)
theory Vivi_Props
  imports Vivi_Fifo
begin

text \<open>
  What the virtual camera guarantees, and three ways to crash it.
\<close>

section \<open>A concrete state\<close>

definition vivi_demo_vb :: "nat \<Rightarrow> videobuf_buffer" where
  "vivi_demo_vb i = (setup_buffer i 0 V4L2_MEMORY_MMAP vb_zero)\<lparr>vb_baddr := 0x40000000, vb_map := Some i\<rparr>"

text \<open>
  An open device with two mapped buffers.
\<close>

definition vivi_demo :: vivi where
  "vivi_demo = \<lparr>vivi_sys =
      \<lparr>vq = (videobuf_queue_core_init 1 4)\<lparr>vq_bufs := Some (vivi_demo_vb 0) # Some (vivi_demo_vb 1) # replicate 30 None\<rparr>,
       vq_local = Some [], mappings = [1, 1]\<rparr>, myvivi_format = 0, myvivi_timer = Some 1\<rparr>"

definition vivi_demo_req :: "nat \<Rightarrow> v4l2_buffer" where
  "vivi_demo_req i = 0\<lparr>b_index := of_nat i, b_type := 1, b_memory := 1\<rparr>"

lemmas vivi_demo_defs = vivi_demo_def vivi_demo_vb_def vivi_demo_req_def videobuf_queue_core_init_def
  setup_buffer_def vb_zero_def INIT_LIST_HEAD_def

lemmas vivi_eval_defs = vivi_qb_def vivi_dq_def vivi_event_def myvivi_vidioc_qbuf_def myvivi_vidioc_dqbuf_def
  myvivi_vidioc_streamon_def myvivi_poll_def myvivi_timer_function_def fill_buffer_def videobuf_qbuf_def qbuf_memory_def
  qbuf_prepare_def videobuf_next_field_def myvivi_video_qops_def myvivi_buffer_prepare_def myvivi_buffer_queue_def
  vb_add_tail_def put_vb_def get_vb_def videobuf_streamon_def videobuf_poll_stream_def poll_buffer_def
  videobuf_dqbuf_def stream_next_buffer_def stream_next_buffer_check_queue_def videobuf_waiton_def
  is_state_active_or_queued_def videobuf_status_def state_flags_def Let_def

lemma vivi_demo_bufs: "i < 32 \<Longrightarrow> vq_bufs (vq (vivi_sys vivi_demo)) ! i = (if i < 2 then Some (vivi_demo_vb i) else None)"
  by (auto simp: vivi_demo_def nth_Cons' less_2_cases_iff)

lemma vivi_demo_live: "vb_live (vivi_sys vivi_demo) [] []"
proof -
  have "length (vq_bufs (vq (vivi_sys vivi_demo))) = 32" by (simp add: vivi_demo_def)
  moreover have "buf_st (vivi_sys vivi_demo) i = (if i < 2 then Some VIDEOBUF_NEEDS_INIT else None)" for i
    using vivi_demo_bufs [of i] calculation by (auto simp: buf_st_def vivi_demo_vb_def setup_buffer_def vb_zero_def)
  ultimately show ?thesis
    by (simp add: vb_live_def busy_def) (simp add: vivi_demo_defs)
qed

lemma vivi_demo_numbered: "numbered (vivi_sys vivi_demo)"
proof -
  have "length (vq_bufs (vq (vivi_sys vivi_demo))) = 32" by (simp add: vivi_demo_def)
  then show ?thesis
    using vivi_demo_bufs by (auto simp: numbered_def numbered_list_def vivi_demo_vb_def setup_buffer_def Let_def split: if_splits)
qed

section \<open>Consistency and order\<close>

text \<open>
  C13: In every reachable state of the virtual camera the driver's list of buffers to fill holds
  exactly the queued buffers of the queue, each once (so the timer never touches a freed or
  foreign buffer), and it is empty while the device is closed or neither streaming nor reading.
\<close>

theorem vivi_always_consistent:
  assumes "vivi_reachable s"
  shows "\<exists>ls. vq_local (vivi_sys s) = Some ls \<and> distinct ls \<and>
    (if myvivi_timer s = None then ls = []
     else vb_inv (vivi_sys s) \<and> (\<forall>i. i \<in> set ls \<longleftrightarrow> buf_st (vivi_sys s) i = Some VIDEOBUF_QUEUED) \<and>
       (\<not> vq_streaming (vq (vivi_sys s)) \<and> \<not> vq_reading (vq (vivi_sys s)) \<longrightarrow> ls = []))"
proof (cases "myvivi_timer s = None")
  case True
  then show ?thesis using vivi_reachable_inv [OF assms] by (simp add: vivi_inv_def)
next
  case False
  then have inv: "vb_inv (vivi_sys s)" using vivi_reachable_inv [OF assms] by (simp add: vivi_inv_def)
  then show ?thesis
  proof (cases rule: vb_inv_cases)
    case (live xs ls)
    then have "distinct ls" by (auto simp: vb_live_def stream_phase_def split: if_splits)
    then show ?thesis using live inv False by (auto simp: vb_live_def)
  next
    case (reading ls)
    then show ?thesis using inv False by (auto simp: vb_reading_def)
  next
    case stale
    then show ?thesis using inv False by (auto simp: vb_stale_def buf_st_def)
  qed
qed

theorem vivi_always_consistent_witness:
  "\<exists>s. myvivi_open 7 (snd (myvivi_init 0)) = Inr (0, s) \<and> vb_inv (vivi_sys s) \<and> vq_local (vivi_sys s) = Some []"
proof -
  obtain s where s: "myvivi_open 7 (snd (myvivi_init 0)) = Inr (0, s)" "myvivi_timer s \<noteq> None"
    "\<not> vq_streaming (vq (vivi_sys s))" "\<not> vq_reading (vq (vivi_sys s))"
    by (simp add: myvivi_open_def myvivi_init_def videobuf_queue_core_init_def)
  have "vivi_step\<^sup>*\<^sup>* (snd (myvivi_init 0)) s" using vivi_step.opens [OF s(1)] by simp
  then have "vivi_reachable s" unfolding vivi_reachable_def by blast
  from vivi_always_consistent [OF this] s show ?thesis by auto
qed

text \<open>
  C14: First in, first out.  Starting with an empty queue, let the application queue and dequeue
  buffers, poll and start streaming, and let the timer run, in any order.  The buffers DQBUF has
  returned are a prefix of the accepted ones, in order; the rest are those still in the driver.
\<close>

theorem vivi_capture_fifo:
  assumes "vb_inv (vivi_sys s)" "numbered (vivi_sys s)" "vb_filled (vivi_sys s) = []" "vb_pending (vivi_sys s) = []"
    and "run_queue vivi_qb vivi_dq vivi_event ops s = Inr (qs, ds, t)"
  shows "ds = take (length ds) (map (\<lambda>b. unat (b_index b)) qs) \<and>
    drop (length ds) (map (\<lambda>b. unat (b_index b)) qs) = vb_filled (vivi_sys t) @ vb_pending (vivi_sys t) \<and>
    distinct (vb_filled (vivi_sys t) @ vb_pending (vivi_sys t))"
  using vivi_fifo.run_from_empty [of s ops qs ds t] assms by auto

theorem vivi_capture_fifo_witness:
  "\<exists>t. run_queue vivi_qb vivi_dq vivi_event
      [QBUF (vivi_demo_req 1), QBUF (vivi_demo_req 0), EVENT STREAMON, EVENT POLL, EVENT (TICK 5 9), DQBUF] vivi_demo =
      Inr ([vivi_demo_req 1, vivi_demo_req 0], [1], t) \<and>
    vb_filled (vivi_sys t) @ vb_pending (vivi_sys t) = [0]"
proof -
  have "\<exists>t. run_queue vivi_qb vivi_dq vivi_event
      [QBUF (vivi_demo_req 1), QBUF (vivi_demo_req 0), EVENT STREAMON, EVENT POLL, EVENT (TICK 5 9), DQBUF] vivi_demo =
      Inr ([vivi_demo_req 1, vivi_demo_req 0], [1], t)"
    by (simp add: vivi_demo_defs vivi_eval_defs)
  then obtain t where r: "run_queue vivi_qb vivi_dq vivi_event
      [QBUF (vivi_demo_req 1), QBUF (vivi_demo_req 0), EVENT STREAMON, EVENT POLL, EVENT (TICK 5 9), DQBUF] vivi_demo =
      Inr ([vivi_demo_req 1, vivi_demo_req 0], [1], t)" by blast
  have "vb_inv (vivi_sys vivi_demo)" "vb_filled (vivi_sys vivi_demo) = []" "vb_pending (vivi_sys vivi_demo) = []"
    using vivi_demo_live vb_live_lists(1) [OF vivi_demo_live] by (auto simp: vb_inv_def)
  from vivi_capture_fifo [OF this(1) vivi_demo_numbered this(2,3) r] r show ?thesis
    by (auto simp: vivi_demo_req_def)
qed

section \<open>A waiting application gets its frame\<close>

lemma pending_live:
  assumes "vb_inv st" "vq_streaming (vq st)" "vb_filled st = []" "vb_pending st = i # ps"
  shows "vb_live st (i # ps) (i # ps)"
proof -
  obtain xs ls where l: "vb_live st xs ls" using assms(1,2) by (auto simp: vb_inv_def vb_reading_def vb_stale_def)
  then show ?thesis using vb_live_lists(1,2) [OF l] assms(2-4) by simp
qed

lemma poll_streaming:
  assumes l: "vb_live (vivi_sys s) (i # xs) ls" "vq_streaming (vq (vivi_sys s))" "vq_bufs (vq (vivi_sys s)) ! i = Some vb"
    and ty: "vq_type (vq (vivi_sys s)) = V4L2_BUF_TYPE_VIDEO_CAPTURE"
  shows "myvivi_poll mem s = Inr (if finished (Some (vb_state vb)) then (POLLIN OR POLLRDNORM, s)
    else (0, s\<lparr>vivi_sys := put_vb i (vb\<lparr>vb_done := True\<rparr>) (vivi_sys s)\<rparr>))"
proof -
  have "i \<in> set (i # xs)" by simp
  then have "get_vb (vivi_sys s) i = Inr vb" using live_buffer [OF l(1), of i] l(3) by auto
  moreover have "vq_stream (vq (vivi_sys s)) = Some (i # xs)" using l(1) by (simp add: vb_live_def)
  ultimately show ?thesis
    using l(2) ty by (auto simp: myvivi_poll_def videobuf_poll_stream_def poll_buffer_def finished_def)
qed

text \<open>
  One tick with a waiting reader, and DQBUF of a finished buffer.
\<close>

lemma tick_fills:
  assumes l: "vb_live (vivi_sys s) (i # ps) (i # ps)" and vb: "vq_bufs (vq (vivi_sys s)) ! i = Some vb" "vb_done vb"
    "vb_vaddr vb = Some m" "unat (vb_size vb) \<le> length m"
  shows "\<exists>st' vb'. myvivi_timer_function j ts s = Inr (s\<lparr>vivi_sys := st', myvivi_timer := Some (j + HZ div 30)\<rparr>) \<and>
    vb_live st' (i # ps) ps \<and> vq_streaming (vq st') \<and> vq_type (vq st') = vq_type (vq (vivi_sys s)) \<and>
    vq_bufs (vq st') ! i = Some vb' \<and> vb_state vb' = VIDEOBUF_DONE \<and> vb_i vb' = vb_i vb \<and> vb_size vb' = vb_size vb \<and>
    vb_vaddr vb' = Some (replicate (unat (vb_size vb)) 255 @ drop (unat (vb_size vb)) m)"
proof -
  let ?st = "vivi_sys s"
  have loc: "vq_local ?st = Some (i # ps)" "i \<notin> set ps" using l by (simp_all add: vb_live_def)
  have i: "i < length (vq_bufs (vq ?st))" using live_buffer [OF l, of i] l by (auto simp: vb_live_def)
  have g: "get_vb ?st i = Inr vb" using i vb(1) by (simp add: get_vb_def)
  define m' where "m' = replicate (unat (vb_size vb)) (255 :: u8) @ drop (unat (vb_size vb)) m"
  define vb' where "vb' = vb\<lparr>vb_vaddr := Some m', vb_field_count := vb_field_count vb + 1, vb_ts := ts,
    vb_state := VIDEOBUF_DONE, vb_done := False\<rparr>"
  define st' where "st' = (put_vb i vb' ?st)\<lparr>vq_local := Some ps\<rparr>"
  have "vb_size vb = 0 \<Longrightarrow> m' = m" by (simp add: m'_def)
  then have f: "fill_buffer ts i vb ?st = Inr st'"
    using vb loc by (auto simp: fill_buffer_def mem_write_def m'_def vb'_def st'_def)
  have "myvivi_timer_function j ts s = Inr (s\<lparr>vivi_sys := st', myvivi_timer := Some (j + HZ div 30)\<rparr>)"
    using f g loc(1) vb(2) by (simp add: myvivi_timer_function_def Let_def)
  moreover have "vq_bufs (vq st') ! i = Some vb'" using i by (simp add: st'_def put_vb_def)
  ultimately show ?thesis using fill_live [OF l f]
    by (intro exI [of _ st'] exI [of _ vb']) (auto simp: vb'_def m'_def st'_def)
qed

lemma dqbuf_finished:
  assumes l: "vb_live (vivi_sys s) (i # ps) ls" "vq_streaming (vq (vivi_sys s))"
    and vb: "vq_bufs (vq (vivi_sys s)) ! i = Some vb" "finished (Some (vb_state vb))"
  shows "\<exists>b s'. myvivi_vidioc_dqbuf nb sg s = Inr (Some 0, b, s') \<and> b_index b = vb_i vb \<and> b_bytesused b = vb_size vb \<and>
    vb_live (vivi_sys s') ps ls \<and> vq_streaming (vq (vivi_sys s')) \<and>
    vq_bufs (vq (vivi_sys s')) ! i = Some (vb\<lparr>vb_state := VIDEOBUF_IDLE\<rparr>)"
proof -
  let ?st = "vivi_sys s"
  have i: "i < 32" "length (vq_bufs (vq ?st)) = 32" using live_buffer [OF l(1), of i] l(1) by (auto simp: vb_live_def)
  let ?st' = "put_vb i (vb\<lparr>vb_state := VIDEOBUF_IDLE\<rparr>) (?st\<lparr>vq := (vq ?st)\<lparr>vq_stream := Some ps\<rparr>\<rparr>)"
  have "vb_live ?st' ps ls"
    by (rule vivi_ops.vb_live_take [OF l]) (use l vb i in \<open>auto simp: vb_live_def buf_st_def\<close>)
  moreover have "vq_bufs (vq ?st') ! i = Some (vb\<lparr>vb_state := VIDEOBUF_IDLE\<rparr>)" using i by (simp add: put_vb_def)
  ultimately show ?thesis
    using vivi_ops.dqbuf_head [OF l vb(1) i(1), of nb sg] l(2) vb(2)
    by (auto simp: myvivi_vidioc_dqbuf_def videobuf_status_def Let_def)
qed

text \<open>
  C15: Progress.  While the camera streams, an application that polls finds no event if the oldest
  pending buffer is not yet filled; the next timer tick fills it, the next poll reports it
  readable and DQBUF returns it with the right index and length, its memory full of bytes 255.
  The remaining buffers stay pending.
\<close>

theorem vivi_frame_delivered:
  assumes inv: "vb_inv (vivi_sys s)" "numbered (vivi_sys s)" and on: "vq_streaming (vq (vivi_sys s))"
    and ty: "vq_type (vq (vivi_sys s)) = V4L2_BUF_TYPE_VIDEO_CAPTURE"
    and p: "vb_filled (vivi_sys s) = []" "vb_pending (vivi_sys s) = i # ps"
    and vb: "vq_bufs (vq (vivi_sys s)) ! i = Some vb" "vb_vaddr vb = Some m" "unat (vb_size vb) \<le> length m"
  shows "\<exists>s1 s2 s3 b vb'. myvivi_poll mem s = Inr (0, s1) \<and> myvivi_timer_function j ts s1 = Inr s2 \<and>
    myvivi_poll mem s2 = Inr (POLLIN OR POLLRDNORM, s2) \<and> myvivi_vidioc_dqbuf True False s2 = Inr (Some 0, b, s3) \<and>
    b_index b = of_nat i \<and> b_bytesused b = vb_size vb \<and> vb_pending (vivi_sys s3) = ps \<and>
    vq_bufs (vq (vivi_sys s3)) ! i = Some vb' \<and> vb_state vb' = VIDEOBUF_IDLE \<and>
    vb_vaddr vb' = Some (replicate (unat (vb_size vb)) 255 @ drop (unat (vb_size vb)) m)"
proof -
  let ?st = "vivi_sys s"
  have l: "vb_live ?st (i # ps) (i # ps)" by (rule pending_live [OF inv(1) on p])
  have q: "buf_st ?st i = Some VIDEOBUF_QUEUED" using l by (auto simp: vb_live_def)
  have i: "i < 32" "length (vq_bufs (vq ?st)) = 32" "vb_state vb = VIDEOBUF_QUEUED" "vb_i vb = of_nat i"
    using buf_st_SomeD [OF q] vb(1) l inv(2) by (auto simp: vb_live_def numbered_def numbered_list_def)
  define vb1 where "vb1 = vb\<lparr>vb_done := True\<rparr>"
  define s1 where "s1 = s\<lparr>vivi_sys := put_vb i vb1 ?st\<rparr>"
  have p1: "myvivi_poll mem s = Inr (0, s1)"
    using poll_streaming [OF l on vb(1) ty, of mem] i(3) by (simp add: finished_def s1_def vb1_def)
  have "same_phase ?st (vivi_sys s1)"
    using same_phase_put [OF vb(1), of vb1] i(1,2) by (simp add: s1_def vb1_def)
  then have l1: "vb_live (vivi_sys s1) (i # ps) (i # ps)" using l by (simp add: same_phase_keeps(1))
  have b1: "vq_bufs (vq (vivi_sys s1)) ! i = Some vb1" using i by (simp add: s1_def put_vb_def)
  obtain st2 vb2 where t: "myvivi_timer_function j ts s1 = Inr (s1\<lparr>vivi_sys := st2, myvivi_timer := Some (j + HZ div 30)\<rparr>)"
    and l2: "vb_live st2 (i # ps) ps" "vq_streaming (vq st2)" "vq_type (vq st2) = vq_type (vq (vivi_sys s1))"
    and b2: "vq_bufs (vq st2) ! i = Some vb2" "vb_state vb2 = VIDEOBUF_DONE" "vb_i vb2 = of_nat i" "vb_size vb2 = vb_size vb"
      "vb_vaddr vb2 = Some (replicate (unat (vb_size vb)) 255 @ drop (unat (vb_size vb)) m)"
    using tick_fills [OF l1 b1, of m j ts] vb(2,3) i(4) by (auto simp: vb1_def)
  define s2 where "s2 = s1\<lparr>vivi_sys := st2, myvivi_timer := Some (j + HZ div 30)\<rparr>"
  have fin: "finished (Some (vb_state vb2))" by (simp add: b2(2) finished_def)
  have p2: "myvivi_poll mem s2 = Inr (POLLIN OR POLLRDNORM, s2)"
    using poll_streaming [of s2 i ps ps vb2 mem] l2 b2(1) fin ty by (simp add: s2_def s1_def)
  obtain b s3 where d: "myvivi_vidioc_dqbuf True False s2 = Inr (Some 0, b, s3)" "b_index b = of_nat i"
    "b_bytesused b = vb_size vb" "vb_live (vivi_sys s3) ps ps" "vq_streaming (vq (vivi_sys s3))"
    "vq_bufs (vq (vivi_sys s3)) ! i = Some (vb2\<lparr>vb_state := VIDEOBUF_IDLE\<rparr>)"
    using dqbuf_finished [of s2 i ps ps vb2 True False] l2 b2 fin by (auto simp: s2_def)
  show ?thesis
    using p1 t [folded s2_def] p2 d(1-3,6) vb_live_lists(2) [OF d(4,5)] b2(5)
    by (intro exI [of _ s1] exI [of _ s2] exI [of _ s3] exI [of _ b] exI [of _ "vb2\<lparr>vb_state := VIDEOBUF_IDLE\<rparr>"]) simp
qed

definition vivi_demo_queued :: videobuf_buffer where
  "vivi_demo_queued = (vivi_demo_vb 0)\<lparr>vb_state := VIDEOBUF_QUEUED, vb_size := 2, vb_vaddr := Some [1, 2, 3, 4]\<rparr>"

definition vivi_demo_on :: vivi where
  "vivi_demo_on = vivi_demo\<lparr>vivi_sys := (vivi_sys vivi_demo)\<lparr>vq := (vq (vivi_sys vivi_demo))\<lparr>
      vq_bufs := Some vivi_demo_queued # replicate 31 None, vq_streaming := True, vq_stream := Some [0]\<rparr>,
      vq_local := Some [0]\<rparr>\<rparr>"

lemma vivi_demo_on_live: "vb_live (vivi_sys vivi_demo_on) [0] [0]"
proof -
  have "buf_st (vivi_sys vivi_demo_on) i = (if i = 0 then Some VIDEOBUF_QUEUED else None)" for i
    by (auto simp: buf_st_def vivi_demo_on_def vivi_demo_queued_def nth_Cons')
  then show ?thesis
    by (simp add: vb_live_def busy_def stream_phase_def) (simp add: vivi_demo_on_def vivi_demo_defs)
qed

theorem vivi_frame_delivered_witness:
  "\<exists>s1 s2 s3 b vb'. myvivi_poll (\<lambda>_. True) vivi_demo_on = Inr (0, s1) \<and> myvivi_timer_function 5 9 s1 = Inr s2 \<and>
    myvivi_poll (\<lambda>_. True) s2 = Inr (POLLIN OR POLLRDNORM, s2) \<and> myvivi_vidioc_dqbuf True False s2 = Inr (Some 0, b, s3) \<and>
    b_index b = 0 \<and> b_bytesused b = 2 \<and> vq_bufs (vq (vivi_sys s3)) ! 0 = Some vb' \<and> vb_vaddr vb' = Some [255, 255, 3, 4]"
proof -
  have "vb_inv (vivi_sys vivi_demo_on)" using vivi_demo_on_live by (auto simp: vb_inv_def)
  moreover have on: "vq_streaming (vq (vivi_sys vivi_demo_on))" by (simp add: vivi_demo_on_def)
  moreover have "numbered (vivi_sys vivi_demo_on)"
    by (auto simp: numbered_def numbered_list_def vivi_demo_on_def nth_Cons' vivi_demo_queued_def vivi_demo_defs)
  moreover have "vb_filled (vivi_sys vivi_demo_on) = []" "vb_pending (vivi_sys vivi_demo_on) = [0]"
    using vb_live_lists(1,2) [OF vivi_demo_on_live] on by simp_all
  moreover have "vq_type (vq (vivi_sys vivi_demo_on)) = 1" by (simp add: vivi_demo_on_def vivi_demo_defs)
  moreover have "vq_bufs (vq (vivi_sys vivi_demo_on)) ! 0 = Some vivi_demo_queued" by (simp add: vivi_demo_on_def)
  moreover have "replicate 2 (255 :: u8) = [255, 255]" by (simp add: eval_nat_numeral)
  ultimately show ?thesis
    using vivi_frame_delivered [of vivi_demo_on 0 "[]" vivi_demo_queued "[1, 2, 3, 4]" "\<lambda>_. True" 5 9]
    by (simp add: vivi_demo_queued_def) blast
qed

section \<open>Crashes\<close>

text \<open>
  A mapping may be shorter than the frame; the timer does not look.
\<close>

lemma tick_short_memory:
  assumes l: "vb_live (vivi_sys s) (i # ps) (i # ps)" and vb: "vq_bufs (vq (vivi_sys s)) ! i = Some vb" "vb_done vb"
    "vb_vaddr vb = Some m" "length m < unat (vb_size vb)"
  shows "myvivi_timer_function j ts s = Inl OutOfBounds"
proof -
  have loc: "vq_local (vivi_sys s) = Some (i # ps)" using l by (simp add: vb_live_def)
  have i: "i < length (vq_bufs (vq (vivi_sys s)))" using live_buffer [OF l, of i] l by (auto simp: vb_live_def)
  have "vb_size vb \<noteq> 0" using vb(4) by auto
  then show ?thesis
    using loc i vb by (simp add: myvivi_timer_function_def get_vb_def fill_buffer_def mem_write_def Let_def)
qed

lemma mmap_maps:
  assumes f: "find_offset (vq_bufs (vq st)) 0 (push_bit 12 (vm_pgoff vma)) = Some i"
    and fl: "vm_flags vma AND 2 \<noteq> 0" "vm_flags vma AND 8 \<noteq> 0" and b: "vq_bufs (vq st) ! i = Some vb"
  shows "\<exists>vma' ms. videobuf_mmap_mapper True True 0 vma st = (0, vma', (put_vb i (vb\<lparr>vb_map := Some (length (mappings st)),
      vb_baddr := vm_start vma, vb_vaddr := Some (replicate (unat (PAGE_ALIGN (vm_end vma - vm_start vma))) 0)\<rparr>) st)\<lparr>mappings := ms\<rparr>)"
  using assms by (auto simp: videobuf_mmap_mapper_def vmalloc_mmap_mapper_def videobuf_vm_open_def Let_def put_vb_def)

lemma qbuf_first:
  assumes l: "vb_live (vivi_sys s) [] []" "\<not> vq_streaming (vq (vivi_sys s))" "vq_field (vq (vivi_sys s)) = V4L2_FIELD_INTERLACED"
    and b: "b_type b = 1" "vq_type (vq (vivi_sys s)) = 1" "b_memory b = V4L2_MEMORY_MMAP" "b_flags b = 0" "unat (b_index b) = i" "i < 32"
    and vb: "vq_bufs (vq (vivi_sys s)) ! i = Some vb" "vb_memory vb = V4L2_MEMORY_MMAP" "vb_baddr vb \<noteq> 0"
  shows "\<exists>vb' s'. myvivi_vidioc_qbuf b s = Inr (0, s') \<and> vb_live (vivi_sys s') [i] [] \<and> \<not> vq_streaming (vq (vivi_sys s')) \<and>
    vq_bufs (vq (vivi_sys s')) ! i = Some vb' \<and> vb_vaddr vb' = vb_vaddr vb \<and> vb_state vb' = VIDEOBUF_PREPARED \<and>
    vb_size vb' = pf_sizeimage (f_pix (myvivi_format s)) \<and> vq_type (vq (vivi_sys s')) = 1"
proof -
  let ?st = "vivi_sys s"
  have len: "length (vq_bufs (vq ?st)) = 32" "vq_stream (vq ?st) = Some []" "\<not> vq_reading (vq ?st)"
    using l(1) by (auto simp: vb_live_def)
  have "\<not> busy (vb_state vb)"
  proof
    assume "busy (vb_state vb)"
    moreover have "buf_st ?st i = Some (vb_state vb)" using vb(1) b(6) len(1) by (simp add: buf_st_def)
    ultimately show False using l(1) by (auto simp: vb_live_def)
  qed
  then have "\<exists>vb' s'. myvivi_vidioc_qbuf b s = Inr (0, s') \<and> vq_bufs (vq (vivi_sys s')) ! i = Some vb' \<and>
      vb_vaddr vb' = vb_vaddr vb \<and> vb_state vb' = VIDEOBUF_PREPARED \<and>
      vb_size vb' = pf_sizeimage (f_pix (myvivi_format s)) \<and> vq_type (vq (vivi_sys s')) = 1"
    using l(2,3) b vb len
    by (simp add: myvivi_vidioc_qbuf_def videobuf_qbuf_def qbuf_memory_def qbuf_prepare_def videobuf_next_field_def
        myvivi_video_qops_def myvivi_buffer_prepare_def vb_add_tail_def put_vb_def busy_def Let_def)
  then obtain vb' s' where q: "myvivi_vidioc_qbuf b s = Inr (0, s')" and p: "vq_bufs (vq (vivi_sys s')) ! i = Some vb'"
    "vb_vaddr vb' = vb_vaddr vb" "vb_state vb' = VIDEOBUF_PREPARED" "vb_size vb' = pf_sizeimage (f_pix (myvivi_format s))"
    "vq_type (vq (vivi_sys s')) = 1" by blast
  have "videobuf_qbuf (qops s) b ?st = Inr (0, vivi_sys s')"
    using q by (auto simp: myvivi_vidioc_qbuf_def kbind_Inr_iff)
  from vivi_ops.qbuf_live [OF l(1) this] show ?thesis using q p l(2) b(5) by auto
qed

lemma streamon_one:
  assumes l: "vb_live (vivi_sys s) [i] []" "\<not> vq_streaming (vq (vivi_sys s))" and vb: "vq_bufs (vq (vivi_sys s)) ! i = Some vb"
  shows "\<exists>s'. myvivi_vidioc_streamon s = Inr (0, s') \<and> vb_live (vivi_sys s') [i] [i] \<and> vq_streaming (vq (vivi_sys s')) \<and>
    vq_bufs (vq (vivi_sys s')) ! i = Some (vb\<lparr>vb_state := VIDEOBUF_QUEUED\<rparr>) \<and> vq_type (vq (vivi_sys s')) = vq_type (vq (vivi_sys s))"
proof -
  let ?st = "vivi_sys s"
  have x: "length (vq_bufs (vq ?st)) = 32" "vq_stream (vq ?st) = Some [i]" "vq_local ?st = Some []" "\<not> vq_reading (vq ?st)"
    using l(1) by (auto simp: vb_live_def)
  have "buf_st ?st i = Some VIDEOBUF_PREPARED" using l by (auto simp: vb_live_def)
  then have i: "i < 32" "vb_state vb = VIDEOBUF_PREPARED" using vb x(1) by (auto simp: buf_st_def split: if_splits)
  let ?st' = "(put_vb i (vb\<lparr>vb_state := VIDEOBUF_QUEUED\<rparr>) (?st\<lparr>vq := (vq ?st)\<lparr>vq_streaming := True\<rparr>\<rparr>))\<lparr>vq_local := Some [i]\<rparr>"
  have s: "videobuf_streamon (qops s) ?st = Inr (0, ?st')"
    using l(2) x i vb by (simp add: videobuf_streamon_def get_vb_def myvivi_video_qops_def myvivi_buffer_queue_def vb_add_tail_def)
  have "buf_st ?st' = (buf_st ?st)(i := Some VIDEOBUF_QUEUED)" using x(1) i(1) by simp
  then have "vb_live ?st' [i] [i]"
    using l x by (auto simp: vb_live_def busy_def stream_phase_def)
  moreover have "vq_bufs (vq ?st') ! i = Some (vb\<lparr>vb_state := VIDEOBUF_QUEUED\<rparr>)" using i x(1) by (simp add: put_vb_def)
  ultimately show ?thesis using s by (auto simp: myvivi_vidioc_streamon_def)
qed

text \<open>
  C18: The driver never compares the size of a mapping with the size of a frame.  An application
  that maps only one page of a buffer, queues it, starts streaming and waits for it makes the
  timer write the whole frame past the end of that page, whenever a frame is larger than a page.
\<close>

theorem vivi_short_mapping_overflow:
  assumes l: "vb_live (vivi_sys s) [] []" "\<not> vq_streaming (vq (vivi_sys s))" "vq_field (vq (vivi_sys s)) = V4L2_FIELD_INTERLACED"
    and ty: "vq_type (vq (vivi_sys s)) = V4L2_BUF_TYPE_VIDEO_CAPTURE"
    and f: "find_offset (vq_bufs (vq (vivi_sys s))) 0 (push_bit 12 (vm_pgoff vma)) = Some i"
    and vma: "vm_flags vma AND 2 \<noteq> 0" "vm_flags vma AND 8 \<noteq> 0" "vm_end vma = vm_start vma + 4096" "vm_start vma \<noteq> 0"
    and b: "b_type b = 1" "b_memory b = V4L2_MEMORY_MMAP" "b_flags b = 0" "b_index b = of_nat i"
    and sz: "4096 < unat (pf_sizeimage (f_pix (myvivi_format s)))"
  shows "\<exists>vma' s1 s2 s3 s4. myvivi_mmap True True 0 vma s = (0, vma', s1) \<and> myvivi_vidioc_qbuf b s1 = Inr (0, s2) \<and>
    myvivi_vidioc_streamon s2 = Inr (0, s3) \<and> myvivi_poll mem s3 = Inr (0, s4) \<and>
    myvivi_timer_function j ts s4 = Inl OutOfBounds"
proof -
  let ?st = "vivi_sys s"
  obtain vb where i: "i < 32" "vq_bufs (vq ?st) ! i = Some vb" "vb_memory vb = 1" and len: "length (vq_bufs (vq ?st)) = 32"
    using find_offset_Some [OF f] l(1) by (auto simp: vb_live_def)
  have ui: "unat (of_nat i :: u32) = i" using i(1) by (simp add: unat_of_nat)
  have pg: "unat (PAGE_ALIGN (vm_end vma - vm_start vma)) = 4096" by (simp add: vma(3) PAGE_ALIGN_def)
  let ?vb1 = "vb\<lparr>vb_map := Some (length (mappings ?st)), vb_baddr := vm_start vma, vb_vaddr := Some (replicate 4096 0)\<rparr>"
  obtain vma' ms where m: "videobuf_mmap_mapper True True 0 vma ?st = (0, vma', (put_vb i ?vb1 ?st)\<lparr>mappings := ms\<rparr>)"
    using mmap_maps [OF f vma(1,2) i(2)] pg by auto
  define s1 where "s1 = s\<lparr>vivi_sys := (put_vb i ?vb1 ?st)\<lparr>mappings := ms\<rparr>\<rparr>"
  have m1: "myvivi_mmap True True 0 vma s = (0, vma', s1)" using m by (simp add: myvivi_mmap_def s1_def)
  have l1: "vb_live (vivi_sys s1) [] []"
    using same_phase_keeps(1) [OF mmap_mapper_phase [OF m]] l(1) by (simp add: s1_def)
  have b1: "vq_bufs (vq (vivi_sys s1)) ! i = Some ?vb1" using i(1) len by (simp add: s1_def put_vb_def)
  obtain vb2 s2 where q: "myvivi_vidioc_qbuf b s1 = Inr (0, s2)" "vb_live (vivi_sys s2) [i] []" "\<not> vq_streaming (vq (vivi_sys s2))"
    "vq_bufs (vq (vivi_sys s2)) ! i = Some vb2" "vb_vaddr vb2 = Some (replicate 4096 0)" "vb_state vb2 = VIDEOBUF_PREPARED"
    "vb_size vb2 = pf_sizeimage (f_pix (myvivi_format s))" "vq_type (vq (vivi_sys s2)) = 1"
    using qbuf_first [OF l1 _ _ b(1) _ b(2,3), of i ?vb1] l(2,3) ty b(4) ui i(1,3) b1 vma(4) by (auto simp: s1_def)
  obtain s3 where so: "myvivi_vidioc_streamon s2 = Inr (0, s3)" "vb_live (vivi_sys s3) [i] [i]" "vq_streaming (vq (vivi_sys s3))"
    "vq_bufs (vq (vivi_sys s3)) ! i = Some (vb2\<lparr>vb_state := VIDEOBUF_QUEUED\<rparr>)" "vq_type (vq (vivi_sys s3)) = 1"
    using streamon_one [OF q(2-4)] q(8) by auto
  let ?vb3 = "vb2\<lparr>vb_state := VIDEOBUF_QUEUED, vb_done := True\<rparr>"
  define s4 where "s4 = s3\<lparr>vivi_sys := put_vb i ?vb3 (vivi_sys s3)\<rparr>"
  have p: "myvivi_poll mem s3 = Inr (0, s4)"
    using poll_streaming [OF so(2-5), of mem] by (simp add: finished_def s4_def)
  have len3: "length (vq_bufs (vq (vivi_sys s3))) = 32" using so(2) by (simp add: vb_live_def)
  have "same_phase (vivi_sys s3) (vivi_sys s4)"
    using same_phase_put [OF so(4), of ?vb3] len3 i(1) by (simp add: s4_def)
  then have l4: "vb_live (vivi_sys s4) [i] [i]" using so(2) by (simp add: same_phase_keeps(1))
  have b4: "vq_bufs (vq (vivi_sys s4)) ! i = Some ?vb3" using len3 i(1) by (simp add: s4_def put_vb_def)
  have "myvivi_timer_function j ts s4 = Inl OutOfBounds"
    by (rule tick_short_memory [OF l4 b4, of "replicate 4096 0"]) (use q(5,7) sz in \<open>simp_all only: length_replicate, simp_all\<close>)
  then show ?thesis using m1 q(1) so(1) p by blast
qed

definition vivi_demo_frame :: "u32 \<Rightarrow> vivi" where
  "vivi_demo_frame z = vivi_demo\<lparr>myvivi_format := 0\<lparr>f_pix := 0\<lparr>pf_sizeimage := z\<rparr>\<rparr>\<rparr>"

definition vivi_demo_vma :: "u32 \<Rightarrow> vm_area" where
  "vivi_demo_vma pg = \<lparr>vm_start = 0x40000000, vm_end = 0x40001000, vm_pgoff = pg, vm_flags = 0xb, vm_ops = False,
     vm_private_data = None\<rparr>"

theorem vivi_short_mapping_overflow_witness:
  "\<exists>vma' s1 s2 s3 s4. myvivi_mmap True True 0 (vivi_demo_vma 0) (vivi_demo_frame 8000) = (0, vma', s1) \<and>
    myvivi_vidioc_qbuf (vivi_demo_req 0) s1 = Inr (0, s2) \<and> myvivi_vidioc_streamon s2 = Inr (0, s3) \<and>
    myvivi_poll (\<lambda>_. True) s3 = Inr (0, s4) \<and> myvivi_timer_function 5 9 s4 = Inl OutOfBounds"
proof -
  have "vivi_sys (vivi_demo_frame 8000) = vivi_sys vivi_demo" by (simp add: vivi_demo_frame_def)
  then show ?thesis
    using vivi_demo_live
    by (intro vivi_short_mapping_overflow [where i = 0])
      (auto simp: vivi_demo_frame_def vivi_demo_vma_def vivi_demo_defs)
qed

lemma find_offset_first:
  "i < length bs \<Longrightarrow> bs ! i = Some vb \<Longrightarrow> vb_memory vb = V4L2_MEMORY_MMAP \<Longrightarrow> vb_boff vb = off \<Longrightarrow>
   \<forall>j<i. \<forall>v. bs ! j = Some v \<longrightarrow> vb_boff v \<noteq> off \<Longrightarrow> find_offset bs k off = Some (k + i)"
proof (induction bs arbitrary: i k)
  case (Cons b bs)
  show ?case
  proof (cases i)
    case (Suc j)
    have "find_offset bs (k + 1) off = Some (k + 1 + j)"
      by (rule Cons.IH [of j "k + 1"]) (use Cons.prems Suc in fastforce)+
    moreover have "\<forall>v. b = Some v \<longrightarrow> vb_boff v \<noteq> off" using Cons.prems(5) Suc by force
    ultimately show ?thesis using Suc by (cases b) auto
  qed (use Cons.prems in auto)
qed simp

lemma offsets_distinct:
  assumes "0 < unat z" "unat z \<le> 2 ^ 26" "j < i" "i < (32 :: nat)"
  shows "PAGE_ALIGN z * of_nat j \<noteq> PAGE_ALIGN z * of_nat i"
proof -
  have P: "0 < unat (PAGE_ALIGN z)" "unat (PAGE_ALIGN z) \<le> 2 ^ 26"
    using assms(1,2) unat_PAGE_ALIGN [of z] PAGE_ALIGN_ge [of z] by auto
  have u: "unat (PAGE_ALIGN z * of_nat k) = unat (PAGE_ALIGN z) * k" if "k < 32" for k :: nat
  proof -
    have "unat (PAGE_ALIGN z) * k \<le> 2 ^ 26 * 31" using P(2) that by (intro mult_mono) auto
    then show ?thesis using that by (simp add: unat_word_ariths unat_of_nat)
  qed
  have "unat (PAGE_ALIGN z * of_nat j) \<noteq> unat (PAGE_ALIGN z * of_nat i)"
    using P(1) assms(3,4) u [of i] u [of j] by simp
  then show ?thesis by auto
qed

lemma offset_page: "push_bit 12 (drop_bit 12 (PAGE_ALIGN z * c)) = PAGE_ALIGN z * c"
proof -
  have "4096 dvd unat (PAGE_ALIGN z) * unat c" using PAGE_ALIGN_dvd [of z] by (rule dvd_mult2)
  then have "4096 dvd unat (PAGE_ALIGN z * c)"
    by (simp add: unat_word_ariths dvd_mod_iff)
  then have "take_bit 12 (unat (PAGE_ALIGN z * c)) = 0"
    unfolding take_bit_eq_mod by (simp add: mod_eq_0_iff_dvd del: unat_0_iff)
  then have "take_bit 12 (PAGE_ALIGN z * c) = 0" by (simp add: unat_eq_zero flip: unsigned_take_bit_eq)
  then show ?thesis using bits_ident [of 12 "PAGE_ALIGN z * c"] by simp
qed

lemma vivi_reqbufs_fresh:
  assumes inv: "vb_inv (vivi_sys s)" and r: "myvivi_vidioc_reqbufs mem p s = Inr (0, p', s')"
  shows "\<exists>n. rb_count p' = of_nat n \<and> 0 < n \<and> n \<le> 32 \<and> length (vq_bufs (vq (vivi_sys s'))) = 32 \<and>
    (\<forall>k<32. vq_bufs (vq (vivi_sys s')) ! k =
      (if k < n then Some (setup_buffer k (pf_sizeimage (f_pix (myvivi_format s))) (rb_memory p) vb_zero) else None))"
proof -
  let ?st = "vivi_sys s"
  let ?c = "if rb_count p > 32 then 32 else rb_count p"
  have c0: "rb_count p \<noteq> 0" and emp: "list_empty (vq_stream (vq ?st))" and off: "\<not> vq_streaming (vq ?st)"
    and m: "\<exists>rv. videobuf_mmap_setup mem ?c (pf_sizeimage (f_pix (myvivi_format s))) (rb_memory p) ?st = Inr (rv, vivi_sys s') \<and>
      0 \<le> rv \<and> rb_count p' = of_int rv"
    using r by (auto simp: myvivi_vidioc_reqbufs_def videobuf_reqbufs_def myvivi_video_qops_def myvivi_buffer_setup_def
        kbind_Inr_iff word_less_1 Let_def split: if_splits)
  have c: "unat ?c \<le> 32" by (auto simp: not_less word_le_nat_alt)
  from inv have st: "(\<exists>xs ls. vb_live ?st xs ls) \<or> vb_stale ?st \<or> vq_reading (vq ?st)"
    by (cases rule: vb_inv_cases) (auto simp: vb_reading_def)
  show ?thesis
  proof (cases "vq_reading (vq ?st)")
    case True
    then show ?thesis using m by (auto simp: videobuf_mmap_setup_def videobuf_free_def Let_def)
  next
    case False
    then obtain xs ls where l: "vb_live ?st xs ls \<or> vb_stale ?st" using st by blast
    let ?m = "videobuf_mmap_setup mem ?c (pf_sizeimage (f_pix (myvivi_format s))) (rb_memory p) ?st"
    show ?thesis
    proof (rule mmap_setup_cases [OF l c, of mem "pf_sizeimage (f_pix (myvivi_format s))" "rb_memory p"])
      fix n st' assume n: "?m = Inr (int n, st')" "0 < n" "n \<le> unat ?c" "length (vq_bufs (vq st')) = 32"
        "\<forall>k<32. vq_bufs (vq st') ! k =
          (if k < n then Some (setup_buffer k (pf_sizeimage (f_pix (myvivi_format s))) (rb_memory p) vb_zero) else None)"
      moreover from n(1) m have "st' = vivi_sys s'" "rb_count p' = of_nat n" by auto
      moreover have "n \<le> 32" using n(3) c by (rule le_trans)
      ultimately show ?thesis by (intro exI [of _ n]) simp
    qed (use m in auto)
  qed
qed

text \<open>
  C16: After a successful REQBUFS for mapped buffers, QUERYBUF of every granted index reports an
  offset at which mmap maps exactly that buffer: the buffer gets the caller's address and zeroed
  memory for the whole mapping, and no other buffer changes.
\<close>

theorem vivi_mmap_roundtrip:
  assumes inv: "vb_inv (vivi_sys s)" and r: "myvivi_vidioc_reqbufs mem p s = Inr (0, p', s1)" "rb_memory p = V4L2_MEMORY_MMAP"
    and z: "pf_sizeimage (f_pix (myvivi_format s)) \<noteq> 0" "unat (pf_sizeimage (f_pix (myvivi_format s))) \<le> 2 ^ 26"
    and b: "i < unat (rb_count p')" "b_type b = vq_type (vq (vivi_sys s1))" "b_index b = of_nat i"
    and vma: "vm_pgoff vma = drop_bit 12 (b_m (snd (myvivi_vidioc_querybuf b s1)))" "vm_flags vma AND 2 \<noteq> 0" "vm_flags vma AND 8 \<noteq> 0"
  shows "\<exists>b' vma' s2 vb. myvivi_vidioc_querybuf b s1 = (0, b') \<and> b_length b' = pf_sizeimage (f_pix (myvivi_format s)) \<and>
    myvivi_mmap True True 0 vma s1 = (0, vma', s2) \<and>
    vq_bufs (vq (vivi_sys s2)) = (vq_bufs (vq (vivi_sys s1)))[i := Some vb] \<and> vb_baddr vb = vm_start vma \<and>
    vb_vaddr vb = Some (replicate (unat (PAGE_ALIGN (vm_end vma - vm_start vma))) 0)"
proof -
  let ?z = "pf_sizeimage (f_pix (myvivi_format s))"
  let ?B = "vq_bufs (vq (vivi_sys s1))"
  obtain n where n: "rb_count p' = of_nat n" "n \<le> 32" "length ?B = 32"
    "\<forall>k<32. ?B ! k = (if k < n then Some (setup_buffer k ?z 1 vb_zero) else None)"
    using vivi_reqbufs_fresh [OF inv r(1)] r(2) by auto
  have i: "i < n" "i < 32" using b(1) n(1,2) by (auto simp: unat_of_nat)
  then have Bi: "?B ! i = Some (setup_buffer i ?z 1 vb_zero)" using n(4) by simp
  have ui: "unat (b_index b) = i" using b(3) i(2) by (simp add: unat_of_nat)
  have q: "myvivi_vidioc_querybuf b s1 = (0, videobuf_status b (setup_buffer i ?z 1 vb_zero) (vq_type (vq (vivi_sys s1))))"
    using b(2) i(2) ui Bi by (simp add: myvivi_vidioc_querybuf_def videobuf_querybuf_def)
  have off: "b_m (snd (myvivi_vidioc_querybuf b s1)) = PAGE_ALIGN ?z * of_nat i"
    by (simp add: q videobuf_status_def setup_buffer_def Let_def)
  have "find_offset ?B 0 (push_bit 12 (vm_pgoff vma)) = Some (0 + i)"
    unfolding vma(1) off offset_page
    by (rule find_offset_first [OF _ Bi])
      (use n(3,4) i offsets_distinct [of ?z _ i] z in \<open>auto simp: setup_buffer_def Let_def unat_gt_0 split: if_splits\<close>)
  from mmap_maps [OF this [simplified] vma(2,3) Bi] q show ?thesis
    by (fastforce simp: myvivi_mmap_def videobuf_status_def setup_buffer_def Let_def put_vb_def)
qed

definition vivi_demo_empty :: vivi where
  "vivi_demo_empty = vivi_demo\<lparr>vivi_sys := \<lparr>vq = videobuf_queue_core_init 1 4, vq_local = Some [], mappings = []\<rparr>,
     myvivi_format := 0\<lparr>f_pix := 0\<lparr>pf_sizeimage := 8000\<rparr>\<rparr>\<rparr>"

definition vivi_demo_two :: v4l2_requestbuffers where
  "vivi_demo_two = \<lparr>rb_count = 2, rb_type = 1, rb_memory = 1\<rparr>"

lemma vivi_demo_empty_live: "vb_live (vivi_sys vivi_demo_empty) [] []"
  by (rule fresh_live [where n = 0]) (simp_all add: vivi_demo_empty_def videobuf_queue_core_init_def INIT_LIST_HEAD_def)

theorem vivi_mmap_roundtrip_witness:
  "\<exists>p' s1 b' vma' s2 vb. myvivi_vidioc_reqbufs (\<lambda>_. True) vivi_demo_two vivi_demo_empty = Inr (0, p', s1) \<and>
    myvivi_vidioc_querybuf (vivi_demo_req 1) s1 = (0, b') \<and> b_m b' = 8192 \<and>
    myvivi_mmap True True 0 (vivi_demo_vma 2) s1 = (0, vma', s2) \<and>
    vq_bufs (vq (vivi_sys s2)) = (vq_bufs (vq (vivi_sys s1)))[1 := Some vb] \<and> vb_vaddr vb = Some (replicate 4096 0)"
proof -
  have two: "setup_buffers mem 2 = setup_buffers mem (Suc (Suc 0))" for mem by (simp only: numeral_2_eq_2)
  obtain p' s1 where r: "myvivi_vidioc_reqbufs (\<lambda>_. True) vivi_demo_two vivi_demo_empty = Inr (0, p', s1)"
    and c: "unat (rb_count p') = 2" and t: "vq_type (vq (vivi_sys s1)) = 1"
    and m: "b_m (snd (myvivi_vidioc_querybuf (vivi_demo_req 1) s1)) = 8192"
    by (simp add: myvivi_vidioc_reqbufs_def videobuf_reqbufs_def videobuf_mmap_setup_def videobuf_free_def
        videobuf_alloc_vb_def myvivi_video_qops_def myvivi_buffer_setup_def vivi_demo_two_def vivi_demo_empty_def
        vivi_demo_defs myvivi_vidioc_querybuf_def videobuf_querybuf_def videobuf_status_def state_flags_def
        PAGE_ALIGN_def is_mapped_def list_ex_iff two Let_def)
  have pg: "PAGE_ALIGN 4096 = 4096" by (simp add: PAGE_ALIGN_def)
  have "vb_inv (vivi_sys vivi_demo_empty)" using vivi_demo_empty_live by (auto simp: vb_inv_def)
  from vivi_mmap_roundtrip [OF this r, of 1 "vivi_demo_req 1" "vivi_demo_vma 2"] m t c pg r show ?thesis
    by (simp add: vivi_demo_two_def vivi_demo_req_def vivi_demo_vma_def vivi_demo_empty_def) force
qed

section \<open>Polling too early\<close>

text \<open>
  The read mode prepares and queues buffers that have no memory.
\<close>

lemma read_prepare_vivi:
  assumes "length (vq_bufs (vq st)) = 32" "vq_stream (vq st) = Some xs" "dangling \<notin> set xs" "set js \<subseteq> {..<32}" "distinct js"
    and "vq_field (vq st) = V4L2_FIELD_INTERLACED" "\<forall>i\<in>set js. \<exists>vb. vq_bufs (vq st) ! i = Some vb \<and> vb_vaddr vb = None"
  shows "\<exists>bs. read_prepare (myvivi_video_qops fmt) js st = Inr (0, st\<lparr>vq := (vq st)\<lparr>vq_bufs := bs, vq_stream := Some (xs @ js)\<rparr>\<rparr>) \<and>
    length bs = 32 \<and> (\<forall>i. i \<notin> set js \<longrightarrow> bs ! i = vq_bufs (vq st) ! i) \<and>
    (\<forall>i\<in>set js. \<exists>vb. bs ! i = Some vb \<and> vb_vaddr vb = None \<and> vb_size vb = pf_sizeimage (f_pix fmt))"
  using assms
proof (induction js arbitrary: st xs)
  case Nil
  then show ?case by (intro exI [of _ "vq_bufs (vq st)"]) simp
next
  case (Cons j js)
  obtain vb where vb: "vq_bufs (vq st) ! j = Some vb" "vb_vaddr vb = None" using Cons.prems(7) by auto
  define vb1 where "vb1 = snd (myvivi_buffer_prepare fmt vb V4L2_FIELD_INTERLACED)"
  define st1 where "st1 = st\<lparr>vq := (vq st)\<lparr>vq_bufs := (vq_bufs (vq st))[j := Some vb1], vq_stream := Some (xs @ [j])\<rparr>\<rparr>"
  have v1: "vb_vaddr vb1 = None" "vb_size vb1 = pf_sizeimage (f_pix fmt)"
    using vb(2) by (simp_all add: vb1_def myvivi_buffer_prepare_def)
  have last: "xs \<noteq> [] \<longrightarrow> last xs \<noteq> dangling" using Cons.prems(3) last_in_set [of xs] by metis
  then have "read_prepare (myvivi_video_qops fmt) (j # js) st = read_prepare (myvivi_video_qops fmt) js st1"
    using Cons.prems(1,2,4,6) vb
    by (auto simp: videobuf_next_field_def get_vb_def vb_add_tail_def put_vb_def st1_def vb1_def
        myvivi_video_qops_def myvivi_buffer_prepare_def Let_def)
  moreover have "\<forall>i\<in>set js. \<exists>vb. vq_bufs (vq st1) ! i = Some vb \<and> vb_vaddr vb = None"
    using Cons.prems(5,7) by (auto simp: st1_def) (metis nth_list_update_neq)
  moreover from this obtain bs where "read_prepare (myvivi_video_qops fmt) js st1 =
      Inr (0, st1\<lparr>vq := (vq st1)\<lparr>vq_bufs := bs, vq_stream := Some ((xs @ [j]) @ js)\<rparr>\<rparr>)" "length bs = 32"
    "\<forall>i. i \<notin> set js \<longrightarrow> bs ! i = vq_bufs (vq st1) ! i"
    "\<forall>i\<in>set js. \<exists>vb. bs ! i = Some vb \<and> vb_vaddr vb = None \<and> vb_size vb = pf_sizeimage (f_pix fmt)"
    using Cons.IH [of st1 "xs @ [j]"] Cons.prems by (auto simp: st1_def)
  ultimately show ?case using Cons.prems(1,4,5) v1
    by (intro exI [of _ bs]) (auto simp: st1_def)
qed

lemma read_queue_vivi:
  assumes "length (vq_bufs (vq st)) = 32" "vq_local st = Some ls" "dangling \<notin> set ls" "set js \<subseteq> {..<32}" "distinct js"
    and "\<forall>i\<in>set js. \<exists>vb. vq_bufs (vq st) ! i = Some vb \<and> vb_vaddr vb = None \<and> vb_size vb = z"
  shows "\<exists>bs. read_queue (myvivi_video_qops fmt) js st = Inr (st\<lparr>vq := (vq st)\<lparr>vq_bufs := bs\<rparr>, vq_local := Some (ls @ js)\<rparr>) \<and>
    length bs = 32 \<and> (\<forall>i. i \<notin> set js \<longrightarrow> bs ! i = vq_bufs (vq st) ! i) \<and>
    (\<forall>i\<in>set js. \<exists>vb. bs ! i = Some vb \<and> vb_vaddr vb = None \<and> vb_size vb = z \<and> vb_state vb = VIDEOBUF_QUEUED)"
  using assms
proof (induction js arbitrary: st ls)
  case Nil
  then show ?case by (intro exI [of _ "vq_bufs (vq st)"]) simp
next
  case (Cons j js)
  obtain vb where vb: "vq_bufs (vq st) ! j = Some vb" "vb_vaddr vb = None" "vb_size vb = z" using Cons.prems(6) by auto
  define vb1 where "vb1 = vb\<lparr>vb_state := VIDEOBUF_QUEUED\<rparr>"
  define st1 where "st1 = st\<lparr>vq := (vq st)\<lparr>vq_bufs := (vq_bufs (vq st))[j := Some vb1]\<rparr>, vq_local := Some (ls @ [j])\<rparr>"
  have last: "ls \<noteq> [] \<longrightarrow> last ls \<noteq> dangling" using Cons.prems(3) last_in_set [of ls] by metis
  then have "read_queue (myvivi_video_qops fmt) (j # js) st = read_queue (myvivi_video_qops fmt) js st1"
    using Cons.prems(1,2,4) vb
    by (auto simp: get_vb_def vb_add_tail_def put_vb_def st1_def vb1_def myvivi_video_qops_def myvivi_buffer_queue_def)
  moreover have "\<forall>i\<in>set js. \<exists>vb. vq_bufs (vq st1) ! i = Some vb \<and> vb_vaddr vb = None \<and> vb_size vb = z"
    using Cons.prems(5,6) by (auto simp: st1_def) (metis nth_list_update_neq)
  moreover from this obtain bs where "read_queue (myvivi_video_qops fmt) js st1 =
      Inr (st1\<lparr>vq := (vq st1)\<lparr>vq_bufs := bs\<rparr>, vq_local := Some ((ls @ [j]) @ js)\<rparr>)" "length bs = 32"
    "\<forall>i. i \<notin> set js \<longrightarrow> bs ! i = vq_bufs (vq st1) ! i"
    "\<forall>i\<in>set js. \<exists>vb. bs ! i = Some vb \<and> vb_vaddr vb = None \<and> vb_size vb = z \<and> vb_state vb = VIDEOBUF_QUEUED"
    using Cons.IH [of st1 "ls @ [j]"] Cons.prems by (auto simp: st1_def)
  ultimately show ?case using Cons.prems(1,4,5) vb
    by (intro exI [of _ bs]) (auto simp: st1_def vb1_def)
qed

lemma read_start_vivi:
  assumes l: "vb_live st [] []" "\<not> vq_streaming (vq st)" "vq_field (vq st) = V4L2_FIELD_INTERLACED" "\<not> list_ex is_mapped (vq_bufs (vq st))"
  shows "\<exists>bs vb n. videobuf_read_start (myvivi_video_qops fmt) (\<lambda>_. True) st =
      Inr (0, st\<lparr>vq := (vq st)\<lparr>vq_bufs := bs, vq_stream := Some (0 # [1..<n]), vq_reading := True\<rparr>, vq_local := Some (0 # [1..<n])\<rparr>) \<and>
    length bs = 32 \<and> bs ! 0 = Some vb \<and> vb_vaddr vb = None \<and> vb_size vb = pf_sizeimage (f_pix fmt) \<and> vb_state vb = VIDEOBUF_QUEUED"
proof -
  let ?z = "pf_sizeimage (f_pix fmt)"
  let ?ops = "myvivi_video_qops fmt"
  have st: "length (vq_bufs (vq st)) = 32" "vq_stream (vq st) = Some []" "vq_local st = Some []" "\<not> vq_reading (vq st)"
    using l(1) by (auto simp: vb_live_def)
  have f: "videobuf_free st = (0, st\<lparr>vq := (vq st)\<lparr>vq_bufs := replicate 32 None\<rparr>\<rparr>)"
    using l(2,4) st by (simp add: videobuf_free_def Let_def map_replicate_const)
  have "0 + 32 \<le> length (replicate 32 None :: videobuf_buffer option list)" by simp
  from setup_buffers_ok [OF this, of "\<lambda>_. True" "PAGE_ALIGN ?z" 2] obtain n bs where
    b: "setup_buffers (\<lambda>_. True) 32 0 (PAGE_ALIGN ?z) 2 (replicate 32 None) = Inr (n, bs)" "length bs = 32" "0 < n" "n \<le> 32"
      "\<forall>k<32. bs ! k = (if k < n then Some (setup_buffer k (PAGE_ALIGN ?z) 2 vb_zero)
         else if k = n \<and> n < 32 then None else replicate 32 None ! k)"
    by auto
  have sub: "set [0..<n] \<subseteq> {..<32}" using b(4) by auto
  let ?s1 = "st\<lparr>vq := (vq st)\<lparr>vq_bufs := bs\<rparr>\<rparr>"
  have m: "videobuf_mmap_setup (\<lambda>_. True) 32 (PAGE_ALIGN ?z) 2 st = Inr (int n, ?s1)"
    using f b(1,3) by (simp add: videobuf_mmap_setup_def)
  have "\<forall>i\<in>set [0..<n]. \<exists>vb. vq_bufs (vq ?s1) ! i = Some vb \<and> vb_vaddr vb = None"
    using b(4,5) by (auto simp: setup_buffer_def vb_zero_def Let_def)
  then obtain bs2 where p: "read_prepare ?ops [0..<n] ?s1 = Inr (0, ?s1\<lparr>vq := (vq ?s1)\<lparr>vq_bufs := bs2, vq_stream := Some [0..<n]\<rparr>\<rparr>)"
    "length bs2 = 32" "\<forall>i\<in>set [0..<n]. \<exists>vb. bs2 ! i = Some vb \<and> vb_vaddr vb = None \<and> vb_size vb = ?z"
    using read_prepare_vivi [of ?s1 "[]" "[0..<n]" fmt] st b(2) sub l(3) by auto
  let ?s2 = "st\<lparr>vq := (vq st)\<lparr>vq_bufs := bs2, vq_stream := Some [0..<n]\<rparr>\<rparr>"
  obtain bs3 where q: "read_queue ?ops [0..<n] ?s2 = Inr (?s2\<lparr>vq := (vq ?s2)\<lparr>vq_bufs := bs3\<rparr>, vq_local := Some [0..<n]\<rparr>)"
    "length bs3 = 32" "\<forall>i\<in>set [0..<n]. \<exists>vb. bs3 ! i = Some vb \<and> vb_vaddr vb = None \<and> vb_size vb = ?z \<and> vb_state vb = VIDEOBUF_QUEUED"
    using read_queue_vivi [of ?s2 "[]" "[0..<n]" ?z fmt] p(2,3) st sub by auto
  have n: "[0..<n] = 0 # [1..<n]" using b(3) by (simp add: upt_conv_Cons)
  have "videobuf_read_start ?ops (\<lambda>_. True) st =
      Inr (0, st\<lparr>vq := (vq st)\<lparr>vq_bufs := bs3, vq_stream := Some [0..<n], vq_reading := True\<rparr>, vq_local := Some [0..<n]\<rparr>)"
    using m p(1) q(1) by (simp add: videobuf_read_start_def myvivi_video_qops_def myvivi_buffer_setup_def)
  then show ?thesis using q(2,3) b(3) unfolding n by fastforce
qed

text \<open>
  Polling before STREAMON (and before any buffer is queued or mapped) puts the queue into
  read mode with buffers that have no memory.  The next timer tick writes the frame through a
  null pointer; until then STREAMON is refused with \<open>-EBUSY\<close>.
\<close>

lemma vivi_poll_before_streamon:
  assumes l: "vb_live (vivi_sys s) [] []" "\<not> vq_streaming (vq (vivi_sys s))" "vq_field (vq (vivi_sys s)) = V4L2_FIELD_INTERLACED"
    "\<not> list_ex is_mapped (vq_bufs (vq (vivi_sys s)))" and z: "pf_sizeimage (f_pix (myvivi_format s)) \<noteq> 0"
  shows "\<exists>s'. myvivi_poll (\<lambda>_. True) s = Inr (0, s') \<and> myvivi_vidioc_streamon s' = Inr (- EBUSY, s') \<and>
    myvivi_timer_function j ts s' = Inl NullDeref"
proof -
  let ?st = "vivi_sys s"
  obtain bs vb n where r: "videobuf_read_start (qops s) (\<lambda>_. True) ?st =
      Inr (0, ?st\<lparr>vq := (vq ?st)\<lparr>vq_bufs := bs, vq_stream := Some (0 # [1..<n]), vq_reading := True\<rparr>, vq_local := Some (0 # [1..<n])\<rparr>)"
    and vb: "length bs = 32" "bs ! 0 = Some vb" "vb_vaddr vb = None" "vb_size vb = pf_sizeimage (f_pix (myvivi_format s))"
      "vb_state vb = VIDEOBUF_QUEUED"
    using read_start_vivi [OF l] by blast
  have "vq_read_buf (vq ?st) = None" "\<not> vq_reading (vq ?st)" "bs \<noteq> []" using l(1) vb(1) by (auto simp: vb_live_def)
  then show ?thesis
    using r vb l(2) z
    by (simp add: myvivi_poll_def videobuf_poll_stream_def poll_buffer_def get_vb_def put_vb_def myvivi_vidioc_streamon_def
        videobuf_streamon_def myvivi_timer_function_def fill_buffer_def Let_def)
qed

end
