(* ===== verification/Cmos_Camif.thy ===== *)
theory Cmos_Camif
  imports V4l2_Types
begin

text \<open>
  The driver of the OV7740 camera module on the S3C2440 camera interface
  (CMOS/5_th/cmos_ov7740_drv.c).  A register is a cell that holds the last value written; every
  effect on the hardware is also appended to a trace, so that the order of writes and delays can
  be stated.  The two statements of \<open>reqbufs\<close> that lack their semicolon (lines 389 and 397) are
  read as if it were there.
\<close>

section \<open>State\<close>

record cmos_ov7740_scaler =
  PreHorRatio :: u32
  PreVerRatio :: u32
  H_Shift :: u32
  V_Shift :: u32
  PreDstWidth :: u32
  PreDstHeight :: u32
  MainHorRatio :: u32
  MainVerRatio :: u32
  SHfactor :: u32
  ScaleUpDown :: u32

record cmos_ov7740_fmt =
  fmt_name :: string
  fmt_fourcc :: u32
  fmt_depth :: int

definition cmos_formats :: "cmos_ov7740_fmt list" where
  "cmos_formats =
     [\<lparr>fmt_name = ''RGB565'', fmt_fourcc = V4L2_PIX_FMT_RGB565, fmt_depth = 16\<rparr>,
      \<lparr>fmt_name = ''PACKED_RGB_888'', fmt_fourcc = V4L2_PIX_FMT_RGB24, fmt_depth = 24\<rparr>]"

definition ov7740_setting_30fps_VGA_640_480 :: "(u8 \<times> u8) list" where
  "ov7740_setting_30fps_VGA_640_480 =
    [(0x12, 0x80), (0x47, 0x02), (0x17, 0x27), (0x04, 0x40), (0x1b, 0x81), (0x29, 0x17), (0x5f, 0x03),
     (0x3a, 0x09), (0x33, 0x44), (0x68, 0x1a), (0x14, 0x38), (0x5f, 0x04), (0x64, 0x00), (0x67, 0x90),
     (0x27, 0x80), (0x45, 0x41), (0x4b, 0x40), (0x36, 0x2f), (0x11, 0x01), (0x36, 0x3f), (0x0c, 0x12),
     (0x12, 0x00), (0x17, 0x25), (0x18, 0xa0), (0x1a, 0xf0), (0x31, 0xa0), (0x32, 0xf0), (0x85, 0x08),
     (0x86, 0x02), (0x87, 0x01), (0xd5, 0x10), (0x0d, 0x34), (0x19, 0x03), (0x2b, 0xf8), (0x2c, 0x01),
     (0x53, 0x00), (0x89, 0x30), (0x8d, 0x30), (0x8f, 0x85), (0x93, 0x30), (0x95, 0x85), (0x99, 0x30),
     (0x9b, 0x85), (0xac, 0x6e), (0xbe, 0xff), (0xbf, 0x00), (0x38, 0x14), (0xe9, 0x00), (0x3d, 0x08),
     (0x3e, 0x80), (0x3f, 0x40), (0x40, 0x7f), (0x41, 0x6a), (0x42, 0x29), (0x49, 0x64), (0x4a, 0xa1),
     (0x4e, 0x13), (0x4d, 0x50), (0x44, 0x58), (0x4c, 0x1a), (0x4e, 0x14), (0x38, 0x11), (0x84, 0x70)]"

record camif_buffer =
  cb_order :: u32
  virt_base :: u32
  phy_base :: u32

datatype camreg =
    GPJCON | GPJDAT | GPJUP | CISRCFMT | CIWDOFST | CIGCTRL
  | CIPRCLRSA1 | CIPRCLRSA2 | CIPRCLRSA3 | CIPRCLRSA4
  | CIPRTRGFMT | CIPRCTRL | CIPRSCPRERATIO | CIPRSCPREDST | CIPRSCCTRL | CIPRTAREA
  | CIIMGCPT | SRCPND | INTPND | SUBSRCPND

datatype hw_event =
    Wr camreg u32 | MDelay nat | ClkEnable string | ClkRate string u32
  | I2cRead u8 | I2cWrite u8 u8 | RequestIrq string | RegisterDevice

text \<open>
  \<open>pages\<close> holds the blocks of pages the driver owns, as address and order.
\<close>

record cmos =
  regs :: "camreg \<Rightarrow> u32"
  trace :: "hw_event list"
  sc :: cmos_ov7740_scaler
  img_buff :: "camif_buffer list"
  SRC_Width :: u32
  SRC_Height :: u32
  TargetHsize_Pr :: u32
  TargetVsize_Pr :: u32
  buf_size :: u32
  bytesperline :: u32
  ev_cam :: bool
  pages :: "(u32 \<times> u32) list"

definition cmos_start :: "(camreg \<Rightarrow> u32) \<Rightarrow> cmos" where
  "cmos_start r = \<lparr>regs = r, trace = [], sc = \<lparr>PreHorRatio = 0, PreVerRatio = 0, H_Shift = 0, V_Shift = 0,
     PreDstWidth = 0, PreDstHeight = 0, MainHorRatio = 0, MainVerRatio = 0, SHfactor = 0, ScaleUpDown = 0\<rparr>,
     img_buff = replicate 4 \<lparr>cb_order = 0, virt_base = 0, phy_base = 0\<rparr>, SRC_Width = 0, SRC_Height = 0,
     TargetHsize_Pr = 0, TargetVsize_Pr = 0, buf_size = 0, bytesperline = 0, ev_cam = False, pages = []\<rparr>"

definition wr :: "camreg \<Rightarrow> u32 \<Rightarrow> cmos \<Rightarrow> cmos" where
  "wr r v s = s\<lparr>regs := (regs s)(r := v), trace := trace s @ [Wr r v]\<rparr>"

definition hw :: "hw_event \<Rightarrow> cmos \<Rightarrow> cmos" where
  "hw e s = s\<lparr>trace := trace s @ [e]\<rparr>"

abbreviation (input) wr_or :: "camreg \<Rightarrow> u32 \<Rightarrow> cmos \<Rightarrow> cmos" where
  "wr_or r v s \<equiv> wr r (regs s r OR v) s"

abbreviation (input) wr_clear :: "camreg \<Rightarrow> u32 \<Rightarrow> cmos \<Rightarrow> cmos" where
  "wr_clear r v s \<equiv> wr r (regs s r AND NOT v) s"

section \<open>Interrupt\<close>

definition cmos_ov7740_camif_irq_p :: "cmos \<Rightarrow> cmos" where
  "cmos_ov7740_camif_irq_p s =
     (wr SUBSRCPND (push_bit 12 1) (wr INTPND (push_bit 6 1) (wr SRCPND (push_bit 6 1) s)))\<lparr>ev_cam := True\<rparr>"

section \<open>Formats\<close>

definition cmos_ov7740_vidioc_querycap :: v4l2_capability where
  "cmos_ov7740_vidioc_querycap = \<lparr>cap_driver = ''cmos_ov7740'', cap_card = ''cmos_ov7740'', cap_bus_info = [],
     cap_version = 2, cap_capabilities = V4L2_CAP_VIDEO_CAPTURE OR V4L2_CAP_READWRITE, cap_device_caps = 0\<rparr>"

definition cmos_ov7740_vidioc_enum_fmt_vid_cap :: "v4l2_fmtdesc \<Rightarrow> int \<times> v4l2_fmtdesc" where
  "cmos_ov7740_vidioc_enum_fmt_vid_cap f =
     (if unat (fd_index f) \<ge> length cmos_formats then (- EINVAL, f)
      else let fmt = cmos_formats ! unat (fd_index f)
           in (0, f\<lparr>fd_description := take 31 (fmt_name fmt), fd_pixelformat := fmt_fourcc fmt\<rparr>))"

definition cmos_ov7740_vidioc_g_fmt_vid_cap :: "v4l2_format \<Rightarrow> int \<times> v4l2_format" where
  "cmos_ov7740_vidioc_g_fmt_vid_cap f = (0, f)"

definition cmos_ov7740_vidioc_try_fmt_vid_cap :: "v4l2_format \<Rightarrow> int" where
  "cmos_ov7740_vidioc_try_fmt_vid_cap f =
     (if f_type f \<noteq> V4L2_BUF_TYPE_VIDEO_CAPTURE then - EINVAL
      else if pf_pixelformat (f_pix f) \<noteq> V4L2_PIX_FMT_RGB565 \<and> pf_pixelformat (f_pix f) \<noteq> V4L2_PIX_FMT_RGB24
      then - EINVAL else 0)"

definition set_sizes :: "u32 \<Rightarrow> v4l2_format \<Rightarrow> cmos \<Rightarrow> v4l2_format \<times> cmos" where
  "set_sizes bits f s =
     (let bpl = drop_bit 3 (pf_width (f_pix f) * bits);
          image = pf_height (f_pix f) * bpl
      in (f\<lparr>f_pix := (f_pix f)\<lparr>pf_bytesperline := bpl, pf_sizeimage := image\<rparr>\<rparr>,
          s\<lparr>buf_size := image, bytesperline := bpl\<rparr>))"

definition cmos_ov7740_vidioc_s_fmt_vid_cap :: "v4l2_format \<Rightarrow> cmos \<Rightarrow> int \<times> v4l2_format \<times> cmos" where
  "cmos_ov7740_vidioc_s_fmt_vid_cap f s =
     (let ret = cmos_ov7740_vidioc_try_fmt_vid_cap f in
      if ret < 0 then (ret, f, s)
      else
        let s1 = s\<lparr>TargetHsize_Pr := pf_width (f_pix f), TargetVsize_Pr := pf_height (f_pix f)\<rparr>;
            (f2, s2) = (if pf_pixelformat (f_pix f) = V4L2_PIX_FMT_RGB565
                        then set_sizes 16 f (wr_clear CIPRSCCTRL (push_bit 30 1) s1)
                        else if pf_pixelformat (f_pix f) = V4L2_PIX_FMT_RGB24
                        then set_sizes 32 f (wr_or CIPRSCCTRL (push_bit 30 1) s1)
                        else (f, s1))
        in (0, f2, wr CIPRTRGFMT (push_bit 16 (TargetHsize_Pr s2) OR TargetVsize_Pr s2) s2))"

section \<open>Buffers\<close>

text \<open>
  The run-time part of \<open>get_order\<close> (include/asm-generic/getorder.h, bitops/fls.h).
\<close>

definition fls_bit :: "nat \<Rightarrow> u32 \<times> nat \<Rightarrow> u32 \<times> nat" where
  "fls_bit k xr = (case xr of (x, r) \<Rightarrow>
     if x AND push_bit (32 - k) (-1) = 0 then (push_bit k x, r - k) else (x, r))"

definition fls_int :: "u32 \<Rightarrow> nat" where
  "fls_int x = (if x = 0 then 0 else snd (fls_bit 1 (fls_bit 2 (fls_bit 4 (fls_bit 8 (fls_bit 16 (x, 32)))))))"

definition get_order :: "u32 \<Rightarrow> nat" where
  "get_order sz = fls_int (drop_bit 12 (sz - 1))"

text \<open>
  \<open>PAGE_OFFSET\<close> is 0xc0000000; memory starts at \<open>PHYS_OFFSET\<close> 0x30000000 on this board.
\<close>

definition virt_to_phys :: "u32 \<Rightarrow> u32" where
  "virt_to_phys x = x - 0xc0000000 + 0x30000000"

text \<open>
  \<open>free_pages\<close> of a block that is not allocated with this order corrupts the allocator.
\<close>

definition free_pages :: "u32 \<Rightarrow> u32 \<Rightarrow> cmos \<Rightarrow> cmos kres" where
  "free_pages addr ord s =
     (if addr = 0 then Inr s
      else if (addr, ord) \<in> set (pages s) then Inr (s\<lparr>pages := remove1 (addr, ord) (pages s)\<rparr>)
      else Inl UseAfterFree)"

definition get_pages :: "nat \<Rightarrow> u32 \<Rightarrow> u32 \<Rightarrow> cmos \<Rightarrow> cmos" where
  "get_pages i ord addr s =
     s\<lparr>img_buff := upd_nth i (\<lambda>b. b\<lparr>cb_order := ord, virt_base := addr\<rparr>) (img_buff s),
       pages := (if addr = 0 then pages s else (addr, ord) # pages s)\<rparr>"

definition set_phys :: "nat \<Rightarrow> cmos \<Rightarrow> cmos" where
  "set_phys i s = s\<lparr>img_buff := upd_nth i (\<lambda>b. b\<lparr>phy_base := virt_to_phys (virt_base (img_buff s ! 0))\<rparr>) (img_buff s)\<rparr>"

definition free_buff :: "nat \<Rightarrow> u32 \<Rightarrow> cmos \<Rightarrow> cmos kres" where
  "free_buff i ord s = kbind (free_pages (virt_base (img_buff s ! i)) ord s) (\<lambda>s1.
     Inr (s1\<lparr>img_buff := upd_nth i (\<lambda>b. b\<lparr>phy_base := 0\<rparr>) (img_buff s1)\<rparr>))"

definition error1 :: "u32 \<Rightarrow> cmos \<Rightarrow> (int \<times> cmos) kres" where
  "error1 ord s = kbind (free_buff 0 ord s) (\<lambda>s1. Inr (- ENOMEM, s1))"

definition error2 :: "u32 \<Rightarrow> cmos \<Rightarrow> (int \<times> cmos) kres" where
  "error2 ord s = kbind (free_buff 1 ord s) (error1 ord)"

definition error3 :: "u32 \<Rightarrow> cmos \<Rightarrow> (int \<times> cmos) kres" where
  "error3 ord s = kbind (free_buff 2 ord s) (error2 ord)"

text \<open>
  REQBUFS; \<open>get i\<close> is the address of the \<open>i\<close>-th allocation, 0 when it fails.  The successful
  path runs on into the error labels.
\<close>

definition cmos_ov7740_vidioc_reqbufs :: "(nat \<Rightarrow> u32) \<Rightarrow> cmos \<Rightarrow> (int \<times> cmos) kres" where
  "cmos_ov7740_vidioc_reqbufs get s =
     (let ord = of_nat (get_order (buf_size s)); s0 = get_pages 0 ord (get 0) s in
      if get 0 = 0 then Inr (- ENOMEM, s0)
      else let s1 = get_pages 1 ord (get 1) (set_phys 0 s0) in
      if get 1 = 0 then error1 ord s1
      else let s2 = get_pages 2 ord (get 2) (set_phys 1 s1) in
      if get 2 = 0 then error2 ord s2
      else let s3 = get_pages 3 ord (get 3) (set_phys 2 s2) in
      if get 3 = 0 then error3 ord s3
      else let s4 = set_phys 3 s3; b = img_buff s4 in
        error3 ord (wr CIPRCLRSA4 (phy_base (b ! 3)) (wr CIPRCLRSA3 (phy_base (b ! 2))
          (wr CIPRCLRSA2 (phy_base (b ! 1)) (wr CIPRCLRSA1 (phy_base (b ! 0)) s4)))))"

definition cmos_ov7740_release :: "cmos \<Rightarrow> cmos kres" where
  "cmos_ov7740_release s =
     (let ord = of_nat (get_order (buf_size s)) in
      kbind (free_buff 0 ord s) (\<lambda>s1. kbind (free_buff 1 ord s1) (\<lambda>s2.
        kbind (free_buff 2 ord s2) (free_buff 3 ord))))"

text \<open>
  Reading: \<open>kmem\<close> gives the bytes of a kernel address, \<open>copies i\<close> tells whether the \<open>i\<close>-th copy to
  the user succeeds, \<open>signal\<close> whether a signal ends the sleep (its result is ignored).  \<open>None\<close>
  means that the caller sleeps on.
\<close>

definition buff_bytes :: "(u32 \<Rightarrow> nat \<Rightarrow> u8 list) \<Rightarrow> u32 \<Rightarrow> nat \<Rightarrow> cmos \<Rightarrow> u8 list kres" where
  "buff_bytes kmem addr n s =
     (if n = 0 then Inr []
      else if addr = 0 then Inl NullDeref
      else if addr \<in> fst ` set (pages s) then Inr (kmem addr n)
      else Inl UseAfterFree)"

fun copy_buffers :: "(u32 \<Rightarrow> nat \<Rightarrow> u8 list) \<Rightarrow> (nat \<Rightarrow> bool) \<Rightarrow> nat \<Rightarrow> nat list \<Rightarrow> u8 list \<Rightarrow> cmos \<Rightarrow> (bool \<times> u8 list) kres" where
  "copy_buffers kmem copies n [] buf s = Inr (True, buf)"
| "copy_buffers kmem copies n (i # is') buf s =
     kbind (buff_bytes kmem (virt_base (img_buff s ! i)) n s) (\<lambda>bytes.
       if \<not> copies i then Inr (False, buf)
       else copy_buffers kmem copies n is' (bytes @ drop (length bytes) buf) s)"

definition cmos_ov7740_read ::
    "(u32 \<Rightarrow> nat \<Rightarrow> u8 list) \<Rightarrow> (nat \<Rightarrow> bool) \<Rightarrow> bool \<Rightarrow> u32 \<Rightarrow> u8 list \<Rightarrow> cmos \<Rightarrow> (int \<times> u8 list \<times> cmos) option kres" where
  "cmos_ov7740_read kmem copies signal count buf s =
     (let end' = min (buf_size s) count in
      if \<not> ev_cam s \<and> \<not> signal then Inr None
      else kbind (copy_buffers kmem copies (unat end') [0..<4] buf s) (\<lambda>(ok, buf').
        Inr (Some (if ok then (int (unat end'), buf', s\<lparr>ev_cam := False\<rparr>) else (- EFAULT, buf', s)))))"

section \<open>Streaming\<close>

definition CalculateBurstSize :: "u32 \<Rightarrow> u32 \<times> u32" where
  "CalculateBurstSize hSize =
     (let tmp = (hSize div 4) mod 16 in
      if tmp = 0 then (16, 16)
      else if tmp = 4 then (16, 4)
      else if tmp = 8 then (16, 8)
      else let tmp8 = (hSize div 4) mod 8 in
        if tmp8 = 0 then (8, 8)
        else if tmp8 = 4 then (8, 4)
        else let tmp4 = (hSize div 4) mod 4 in (4, if tmp4 \<noteq> 0 then tmp4 else 4))"

text \<open>
  A result that is not assigned keeps its old value.
\<close>

definition camif_get_scaler_factor :: "u32 \<Rightarrow> u32 \<Rightarrow> u32 \<times> u32 \<Rightarrow> u32 \<times> u32" where
  "camif_get_scaler_factor src tar old =
     (if src \<ge> 64 * tar then old
      else if src \<ge> 32 * tar then (32, 5)
      else if src \<ge> 16 * tar then (16, 4)
      else if src \<ge> 8 * tar then (8, 3)
      else if src \<ge> 4 * tar then (4, 2)
      else if src \<ge> 2 * tar then (2, 1)
      else (1, 0))"

definition udiv :: "u32 \<Rightarrow> u32 \<Rightarrow> u32 kres" where
  "udiv a b = (if b = 0 then Inl DivByZero else Inr (a div b))"

definition cmos_ov7740_calculate_scaler_info :: "cmos \<Rightarrow> cmos kres" where
  "cmos_ov7740_calculate_scaler_info s =
     (let sx = SRC_Width s; sy = SRC_Height s; tx = TargetHsize_Pr s; ty = TargetVsize_Pr s;
          (hr, hs) = camif_get_scaler_factor sx tx (PreHorRatio (sc s), H_Shift (sc s));
          (vr, vs) = camif_get_scaler_factor sy ty (PreVerRatio (sc s), V_Shift (sc s))
      in kbind (udiv sx hr) (\<lambda>dw. kbind (udiv sy vr) (\<lambda>dh.
         kbind (udiv (push_bit 8 sx) (push_bit (unat hs) tx)) (\<lambda>mh.
         kbind (udiv (push_bit 8 sy) (push_bit (unat vs) ty)) (\<lambda>mv.
           Inr (s\<lparr>sc := \<lparr>PreHorRatio = hr, PreVerRatio = vr, H_Shift = hs, V_Shift = vs,
             PreDstWidth = dw, PreDstHeight = dh, MainHorRatio = mh, MainVerRatio = mv,
             SHfactor = 10 - (hs + vs), ScaleUpDown = (if tx \<ge> sx then 1 else 0)\<rparr>\<rparr>))))))"

abbreviation (input) CAM_SRC_HSIZE :: u32 where "CAM_SRC_HSIZE \<equiv> 640"
abbreviation (input) CAM_SRC_VSIZE :: u32 where "CAM_SRC_VSIZE \<equiv> 480"
abbreviation (input) CAM_ORDER_CbYCrY :: u32 where "CAM_ORDER_CbYCrY \<equiv> 2"

text \<open>
  STREAMON: first the source and DMA setup, then the scaler, then the start bits.
\<close>

definition streamon_source :: "cmos \<Rightarrow> cmos" where
  "streamon_source s =
     (let s1 = wr_or CISRCFMT (push_bit 16 CAM_SRC_HSIZE OR push_bit 14 CAM_ORDER_CbYCrY OR CAM_SRC_VSIZE) s;
          s2 = wr_or CIWDOFST (push_bit 30 1 OR push_bit 12 0xf) s1;
          s3 = (wr_or CIWDOFST (push_bit 31 1) s2)\<lparr>SRC_Width := CAM_SRC_HSIZE - 2 * 0, SRC_Height := CAM_SRC_VSIZE - 2 * 0\<rparr>;
          s4 = wr_or CIGCTRL (push_bit 29 1) s3;
          (main_burst, remained_burst) = CalculateBurstSize (bytesperline s4)
      in wr CIPRCTRL (push_bit 19 main_burst OR push_bit 14 remained_burst) s4)"

definition streamon_start :: "cmos \<Rightarrow> cmos" where
  "streamon_start s =
     (let c = sc s;
          s1 = wr CIPRSCPRERATIO (push_bit 28 (SHfactor c) OR push_bit 16 (PreHorRatio c) OR PreVerRatio c) s;
          s2 = wr CIPRSCPREDST (push_bit 16 (PreDstWidth c) OR PreDstHeight c) s1;
          s3 = wr_or CIPRSCCTRL (push_bit 31 1 OR push_bit 28 (ScaleUpDown c) OR push_bit 16 (MainHorRatio c) OR MainVerRatio c) s2;
          s4 = wr CIPRTAREA (TargetHsize_Pr s3 * TargetVsize_Pr s3) s3;
          s5 = wr CIIMGCPT (push_bit 31 1 OR push_bit 29 1) s4
      in wr_or CIPRSCCTRL (push_bit 15 1) s5)"

definition cmos_ov7740_vidioc_streamon :: "cmos \<Rightarrow> (int \<times> cmos) kres" where
  "cmos_ov7740_vidioc_streamon s =
     kbind (cmos_ov7740_calculate_scaler_info (streamon_source s)) (\<lambda>s1. Inr (0, streamon_start s1))"

definition cmos_ov7740_vidioc_streamoff :: "cmos \<Rightarrow> int \<times> cmos" where
  "cmos_ov7740_vidioc_streamoff s =
     (0, wr_clear CIIMGCPT (push_bit 31 1 OR push_bit 29 1) (wr_clear CIPRSCCTRL (push_bit 15 1) s))"

section \<open>Probe\<close>

definition ioremap_addr :: "camreg \<Rightarrow> u32" where
  "ioremap_addr r = (case r of
       GPJCON \<Rightarrow> 0x560000d0 | GPJDAT \<Rightarrow> 0x560000d4 | GPJUP \<Rightarrow> 0x560000d8
     | CISRCFMT \<Rightarrow> 0x4F000000 | CIWDOFST \<Rightarrow> 0x4F000004 | CIGCTRL \<Rightarrow> 0x4F000008
     | CIPRCLRSA1 \<Rightarrow> 0x4F00006C | CIPRCLRSA2 \<Rightarrow> 0x4F000070 | CIPRCLRSA3 \<Rightarrow> 0x4F000074 | CIPRCLRSA4 \<Rightarrow> 0x4F000078
     | CIPRTRGFMT \<Rightarrow> 0x4F00007C | CIPRCTRL \<Rightarrow> 0x4F000080 | CIPRSCPRERATIO \<Rightarrow> 0x4F000084
     | CIPRSCPREDST \<Rightarrow> 0x4F000088 | CIPRSCCTRL \<Rightarrow> 0x4F00008C | CIPRTAREA \<Rightarrow> 0x4F000090
     | CIIMGCPT \<Rightarrow> 0x4F0000A0 | SRCPND \<Rightarrow> 0x4A000000 | INTPND \<Rightarrow> 0x4A000010 | SUBSRCPND \<Rightarrow> 0x4A000018)"

definition cmos_ov7740_gpio_cfg :: "cmos \<Rightarrow> cmos" where
  "cmos_ov7740_gpio_cfg s = wr GPJUP 0 (wr GPJDAT 0 (wr GPJCON 0x2aaaaaa s))"

text \<open>
  The first statement sets bit 31 of the pointer \<open>CISRCFMT\<close> and not of the register.  An address
  that \<open>ioremap\<close> returns has this bit set, so nothing changes.
\<close>

definition cmos_ov7740_camif_reset :: "cmos \<Rightarrow> cmos" where
  "cmos_ov7740_camif_reset s =
     (let s1 = hw (MDelay 10) (wr_or CIGCTRL (push_bit 31 1) s)
      in hw (MDelay 10) (wr_clear CIGCTRL (push_bit 31 1) s1))"

definition cmos_ov7740_clk_cfg :: "cmos \<Rightarrow> cmos" where
  "cmos_ov7740_clk_cfg s = hw (MDelay 100) (hw (ClkRate ''camif-upll'' 2400000) (hw (ClkEnable ''camif'') s))"

definition cmos_ov7740_reset :: "cmos \<Rightarrow> cmos" where
  "cmos_ov7740_reset s =
     (let s1 = hw (MDelay 30) (wr_or CIGCTRL (push_bit 30 1) s);
          s2 = hw (MDelay 30) (wr_clear CIGCTRL (push_bit 30 1) s1)
      in hw (MDelay 30) (wr_or CIGCTRL (push_bit 30 1) s2))"

definition cmos_ov7740_init :: "cmos \<Rightarrow> cmos" where
  "cmos_ov7740_init s =
     fold (\<lambda>(a, v) t. hw (MDelay 2) (hw (I2cWrite a v) t)) ov7740_setting_30fps_VGA_640_480
       (hw (I2cRead 0x0b) (hw (I2cRead 0x0a) s))"

definition cmos_ov7740_probe :: "cmos \<Rightarrow> int \<times> cmos" where
  "cmos_ov7740_probe s =
     (let s1 = cmos_ov7740_init (cmos_ov7740_reset (cmos_ov7740_clk_cfg
                 (cmos_ov7740_camif_reset (cmos_ov7740_gpio_cfg s))))
      in (0, hw RegisterDevice (hw (RequestIrq ''CAM_P'') (hw (RequestIrq ''CAM_C'') s1))))"

end
