(* ===== verification/Cmos_Props.thy ===== *)
theory Cmos_Props
  imports Cmos_Camif
begin

text \<open>
  What the camera interface driver programs into the hardware, and where it fails.
\<close>

section \<open>DMA bursts\<close>

lemma word_div_mod_nat:
  "unat ((x :: u32) div 4 mod 16) = unat x div 4 mod 16" "unat (x div 4 mod 8) = unat x div 4 mod 8"
  "unat (x div 4 mod 4) = unat x div 4 mod 4"
  by (simp_all add: unat_div unat_mod)

lemma word_eq_nat: "(x :: u32) = numeral n \<longleftrightarrow> unat x = unat (numeral n :: u32)"
  by (metis unsigned_word_eqI)

lemma burst_values:
  assumes "CalculateBurstSize hSize = (m, r)"
  shows "unat m \<in> {4, 8, 16} \<and>
    unat r = (if unat hSize div 4 mod unat m = 0 then unat m else unat hSize div 4 mod unat m)"
proof -
  define x where "x = hSize div 4"
  have x: "unat x = unat hSize div 4" "x mod 16 = n \<longleftrightarrow> unat x mod 16 = unat n" "x mod 8 = n \<longleftrightarrow> unat x mod 8 = unat n"
    "x mod 4 = n \<longleftrightarrow> unat x mod 4 = unat n" for n
    by (simp_all add: x_def unat_div word_unat_eq_iff unat_mod)
  show ?thesis
    using assms unfolding CalculateBurstSize_def Let_def x_def [symmetric] x(2-4) x(1) [symmetric]
    by (auto simp: unat_mod split: if_splits)
qed

text \<open>
  The burst lengths computed for a line of at least one word are at most 16 words, the last
  burst is not empty and not longer than the others, and full bursts followed by one last burst
  transfer exactly the words of the line.
\<close>

lemma cmos_burst_covers_line:
  assumes "4 \<le> unat hSize" "CalculateBurstSize hSize = (m, r)"
  shows "unat m \<in> {4, 8, 16} \<and> 0 < unat r \<and> unat r \<le> unat m \<and> (\<exists>k. unat hSize div 4 = k * unat m + unat r)"
proof -
  define n where "n = unat hSize div 4"
  have n: "0 < n" using assms(1) by (simp add: n_def)
  have m: "unat m \<in> {4, 8, 16}" "unat r = (if n mod unat m = 0 then unat m else n mod unat m)"
    using burst_values [OF assms(2)] by (simp_all add: n_def)
  then have r: "0 < unat r" "unat r \<le> unat m" by (auto intro: less_imp_le)
  have "\<exists>k. n = k * unat m + unat r"
  proof (cases "n mod unat m = 0")
    case True
    then obtain j where "n = unat m * j" by auto
    then show ?thesis using n m(2) True by (cases j) (auto simp: algebra_simps)
  next
    case False
    then show ?thesis using m(2) by (metis div_mult_mod_eq)
  qed
  then show ?thesis using m(1) r by (simp add: n_def)
qed

section \<open>Scaler\<close>

lemma scaler_factor:
  assumes "unat src < 64 * unat tar" "64 * unat tar < 2 ^ 32"
  shows "\<exists>k\<le>5. camif_get_scaler_factor src tar old = (2 ^ k, of_nat k) \<and> unat src < 2 ^ (k + 1) * unat tar \<and>
    (k = 0 \<or> 2 ^ k * unat tar \<le> unat src)"
proof -
  have c: "of_nat n * tar \<le> src \<longleftrightarrow> n * unat tar \<le> unat src" if "n \<le> 64" for n
  proof -
    have "n * unat tar \<le> 64 * unat tar" using that by (rule mult_right_mono) simp
    then have "n * unat tar < 2 ^ 32" using assms(2) by linarith
    then show ?thesis using that by (simp add: word_le_nat_alt unat_word_ariths unat_of_nat)
  qed
  note u = c [of 64, simplified] c [of 32, simplified] c [of 16, simplified] c [of 8, simplified] c [of 4, simplified] c [of 2, simplified]
  have "\<not> 64 * unat tar \<le> unat src" using assms(1) by simp
  then consider "32 * unat tar \<le> unat src" | "16 * unat tar \<le> unat src" "unat src < 32 * unat tar"
    | "8 * unat tar \<le> unat src" "unat src < 16 * unat tar" | "4 * unat tar \<le> unat src" "unat src < 8 * unat tar"
    | "2 * unat tar \<le> unat src" "unat src < 4 * unat tar" | "unat src < 2 * unat tar" by linarith
  then show ?thesis
  proof cases
    case 1
    then show ?thesis using assms(1) u by (intro exI [of _ 5]) (simp add: camif_get_scaler_factor_def)
  next
    case 2
    then show ?thesis using assms(1) u by (intro exI [of _ 4]) (simp add: camif_get_scaler_factor_def)
  next
    case 3
    then show ?thesis using assms(1) u by (intro exI [of _ 3]) (simp add: camif_get_scaler_factor_def)
  next
    case 4
    then show ?thesis using assms(1) u by (intro exI [of _ 2]) (simp add: camif_get_scaler_factor_def)
  next
    case 5
    then show ?thesis using assms(1) u by (intro exI [of _ 1]) (simp add: camif_get_scaler_factor_def)
  next
    case 6
    then show ?thesis using assms(1) u by (intro exI [of _ 0]) (simp add: camif_get_scaler_factor_def)
  qed
qed

lemma main_ratio:
  assumes k: "k \<le> 5" "unat src < 2 ^ (k + 1) * unat tar" "k = 0 \<or> 2 ^ k * unat tar \<le> unat src"
    and b: "unat src < 2 ^ 16" "unat tar < 2 ^ 26" "0 < unat tar"
  shows "\<exists>m. udiv (push_bit 8 src) (push_bit (unat (of_nat k :: u32)) tar) = Inr m \<and> unat m < 512 \<and> (unat tar \<le> unat src \<longrightarrow> 256 \<le> unat m)"
proof -
  have uk: "unat (of_nat k :: u32) = k" using k(1) by (simp add: unat_of_nat)
  have p: "(2 :: nat) ^ k \<le> 2 ^ 5" using k(1) by (intro power_increasing) auto
  have "2 ^ k * unat tar < 2 ^ 5 * 2 ^ 26" using p b(2) by (intro mult_le_less_imp_less) auto
  then have d: "unat (push_bit k tar) = 2 ^ k * unat tar"
    unfolding unsigned_push_bit_eq by (simp add: take_bit_nat_eq_self push_bit_eq_mult mult.commute)
  have n: "unat (push_bit 8 src) = 256 * unat src" using b(1) by (simp add: push_bit_eq_mult unat_word_ariths)
  have pos: "0 < 2 ^ k * unat tar" using b(3) by simp
  have "push_bit k tar \<noteq> 0" using pos d by (metis less_irrefl unsigned_0)
  moreover have "256 * unat src div (2 ^ k * unat tar) < 512"
    by (rule less_mult_imp_div_less) (use k(2) in \<open>simp add: ac_simps\<close>)
  moreover have "256 \<le> 256 * unat src div (2 ^ k * unat tar)" if "unat tar \<le> unat src"
    using k(3) that pos by (auto simp: less_eq_div_iff_mult_less_eq)
  ultimately show ?thesis by (simp add: uk udiv_def unat_div d n)
qed

lemma scaler_info:
  assumes s: "SRC_Width s = 640" "SRC_Height s = 480"
    and t: "10 < unat (TargetHsize_Pr s)" "unat (TargetHsize_Pr s) < 2 ^ 26" "7 < unat (TargetVsize_Pr s)" "unat (TargetVsize_Pr s) < 2 ^ 26"
  shows "\<exists>k l mh mv ud. k \<le> 5 \<and> l \<le> 5 \<and> unat mh < 512 \<and> unat mv < 512 \<and> (ud = 0 \<or> ud = 1) \<and>
    (unat (TargetHsize_Pr s) \<le> 640 \<longrightarrow> 256 \<le> unat mh) \<and> (unat (TargetVsize_Pr s) \<le> 480 \<longrightarrow> 256 \<le> unat mv) \<and>
    cmos_ov7740_calculate_scaler_info s = Inr (s\<lparr>sc := \<lparr>PreHorRatio = 2 ^ k, PreVerRatio = 2 ^ l, H_Shift = of_nat k, V_Shift = of_nat l,
      PreDstWidth = 640 div 2 ^ k, PreDstHeight = 480 div 2 ^ l, MainHorRatio = mh, MainVerRatio = mv,
      SHfactor = 10 - (of_nat k + of_nat l), ScaleUpDown = ud\<rparr>\<rparr>)"
proof -
  let ?w = "TargetHsize_Pr s" and ?h = "TargetVsize_Pr s"
  obtain k where k: "k \<le> 5" "camif_get_scaler_factor 640 ?w (PreHorRatio (sc s), H_Shift (sc s)) = (2 ^ k, of_nat k)"
    "unat (640 :: u32) < 2 ^ (k + 1) * unat ?w" "k = 0 \<or> 2 ^ k * unat ?w \<le> unat (640 :: u32)"
    using scaler_factor [of 640 ?w] t by auto
  obtain l where l: "l \<le> 5" "camif_get_scaler_factor 480 ?h (PreVerRatio (sc s), V_Shift (sc s)) = (2 ^ l, of_nat l)"
    "unat (480 :: u32) < 2 ^ (l + 1) * unat ?h" "l = 0 \<or> 2 ^ l * unat ?h \<le> unat (480 :: u32)"
    using scaler_factor [of 480 ?h] t by auto
  obtain mh where mh: "udiv (push_bit 8 640) (push_bit (unat (of_nat k :: u32)) ?w) = Inr mh" "unat mh < 512"
    "unat ?w \<le> 640 \<longrightarrow> 256 \<le> unat mh"
    using main_ratio [OF k(1,3,4)] t by auto
  obtain mv where mv: "udiv (push_bit 8 480) (push_bit (unat (of_nat l :: u32)) ?h) = Inr mv" "unat mv < 512"
    "unat ?h \<le> 480 \<longrightarrow> 256 \<le> unat mv"
    using main_ratio [OF l(1,3,4)] t by auto
  have p: "(2 :: u32) ^ j \<noteq> 0" if "j \<le> 5" for j
  proof -
    have "j \<in> {0, 1, 2, 3, 4, 5}" using that by auto
    then show ?thesis by auto
  qed
  show ?thesis
    by (intro exI [of _ k] exI [of _ l] exI [of _ mh] exI [of _ mv] exI [of _ "if ?w \<ge> 640 then 1 else 0"])
      (use k l mh mv p in \<open>simp add: cmos_ov7740_calculate_scaler_info_def s udiv_def [of 640] udiv_def [of 480]\<close>)
qed

lemma streamon_source_frame [simp]:
  "SRC_Width (streamon_source s) = 640" "SRC_Height (streamon_source s) = 480"
  "TargetHsize_Pr (streamon_source s) = TargetHsize_Pr s" "TargetVsize_Pr (streamon_source s) = TargetVsize_Pr s"
  "regs (streamon_source s) CIPRSCCTRL = regs s CIPRSCCTRL" "sc (streamon_source s) = sc s"
  by (simp_all add: streamon_source_def wr_def Let_def split: prod.split)

lemma streamon_start_regs [simp]:
  "sc (streamon_start s) = sc s"
  "regs (streamon_start s) CIPRSCPRERATIO = push_bit 28 (SHfactor (sc s)) OR push_bit 16 (PreHorRatio (sc s)) OR PreVerRatio (sc s)"
  "regs (streamon_start s) CIPRSCPREDST = push_bit 16 (PreDstWidth (sc s)) OR PreDstHeight (sc s)"
  "regs (streamon_start s) CIPRSCCTRL = (regs s CIPRSCCTRL OR (push_bit 31 1 OR push_bit 28 (ScaleUpDown (sc s)) OR
     push_bit 16 (MainHorRatio (sc s)) OR MainVerRatio (sc s))) OR push_bit 15 1"
  by (simp_all add: streamon_start_def wr_def Let_def)

abbreviation (input) field :: "nat \<Rightarrow> nat \<Rightarrow> u32 \<Rightarrow> u32" where
  "field lo width v \<equiv> take_bit width (drop_bit lo v)"

lemma or_fields:
  fixes r mh mv ud a c :: u32
  shows "field 16 9 ((r OR (push_bit 31 a OR push_bit 28 ud OR push_bit 16 (take_bit 9 mh) OR take_bit 9 mv)) OR push_bit 15 (take_bit 1 c)) =
      field 16 9 r OR take_bit 9 mh"
    and "field 0 9 ((r OR (push_bit 31 a OR push_bit 28 ud OR push_bit 16 (take_bit 9 mh) OR take_bit 9 mv)) OR push_bit 15 (take_bit 1 c)) =
      field 0 9 r OR take_bit 9 mv"
  by (rule bit_eqI, auto simp: bit_simps)+

lemma main_fields:
  fixes r mh mv ud :: u32
  assumes "unat mh < 512" "unat mv < 512"
  shows "field 16 9 ((r OR (push_bit 31 1 OR push_bit 28 ud OR push_bit 16 mh OR mv)) OR push_bit 15 1) = field 16 9 r OR mh"
    and "field 0 9 ((r OR (push_bit 31 1 OR push_bit 28 ud OR push_bit 16 mh OR mv)) OR push_bit 15 1) = field 0 9 r OR mv"
proof -
  have b: "take_bit 9 mh = mh" "take_bit 9 mv = mv" "take_bit 1 (1 :: u32) = 1"
    using assms by (simp_all add: word_unat_eq_iff unsigned_take_bit_eq take_bit_nat_eq_self)
  show "field 16 9 ((r OR (push_bit 31 1 OR push_bit 28 ud OR push_bit 16 mh OR mv)) OR push_bit 15 1) = field 16 9 r OR mh"
    using or_fields(1) [of r 1 ud mh mv 1] unfolding b .
  show "field 0 9 ((r OR (push_bit 31 1 OR push_bit 28 ud OR push_bit 16 mh OR mv)) OR push_bit 15 1) = field 0 9 r OR mv"
    using or_fields(2) [of r 1 ud mh mv 1] unfolding b .
qed


definition cmos_demo :: "u32 \<Rightarrow> u32 \<Rightarrow> cmos" where
  "cmos_demo w h = (cmos_start (\<lambda>_. 0))\<lparr>TargetHsize_Pr := w, TargetVsize_Pr := h, bytesperline := 2 * w, buf_size := 2 * w * h\<rparr>"


lemma and_511 [simp]: "take_bit 9 x AND 511 = take_bit 9 (x :: u32)"
proof -
  have "mask 9 = (511 :: u32)" by (simp add: mask_eq_exp_minus_1)
  then show ?thesis by (metis take_bit_eq_mask and.right_idem)
qed

lemma streamon_fields:
  assumes t: "10 < unat (TargetHsize_Pr s)" "unat (TargetHsize_Pr s) < 2 ^ 26" "7 < unat (TargetVsize_Pr s)" "unat (TargetVsize_Pr s) < 2 ^ 26"
    and r: "cmos_ov7740_vidioc_streamon s = Inr (0, s')"
  shows "field 16 9 (regs s' CIPRSCCTRL) = field 16 9 (regs s CIPRSCCTRL) OR MainHorRatio (sc s')"
proof -
  obtain c where c: "cmos_ov7740_calculate_scaler_info (streamon_source s) = Inr ((streamon_source s)\<lparr>sc := c\<rparr>)"
    and m: "unat (MainHorRatio c) < 512" "unat (MainVerRatio c) < 512"
    using scaler_info [of "streamon_source s"] t by auto
  have "s' = streamon_start ((streamon_source s)\<lparr>sc := c\<rparr>)" using r by (simp add: cmos_ov7740_vidioc_streamon_def c)
  then have "regs s' CIPRSCCTRL = (regs s CIPRSCCTRL OR (push_bit 31 1 OR push_bit 28 (ScaleUpDown c) OR
      push_bit 16 (MainHorRatio c) OR MainVerRatio c)) OR push_bit 15 1" "sc s' = c"
    by simp_all
  then show ?thesis using main_fields(1) [OF m] by simp
qed

lemma streamoff_fields: "field 16 9 (regs (snd (cmos_ov7740_vidioc_streamoff s)) CIPRSCCTRL) = field 16 9 (regs s CIPRSCCTRL)"
  by (simp add: cmos_ov7740_vidioc_streamoff_def wr_def)

lemma s_fmt_accepts:
  assumes "f_type f = V4L2_BUF_TYPE_VIDEO_CAPTURE"
    "pf_pixelformat (f_pix f) = V4L2_PIX_FMT_RGB565 \<or> pf_pixelformat (f_pix f) = V4L2_PIX_FMT_RGB24"
  shows "\<exists>f' s'. cmos_ov7740_vidioc_s_fmt_vid_cap f s = (0, f', s') \<and> sc s' = sc s \<and>
    TargetHsize_Pr s' = pf_width (f_pix f) \<and> TargetVsize_Pr s' = pf_height (f_pix f) \<and>
    field 16 9 (regs s' CIPRSCCTRL) = field 16 9 (regs s CIPRSCCTRL)"
  using assms by (auto simp: cmos_ov7740_vidioc_s_fmt_vid_cap_def cmos_ov7740_vidioc_try_fmt_vid_cap_def set_sizes_def wr_def Let_def)

text \<open>
  A target smaller than 1/64 of the source in either direction (or empty) is accepted by S_FMT
  but leaves the pre-scaler ratio unassigned; with the ratio still 0 from start-up, STREAMON
  divides by zero.
\<close>

lemma cmos_streamon_div_by_zero:
  assumes f: "f_type f = V4L2_BUF_TYPE_VIDEO_CAPTURE" "pf_pixelformat (f_pix f) = V4L2_PIX_FMT_RGB565 \<or> pf_pixelformat (f_pix f) = V4L2_PIX_FMT_RGB24"
    and w: "unat (pf_width (f_pix f)) \<le> 10 \<or> unat (pf_height (f_pix f)) \<le> 7" and z: "PreHorRatio (sc s) = 0" "PreVerRatio (sc s) = 0"
  shows "\<exists>f' s'. cmos_ov7740_vidioc_s_fmt_vid_cap f s = (0, f', s') \<and> cmos_ov7740_vidioc_streamon s' = Inl DivByZero"
proof -
  obtain f' s' where s: "cmos_ov7740_vidioc_s_fmt_vid_cap f s = (0, f', s')" "sc s' = sc s"
    "TargetHsize_Pr s' = pf_width (f_pix f)" "TargetVsize_Pr s' = pf_height (f_pix f)"
    using s_fmt_accepts [OF f] by metis
  have old: "camif_get_scaler_factor src tar old = old" if "unat tar * 64 \<le> unat src" for src tar old
  proof -
    have "64 * tar \<le> src" using that unsigned_less [of src, where 'a = nat] by (simp add: word_le_nat_alt unat_word_ariths mult.commute)
    then show ?thesis by (simp add: camif_get_scaler_factor_def)
  qed
  have "cmos_ov7740_calculate_scaler_info (streamon_source s') = Inl DivByZero"
  proof (cases "unat (pf_width (f_pix f)) \<le> 10")
    case True
    then show ?thesis using z old [of "pf_width (f_pix f)" 640]
      by (simp add: cmos_ov7740_calculate_scaler_info_def s udiv_def split: prod.split)
  next
    case False
    then have "unat (pf_height (f_pix f)) \<le> 7" using w by simp
    then show ?thesis using z old [of "pf_height (f_pix f)" 480]
      by (simp add: cmos_ov7740_calculate_scaler_info_def s udiv_def split: prod.split)
  qed
  then show ?thesis using s(1) by (auto simp: cmos_ov7740_vidioc_streamon_def)
qed

text \<open>
  STREAMON only sets bits of the main scaler ratio and neither STREAMOFF nor S_FMT clears them.
  After a second STREAMON with another size the field holds the bitwise or of the two ratios, the
  first one being what the field held after the first STREAMON.
\<close>

lemma cmos_restart_mixes_ratios:
  assumes on: "cmos_ov7740_vidioc_streamon s = Inr (0, s1)" and t: "10 < unat (TargetHsize_Pr s)" "unat (TargetHsize_Pr s) < 2 ^ 26"
      "7 < unat (TargetVsize_Pr s)" "unat (TargetVsize_Pr s) < 2 ^ 26" and z: "field 16 9 (regs s CIPRSCCTRL) = 0"
    and f: "f_type f = V4L2_BUF_TYPE_VIDEO_CAPTURE" "pf_pixelformat (f_pix f) = V4L2_PIX_FMT_RGB565 \<or> pf_pixelformat (f_pix f) = V4L2_PIX_FMT_RGB24"
    and w: "10 < unat (pf_width (f_pix f))" "unat (pf_width (f_pix f)) < 2 ^ 26" "7 < unat (pf_height (f_pix f))" "unat (pf_height (f_pix f)) < 2 ^ 26"
  shows "\<exists>f' s2 s3. cmos_ov7740_vidioc_s_fmt_vid_cap f (snd (cmos_ov7740_vidioc_streamoff s1)) = (0, f', s2) \<and>
    cmos_ov7740_vidioc_streamon s2 = Inr (0, s3) \<and> field 16 9 (regs s1 CIPRSCCTRL) = MainHorRatio (sc s1) \<and>
    field 16 9 (regs s3 CIPRSCCTRL) = MainHorRatio (sc s1) OR MainHorRatio (sc s3)"
proof -
  obtain f' s2 where s2: "cmos_ov7740_vidioc_s_fmt_vid_cap f (snd (cmos_ov7740_vidioc_streamoff s1)) = (0, f', s2)"
    "TargetHsize_Pr s2 = pf_width (f_pix f)" "TargetVsize_Pr s2 = pf_height (f_pix f)"
    "field 16 9 (regs s2 CIPRSCCTRL) = field 16 9 (regs s1 CIPRSCCTRL)"
    using s_fmt_accepts [OF f, of "snd (cmos_ov7740_vidioc_streamoff s1)"] unfolding streamoff_fields by metis
  obtain c where "cmos_ov7740_calculate_scaler_info (streamon_source s2) = Inr ((streamon_source s2)\<lparr>sc := c\<rparr>)"
    using scaler_info [of "streamon_source s2"] w s2(2,3) by auto
  then obtain s3 where s3: "cmos_ov7740_vidioc_streamon s2 = Inr (0, s3)" by (simp add: cmos_ov7740_vidioc_streamon_def)
  show ?thesis
    using s2 s3 streamon_fields [OF t on] streamon_fields [OF _ _ _ _ s3] w z by auto
qed

section \<open>Buffers\<close>

lemma four_buffers: "length (xs :: 'a list) = 4 \<Longrightarrow> \<exists>a b c d. xs = [a, b, c, d]"
  by (auto simp: length_Suc_conv eval_nat_numeral)

lemma reqbufs_runs_into_cleanup:
  assumes l: "length (img_buff s) = 4" and g: "\<forall>i<4. get i \<noteq> 0 \<and> get i \<notin> fst ` set (pages s)" "distinct [get 0, get 1, get 2, get 3]"
  shows "\<exists>s'. cmos_ov7740_vidioc_reqbufs get s = Inr (- ENOMEM, s') \<and>
    (\<forall>r\<in>{CIPRCLRSA1, CIPRCLRSA2, CIPRCLRSA3, CIPRCLRSA4}. regs s' r = virt_to_phys (get 0)) \<and>
    pages s' = (get 3, of_nat (get_order (buf_size s))) # pages s \<and> buf_size s' = buf_size s \<and> virt_base (img_buff s' ! 0) = get 0 \<and>
    cmos_ov7740_release s' = Inl UseAfterFree"
proof -
  let ?o = "of_nat (get_order (buf_size s)) :: u32"
  obtain a b c d where im: "img_buff s = [a, b, c, d]" using four_buffers [OF l] by blast
  have g': "get 0 \<noteq> 0" "get 1 \<noteq> 0" "get 2 \<noteq> 0" "get 3 \<noteq> 0" using g(1) by auto
  have p: "(get i, ord) \<notin> set (pages s)" if "i < 4" for i ord using g(1) that by force
  note p' = p [of 0 ?o, simplified] p [of 1 ?o, simplified] p [of 2 ?o, simplified] p [of 3 ?o, simplified]
  have "\<exists>s'. cmos_ov7740_vidioc_reqbufs get s = Inr (- ENOMEM, s') \<and>
      (\<forall>r\<in>{CIPRCLRSA1, CIPRCLRSA2, CIPRCLRSA3, CIPRCLRSA4}. regs s' r = virt_to_phys (get 0)) \<and>
      pages s' = (get 3, ?o) # pages s \<and> buf_size s' = buf_size s \<and> virt_base (img_buff s' ! 0) = get 0"
    using g' g(2) p'
    by (simp add: cmos_ov7740_vidioc_reqbufs_def get_pages_def set_phys_def error3_def error2_def error1_def free_buff_def
        free_pages_def wr_def upd_nth_def im remove1_idem eval_nat_numeral) (simp add: Let_def)
  then obtain s' where s': "cmos_ov7740_vidioc_reqbufs get s = Inr (- ENOMEM, s')"
      "(\<forall>r\<in>{CIPRCLRSA1, CIPRCLRSA2, CIPRCLRSA3, CIPRCLRSA4}. regs s' r = virt_to_phys (get 0))"
      "pages s' = (get 3, ?o) # pages s" "buf_size s' = buf_size s" "virt_base (img_buff s' ! 0) = get 0" by blast
  have "get 0 \<notin> fst ` set (pages s')" using s'(3) g(1) [rule_format, of 0] g(2) by simp
  then have "(get 0, ord) \<notin> set (pages s')" for ord by (force intro: rev_image_eqI)
  then have "cmos_ov7740_release s' = Inl UseAfterFree"
    unfolding cmos_ov7740_release_def Let_def free_buff_def free_pages_def s'(5) using g'(1) by simp
  then show ?thesis using s' by blast
qed

text \<open>
  C20: The code after a successful allocation of the four buffers runs into the clean-up labels.
  REQBUFS then fails although the memory was there, the four DMA address registers all hold the
  address of the first block, the first three blocks are freed (the fourth stays allocated), and
  both reading and releasing the device use the freed memory.
\<close>

theorem cmos_reqbufs_frees_dma_memory:
  assumes l: "length (img_buff s) = 4" and g: "\<forall>i<4. get i \<noteq> 0 \<and> get i \<notin> fst ` set (pages s)" "distinct [get 0, get 1, get 2, get 3]"
    and n: "0 < unat (min (buf_size s) count)"
  shows "\<exists>s'. cmos_ov7740_vidioc_reqbufs get s = Inr (- ENOMEM, s') \<and>
    (\<forall>r\<in>{CIPRCLRSA1, CIPRCLRSA2, CIPRCLRSA3, CIPRCLRSA4}. regs s' r = virt_to_phys (get 0)) \<and>
    pages s' = (get 3, of_nat (get_order (buf_size s))) # pages s \<and>
    cmos_ov7740_read kmem copies True count buf s' = Inl UseAfterFree \<and> cmos_ov7740_release s' = Inl UseAfterFree"
proof -
  obtain s' where s': "cmos_ov7740_vidioc_reqbufs get s = Inr (- ENOMEM, s')"
      "(\<forall>r\<in>{CIPRCLRSA1, CIPRCLRSA2, CIPRCLRSA3, CIPRCLRSA4}. regs s' r = virt_to_phys (get 0))"
      "pages s' = (get 3, of_nat (get_order (buf_size s))) # pages s" "buf_size s' = buf_size s" "virt_base (img_buff s' ! 0) = get 0"
      "cmos_ov7740_release s' = Inl UseAfterFree"
    using reqbufs_runs_into_cleanup [OF l g] by blast
  have "get 0 \<noteq> 0" "get 0 \<notin> fst ` set (pages s')" using s'(3) g(1) [rule_format, of 0] g(2) by simp_all
  then have "buff_bytes kmem (get 0) (unat (min (buf_size s) count)) s' = Inl UseAfterFree"
    unfolding buff_bytes_def using n by (simp del: unat_0_iff)
  moreover have "[0..<4] = 0 # [1..<4]" by (simp add: upt_rec)
  ultimately have "cmos_ov7740_read kmem copies True count buf s' = Inl UseAfterFree"
    unfolding cmos_ov7740_read_def Let_def s'(4) by (simp add: s'(5))
  then show ?thesis using s' by blast
qed

theorem cmos_reqbufs_frees_dma_memory_witness:
  "\<exists>s'. cmos_ov7740_vidioc_reqbufs ((!) [0xc1000000, 0xc1100000, 0xc1200000, 0xc1300000]) (cmos_demo 320 240) = Inr (- ENOMEM, s') \<and>
    regs s' CIPRCLRSA4 = 0x31000000 \<and> cmos_ov7740_release s' = Inl UseAfterFree"
proof -
  let ?get = "(!) [0xc1000000, 0xc1100000, 0xc1200000, 0xc1300000 :: u32]"
  have "?get i \<noteq> 0" if "i < 4" for i
  proof -
    have "i \<in> {0, 1, 2, 3}" using that by auto
    then show ?thesis by auto
  qed
  then have "\<forall>i<4. ?get i \<noteq> 0 \<and> ?get i \<notin> fst ` set (pages (cmos_demo 320 240))"
    by (simp add: cmos_demo_def cmos_start_def)
  from cmos_reqbufs_frees_dma_memory [OF _ this, of 1 "\<lambda>_ _. []" "\<lambda>_. True" "[]"] show ?thesis
    by (auto simp: cmos_demo_def cmos_start_def virt_to_phys_def)
qed

section \<open>Probe\<close>

text \<open>
  The values written to CIGCTRL, and the camera registers written over I2C.
\<close>

fun cigctrl_writes :: "hw_event list \<Rightarrow> u32 list" where
  "cigctrl_writes [] = []"
| "cigctrl_writes (e # es) = (case e of Wr r v \<Rightarrow> (if r = CIGCTRL then [v] else []) | _ \<Rightarrow> []) @ cigctrl_writes es"

fun i2c_writes :: "hw_event list \<Rightarrow> (u8 \<times> u8) list" where
  "i2c_writes [] = []"
| "i2c_writes (e # es) = (case e of I2cWrite a v \<Rightarrow> [(a, v)] | _ \<Rightarrow> []) @ i2c_writes es"

lemma writes_append [simp]:
  "cigctrl_writes (xs @ ys) = cigctrl_writes xs @ cigctrl_writes ys" "i2c_writes (xs @ ys) = i2c_writes xs @ i2c_writes ys"
  by (induction xs) auto

lemma init_trace:
  "fold (\<lambda>(a, v) t. hw (MDelay 2) (hw (I2cWrite a v) t)) tab s =
     s\<lparr>trace := trace s @ concat (map (\<lambda>(a, v). [I2cWrite a v, MDelay 2]) tab)\<rparr>"
  by (induction tab arbitrary: s) (auto simp: hw_def)

lemma init_writes [simp]:
  "cigctrl_writes (concat (map (\<lambda>(a, v). [I2cWrite a v, MDelay 2]) tab)) = []"
  "i2c_writes (concat (map (\<lambda>(a, v). [I2cWrite a v, MDelay 2]) tab)) = tab"
  by (induction tab) auto

text \<open>
  C21: Probing resets the controller with a pulse 1, 0 on bit 31 of CIGCTRL and then the camera
  module with the levels 1, 0, 1 on bit 30, each level held for 30 ms; only then, and after all
  other register writes, the initialisation table goes to the camera over I2C, completely and in
  order; the interrupts are requested and the device registered last.
\<close>

theorem cmos_probe_order:
  "\<exists>es1 es2. trace (snd (cmos_ov7740_probe s)) = trace s @ es1 @ es2 @ [RequestIrq ''CAM_C'', RequestIrq ''CAM_P'', RegisterDevice] \<and>
    i2c_writes es1 = [] \<and> cigctrl_writes es2 = [] \<and> i2c_writes es2 = ov7740_setting_30fps_VGA_640_480 \<and>
    map (\<lambda>v. (bit v 31, bit v 30)) (cigctrl_writes es1) =
      [(True, bit (regs s CIGCTRL) 30), (False, bit (regs s CIGCTRL) 30), (False, True), (False, False), (False, True)] \<and>
    (\<exists>es a b c. es1 = es @ [Wr CIGCTRL a, MDelay 30, Wr CIGCTRL b, MDelay 30, Wr CIGCTRL c, MDelay 30]) \<and>
    regs (snd (cmos_ov7740_probe s)) CISRCFMT = regs s CISRCFMT"
proof -
  let ?s = "cmos_ov7740_reset (cmos_ov7740_clk_cfg (cmos_ov7740_camif_reset (cmos_ov7740_gpio_cfg s)))"
  define es2 where "es2 = [I2cRead 0x0a, I2cRead 0x0b] @ concat (map (\<lambda>(a, v). [I2cWrite a v, MDelay 2]) ov7740_setting_30fps_VGA_640_480)"
  have p: "trace (snd (cmos_ov7740_probe s)) = trace ?s @ es2 @ [RequestIrq ''CAM_C'', RequestIrq ''CAM_P'', RegisterDevice]"
    "regs (snd (cmos_ov7740_probe s)) = regs ?s"
    unfolding cmos_ov7740_probe_def cmos_ov7740_init_def init_trace Let_def snd_conv es2_def by (simp_all add: hw_def)
  define c where "c = regs s CIGCTRL"
  define c1 where "c1 = c OR push_bit 31 1"
  define c2 where "c2 = c1 AND NOT (push_bit 31 1)"
  define c3 where "c3 = c2 OR push_bit 30 1"
  define c4 where "c4 = c3 AND NOT (push_bit 30 1)"
  define c5 where "c5 = c4 OR push_bit 30 1"
  note cs = c_def c1_def c2_def c3_def c4_def c5_def
  define es where "es = [Wr GPJCON 0x2aaaaaa, Wr GPJDAT 0, Wr GPJUP 0, Wr CIGCTRL c1, MDelay 10, Wr CIGCTRL c2, MDelay 10,
    ClkEnable ''camif'', ClkRate ''camif-upll'' 2400000, MDelay 100]"
  define es1 where "es1 = es @ [Wr CIGCTRL c3, MDelay 30, Wr CIGCTRL c4, MDelay 30, Wr CIGCTRL c5, MDelay 30]"
  have t: "trace ?s = trace s @ es1" "regs ?s CISRCFMT = regs s CISRCFMT"
    by (simp_all add: es1_def es_def cs cmos_ov7740_reset_def cmos_ov7740_clk_cfg_def cmos_ov7740_camif_reset_def
        cmos_ov7740_gpio_cfg_def hw_def wr_def Let_def)
  have b: "bit c1 31" "bit c1 30 = bit c 30" "\<not> bit c2 31" "bit c2 30 = bit c 30" "\<not> bit c3 31" "bit c3 30"
    "\<not> bit c4 31" "\<not> bit c4 30" "\<not> bit c5 31" "bit c5 30"
    by (simp_all add: c1_def c2_def c3_def c4_def c5_def bit_or_iff bit_and_iff bit_not_iff)
  have "i2c_writes es1 = []" "cigctrl_writes es1 = [c1, c2, c3, c4, c5]" by (simp_all add: es1_def es_def)
  then have "i2c_writes es1 = []" "map (\<lambda>v. (bit v 31, bit v 30)) (cigctrl_writes es1) =
      [(True, bit c 30), (False, bit c 30), (False, True), (False, False), (False, True)]"
    using b by simp_all
  moreover have "cigctrl_writes es2 = []" "i2c_writes es2 = ov7740_setting_30fps_VGA_640_480" by (simp_all add: es2_def)
  moreover have "\<exists>es a b c. es1 = es @ [Wr CIGCTRL a, MDelay 30, Wr CIGCTRL b, MDelay 30, Wr CIGCTRL c, MDelay 30]"
    using es1_def by blast
  ultimately show ?thesis
    using p t by (intro exI [of _ es1] exI [of _ es2]) (simp add: c_def)
qed

end
