(* ===== verification/Alsa.thy ===== *)
theory Alsa
  imports Prelude
begin

text \<open>
  The sound drivers (Alsa/8_th): the UDA1341 codec behind its three-wire L3 bus
  (codec/uda1341.c), the IIS controller (platform/s3c2440_iis.c) and the DMA platform
  (platform/s3c2440_dma.c).  The L3 lines are bits 2 (mode), 3 (data) and 4 (clock) of the port
  register GPBDAT; the model keeps the register and the list of the values written to it.
\<close>

section \<open>The L3 bus\<close>

record codec =
  gpbcon :: u32
  gpbdat :: u32
  gpb_trace :: "u32 list"
  reg_cache :: "u8 list"

definition set_line :: "nat \<Rightarrow> bool \<Rightarrow> codec \<Rightarrow> codec" where
  "set_line n v s =
     (let d = (if v then set_bit n (gpbdat s) else unset_bit n (gpbdat s))
      in s\<lparr>gpbdat := d, gpb_trace := gpb_trace s @ [d]\<rparr>)"

definition set_mod :: "bool \<Rightarrow> codec \<Rightarrow> codec" where "set_mod = set_line 2"
definition set_clk :: "bool \<Rightarrow> codec \<Rightarrow> codec" where "set_clk = set_line 4"
definition set_dat :: "bool \<Rightarrow> codec \<Rightarrow> codec" where "set_dat = set_line 3"

primrec send_bits :: "nat \<Rightarrow> u32 \<Rightarrow> codec \<Rightarrow> codec" where
  "send_bits 0 byte s = s"
| "send_bits (Suc n) byte s = send_bits n (drop_bit 1 byte) (set_clk True (set_dat (odd byte) (set_clk False s)))"

definition sendbyte :: "u32 \<Rightarrow> codec \<Rightarrow> codec" where
  "sendbyte byte s = send_bits 8 byte s"

definition l3_write :: "u8 \<Rightarrow> u8 \<Rightarrow> codec \<Rightarrow> codec" where
  "l3_write addr data s =
     (let s1 = set_mod True (set_dat True (set_clk True s));
          s2 = sendbyte (ucast addr) (set_mod False s1);
          s3 = sendbyte (ucast data) (set_mod True s2)
      in set_mod True (set_dat True (set_clk True s3)))"

section \<open>Codec registers\<close>

abbreviation (input) UDA1341_REG_NUM :: nat where "UDA1341_REG_NUM \<equiv> 12"
abbreviation (input) UDA1341_DATA0_ADDR :: u8 where "UDA1341_DATA0_ADDR \<equiv> 0x14"

definition uda1341_reg :: "u8 list" where
  "uda1341_reg = [0x00, 0x40, 0x80, 0x04, 0x04, 0x04, 0x00, 0x00, 0x00, 0x00, 0x00, 0x83]"

definition uda1341_reg_addr :: "u8 list" where
  "uda1341_reg_addr = [0x14, 0x14, 0x14, 0, 1, 2, 4, 5, 6, 0x15, 0x16, 0x16]"

definition uda1341_data_bit :: "u8 list" where
  "uda1341_data_bit = [0, 0x40, 0x80, 0, 0, 0, 0, 0, 0, 0, 0, 0x80]"

definition uda1341_read_reg_cache :: "nat \<Rightarrow> codec \<Rightarrow> u32" where
  "uda1341_read_reg_cache reg s = (if reg \<ge> UDA1341_REG_NUM then -1 else ucast (reg_cache s ! reg))"

definition uda1341_write_reg :: "nat \<Rightarrow> u32 \<Rightarrow> codec \<Rightarrow> int \<times> codec" where
  "uda1341_write_reg reg v s =
     (if reg \<ge> UDA1341_REG_NUM then (- 1, s)
      else
        let s1 = s\<lparr>reg_cache := (reg_cache s)[reg := ucast v]\<rparr> in
        if 3 \<le> reg \<and> reg \<le> 8
        then (0, l3_write UDA1341_DATA0_ADDR (ucast v OR 0xE0)
                  (l3_write UDA1341_DATA0_ADDR ((uda1341_reg_addr ! reg) OR 0xC0) s1))
        else (0, l3_write (uda1341_reg_addr ! reg) (ucast v OR (uda1341_data_bit ! reg)) s1))"

text \<open>
  The calls in \<open>uda1341_init_regs\<close> leave out the codec argument; they are read with it.
\<close>

definition uda1341_init_regs :: "codec \<Rightarrow> codec" where
  "uda1341_init_regs s =
     (let s0 = s\<lparr>gpbcon := (gpbcon s AND NOT (push_bit 4 3 OR push_bit 6 3 OR push_bit 8 3)) OR (push_bit 4 1 OR push_bit 6 1 OR push_bit 8 1)\<rparr>;
          s1 = snd (uda1341_write_reg 10 (0x40 OR 0x10 OR 0x01) s0);
          s2 = snd (uda1341_write_reg 11 (0x02 OR 0x01) s1);
          s3 = snd (uda1341_write_reg 0 0 s2);
          s4 = snd (uda1341_write_reg 1 0 s3)
      in snd (uda1341_write_reg 2 0 s4))"

section \<open>IIS controller\<close>

record s3c2440_iis_regs =
  gpecon :: u32
  iiscon :: u32
  iismod :: u32
  iispsr :: u32
  iisfcon :: u32

abbreviation (input) SNDRV_PCM_FORMAT_S8 :: int where "SNDRV_PCM_FORMAT_S8 \<equiv> 0"
abbreviation (input) SNDRV_PCM_FORMAT_S16_LE :: int where "SNDRV_PCM_FORMAT_S16_LE \<equiv> 2"

definition tmp_fs :: "u32 \<Rightarrow> nat \<Rightarrow> int" where
  "tmp_fs rate i = int (unat rate div 384 div (i + 1))"

text \<open>
  The search for the prescaler.  The macro \<open>ABS\<close> is not defined in the sources and is a parameter.
\<close>

fun find_pre :: "(int \<Rightarrow> int \<Rightarrow> int) \<Rightarrow> u32 \<Rightarrow> int \<Rightarrow> nat list \<Rightarrow> int \<times> nat \<Rightarrow> int \<times> nat" where
  "find_pre ABS rate fs [] best = best"
| "find_pre ABS rate fs (i # is') (m, pre) =
     find_pre ABS rate fs is' (if ABS (tmp_fs rate i) fs < m then (ABS (tmp_fs rate i) fs, i) else (m, pre))"

definition s3c2440_i2s_hw_params ::
    "(int \<Rightarrow> int \<Rightarrow> int) \<Rightarrow> u32 \<Rightarrow> int \<Rightarrow> int \<Rightarrow> s3c2440_iis_regs \<Rightarrow> int \<times> s3c2440_iis_regs" where
  "s3c2440_i2s_hw_params ABS rate format fs r =
     (let r1 = r\<lparr>gpecon := (gpecon r AND NOT 0x3ff) OR 0x2aa\<rparr>;
          setup = (\<lambda>md. let pre = of_nat (snd (find_pre ABS rate fs [0..<32] (0xffff, 0)))
                         in (0, r1\<lparr>iismod := md, iispsr := push_bit 5 pre OR pre,
                                   iisfcon := push_bit 15 1 OR push_bit 13 1, iiscon := push_bit 5 1 OR push_bit 1 1\<rparr>))
      in if format = SNDRV_PCM_FORMAT_S16_LE
         then setup (push_bit 6 2 OR push_bit 3 1 OR push_bit 2 1 OR 1)
         else if format = SNDRV_PCM_FORMAT_S8
         then setup (push_bit 6 2 OR push_bit 2 1 OR 1)
         else (- EINVAL, r1))"

section \<open>DMA platform\<close>

record s3c2440_dma_info =
  buf_max_size :: u32
  phy_addr :: u32
  virt_addr :: u32

abbreviation (input) buffer_bytes_max :: u32 where "buffer_bytes_max \<equiv> 128 * 1024"

definition s3c2440_dma_new :: "bool \<Rightarrow> u32 \<times> u32 \<Rightarrow> s3c2440_dma_info \<Rightarrow> int \<times> s3c2440_dma_info" where
  "s3c2440_dma_new playback mem d =
     (if playback then
        let d1 = d\<lparr>virt_addr := fst mem, phy_addr := (if fst mem = 0 then phy_addr d else snd mem)\<rparr> in
        if virt_addr d1 = 0 then (- ENOMEM, d1)
        else (0, d1\<lparr>buf_max_size := buffer_bytes_max\<rparr>)
      else (0, d))"

definition s3c2440_dma_open :: "int \<Rightarrow> int" where
  "s3c2440_dma_open irq = (if irq \<noteq> 0 then - EIO else 0)"

text \<open>
  \<open>hw_params\<close> stores the size the caller asks for in the run-time record.
\<close>

definition s3c2440_dma_hw_params :: "u32 \<Rightarrow> int \<times> u32" where
  "s3c2440_dma_hw_params totbytes = (0, totbytes)"

definition s3c2440_dma_trigger :: "int \<Rightarrow> int" where
  "s3c2440_dma_trigger cmd = (if cmd \<in> {1, 6, 4} then 0 else if cmd \<in> {0, 5, 3} then 0 else - EINVAL)"

section \<open>What a receiver on the bus sees\<close>

text \<open>
  The codec samples mode and data at every rising edge of the clock.
\<close>

fun l3_samples :: "u32 \<Rightarrow> u32 list \<Rightarrow> (bool \<times> bool) list" where
  "l3_samples prev [] = []"
| "l3_samples prev (v # vs) = (if \<not> bit prev 4 \<and> bit v 4 then [(bit v 2, bit v 3)] else []) @ l3_samples v vs"

definition l3_message :: "u8 \<times> u8 \<Rightarrow> (bool \<times> bool) list" where
  "l3_message m = map (\<lambda>i. (False, bit (fst m) i)) [0..<8] @ map (\<lambda>i. (True, bit (snd m) i)) [0..<8]"

text \<open>
  From \<open>s\<close> to \<open>s'\<close> the bus shows these samples, and only the three lines of the port change.
\<close>

definition emits :: "codec \<Rightarrow> (bool \<times> bool) list \<Rightarrow> codec \<Rightarrow> bool" where
  "emits s samples s' \<longleftrightarrow> (\<exists>vs. gpb_trace s' = gpb_trace s @ vs \<and> last (gpbdat s # vs) = gpbdat s' \<and>
     l3_samples (gpbdat s) vs = samples) \<and> (\<forall>n. n \<notin> {2, 3, 4} \<longrightarrow> bit (gpbdat s') n = bit (gpbdat s) n)"

lemma samples_append: "l3_samples p (vs @ ws) = l3_samples p vs @ l3_samples (last (p # vs)) ws"
  by (induction vs arbitrary: p) auto

lemma emits_frame [simp]:
  "emits (s\<lparr>reg_cache := c\<rparr>) xs t = emits s xs t" "emits s xs (t\<lparr>reg_cache := c\<rparr>) = emits s xs t"
  "emits (s\<lparr>gpbcon := d\<rparr>) xs t = emits s xs t"
  by (simp_all add: emits_def)

lemma set_line_frame [simp]: "reg_cache (set_line n v s) = reg_cache s" "gpbcon (set_line n v s) = gpbcon s"
  by (simp_all add: set_line_def Let_def)

lemma send_bits_frame [simp]: "reg_cache (send_bits n byte s) = reg_cache s" "gpbcon (send_bits n byte s) = gpbcon s"
  by (induction n arbitrary: byte s) (simp_all add: set_clk_def set_dat_def)

lemma l3_write_frame [simp]: "reg_cache (l3_write a d s) = reg_cache s" "gpbcon (l3_write a d s) = gpbcon s"
  by (simp_all add: l3_write_def sendbyte_def set_clk_def set_dat_def set_mod_def Let_def)

lemma emits_refl: "emits s [] s"
  by (auto simp: emits_def)

lemma emits_trans:
  assumes "emits s xs t" "emits t ys u"
  shows "emits s (xs @ ys) u"
proof -
  obtain vs ws where "gpb_trace t = gpb_trace s @ vs" "last (gpbdat s # vs) = gpbdat t" "l3_samples (gpbdat s) vs = xs"
    "gpb_trace u = gpb_trace t @ ws" "last (gpbdat t # ws) = gpbdat u" "l3_samples (gpbdat t) ws = ys"
    using assms unfolding emits_def by blast
  then have "gpb_trace u = gpb_trace s @ (vs @ ws) \<and> last (gpbdat s # (vs @ ws)) = gpbdat u \<and> l3_samples (gpbdat s) (vs @ ws) = xs @ ys"
    by (auto simp: samples_append last_append split: if_splits)
  then show ?thesis using assms unfolding emits_def by auto
qed

lemma set_line_bit [simp]: "n < 32 \<Longrightarrow> bit (gpbdat (set_line n v s)) k = (if k = n then v else bit (gpbdat s) k)"
  by (auto simp: set_line_def bit_set_bit_iff bit_unset_bit_iff Let_def)

lemma emits_line:
  assumes "n \<in> {2, 3, 4}"
  shows "emits s (if n = 4 \<and> v \<and> \<not> bit (gpbdat s) 4 then [(bit (gpbdat s) 2, bit (gpbdat s) 3)] else []) (set_line n v s)"
proof -
  have "\<exists>d. gpbdat (set_line n v s) = d \<and> gpb_trace (set_line n v s) = gpb_trace s @ [d]" by (simp add: set_line_def Let_def)
  then obtain d where d: "gpbdat (set_line n v s) = d" "gpb_trace (set_line n v s) = gpb_trace s @ [d]" by blast
  have b: "bit d k = (if k = n then v else bit (gpbdat s) k)" for k using set_line_bit [of n v s k] assms d(1) by auto
  show ?thesis
    unfolding emits_def using assms d b by (intro conjI exI [of _ "[d]"]) (auto simp: set_line_def Let_def)
qed

lemma send_bits_emits:
  "emits s (map (\<lambda>i. (bit (gpbdat s) 2, bit byte i)) [0..<n]) (send_bits n byte s) \<and>
   bit (gpbdat (send_bits n byte s)) 2 = bit (gpbdat s) 2 \<and> (0 < n \<longrightarrow> bit (gpbdat (send_bits n byte s)) 4)"
proof (induction n arbitrary: byte s)
  case 0
  then show ?case by (simp add: emits_refl)
next
  case (Suc n)
  let ?a = "set_clk False s"
  let ?b = "set_dat (odd byte) ?a"
  let ?c = "set_clk True ?b"
  have l: "emits s [] ?a" "emits ?a [] ?b" "emits ?b [(bit (gpbdat s) 2, odd byte)] ?c"
    using emits_line [of 4 s False] emits_line [of 3 ?a "odd byte"] emits_line [of 4 ?b True]
    by (simp_all add: set_clk_def set_dat_def)
  have e: "emits s [(bit (gpbdat s) 2, odd byte)] ?c" using emits_trans [OF emits_trans [OF l(1,2)] l(3)] by simp
  have m: "bit (gpbdat ?c) 2 = bit (gpbdat s) 2" "bit (gpbdat ?c) 4" by (simp_all add: set_clk_def set_dat_def)
  have q: "[(bit (gpbdat s) 2, odd byte)] @ map (\<lambda>i. (bit (gpbdat ?c) 2, bit (drop_bit 1 byte) i)) [0..<n] =
      map (\<lambda>i. (bit (gpbdat s) 2, bit byte i)) [0..<Suc n]"
    unfolding m(1) map_upt_Suc by (simp add: bit_0 bit_drop_bit_eq)
  note ih = Suc.IH [of ?c "drop_bit 1 byte"]
  have "emits s (map (\<lambda>i. (bit (gpbdat s) 2, bit byte i)) [0..<Suc n]) (send_bits n (drop_bit 1 byte) ?c)"
    using emits_trans [OF e conjunct1 [OF ih]] unfolding q .
  then show ?case
    unfolding send_bits.simps using ih m by (cases "n = 0") simp_all
qed

lemma l3_write_emits:
  assumes "bit (gpbdat s) 4"
  shows "emits s (l3_message (addr, data)) (l3_write addr data s) \<and> bit (gpbdat (l3_write addr data s)) 4"
proof -
  define s1 where "s1 = set_clk True s"
  define s2 where "s2 = set_dat True s1"
  define s3 where "s3 = set_mod True s2"
  define s4 where "s4 = set_mod False s3"
  define s5 where "s5 = sendbyte (ucast addr) s4"
  define s6 where "s6 = set_mod True s5"
  define s7 where "s7 = sendbyte (ucast data) s6"
  define s8 where "s8 = set_clk True s7"
  define s9 where "s9 = set_dat True s8"
  have w: "l3_write addr data s = set_mod True s9"
    by (simp add: l3_write_def s1_def s2_def s3_def s4_def s5_def s6_def s7_def s8_def s9_def Let_def)
  have u: "map (\<lambda>i. (b, bit (ucast x :: u32) i)) [0..<8] = map (\<lambda>i. (b, bit x i)) [0..<8]" for b and x :: u8
    by (auto simp: bit_ucast_iff)
  have a: "emits s [] s1" "emits s1 [] s2" "emits s2 [] s3" "emits s3 [] s4"
    using emits_line [of 4 s True] emits_line [of 3 s1 True] emits_line [of 2 s2 True] emits_line [of 2 s3 False] assms
    by (simp_all add: s1_def s2_def s3_def s4_def set_clk_def set_dat_def set_mod_def)
  have m4: "\<not> bit (gpbdat s4) 2" by (simp add: s4_def set_mod_def)
  have b: "emits s4 (map (\<lambda>i. (False, bit addr i)) [0..<8]) s5"
    using send_bits_emits [of s4 "ucast addr" 8] m4 u [of False addr] by (simp add: s5_def sendbyte_def)
  have m6: "bit (gpbdat s6) 2" "emits s5 [] s6" using emits_line [of 2 s5 True] by (simp_all add: s6_def set_mod_def)
  have c: "emits s6 (map (\<lambda>i. (True, bit data i)) [0..<8]) s7" "bit (gpbdat s7) 4"
    using send_bits_emits [of s6 "ucast data" 8] m6 u [of True data] by (simp_all add: s7_def sendbyte_def)
  have d: "emits s7 [] s8" "emits s8 [] s9" "emits s9 [] (set_mod True s9)" "bit (gpbdat (set_mod True s9)) 4"
    using emits_line [of 4 s7 True] emits_line [of 3 s8 True] emits_line [of 2 s9 True] c(2)
    by (simp_all add: s8_def s9_def set_clk_def set_dat_def set_mod_def)
  note e1 = emits_trans [OF emits_trans [OF a(1,2)] emits_trans [OF a(3,4)]]
  note e2 = emits_trans [OF emits_trans [OF e1 b] emits_trans [OF m6(2) c(1)]]
  show ?thesis
    using emits_trans [OF e2 emits_trans [OF d(1) emits_trans [OF d(2,3)]]] d(4) by (simp add: w l3_message_def)
qed

text \<open>
  The messages of a register write.
\<close>

definition reg_messages :: "nat \<Rightarrow> u32 \<Rightarrow> (u8 \<times> u8) list" where
  "reg_messages reg v =
     (if 3 \<le> reg \<and> reg \<le> 8 then [(0x14, (uda1341_reg_addr ! reg) OR 0xC0), (0x14, ucast v OR 0xE0)]
      else [(uda1341_reg_addr ! reg, ucast v OR (uda1341_data_bit ! reg))])"

lemma write_reg_emits:
  assumes "reg < UDA1341_REG_NUM" "bit (gpbdat s) 4"
  shows "\<exists>s'. uda1341_write_reg reg v s = (0, s') \<and> emits s (concat (map l3_message (reg_messages reg v))) s' \<and>
    bit (gpbdat s') 4 \<and> reg_cache s' = (reg_cache s)[reg := ucast v] \<and> gpbcon s' = gpbcon s"
proof -
  let ?s = "s\<lparr>reg_cache := (reg_cache s)[reg := ucast v]\<rparr>"
  have "bit (gpbdat ?s) 4" using assms(2) by simp
  note w = l3_write_emits [OF this, simplified]
  show ?thesis
  proof (cases "3 \<le> reg \<and> reg \<le> 8")
    case True
    then show ?thesis
      using assms(1) emits_trans [OF conjunct1 [OF w] conjunct1 [OF l3_write_emits [OF conjunct2 [OF w]]]] l3_write_emits [OF conjunct2 [OF w]]
      by (simp add: uda1341_write_reg_def reg_messages_def)
  next
    case False
    then show ?thesis using assms(1) w by (auto simp: uda1341_write_reg_def reg_messages_def)
  qed
qed


definition codec_demo :: codec where
  "codec_demo = \<lparr>gpbcon = 0, gpbdat = 0x1c, gpb_trace = [], reg_cache = uda1341_reg\<rparr>"

lemma codec_demo_ok: "length (reg_cache codec_demo) = 12" "bit (gpbdat codec_demo) 4"
  by (simp_all add: codec_demo_def uda1341_reg_def)


text \<open>
  Initialising the codec makes the three port pins outputs, leaves the other pins as they
  were, and sends exactly five messages: reset with a 384 fs clock, both converters on, volume,
  tone and mute registers.
\<close>

lemma uda1341_init_messages:
  assumes "bit (gpbdat s) 4"
  shows "emits s (concat (map l3_message [(0x16, 0x51), (0x16, 0x83), (0x14, 0), (0x14, 0x40), (0x14, 0x80)])) (uda1341_init_regs s) \<and>
    reg_cache (uda1341_init_regs s) = (reg_cache s)[10 := 0x51, 11 := 3, 0 := 0, 1 := 0, 2 := 0] \<and>
    (\<forall>n<32. bit (gpbcon (uda1341_init_regs s)) n =
       (if n \<in> {4, 6, 8} then True else if n \<in> {5, 7, 9} then False else bit (gpbcon s) n))"
proof -
  define c where "c = (gpbcon s AND NOT (push_bit 4 3 OR push_bit 6 3 OR push_bit 8 3)) OR (push_bit 4 1 OR push_bit 6 1 OR push_bit 8 1)"
  define s0 where "s0 = s\<lparr>gpbcon := c\<rparr>"
  have 0: "bit (gpbdat s0) 4" using assms by (simp add: s0_def)
  obtain s1 where 1: "uda1341_write_reg 10 0x51 s0 = (0, s1)" "emits s0 (concat (map l3_message (reg_messages 10 0x51))) s1"
    "bit (gpbdat s1) 4" "reg_cache s1 = (reg_cache s0)[10 := 0x51]" "gpbcon s1 = c"
    using write_reg_emits [of 10 s0 "0x51"] 0 by (auto simp: s0_def)
  obtain s2 where 2: "uda1341_write_reg 11 3 s1 = (0, s2)" "emits s1 (concat (map l3_message (reg_messages 11 3))) s2"
    "bit (gpbdat s2) 4" "reg_cache s2 = (reg_cache s1)[11 := 3]" "gpbcon s2 = c"
    using write_reg_emits [of 11 s1 3] 1(3,5) by auto
  obtain s3 where 3: "uda1341_write_reg 0 0 s2 = (0, s3)" "emits s2 (concat (map l3_message (reg_messages 0 0))) s3"
    "bit (gpbdat s3) 4" "reg_cache s3 = (reg_cache s2)[0 := 0]" "gpbcon s3 = c"
    using write_reg_emits [of 0 s2 0] 2(3,5) by auto
  obtain s4 where 4: "uda1341_write_reg 1 0 s3 = (0, s4)" "emits s3 (concat (map l3_message (reg_messages 1 0))) s4"
    "bit (gpbdat s4) 4" "reg_cache s4 = (reg_cache s3)[1 := 0]" "gpbcon s4 = c"
    using write_reg_emits [of 1 s3 0] 3(3,5) by auto
  obtain s5 where 5: "uda1341_write_reg 2 0 s4 = (0, s5)" "emits s4 (concat (map l3_message (reg_messages 2 0))) s5"
    "reg_cache s5 = (reg_cache s4)[2 := 0]" "gpbcon s5 = c"
    using write_reg_emits [of 2 s4 0] 4(3,5) by auto
  have i: "uda1341_init_regs s = s5"
    using 1(1) 2(1) 3(1) 4(1) 5(1) by (simp add: uda1341_init_regs_def s0_def c_def)
  have "reg_messages 10 0x51 = [(0x16, 0x51)]" "reg_messages 11 3 = [(0x16, 0x83)]" "reg_messages 0 0 = [(0x14, 0)]"
    "reg_messages 1 0 = [(0x14, 0x40)]" "reg_messages 2 0 = [(0x14, 0x80)]"
    by (simp_all add: reg_messages_def uda1341_reg_addr_def uda1341_data_bit_def)
  then have "emits s (concat (map l3_message [(0x16, 0x51), (0x16, 0x83), (0x14, 0), (0x14, 0x40), (0x14, 0x80)])) s5"
    using emits_trans [OF emits_trans [OF emits_trans [OF emits_trans [OF 1(2) 2(2)] 3(2)] 4(2)] 5(2)] by (simp add: s0_def)
  moreover have "\<forall>n<32. bit c n = (if n \<in> {4, 6, 8} then True else if n \<in> {5, 7, 9} then False else bit (gpbcon s) n)"
  proof (intro allI impI)
    fix n :: nat assume n: "n < 32"
    have three: "(3 :: u32) = mask 2" by (simp add: mask_eq_exp_minus_1)
    have b3: "bit (3 :: u32) k \<longleftrightarrow> k < 2" for k unfolding three bit_mask_iff by auto
    consider "n < 4" | "n = 4" | "n = 5" | "n = 6" | "n = 7" | "n = 8" | "n = 9" | "9 < n" by linarith
    then show "bit c n = (if n \<in> {4, 6, 8} then True else if n \<in> {5, 7, 9} then False else bit (gpbcon s) n)"
      unfolding c_def bit_and_iff bit_or_iff bit_not_iff bit_push_bit_iff bit_1_iff b3 by cases (use n in auto)
  qed
  ultimately show ?thesis using i 1(4) 2(4) 3(4) 4(4) 5(3,4) by (simp add: s0_def)
qed

section \<open>Sample rate\<close>

lemma find_pre_min:
  assumes "\<And>a b. ABS a b = \<bar>a - b\<bar>"
  shows "fst (find_pre ABS rate fs is' (m, p)) \<le> m \<and> (\<forall>i\<in>set is'. fst (find_pre ABS rate fs is' (m, p)) \<le> \<bar>tmp_fs rate i - fs\<bar>) \<and>
    (find_pre ABS rate fs is' (m, p) = (m, p) \<or>
     snd (find_pre ABS rate fs is' (m, p)) \<in> set is' \<and>
     fst (find_pre ABS rate fs is' (m, p)) = \<bar>tmp_fs rate (snd (find_pre ABS rate fs is' (m, p))) - fs\<bar>)"
proof (induction is' arbitrary: m p)
  case (Cons i is')
  let ?b = "if ABS (tmp_fs rate i) fs < m then (ABS (tmp_fs rate i) fs, i) else (m, p)"
  obtain m' p' where b: "?b = (m', p')" by (metis surj_pair)
  have "find_pre ABS rate fs (i # is') (m, p) = find_pre ABS rate fs is' (m', p')" using b by simp
  moreover have "m' \<le> m" "m' \<le> \<bar>tmp_fs rate i - fs\<bar>" "(m', p') = (m, p) \<or> p' = i \<and> m' = \<bar>tmp_fs rate i - fs\<bar>"
    using b by (auto simp: assms split: if_splits)
  ultimately show ?case using Cons.IH [of m' p'] by (auto intro: order_trans)
qed simp

text \<open>
  C23: For the two supported sample formats the IIS controller is programmed with the prescaler
  that comes closest to the requested rate: no other of the 32 values gives a smaller difference,
  as long as some value comes within 65534 Hz.  Both prescaler fields of the register hold it.
  Any other format is refused and leaves the controller registers unchanged.
\<close>

theorem i2s_prescaler_closest:
  assumes ABS: "\<And>a b. ABS a b = \<bar>a - b\<bar>" and close: "\<exists>i<32. \<bar>tmp_fs rate i - fs\<bar> < 0xffff"
  shows "case s3c2440_i2s_hw_params ABS rate format fs r of (ret, r') \<Rightarrow>
    if format \<in> {SNDRV_PCM_FORMAT_S16_LE, SNDRV_PCM_FORMAT_S8}
    then ret = 0 \<and> unat (take_bit 5 (iispsr r')) = unat (drop_bit 5 (iispsr r')) \<and>
      (\<forall>i<32. \<bar>tmp_fs rate (unat (take_bit 5 (iispsr r'))) - fs\<bar> \<le> \<bar>tmp_fs rate i - fs\<bar>)
    else ret = - EINVAL \<and> r' = r\<lparr>gpecon := gpecon r'\<rparr>"
proof -
  define res where "res = find_pre ABS rate fs [0..<32] (0xffff, 0)"
  obtain j where j: "j < 32" "\<bar>tmp_fs rate j - fs\<bar> < 0xffff" using close by blast
  have m: "\<forall>i<32. fst res \<le> \<bar>tmp_fs rate i - fs\<bar>"
    "res = (0xffff, 0) \<or> snd res < 32 \<and> fst res = \<bar>tmp_fs rate (snd res) - fs\<bar>"
    using find_pre_min [OF ABS, of rate fs "[0..<32]" "0xffff" 0] by (auto simp: res_def)
  then have p: "snd res < 32" "\<forall>i<32. \<bar>tmp_fs rate (snd res) - fs\<bar> \<le> \<bar>tmp_fs rate i - fs\<bar>"
    using j by auto
  have f: "unat (take_bit 5 (push_bit 5 x OR x)) = unat x \<and> unat (drop_bit 5 (push_bit 5 x OR x)) = unat x" if "unat x < 32" for x :: u32
  proof -
    have x: "take_bit 5 x = x" using that by (simp add: word_unat_eq_iff unsigned_take_bit_eq take_bit_nat_eq_self)
    have "take_bit 5 (push_bit 5 (take_bit 5 x) OR take_bit 5 x) = take_bit 5 x"
      "drop_bit 5 (push_bit 5 (take_bit 5 x) OR take_bit 5 x) = take_bit 5 x"
      by (rule bit_eqI, auto simp: bit_simps)+
    then show ?thesis unfolding x by simp
  qed
  show ?thesis
    using f [of "of_nat (snd res)"] p unfolding s3c2440_i2s_hw_params_def res_def [symmetric] Let_def
    by (simp add: unat_of_nat)
qed

theorem i2s_prescaler_closest_witness:
  "case s3c2440_i2s_hw_params (\<lambda>a b. \<bar>a - b\<bar>) 50000000 SNDRV_PCM_FORMAT_S16_LE 44100
      \<lparr>gpecon = 0, iiscon = 0, iismod = 0, iispsr = 0, iisfcon = 0\<rparr> of (ret, r') \<Rightarrow>
    ret = 0 \<and> \<bar>tmp_fs 50000000 (unat (take_bit 5 (iispsr r'))) - 44100\<bar> \<le> \<bar>tmp_fs 50000000 2 - 44100\<bar>"
proof -
  have "\<bar>tmp_fs 50000000 2 - 44100\<bar> < 0xffff" by (simp add: tmp_fs_def)
  then have "\<exists>i<32. \<bar>tmp_fs 50000000 i - 44100\<bar> < 0xffff" by (intro exI [of _ 2]) simp
  from i2s_prescaler_closest [OF _ this, where ABS = "\<lambda>a b. \<bar>a - b\<bar>" and format = SNDRV_PCM_FORMAT_S16_LE and
      r = "\<lparr>gpecon = 0, iiscon = 0, iismod = 0, iispsr = 0, iisfcon = 0\<rparr>"] show ?thesis
    by (auto split: prod.splits)
qed

end
