(* ===== verification/Pixels.thy ===== *)
theory Pixels
  imports Prelude
begin

text \<open>
  Pictures in memory (video2lcd/1_th/include/pic_operation.h) and the two operations on them:
  merging a picture into another (render/operation/merge.c) and nearest-neighbour scaling
  (render/operation/zoom.c).  The \<open>int\<close> fields are integers; \<open>unsigned long\<close> arithmetic wraps at
  32 bits.  A pointer into a picture is an offset, which may be negative or too large; the
  access then faults.
\<close>

section \<open>Memory and loops\<close>

definition get_at :: "u8 list \<Rightarrow> int \<Rightarrow> nat \<Rightarrow> u8 list kres" where
  "get_at m off n = (if off < 0 then Inl OutOfBounds else mem_read m (nat off) n)"

definition put_at :: "u8 list \<Rightarrow> int \<Rightarrow> u8 list \<Rightarrow> u8 list kres" where
  "put_at m off bs = (if off < 0 then Inl OutOfBounds else mem_write m (nat off) bs)"

definition memcpy :: "u8 list \<Rightarrow> int \<Rightarrow> u8 list \<Rightarrow> int \<Rightarrow> int \<Rightarrow> u8 list kres" where
  "memcpy dst doff src soff n =
     (if n = 0 then Inr dst
      else if n < 0 then Inl OutOfBounds
      else kbind (get_at src soff (nat n)) (put_at dst doff))"

fun for_each :: "'a list \<Rightarrow> ('a \<Rightarrow> 'm \<Rightarrow> 'm kres) \<Rightarrow> 'm \<Rightarrow> 'm kres" where
  "for_each [] f m = Inr m"
| "for_each (x # xs) f m = kbind (f x m) (for_each xs f)"

text \<open>
  Division of an \<open>int\<close> by 8 rounds towards zero.
\<close>

definition div8 :: "int \<Rightarrow> int" where
  "div8 x = (if x < 0 then - (- x div 8) else x div 8)"

section \<open>Operations\<close>

record pixel_datas =
  iWidth :: int
  iHeight :: int
  iBpp :: int
  iLineBytes :: int
  iTotalBytes :: int
  aucPixelDatas :: "u8 list"

definition PicMerge :: "int \<Rightarrow> int \<Rightarrow> pixel_datas \<Rightarrow> pixel_datas \<Rightarrow> (int \<times> pixel_datas) kres" where
  "PicMerge iX iY small big =
     (if iWidth small > iWidth big \<or> iHeight small > iHeight big \<or> iBpp small \<noteq> iBpp big then Inr (- 1, big)
      else
        let dst = iY * iLineBytes big + div8 (iX * iBpp big)
        in kbind (for_each [0..iHeight small - 1] (\<lambda>i m.
               memcpy m (dst + i * iLineBytes big) (aucPixelDatas small) (i * iLineBytes small) (iLineBytes small))
             (aucPixelDatas big)) (\<lambda>m. Inr (0, big\<lparr>aucPixelDatas := m\<rparr>)))"

definition PicMergeRegion ::
    "int \<Rightarrow> int \<Rightarrow> int \<Rightarrow> int \<Rightarrow> int \<Rightarrow> int \<Rightarrow> pixel_datas \<Rightarrow> pixel_datas \<Rightarrow> (int \<times> pixel_datas) kres" where
  "PicMergeRegion newX newY oldX oldY w h new old =
     (let cpy = div8 (w * iBpp new) in
      if newX < 0 \<or> newX \<ge> iWidth new \<or> newY < 0 \<or> newY \<ge> iHeight new \<or>
         oldX < 0 \<or> oldX \<ge> iWidth old \<or> oldY < 0 \<or> oldY \<ge> iHeight old then Inr (- 1, old)
      else
        let src = newY * iLineBytes new + div8 (newX * iBpp new);
            dst = oldY * iLineBytes old + div8 (oldX * iBpp old)
        in kbind (for_each [0..h - 1] (\<lambda>i m.
               memcpy m (dst + i * iLineBytes old) (aucPixelDatas new) (src + i * iLineBytes new) cpy)
             (aucPixelDatas old)) (\<lambda>m. Inr (0, old\<lparr>aucPixelDatas := m\<rparr>)))"

text \<open>
  The table of source columns; source lines are computed in the same way.
\<close>

definition zoom_index :: "int \<Rightarrow> int \<Rightarrow> nat \<Rightarrow> u32" where
  "zoom_index from to x = of_nat x * of_int from div of_int to"

definition PicZoom :: "bool \<Rightarrow> pixel_datas \<Rightarrow> pixel_datas \<Rightarrow> (int \<times> pixel_datas) kres" where
  "PicZoom mem orig zoom =
     (let pb = of_int (div8 (iBpp orig)) :: u32 in
      if iBpp orig \<noteq> iBpp zoom then Inr (- 1, zoom)
      else if \<not> mem then Inr (- 1, zoom)
      else kbind (for_each [0..<unat (of_int (iHeight zoom) :: u32)] (\<lambda>y m.
             let dst = of_nat y * of_int (iLineBytes zoom) :: u32;
                 src = zoom_index (iHeight orig) (iHeight zoom) y * of_int (iLineBytes orig)
             in for_each [0..<unat (of_int (iWidth zoom) :: u32)] (\<lambda>x m'.
                  memcpy m' (int (unat dst) + int (unat (of_nat x * pb)))
                    (aucPixelDatas orig) (int (unat src) + int (unat (zoom_index (iWidth orig) (iWidth zoom) x * pb)))
                    (int (unat pb))) m)
             (aucPixelDatas zoom)) (\<lambda>m. Inr (0, zoom\<lparr>aucPixelDatas := m\<rparr>)))"

section \<open>Pixels\<close>

text \<open>
  A picture is well formed when its sizes agree with each other and with its memory.
\<close>

definition pix_wf :: "pixel_datas \<Rightarrow> bool" where
  "pix_wf p \<longleftrightarrow> 0 \<le> iWidth p \<and> 0 \<le> iHeight p \<and> iBpp p \<in> {8, 16, 24, 32} \<and> iLineBytes p = iWidth p * (iBpp p div 8) \<and>
     iTotalBytes p = iHeight p * iLineBytes p \<and> int (length (aucPixelDatas p)) = iTotalBytes p"

text \<open>
  The pixel in column \<open>x\<close> of line \<open>y\<close>, for \<open>b\<close> bytes per pixel and \<open>w\<close> pixels per line.
\<close>

definition pix :: "nat \<Rightarrow> nat \<Rightarrow> u8 list \<Rightarrow> nat \<Rightarrow> nat \<Rightarrow> u8 list" where
  "pix b w m x y = take b (drop ((y * w + x) * b) m)"

definition pixel :: "pixel_datas \<Rightarrow> nat \<Rightarrow> nat \<Rightarrow> u8 list" where
  "pixel p x y = pix (nat (iBpp p div 8)) (nat (iWidth p)) (aucPixelDatas p) x y"

lemma div8_nonneg [simp]: "0 \<le> x \<Longrightarrow> div8 x = x div 8"
  by (simp add: div8_def)

lemma pix_wf_nat:
  assumes "pix_wf p"
  obtains w h b where "iWidth p = int w" "iHeight p = int h" "iBpp p = 8 * int b" "b \<in> {1, 2, 3, 4}" "iBpp p div 8 = int b"
    "iLineBytes p = int (w * b)" "iTotalBytes p = int (h * (w * b))" "length (aucPixelDatas p) = h * (w * b)"
    "pixel p = pix b w (aucPixelDatas p)"
proof -
  define w h b where "w = nat (iWidth p)" and "h = nat (iHeight p)" and "b = nat (iBpp p div 8)"
  have "iWidth p = int w" "iHeight p = int h" using assms by (simp_all add: pix_wf_def w_def h_def)
  moreover have b: "iBpp p = 8 * int b" "b \<in> {1, 2, 3, 4}" "iBpp p div 8 = int b" using assms by (auto simp: pix_wf_def b_def)
  moreover have "iLineBytes p = int (w * b)" using assms b calculation by (simp add: pix_wf_def)
  moreover have "iTotalBytes p = int (h * (w * b))" using assms calculation by (simp add: pix_wf_def)
  moreover have "length (aucPixelDatas p) = h * (w * b)" using assms calculation unfolding pix_wf_def by (metis of_nat_eq_iff)
  moreover have "pixel p = pix b w (aucPixelDatas p)" by (intro ext) (simp add: pixel_def w_def b_def)
  ultimately show ?thesis using that by blast
qed

text \<open>
  Parts of lines lie inside the memory, and two different parts do not overlap.
\<close>

lemma pix_range:
  fixes x y :: nat
  assumes "x + n \<le> w" and "y < h"
  shows "(y * w + x) * b + n * b \<le> h * (w * b)"
proof -
  have "Suc y * w \<le> h * w" using assms(2) by (intro mult_right_mono) auto
  then have "y * w + x + n \<le> h * w" using assms(1) by simp
  then have "(y * w + x + n) * b \<le> (h * w) * b" by (rule mult_right_mono) simp
  then show ?thesis by (simp add: algebra_simps)
qed

lemma pix_disjoint:
  fixes x y :: nat
  assumes "x < w" "x0 + n \<le> w" and out: "\<not> (y = y0 \<and> x0 \<le> x \<and> x < x0 + n)"
  shows "(y * w + x) * b + b \<le> (y0 * w + x0) * b \<or> (y0 * w + x0) * b + n * b \<le> (y * w + x) * b"
proof -
  consider "y < y0" | "y0 < y" | "y = y0" "x < x0" | "y = y0" "x0 + n \<le> x" using out by linarith
  then have "y * w + x + 1 \<le> y0 * w + x0 \<or> y0 * w + x0 + n \<le> y * w + x"
  proof cases
    case 1
    then have "Suc y * w \<le> y0 * w" by (intro mult_right_mono) auto
    then show ?thesis using assms(1) by simp
  next
    case 2
    then have "Suc y0 * w \<le> y * w" by (intro mult_right_mono) auto
    then show ?thesis using assms(2) by simp
  qed auto
  then have "(y * w + x + 1) * b \<le> (y0 * w + x0) * b \<or> (y0 * w + x0 + n) * b \<le> (y * w + x) * b"
    using mult_right_mono [of "y * w + x + 1" "y0 * w + x0" b] mult_right_mono [of "y0 * w + x0 + n" "y * w + x" b] by blast
  then show ?thesis by (simp add: algebra_simps)
qed

text \<open>
  Writing part of a line changes exactly the pixels of that part.
\<close>

lemma pix_write:
  assumes m: "length m = h * (w * b)" and bs: "length bs = n * b" "x0 + n \<le> w" "y0 < h"
  shows "\<exists>m'. mem_write m ((y0 * w + x0) * b) bs = Inr m' \<and> length m' = length m \<and>
    (\<forall>x<w. \<forall>y<h. pix b w m' x y = (if y = y0 \<and> x0 \<le> x \<and> x < x0 + n then take b (drop ((x - x0) * b) bs) else pix b w m x y))"
proof -
  have fits: "(y0 * w + x0) * b + n * b \<le> length m" using pix_range [OF bs(2,3), of b] m by simp
  then obtain m' where m': "mem_write m ((y0 * w + x0) * b) bs = Inr m'" using bs(1) by (simp add: mem_write_def)
  have l: "length m' = length m" using m' by (rule mem_write_length)
  have "pix b w m' x y = (if y = y0 \<and> x0 \<le> x \<and> x < x0 + n then take b (drop ((x - x0) * b) bs) else pix b w m x y)"
    if xy: "x < w" "y < h" for x y
  proof (cases "y = y0 \<and> x0 \<le> x \<and> x < x0 + n")
    case True
    have d: "(y0 * w + x) * b = (y0 * w + x0) * b + (x - x0) * b" using True by (simp flip: add_mult_distrib)
    have "(x - x0 + 1) * b \<le> n * b" using True by (intro mult_right_mono) auto
    then have "take b (drop ((x - x0) * b) (bs @ drop ((y0 * w + x0) * b + n * b) m)) = take b (drop ((x - x0) * b) bs)"
      using bs(1) by simp
    then show ?thesis
      using True m' bs(1) fits d by (auto simp: pix_def mem_write_def split: if_splits)
  next
    case False
    have "mem_read m' ((y * w + x) * b) b = mem_read m ((y * w + x) * b) b"
      using mem_read_write_disjoint [OF m'] pix_disjoint [OF xy(1) bs(2) False, of b] bs(1) by simp
    then show ?thesis
      using False l pix_range [of x 1 w y h b] xy m by (auto simp: mem_read_def pix_def split: if_splits)
  qed
  then show ?thesis using m' l by blast
qed

section \<open>Copying lines\<close>

lemma for_each_length:
  assumes "\<And>x m m'. f x m = Inr m' \<Longrightarrow> length m' = length m"
  shows "for_each xs f m = Inr m' \<Longrightarrow> length m' = length m"
proof (induction xs arbitrary: m)
  case (Cons x xs)
  then show ?case using assms by (auto simp: kbind_Inr_iff)
qed simp

lemma put_at_length: "put_at m off bs = Inr m' \<Longrightarrow> length m' = length m"
  by (auto simp: put_at_def split: if_splits dest: mem_write_length)

lemma for_each_inv:
  assumes "\<And>i m. i < length xs \<Longrightarrow> I i m \<Longrightarrow> \<exists>m'. f (xs ! i) m = Inr m' \<and> I (Suc i) m'" and "I 0 m"
  shows "\<exists>m'. for_each xs f m = Inr m' \<and> I (length xs) m'"
  using assms
proof (induction xs arbitrary: m I)
  case (Cons x xs)
  obtain m1 where m1: "f x m = Inr m1" "I 1 m1" using Cons.prems(1) [of 0 m] Cons.prems(2) by auto
  have "\<exists>m'. for_each xs f m1 = Inr m' \<and> I (Suc (length xs)) m'"
    using Cons.IH [of "\<lambda>i. I (Suc i)" m1] Cons.prems(1) [of "Suc _"] m1(2) by simp
  then show ?case using m1(1) by simp
qed simp

lemma for_each_upto:
  "for_each [0..int n - 1] f m = for_each [0..<n] (\<lambda>i. f (int i)) m"
proof -
  have "[0..int n - 1] = List.map int [0..<n]"
    by (rule nth_equalityI) (auto simp: nth_upto)
  moreover have "for_each (List.map int xs) f m = for_each xs (\<lambda>i. f (int i)) m" for xs
    by (induction xs arbitrary: m) (auto intro: kbind_cong)
  ultimately show ?thesis by simp
qed

lemma memcpy_pixels:
  assumes m: "length m = h * (w * b)" and s: "length src = sh * (sw * b)"
    and fits: "x0 + n \<le> w" "y0 < h" "sx + n \<le> sw" "sy < sh"
  shows "\<exists>m'. memcpy m (int ((y0 * w + x0) * b)) src (int ((sy * sw + sx) * b)) (int (n * b)) = Inr m' \<and> length m' = length m \<and>
    (\<forall>x<w. \<forall>y<h. pix b w m' x y = (if y = y0 \<and> x0 \<le> x \<and> x < x0 + n then pix b sw src (sx + x - x0) sy else pix b w m x y))"
proof -
  define bs where "bs = take (n * b) (drop ((sy * sw + sx) * b) src)"
  have r: "(sy * sw + sx) * b + n * b \<le> length src" using pix_range [OF fits(3,4), of b] s by simp
  then have bs: "length bs = n * b" by (simp add: bs_def)
  obtain m' where m': "mem_write m ((y0 * w + x0) * b) bs = Inr m'" "length m' = length m"
    "\<forall>x<w. \<forall>y<h. pix b w m' x y = (if y = y0 \<and> x0 \<le> x \<and> x < x0 + n then take b (drop ((x - x0) * b) bs) else pix b w m x y)"
    using pix_write [OF m bs fits(1,2)] by blast
  have "take b (drop ((x - x0) * b) bs) = pix b sw src (sx + x - x0) sy" if "x0 \<le> x" "x < x0 + n" for x
  proof -
    have "(x - x0 + 1) * b \<le> n * b" using that by (intro mult_right_mono) auto
    moreover have "sy * sw + (sx + x - x0) = (x - x0) + (sy * sw + sx)" using that by simp
    then have "(sy * sw + (sx + x - x0)) * b = (x - x0) * b + (sy * sw + sx) * b"
      by (simp only: add_mult_distrib)
    ultimately show ?thesis by (simp add: bs_def pix_def drop_take min_def)
  qed
  moreover have "memcpy m (int ((y0 * w + x0) * b)) src (int ((sy * sw + sx) * b)) (int (n * b)) = Inr m'"
  proof (cases "n * b = 0")
    case True
    then have "m' = m" using m'(1) bs by (auto simp: mem_write_def split: if_splits)
    then show ?thesis using True by (simp add: memcpy_def)
  next
    case False
    then show ?thesis
      using m'(1) r by (simp add: memcpy_def get_at_def put_at_def mem_read_def bs_def del: of_nat_mult of_nat_add)
  qed
  ultimately show ?thesis using m' by (intro exI [of _ m']) simp
qed

lemma copy_lines:
  assumes m: "length m = h * (w * b)" and s: "length src = sh * (sw * b)"
    and fits: "x0 + n \<le> w" "y0 + k \<le> h" "sx + n \<le> sw" "sy + k \<le> sh"
  shows "\<exists>m'. for_each [0..<k] (\<lambda>i m. memcpy m (int (((y0 + i) * w + x0) * b)) src (int (((sy + i) * sw + sx) * b)) (int (n * b))) m = Inr m' \<and>
    length m' = length m \<and>
    (\<forall>x<w. \<forall>y<h. pix b w m' x y =
       (if y0 \<le> y \<and> y < y0 + k \<and> x0 \<le> x \<and> x < x0 + n then pix b sw src (sx + x - x0) (sy + y - y0) else pix b w m x y))"
proof -
  let ?f = "\<lambda>i m. memcpy m (int (((y0 + i) * w + x0) * b)) src (int (((sy + i) * sw + sx) * b)) (int (n * b))"
  let ?I = "\<lambda>i m'. length m' = length m \<and> (\<forall>x<w. \<forall>y<h. pix b w m' x y =
       (if y0 \<le> y \<and> y < y0 + i \<and> x0 \<le> x \<and> x < x0 + n then pix b sw src (sx + x - x0) (sy + y - y0) else pix b w m x y))"
  have "\<exists>m2. ?f ([0..<k] ! i) m1 = Inr m2 \<and> ?I (Suc i) m2" if i: "i < length [0..<k]" and I: "?I i m1" for i m1
  proof -
    have "i < k" using i by simp
    have "length m1 = h * (w * b)" using I m by simp
    then obtain m2 where m2: "?f i m1 = Inr m2" "length m2 = length m1"
      "\<And>x y. x < w \<Longrightarrow> y < h \<Longrightarrow> pix b w m2 x y =
         (if y = y0 + i \<and> x0 \<le> x \<and> x < x0 + n then pix b sw src (sx + x - x0) (sy + i) else pix b w m1 x y)"
      using memcpy_pixels [of m1 h w b src sh sw x0 n "y0 + i" sx "sy + i"] s fits \<open>i < k\<close> by auto
    have "?I (Suc i) m2" using I m2(2,3) by (auto simp: less_Suc_eq)
    then show ?thesis using m2(1) \<open>i < k\<close> by (intro exI [of _ m2]) simp
  qed
  moreover have "?I 0 m" by auto
  ultimately have "\<exists>m'. for_each [0..<k] ?f m = Inr m' \<and> ?I (length [0..<k]) m'" by (rule for_each_inv [where I = ?I and f = ?f])
  then show ?thesis by (simp only: length_upt diff_zero)
qed

section \<open>Merging\<close>

lemma PicMergeRegion_pixels:
  assumes wf: "pix_wf new" "pix_wf old" and bpp: "iBpp new = iBpp old"
    and new: "iWidth new = int sw" "sx + n \<le> sw" "sx < sw" "iHeight new = int sh" "sy + k \<le> sh" "sy < sh"
    and old: "iWidth old = int w" "x0 + n \<le> w" "x0 < w" "iHeight old = int h" "y0 + k \<le> h" "y0 < h"
  shows "\<exists>old'. PicMergeRegion (int sx) (int sy) (int x0) (int y0) (int n) (int k) new old = Inr (0, old') \<and>
    pix_wf old' \<and> (\<exists>m. old' = old\<lparr>aucPixelDatas := m\<rparr>) \<and>
    (\<forall>x<w. \<forall>y<h. pixel old' x y =
       (if y0 \<le> y \<and> y < y0 + k \<and> x0 \<le> x \<and> x < x0 + n then pixel new (sx + x - x0) (sy + y - y0) else pixel old x y))"
proof -
  obtain b where b: "iBpp new = 8 * int b" "b \<in> {1, 2, 3, 4}" "iLineBytes new = int (sw * b)"
    "length (aucPixelDatas new) = sh * (sw * b)" "pixel new = pix b sw (aucPixelDatas new)"
    using wf(1) new(1,4) by (elim pix_wf_nat) simp
  have old': "iBpp old = 8 * int b" "iLineBytes old = int (w * b)" "length (aucPixelDatas old) = h * (w * b)"
    "pixel old = pix b w (aucPixelDatas old)"
    using wf(2) bpp b(1) old(1,4) by (elim pix_wf_nat, simp)+
  obtain m where m: "for_each [0..<k] (\<lambda>i m. memcpy m (int (((y0 + i) * w + x0) * b)) (aucPixelDatas new)
      (int (((sy + i) * sw + sx) * b)) (int (n * b))) (aucPixelDatas old) = Inr m" "length m = length (aucPixelDatas old)"
    "\<forall>x<w. \<forall>y<h. pix b w m x y = (if y0 \<le> y \<and> y < y0 + k \<and> x0 \<le> x \<and> x < x0 + n
       then pix b sw (aucPixelDatas new) (sx + x - x0) (sy + y - y0) else pix b w (aucPixelDatas old) x y)"
    using copy_lines [OF old'(3) b(4) old(2,5) new(2,5)] by blast
  have "PicMergeRegion (int sx) (int sy) (int x0) (int y0) (int n) (int k) new old = Inr (0, old\<lparr>aucPixelDatas := m\<rparr>)"
    using m(1) new old b old' by (simp add: PicMergeRegion_def Let_def for_each_upto algebra_simps)
  moreover have "pix_wf (old\<lparr>aucPixelDatas := m\<rparr>)" using wf(2) m(2) by (simp add: pix_wf_def)
  moreover have "pixel (old\<lparr>aucPixelDatas := m\<rparr>) = pix b w m" using old'(1) old(1) by (intro ext) (simp add: pixel_def)
  ultimately show ?thesis
    using m(3) b(5) old'(4) by (intro exI [of _ "old\<lparr>aucPixelDatas := m\<rparr>"]) auto
qed

lemma PicMerge_region:
  assumes "pix_wf small" "pix_wf big" "iBpp small = iBpp big" "iWidth small \<le> iWidth big" "iHeight small \<le> iHeight big"
    and "0 \<le> iX" "iX < iWidth big" "0 \<le> iY" "iY < iHeight big" "0 < iWidth small" "0 < iHeight small"
  shows "PicMerge iX iY small big = PicMergeRegion 0 0 iX iY (iWidth small) (iHeight small) small big"
  using assms by (elim pix_wf_nat) (auto simp: PicMerge_def PicMergeRegion_def Let_def algebra_simps)

section \<open>Scaling\<close>

lemma for_each_cong:
  assumes "\<And>x m. x \<in> set xs \<Longrightarrow> f x m = g x m"
  shows "for_each xs f m = for_each xs g m"
  using assms by (induction xs arbitrary: m) (auto intro!: kbind_cong)

text \<open>
  Loops that give every pixel of a line, and every line, its value.
\<close>

lemma paint_line:
  assumes m: "length m = h * (w * b)" and y: "y < h"
    and f: "\<And>x m. x < w \<Longrightarrow> length m = h * (w * b) \<Longrightarrow> f x m = mem_write m ((y * w + x) * b) (g x)" and g: "\<And>x. x < w \<Longrightarrow> length (g x) = b"
  shows "\<exists>m'. for_each [0..<w] f m = Inr m' \<and> length m' = length m \<and>
    (\<forall>x'<w. \<forall>y'<h. pix b w m' x' y' = (if y' = y then g x' else pix b w m x' y'))"
proof -
  let ?I = "\<lambda>i m'. length m' = length m \<and> (\<forall>x'<w. \<forall>y'<h. pix b w m' x' y' = (if y' = y \<and> x' < i then g x' else pix b w m x' y'))"
  have "\<exists>m2. f ([0..<w] ! i) m1 = Inr m2 \<and> ?I (Suc i) m2" if i: "i < length [0..<w]" and I: "?I i m1" for i m1
  proof -
    have "i < w" using i by simp
    have l: "length m1 = h * (w * b)" using I m by simp
    obtain m2 where m2: "mem_write m1 ((y * w + i) * b) (g i) = Inr m2" "length m2 = length m1"
      "\<And>x' y'. x' < w \<Longrightarrow> y' < h \<Longrightarrow> pix b w m2 x' y' = (if y' = y \<and> x' = i then g i else pix b w m1 x' y')"
      using pix_write [OF l, of "g i" 1 i y] g [OF \<open>i < w\<close>] y \<open>i < w\<close> by (auto simp: le_antisym)
    have "?I (Suc i) m2" using I m2(2,3) by (auto simp: less_Suc_eq)
    then show ?thesis using m2(1) f [OF \<open>i < w\<close> l] \<open>i < w\<close> by (intro exI [of _ m2]) simp
  qed
  moreover have "?I 0 m" by auto
  ultimately have "\<exists>m'. for_each [0..<w] f m = Inr m' \<and> ?I (length [0..<w]) m'" by (rule for_each_inv [where I = ?I and f = f])
  then show ?thesis by (elim exE, intro exI) auto
qed

lemma paint_lines:
  assumes m: "length m = h * (w * b)"
    and f: "\<And>y m. y < h \<Longrightarrow> length m = h * (w * b) \<Longrightarrow> \<exists>m'. f y m = Inr m' \<and> length m' = length m \<and>
      (\<forall>x'<w. \<forall>y'<h. pix b w m' x' y' = (if y' = y then g x' y else pix b w m x' y'))"
  shows "\<exists>m'. for_each [0..<h] f m = Inr m' \<and> length m' = length m \<and> (\<forall>x<w. \<forall>y<h. pix b w m' x y = g x y)"
proof -
  let ?I = "\<lambda>i m'. length m' = length m \<and> (\<forall>x<w. \<forall>y<h. y < i \<longrightarrow> pix b w m' x y = g x y)"
  have "\<exists>m2. f ([0..<h] ! i) m1 = Inr m2 \<and> ?I (Suc i) m2" if i: "i < length [0..<h]" and I: "?I i m1" for i m1
  proof -
    have "i < h" using i by simp
    have "length m1 = h * (w * b)" using I m by simp
    then obtain m2 where m2: "f i m1 = Inr m2" "length m2 = length m1"
      "\<And>x' y'. x' < w \<Longrightarrow> y' < h \<Longrightarrow> pix b w m2 x' y' = (if y' = i then g x' i else pix b w m1 x' y')"
      using f [OF \<open>i < h\<close>] by blast
    have "?I (Suc i) m2" using I m2(2,3) by (auto simp: less_Suc_eq)
    then show ?thesis using m2(1) \<open>i < h\<close> by (intro exI [of _ m2]) simp
  qed
  moreover have "?I 0 m" by simp
  ultimately have "\<exists>m'. for_each [0..<h] f m = Inr m' \<and> ?I (length [0..<h]) m'" by (rule for_each_inv [where I = ?I and f = f])
  then show ?thesis by (elim exE, intro exI) auto
qed

lemma zoom_loop:
  assumes m: "length m = h * (w * b)" and s: "length src = sh * (sw * b)"
    and f: "\<And>x. x < w \<Longrightarrow> f x < sw" and g: "\<And>y. y < h \<Longrightarrow> g y < sh"
  shows "\<exists>m'. for_each [0..<h] (\<lambda>y. for_each [0..<w] (\<lambda>x m.
        memcpy m (int ((y * w + x) * b)) src (int ((g y * sw + f x) * b)) (int b))) m = Inr m' \<and>
    length m' = length m \<and> (\<forall>x<w. \<forall>y<h. pix b w m' x y = pix b sw src (f x) (g y))"
proof (rule paint_lines [OF m])
  fix y and m :: "u8 list" assume y: "y < h" and m: "length m = h * (w * b)"
  have r: "(g y * sw + f x) * b + b \<le> length src" if "x < w" for x
    using pix_range [of "f x" 1 sw "g y" sh b] f [OF that] g [OF y] s by simp
  show "\<exists>m'. for_each [0..<w] (\<lambda>x m. memcpy m (int ((y * w + x) * b)) src (int ((g y * sw + f x) * b)) (int b)) m = Inr m' \<and>
    length m' = length m \<and> (\<forall>x'<w. \<forall>y'<h. pix b w m' x' y' = (if y' = y then pix b sw src (f x') (g y) else pix b w m x' y'))"
  proof (rule paint_line [OF m y])
    show "length (pix b sw src (f x) (g y)) = b" if "x < w" for x using r [OF that] by (simp add: pix_def)
    show "memcpy m (int ((y * w + x) * b)) src (int ((g y * sw + f x) * b)) (int b) = mem_write m ((y * w + x) * b) (pix b sw src (f x) (g y))"
      if "x < w" "length m = h * (w * b)" for x m
      using r [OF that(1)] pix_range [of x 1 w y h b] y that by (cases "b = 0")
        (simp_all add: memcpy_def get_at_def put_at_def mem_read_def mem_write_def pix_def del: of_nat_mult of_nat_add)
  qed
qed

lemma u32_of_int [simp]:
  "(of_int (int n) :: u32) = of_nat n"
  by simp

lemma u32_of_nat:
  assumes "n < 2 ^ 32"
  shows "unat (of_nat n :: u32) = n"
  using assms by (simp add: unat_of_nat)

lemma u32_mult:
  assumes "a * b < 2 ^ 32"
  shows "unat (of_nat a * of_nat b :: u32) = a * b"
proof -
  have "unat (of_nat (a * b) :: u32) = a * b" using assms by (rule u32_of_nat)
  then show ?thesis by (simp only: of_nat_mult)
qed

lemma zoom_index_nat:
  assumes "x < n'" "n * n' < 2 ^ 32" "0 < n"
  shows "zoom_index (int n) (int n') x = of_nat (x * n div n')" "x * n div n' < n"
proof -
  have "x * n < n * n'" using assms by (simp add: mult.commute)
  then show "x * n div n' < n" using assms(1) by (simp add: less_mult_imp_div_less)
  have "1 * n' \<le> n * n'" using assms(3) by (intro mult_right_mono) auto
  then have "n' < 2 ^ 32" using assms(2) by linarith
  moreover have "unat (of_nat x * of_nat n :: u32) = x * n" using \<open>x * n < n * n'\<close> assms(2) by (intro u32_mult) linarith
  ultimately show "zoom_index (int n) (int n') x = of_nat (x * n div n')"
    unfolding zoom_index_def u32_of_int by (simp add: word_arith_nat_div u32_of_nat del: of_nat_mult)
qed

lemma zoom_offset:
  assumes "y < h" "x < w" "h * (w * b) < 2 ^ 32"
  shows "int (unat (of_nat y * of_nat (w * b) :: u32)) + int (unat (of_nat x * of_nat b :: u32)) = int ((y * w + x) * b)"
proof -
  have "(y * w + x) * b + 1 * b \<le> h * (w * b)" using assms(1,2) by (intro pix_range) auto
  then have "y * (w * b) + x * b < 2 ^ 32" using assms(3) by (simp add: algebra_simps)
  then have "unat (of_nat y * of_nat (w * b) :: u32) = y * (w * b)" "unat (of_nat x * of_nat b :: u32) = x * b"
    by (intro u32_mult; linarith)+
  then show ?thesis by (simp add: algebra_simps)
qed

lemma PicZoom_loop:
  assumes o: "iWidth orig = int sw" "iHeight orig = int sh" "iLineBytes orig = int (sw * b)" "iBpp orig = 8 * int b" "0 < sw" "0 < sh"
    and z: "iWidth zoom = int w" "iHeight zoom = int h" "iLineBytes zoom = int (w * b)" "iBpp zoom = 8 * int b"
    and small: "b < 2 ^ 32" "w < 2 ^ 32" "h < 2 ^ 32" "sw * w < 2 ^ 32" "sh * h < 2 ^ 32" "sh * (sw * b) < 2 ^ 32" "h * (w * b) < 2 ^ 32"
  shows "PicZoom True orig zoom =
    kbind (for_each [0..<h] (\<lambda>y. for_each [0..<w] (\<lambda>x m. memcpy m (int ((y * w + x) * b)) (aucPixelDatas orig)
        (int (((y * sh div h) * sw + x * sw div w) * b)) (int b))) (aucPixelDatas zoom)) (\<lambda>m. Inr (0, zoom\<lparr>aucPixelDatas := m\<rparr>))"
proof -
  have u: "unat (of_nat b :: u32) = b" "unat (of_nat w :: u32) = w" "unat (of_nat h :: u32) = h"
    using small(1-3) by (simp_all add: u32_of_nat)
  have "memcpy m (int (unat (of_nat y * of_nat (w * b) :: u32)) + int (unat (of_nat x * of_nat b :: u32))) (aucPixelDatas orig)
       (int (unat (zoom_index (int sh) (int h) y * of_nat (sw * b))) + int (unat (zoom_index (int sw) (int w) x * of_nat b))) (int b) =
     memcpy m (int ((y * w + x) * b)) (aucPixelDatas orig) (int (((y * sh div h) * sw + x * sw div w) * b)) (int b)"
    if "y < h" "x < w" for x y m
    using that small o(5,6) zoom_offset [of y h x w b] zoom_offset [of "y * sh div h" sh "x * sw div w" sw b]
      zoom_index_nat [of y h sh] zoom_index_nat [of x w sw] by simp
  then show ?thesis
    unfolding PicZoom_def Let_def
    by (simp add: o z u del: of_nat_mult cong: kbind_cong) (intro kbind_cong for_each_cong, auto)
qed

text \<open>
  C28: scaling succeeds and gives the nearest-neighbour image: each pixel of the result is the
  pixel of the source whose coordinates are the scaled coordinates rounded down, provided the
  32-bit products in the code do not overflow.
\<close>

theorem pic_zoom_nearest:
  assumes wf: "pix_wf orig" "pix_wf zoom" and bpp: "iBpp orig = iBpp zoom" and ne: "0 < iWidth orig" "0 < iHeight orig"
    and small: "iWidth orig * iWidth zoom < 2 ^ 32" "iHeight orig * iHeight zoom < 2 ^ 32"
      "iTotalBytes orig < 2 ^ 32" "iTotalBytes zoom < 2 ^ 32"
  shows "\<exists>z. PicZoom True orig zoom = Inr (0, z) \<and> pix_wf z \<and> (\<exists>m. z = zoom\<lparr>aucPixelDatas := m\<rparr>) \<and>
    (\<forall>x<nat (iWidth zoom). \<forall>y<nat (iHeight zoom). pixel z x y =
       pixel orig (x * nat (iWidth orig) div nat (iWidth zoom)) (y * nat (iHeight orig) div nat (iHeight zoom)))"
proof -
  obtain sw sh b where o: "iWidth orig = int sw" "iHeight orig = int sh" "iBpp orig = 8 * int b" "b \<in> {1, 2, 3, 4}"
    "iLineBytes orig = int (sw * b)" "iTotalBytes orig = int (sh * (sw * b))" "length (aucPixelDatas orig) = sh * (sw * b)"
    "pixel orig = pix b sw (aucPixelDatas orig)"
    using wf(1) by (elim pix_wf_nat) metis
  obtain w h b' where z: "iWidth zoom = int w" "iHeight zoom = int h" "iBpp zoom = 8 * int b'"
    "iLineBytes zoom = int (w * b')" "iTotalBytes zoom = int (h * (w * b'))" "length (aucPixelDatas zoom) = h * (w * b')"
    using wf(2) by (elim pix_wf_nat) metis
  have b': "b' = b" using bpp o(3) z(3) by simp
  have pos: "0 < sw" "0 < sh" using ne o by simp_all
  have lt: "k < 2 ^ 32" if "int k < 2 ^ 32" for k :: nat using that by simp
  have s1: "sw * w < 2 ^ 32" "sh * h < 2 ^ 32" using small(1,2) o(1,2) z(1,2) by (intro lt; simp)+
  have s2: "sh * (sw * b) < 2 ^ 32" "h * (w * b) < 2 ^ 32" using small(3,4) o(6) z(5) b' by (intro lt; simp)+
  have "1 * w \<le> sw * w" "1 * h \<le> sh * h" using pos by (intro mult_right_mono; simp)+
  then have wh: "w < 2 ^ 32" "h < 2 ^ 32" using s1 by linarith+
  have f: "x * sw div w < sw" if "x < w" for x using zoom_index_nat(2) [OF that] s1 pos by simp
  have g: "y * sh div h < sh" if "y < h" for y using zoom_index_nat(2) [OF that] s1 pos by simp
  obtain m where m: "for_each [0..<h] (\<lambda>y. for_each [0..<w] (\<lambda>x m. memcpy m (int ((y * w + x) * b)) (aucPixelDatas orig)
        (int (((y * sh div h) * sw + x * sw div w) * b)) (int b))) (aucPixelDatas zoom) = Inr m"
    "length m = length (aucPixelDatas zoom)"
    "\<forall>x<w. \<forall>y<h. pix b w m x y = pix b sw (aucPixelDatas orig) (x * sw div w) (y * sh div h)"
    using zoom_loop [of "aucPixelDatas zoom" h w b "aucPixelDatas orig" sh sw "\<lambda>x. x * sw div w" "\<lambda>y. y * sh div h"]
      z(6) o(7) f g unfolding b' by blast
  have "PicZoom True orig zoom = Inr (0, zoom\<lparr>aucPixelDatas := m\<rparr>)"
    using PicZoom_loop [of orig sw sh b zoom w h] m(1) o pos z b' s1 s2 wh by auto
  moreover have "pix_wf (zoom\<lparr>aucPixelDatas := m\<rparr>)" using wf(2) m(2) by (simp add: pix_wf_def)
  moreover have "pixel (zoom\<lparr>aucPixelDatas := m\<rparr>) = pix b w m" using z(1,3) b' by (intro ext) (simp add: pixel_def)
  ultimately show ?thesis
    using m(3) o z by (intro exI [of _ "zoom\<lparr>aucPixelDatas := m\<rparr>"]) auto
qed

text \<open>
  A 2 by 1 picture scaled to 4 by 2.
\<close>

definition zoom_from :: pixel_datas where
  "zoom_from = \<lparr>iWidth = 2, iHeight = 1, iBpp = 16, iLineBytes = 4, iTotalBytes = 4, aucPixelDatas = [1, 2, 3, 4]\<rparr>"

definition zoom_to :: pixel_datas where
  "zoom_to = \<lparr>iWidth = 4, iHeight = 2, iBpp = 16, iLineBytes = 8, iTotalBytes = 16, aucPixelDatas = replicate 16 0\<rparr>"

theorem pic_zoom_nearest_witness:
  "\<exists>z. PicZoom True zoom_from zoom_to = Inr (0, z) \<and> pixel z 3 1 = [3, 4]"
proof -
  obtain z where z: "PicZoom True zoom_from zoom_to = Inr (0, z)" "\<forall>x<nat (iWidth zoom_to). \<forall>y<nat (iHeight zoom_to). pixel z x y =
       pixel zoom_from (x * nat (iWidth zoom_from) div nat (iWidth zoom_to)) (y * nat (iHeight zoom_from) div nat (iHeight zoom_to))"
    using pic_zoom_nearest [of zoom_from zoom_to] by (auto simp: pix_wf_def zoom_from_def zoom_to_def)
  then have "pixel z 3 1 = pixel zoom_from 1 0" by (simp add: zoom_from_def zoom_to_def)
  then show ?thesis using z(1) by (auto simp: pixel_def pix_def zoom_from_def)
qed

text \<open>
  Merging a picture into another at a position where it fits replaces exactly the pixels it
  covers, keeps all others, and keeps the picture well formed.
\<close>

lemma pic_merge_correct:
  assumes "pix_wf small" "pix_wf big" "iBpp small = iBpp big"
    and "0 \<le> iX" "0 < iWidth small" "iX + iWidth small \<le> iWidth big" "0 \<le> iY" "0 < iHeight small" "iY + iHeight small \<le> iHeight big"
  shows "\<exists>big'. PicMerge iX iY small big = Inr (0, big') \<and> pix_wf big' \<and> (\<exists>m. big' = big\<lparr>aucPixelDatas := m\<rparr>) \<and>
    (\<forall>x<nat (iWidth big). \<forall>y<nat (iHeight big). pixel big' x y =
       (if iX \<le> int x \<and> int x < iX + iWidth small \<and> iY \<le> int y \<and> int y < iY + iHeight small
        then pixel small (x - nat iX) (y - nat iY) else pixel big x y))"
proof -
  define sw sh w h x0 y0 where
    "sw = nat (iWidth small)" "sh = nat (iHeight small)" "w = nat (iWidth big)" "h = nat (iHeight big)" "x0 = nat iX" "y0 = nat iY"
  then have n: "iWidth small = int sw" "iHeight small = int sh" "iWidth big = int w" "iHeight big = int h" "iX = int x0" "iY = int y0"
    using assms by simp_all
  have "PicMerge iX iY small big = PicMergeRegion (int 0) (int 0) (int x0) (int y0) (int sw) (int sh) small big"
    using PicMerge_region [OF assms(1-3), of iX iY] assms(4-9) n by simp
  moreover obtain big' where "PicMergeRegion (int 0) (int 0) (int x0) (int y0) (int sw) (int sh) small big = Inr (0, big')" "pix_wf big'"
    "\<exists>m. big' = big\<lparr>aucPixelDatas := m\<rparr>" "\<forall>x<w. \<forall>y<h. pixel big' x y =
       (if y0 \<le> y \<and> y < y0 + sh \<and> x0 \<le> x \<and> x < x0 + sw then pixel small (0 + x - x0) (0 + y - y0) else pixel big x y)"
    using PicMergeRegion_pixels [OF assms(1-3), of sw 0 sw sh 0 sh w x0 h y0] assms(4-9) n by auto
  ultimately show ?thesis
    by (intro exI [of _ big']) (simp add: n conj_commute conj_left_commute)
qed

lemma for_each_fault:
  assumes "\<And>x m m'. I m \<Longrightarrow> f x m = Inr m' \<Longrightarrow> I m'" and "\<And>x m e'. f x m = Inl e' \<Longrightarrow> e' = e"
    and "x \<in> set xs" and "\<And>m. I m \<Longrightarrow> f x m = Inl e" and "I m"
  shows "for_each xs f m = Inl e"
  using assms(3,5)
proof (induction xs arbitrary: m)
  case (Cons a xs)
  show ?case
  proof (cases "f a m")
    case (Inl e')
    then show ?thesis using assms(2) by simp
  next
    case (Inr m')
    then have "x \<noteq> a" "I m'" using assms(1,4) Cons.prems(2) by auto
    then show ?thesis using Cons Inr by simp
  qed
qed simp

lemma memcpy_length:
  "memcpy m off src soff n = Inr m' \<Longrightarrow> length m' = length m"
  by (auto simp: memcpy_def put_at_def kbind_Inr_iff split: if_splits dest: mem_write_length)

lemma memcpy_fault:
  "memcpy m off src soff n = Inl e \<Longrightarrow> e = OutOfBounds"
  by (auto simp: memcpy_def put_at_def get_at_def mem_read_def mem_write_def kbind_Inl_iff split: if_splits)

lemma memcpy_beyond:
  assumes "0 < n" and "int (length m) < off + n"
  shows "memcpy m off src soff n = Inl OutOfBounds"
  using assms by (auto simp: memcpy_def put_at_def get_at_def mem_read_def mem_write_def kbind_Inl_iff)

text \<open>
  the merge checks the sizes of the pictures but not the position.  A picture that passes the
  size check and is placed so that it reaches below the lower edge makes the copy write past the
  end of the destination.
\<close>

lemma pic_merge_below_edge:
  assumes "pix_wf small" "pix_wf big" "iBpp small = iBpp big"
    and "0 < iWidth small" "iWidth small \<le> iWidth big" "iHeight small \<le> iHeight big"
    and "0 \<le> iX" "0 \<le> iY" "iY < iHeight big" "iHeight big < iY + iHeight small"
  shows "PicMerge iX iY small big = Inl OutOfBounds"
proof -
  obtain sw b where s: "iWidth small = int sw" "iBpp small = 8 * int b" "b \<in> {1, 2, 3, 4}" "iLineBytes small = int (sw * b)"
    using assms(1) by (elim pix_wf_nat) metis
  define dst where "dst = iY * iLineBytes big + div8 (iX * iBpp big)"
  let ?f = "\<lambda>i m. memcpy m (dst + i * iLineBytes big) (aucPixelDatas small) (i * iLineBytes small) (iLineBytes small)"
  let ?i = "iHeight big - iY"
  have pos: "0 < iLineBytes small" using s assms(4) by auto
  have len: "int (length (aucPixelDatas big)) = iHeight big * iLineBytes big" using assms(2) by (simp add: pix_wf_def)
  have "0 \<le> div8 (iX * iBpp big)" using s(2) assms(3,7) by simp
  then have "iHeight big * iLineBytes big \<le> dst + ?i * iLineBytes big" by (simp add: dst_def algebra_simps)
  then have "?f ?i m = Inl OutOfBounds" if "length m = length (aucPixelDatas big)" for m
    using that pos len by (intro memcpy_beyond) linarith+
  then have "for_each [0..iHeight small - 1] ?f (aucPixelDatas big) = Inl OutOfBounds"
    using assms(9,10) by (intro for_each_fault [where I = "\<lambda>m. length m = length (aucPixelDatas big)" and x = ?i])
      (auto dest: memcpy_length memcpy_fault)
  then show ?thesis
    using assms(3,5,6) by (simp add: PicMerge_def Let_def dst_def)
qed

end
