(* ===== verification/Paint.thy ===== *)
theory Paint
  imports Pixels
begin

text \<open>
  Painting into a video memory (video2lcd/1_th/display/disp_manager.c and render/render.c): setting
  a pixel, clearing a memory or a region of it, drawing a character and a string.  These functions
  use a \<open>T_VideoMem\<close> only through its \<open>tPixelDatas\<close>, which is their argument and result here.
\<close>

section \<open>Colours\<close>

text \<open>
  A colour is \<open>0x00RRGGBB\<close>; a display of 16 bits per pixel uses 5, 6 and 5 bits of it.
\<close>

definition color565 :: "u32 \<Rightarrow> u16" where
  "color565 dwColor =
     ucast ((push_bit 11 (drop_bit 19 dwColor AND 0x1f) OR push_bit 5 (drop_bit 10 dwColor AND 0x3f)) OR
       (drop_bit 3 dwColor AND 0x1f))"

abbreviation (input) COLOR_BACKGROUND :: u32 where "COLOR_BACKGROUND \<equiv> 0xE7DBB5"
abbreviation (input) COLOR_FOREGROUND :: u32 where "COLOR_FOREGROUND \<equiv> 0x514438"

section \<open>Operations\<close>

record layout =
  iTopLeftX :: int
  iTopLeftY :: int
  iBotRightX :: int
  iBotRightY :: int
  strIconName :: string

definition memset :: "u8 list \<Rightarrow> int \<Rightarrow> u32 \<Rightarrow> int \<Rightarrow> u8 list kres" where
  "memset m off c n =
     (if n = 0 then Inr m else if n < 0 then Inl OutOfBounds else put_at m off (replicate (nat n) (ucast c)))"

function fill_loop :: "u8 list \<Rightarrow> int \<Rightarrow> int \<Rightarrow> u8 list \<Rightarrow> u8 list kres" where
  "fill_loop bs n i m =
     (if i < n \<and> bs \<noteq> [] then kbind (put_at m i bs) (fill_loop bs n (i + int (length bs))) else Inr m)"
  by auto
termination
  by (relation "measure (\<lambda>(bs, n, i, m). nat (n - i))") auto

declare fill_loop.simps [simp del]

definition ClearVideoMem :: "pixel_datas \<Rightarrow> u32 \<Rightarrow> pixel_datas kres" where
  "ClearVideoMem p dwColor =
     (let store = (\<lambda>r. kbind r (\<lambda>m. Inr (p\<lparr>aucPixelDatas := m\<rparr>))) in
      if iBpp p = 8 then store (memset (aucPixelDatas p) 0 dwColor (iTotalBytes p))
      else if iBpp p = 16 then store (fill_loop (put_le16 (color565 dwColor)) (iTotalBytes p) 0 (aucPixelDatas p))
      else if iBpp p = 32 then store (fill_loop (put_le32 dwColor) (iTotalBytes p) 0 (aucPixelDatas p))
      else Inr p)"

definition ClearVideoMemRegion :: "pixel_datas \<Rightarrow> layout \<Rightarrow> u32 \<Rightarrow> pixel_datas kres" where
  "ClearVideoMemRegion p l dwColor =
     (let pucVM = iTopLeftY l * iLineBytes p + div8 (iTopLeftX l * iBpp p);
          iLineBytesClear = div8 ((iBotRightX l - iTopLeftX l + 1) * iBpp p);
          lines = (\<lambda>f. kbind (for_each [iTopLeftY l..iBotRightY l] (\<lambda>iY. f (pucVM + (iY - iTopLeftY l) * iLineBytes p)) (aucPixelDatas p))
                    (\<lambda>m. Inr (p\<lparr>aucPixelDatas := m\<rparr>)))
      in if iBpp p = 8 then lines (\<lambda>ptr m. memset m ptr dwColor iLineBytesClear)
      else if iBpp p = 16 then
        lines (\<lambda>ptr. for_each [iTopLeftX l..iBotRightX l] (\<lambda>iX m. put_at m (ptr + 2 * (iX - iTopLeftX l)) (put_le16 (color565 dwColor))))
      else if iBpp p = 32 then
        lines (\<lambda>ptr. for_each [iTopLeftX l..iBotRightX l] (\<lambda>iX m. put_at m (ptr + 4 * (iX - iTopLeftX l)) (put_le32 dwColor)))
      else Inr p)"

definition SetColorForPixelInVideoMem :: "int \<Rightarrow> int \<Rightarrow> pixel_datas \<Rightarrow> u32 \<Rightarrow> (int \<times> pixel_datas) kres" where
  "SetColorForPixelInVideoMem iX iY p dwColor =
     (let off = iY * iLineBytes p + div8 (iX * iBpp p);
          store = (\<lambda>ret bs. kbind (put_at (aucPixelDatas p) off bs) (\<lambda>m. Inr (ret, p\<lparr>aucPixelDatas := m\<rparr>)))
      in if iBpp p = 8 then store 1 [ucast dwColor]
      else if iBpp p = 16 then store 2 (put_le16 (color565 dwColor))
      else if iBpp p = 32 then store 4 (put_le32 dwColor)
      else Inr (- 1, p))"

definition ClearRectangleInVideoMem :: "int \<Rightarrow> int \<Rightarrow> int \<Rightarrow> int \<Rightarrow> pixel_datas \<Rightarrow> u32 \<Rightarrow> pixel_datas kres" where
  "ClearRectangleInVideoMem topX topY botX botY p dwColor =
     for_each [topY..botY] (\<lambda>y. for_each [topX..botX] (\<lambda>x p.
       kbind (SetColorForPixelInVideoMem x y p dwColor) (\<lambda>(ret, p). Inr p))) p"

section \<open>Pixels and colours\<close>

text \<open>
  The bytes of a colour; a depth of 24 is not supported.
\<close>

definition color_bytes :: "int \<Rightarrow> u32 \<Rightarrow> u8 list option" where
  "color_bytes bpp c =
     (if bpp = 8 then Some [ucast c] else if bpp = 16 then Some (put_le16 (color565 c))
      else if bpp = 32 then Some (put_le32 c) else None)"

lemma color_bytes_length:
  "color_bytes bpp c = Some bs \<Longrightarrow> bpp = 8 * int (length bs) \<and> 0 < length bs"
  by (auto simp: color_bytes_def put_le16_def put_le32_def split: if_splits)

lemma color_bytes_None:
  "color_bytes bpp c = None \<longleftrightarrow> bpp \<noteq> 8 \<and> bpp \<noteq> 16 \<and> bpp \<noteq> 32"
  by (simp add: color_bytes_def)

lemma div8_mult [simp]:
  "div8 (x * (8 * k)) = x * k"
proof -
  have "x * (8 * k) = 8 * (x * k)" by simp
  moreover have "- (8 * (x * k)) = 8 * (- (x * k))" by simp
  ultimately show ?thesis unfolding div8_def by (metis (no_types) minus_minus nonzero_mult_div_cancel_left zero_neq_numeral)
qed

lemma SetColor_bytes:
  "SetColorForPixelInVideoMem iX iY p c =
     (case color_bytes (iBpp p) c of
        None \<Rightarrow> Inr (- 1, p)
      | Some bs \<Rightarrow> kbind (put_at (aucPixelDatas p) (iY * iLineBytes p + iX * int (length bs)) bs)
          (\<lambda>m. Inr (int (length bs), p\<lparr>aucPixelDatas := m\<rparr>)))"
  using div8_mult [of iX 1] div8_mult [of iX 2] div8_mult [of iX 4]
  by (simp add: SetColorForPixelInVideoMem_def color_bytes_def Let_def)

section \<open>Clearing a region\<close>

lemma for_each_store:
  assumes "\<And>x m. f x (p\<lparr>aucPixelDatas := m\<rparr>) = kbind (g x m) (\<lambda>m. Inr (p\<lparr>aucPixelDatas := m\<rparr>))"
  shows "for_each xs f (p\<lparr>aucPixelDatas := m\<rparr>) = kbind (for_each xs g m) (\<lambda>m. Inr (p\<lparr>aucPixelDatas := m\<rparr>))"
  using assms by (induction xs arbitrary: m) (simp_all add: kbind_assoc)

lemma for_each_skip: "(\<And>x. f x m = Inr m) \<Longrightarrow> for_each xs f m = Inr m"
  by (induction xs) auto

lemma kbind_Inr [simp]: "kbind m Inr = m"
  by (cases m) auto

lemma ClearRectangle_bytes:
  "ClearRectangleInVideoMem topX topY botX botY p c =
     (case color_bytes (iBpp p) c of
        None \<Rightarrow> Inr p
      | Some bs \<Rightarrow> kbind (for_each [topY..botY] (\<lambda>y. for_each [topX..botX] (\<lambda>x m.
            put_at m (y * iLineBytes p + x * int (length bs)) bs)) (aucPixelDatas p)) (\<lambda>m. Inr (p\<lparr>aucPixelDatas := m\<rparr>)))"
proof (cases "color_bytes (iBpp p) c")
  case None
  then show ?thesis
    unfolding ClearRectangleInVideoMem_def by (simp add: SetColor_bytes for_each_skip)
next
  case (Some bs)
  let ?f = "\<lambda>y x p. kbind (SetColorForPixelInVideoMem x y p c) (\<lambda>(ret, p). Inr p)"
  let ?g = "\<lambda>y x m. put_at m (y * iLineBytes p + x * int (length bs)) bs"
  have "for_each [topX..botX] (?f y) (p\<lparr>aucPixelDatas := m\<rparr>) =
      kbind (for_each [topX..botX] (?g y) m) (\<lambda>m. Inr (p\<lparr>aucPixelDatas := m\<rparr>))" for y m
    using Some by (intro for_each_store) (simp add: SetColor_bytes kbind_assoc)
  then have "for_each [topY..botY] (\<lambda>y. for_each [topX..botX] (?f y)) (p\<lparr>aucPixelDatas := aucPixelDatas p\<rparr>) =
      kbind (for_each [topY..botY] (\<lambda>y. for_each [topX..botX] (?g y)) (aucPixelDatas p)) (\<lambda>m. Inr (p\<lparr>aucPixelDatas := m\<rparr>))"
    by (rule for_each_store)
  then show ?thesis using Some by (simp add: ClearRectangleInVideoMem_def)
qed

lemma for_each_append: "for_each (xs @ ys) f m = kbind (for_each xs f m) (for_each ys f)"
  by (induction xs arbitrary: m) (simp_all add: kbind_assoc)

lemma put_at_snoc:
  "put_at m off (bs @ [b]) = kbind (put_at m off bs) (\<lambda>m. put_at m (off + int (length bs)) [b])"
  by (auto simp: put_at_def mem_write_def nat_add_distrib)

lemma memset_loop:
  assumes "topX \<le> botX + 1"
  shows "memset m (base + topX) c (botX - topX + 1) = for_each [topX..botX] (\<lambda>x m. put_at m (base + x) [ucast c]) m"
proof -
  obtain n where n: "botX - topX + 1 = int n" using assms nonneg_int_cases [of "botX - topX + 1"] by auto
  have loop: "put_at m (base + topX) (replicate n (ucast c)) = for_each [topX..topX + int n - 1] (\<lambda>x m. put_at m (base + x) [ucast c]) m"
    if "n \<noteq> 0" for n
    using that
  proof (induction n)
    case (Suc n)
    have "[topX..topX + int (Suc n) - 1] = [topX..topX + int n - 1] @ [topX + int n]"
      using upto_split3 [of topX "topX + int n" "topX + int n"] by (simp add: algebra_simps)
    then show ?case
      using Suc by (cases "n = 0") (auto simp: for_each_append put_at_snoc replicate_append_same [symmetric] algebra_simps)
  qed simp
  have bot: "topX + int n - 1 = botX" using n by simp
  show ?thesis
  proof (cases "n = 0")
    case True
    then show ?thesis using n by (simp add: memset_def)
  next
    case False
    then show ?thesis using loop [OF False] n unfolding bot by (simp add: memset_def)
  qed
qed

lemma region_lines:
  "for_each ys (\<lambda>y. for_each xs (\<lambda>x m. put_at m (ty * k + tx * n + (y - ty) * k + n * (x - tx)) bs)) m =
   for_each ys (\<lambda>y. for_each xs (\<lambda>x m. put_at m (y * k + x * n) bs)) m"
proof -
  have "ty * k + tx * n + (y - ty) * k + n * (x - tx) = y * k + x * n" for x y by (simp add: algebra_simps)
  then show ?thesis by simp
qed

lemma region_memset:
  assumes "topX \<le> botX + 1"
  shows "memset m (ty * k + topX + (y - ty) * k) c (botX - topX + 1) = for_each [topX..botX] (\<lambda>x m. put_at m (y * k + x) [ucast c]) m"
proof -
  have "ty * k + topX + (y - ty) * k = y * k + topX" by (simp add: algebra_simps)
  then show ?thesis using memset_loop [OF assms, of m "y * k" c] by (simp only:)
qed

lemma div8_depths: "div8 (x * 8) = x" "div8 (x * 16) = x * 2" "div8 (x * 32) = x * 4"
  using div8_mult [of x 1] div8_mult [of x 2] div8_mult [of x 4] by simp_all

lemma ClearVideoMemRegion_bytes:
  assumes "iTopLeftX l \<le> iBotRightX l + 1"
  shows "ClearVideoMemRegion p l c =
     (case color_bytes (iBpp p) c of
        None \<Rightarrow> Inr p
      | Some bs \<Rightarrow> kbind (for_each [iTopLeftY l..iBotRightY l] (\<lambda>y. for_each [iTopLeftX l..iBotRightX l] (\<lambda>x m.
            put_at m (y * iLineBytes p + x * int (length bs)) bs)) (aucPixelDatas p)) (\<lambda>m. Inr (p\<lparr>aucPixelDatas := m\<rparr>)))"
proof -
  consider "iBpp p = 8" | "iBpp p = 16" | "iBpp p = 32" | "iBpp p \<noteq> 8" "iBpp p \<noteq> 16" "iBpp p \<noteq> 32" by blast
  then show ?thesis
  proof cases
    case 1
    then show ?thesis
      unfolding ClearVideoMemRegion_def Let_def color_bytes_def 1 div8_depths
      by (simp add: region_memset [OF assms])
  next
    case 2
    then show ?thesis
      unfolding ClearVideoMemRegion_def Let_def color_bytes_def 2 div8_depths by (simp only: region_lines) simp
  next
    case 3
    then show ?thesis
      unfolding ClearVideoMemRegion_def Let_def color_bytes_def 3 div8_depths by (simp only: region_lines) simp
  next
    case 4
    then show ?thesis by (simp add: ClearVideoMemRegion_def color_bytes_def Let_def)
  qed
qed

text \<open>
  clearing a region line by line, with \<open>memset\<close> or a pointer that moves along the line, does
  the same as painting each of its pixels separately, out-of-bounds accesses included.
\<close>

lemma clear_region_equiv:
  assumes "iTopLeftX l \<le> iBotRightX l + 1"
  shows "ClearVideoMemRegion p l c = ClearRectangleInVideoMem (iTopLeftX l) (iTopLeftY l) (iBotRightX l) (iBotRightY l) p c"
  using ClearVideoMemRegion_bytes [OF assms] ClearRectangle_bytes by simp

section \<open>The pixels that change\<close>

text \<open>
  \<open>p'\<close> differs from \<open>p\<close> at most in the pixels that satisfy \<open>S\<close>.
\<close>

definition kept :: "(nat \<Rightarrow> nat \<Rightarrow> bool) \<Rightarrow> pixel_datas \<Rightarrow> pixel_datas \<Rightarrow> bool" where
  "kept S p p' \<longleftrightarrow> pix_wf p' \<and> (\<exists>m. p' = p\<lparr>aucPixelDatas := m\<rparr>) \<and>
     (\<forall>x<nat (iWidth p). \<forall>y<nat (iHeight p). \<not> S x y \<longrightarrow> pixel p' x y = pixel p x y)"

lemma kept_refl: "pix_wf p \<Longrightarrow> kept S p p"
  by (auto simp: kept_def intro: exI [of _ "aucPixelDatas p"])

lemma kept_trans: "kept S p q \<Longrightarrow> kept S q r \<Longrightarrow> kept S p r"
  by (fastforce simp: kept_def)

lemma kept_shape: "kept S p p' \<Longrightarrow> iWidth p' = iWidth p \<and> iHeight p' = iHeight p \<and> iBpp p' = iBpp p \<and> pix_wf p'"
  by (auto simp: kept_def)

lemma kept_mono: "kept S p p' \<Longrightarrow> (\<And>x y. S x y \<Longrightarrow> S' x y) \<Longrightarrow> kept S' p p'"
  by (auto simp: kept_def)

text \<open>
  A coordinate inside the picture, and the pixel it names.
\<close>

definition inside :: "pixel_datas \<Rightarrow> int \<Rightarrow> int \<Rightarrow> bool" where
  "inside p x y \<longleftrightarrow> 0 \<le> x \<and> x < iWidth p \<and> 0 \<le> y \<and> y < iHeight p"

lemma SetColor_pixel:
  assumes wf: "pix_wf p" and "inside p x y" and bs: "color_bytes (iBpp p) c = Some bs"
  shows "\<exists>p'. SetColorForPixelInVideoMem x y p c = Inr (int (length bs), p') \<and> kept (\<lambda>x' y'. int x' = x \<and> int y' = y) p p' \<and>
    pixel p' (nat x) (nat y) = bs"
proof -
  obtain w h b where p: "iWidth p = int w" "iHeight p = int h" "iBpp p = 8 * int b" "iLineBytes p = int (w * b)"
    "length (aucPixelDatas p) = h * (w * b)" "pixel p = pix b w (aucPixelDatas p)"
    using wf by (elim pix_wf_nat) metis
  have len: "length bs = b" using color_bytes_length [OF bs] p(3) by simp
  define x0 y0 where "x0 = nat x" "y0 = nat y"
  then have xy: "x = int x0" "y = int y0" "x0 + 1 \<le> w" "y0 < h" using assms(2) p(1,2) by (auto simp: inside_def)
  obtain m where m: "mem_write (aucPixelDatas p) ((y0 * w + x0) * b) bs = Inr m" "length m = length (aucPixelDatas p)"
    "\<forall>x<w. \<forall>y<h. pix b w m x y = (if y = y0 \<and> x0 \<le> x \<and> x < x0 + 1 then take b (drop ((x - x0) * b) bs) else pix b w (aucPixelDatas p) x y)"
    using pix_write [OF p(5), of bs 1 x0 y0] len xy by auto
  have off: "y * iLineBytes p + x * int (length bs) = int ((y0 * w + x0) * b)" using p(4) len xy by (simp add: algebra_simps)
  then have "SetColorForPixelInVideoMem x y p c = Inr (int (length bs), p\<lparr>aucPixelDatas := m\<rparr>)"
    using bs m(1) by (simp add: SetColor_bytes put_at_def del: of_nat_mult of_nat_add)
  moreover have q: "pixel (p\<lparr>aucPixelDatas := m\<rparr>) = pix b w m" using p(1,3) by (intro ext) (simp add: pixel_def)
  moreover have "kept (\<lambda>x' y'. int x' = x \<and> int y' = y) p (p\<lparr>aucPixelDatas := m\<rparr>)"
    unfolding kept_def
  proof (intro conjI allI impI)
    show "pix_wf (p\<lparr>aucPixelDatas := m\<rparr>)" using wf m(2) by (simp add: pix_wf_def)
    show "\<exists>m'. p\<lparr>aucPixelDatas := m\<rparr> = p\<lparr>aucPixelDatas := m'\<rparr>" by blast
    fix x' y' assume "x' < nat (iWidth p)" "y' < nat (iHeight p)" and ne: "\<not> (int x' = x \<and> int y' = y)"
    then have "x' < w" "y' < h" using p(1,2) by simp_all
    then have "pix b w m x' y' = pix b w (aucPixelDatas p) x' y'" using m(3) [rule_format, of x' y'] ne xy(1,2) by (auto split: if_splits)
    then show "pixel (p\<lparr>aucPixelDatas := m\<rparr>) x' y' = pixel p x' y'" using q p(6) by simp
  qed
  moreover have "pix b w m x0 y0 = bs" using m(3) xy len by auto
  ultimately show ?thesis using xy by auto
qed

lemma SetColor_kept:
  assumes "pix_wf p" and "inside p x y"
  shows "\<exists>r p'. SetColorForPixelInVideoMem x y p c = Inr (r, p') \<and> kept (\<lambda>x' y'. int x' = x \<and> int y' = y) p p'"
proof (cases "color_bytes (iBpp p) c")
  case None
  then show ?thesis using kept_refl [OF assms(1)] by (simp add: SetColor_bytes)
next
  case (Some bs)
  then show ?thesis using SetColor_pixel [OF assms Some] by blast
qed

lemma for_each_kept:
  assumes "\<And>x q. x \<in> set xs \<Longrightarrow> pix_wf q \<Longrightarrow> iWidth q = iWidth p \<Longrightarrow> iHeight q = iHeight p \<Longrightarrow> \<exists>q'. f x q = Inr q' \<and> kept S q q'"
    and "pix_wf p"
  shows "\<exists>p'. for_each xs f p = Inr p' \<and> kept S p p'"
  using assms
proof (induction xs arbitrary: p)
  case Nil
  then show ?case using kept_refl by simp
next
  case (Cons x xs)
  obtain q where q: "f x p = Inr q" "kept S p q" using Cons.prems(1) [of x p] Cons.prems(2) by auto
  then have "\<exists>p'. for_each xs f q = Inr p' \<and> kept S q p'"
    using Cons.prems(1) kept_shape [OF q(2)] by (intro Cons.IH) auto
  then show ?case using q(1) kept_trans [OF q(2)] by auto
qed

lemma ClearRectangle_kept:
  assumes "pix_wf p" and "inside p topX topY" "inside p botX botY"
  shows "\<exists>p'. ClearRectangleInVideoMem topX topY botX botY p c = Inr p' \<and>
    kept (\<lambda>x y. topX \<le> int x \<and> int x \<le> botX \<and> topY \<le> int y \<and> int y \<le> botY) p p'"
  unfolding ClearRectangleInVideoMem_def
proof (intro for_each_kept assms(1))
  fix y x and q q' :: pixel_datas
  assume y: "y \<in> set [topY..botY]" and q: "iWidth q = iWidth p" "iHeight q = iHeight p"
    and x: "x \<in> set [topX..botX]" and q': "pix_wf q'" "iWidth q' = iWidth q" "iHeight q' = iHeight q"
  have "inside q' x y" using x y q q' assms(2,3) by (auto simp: inside_def)
  then obtain r p' where "SetColorForPixelInVideoMem x y q' c = Inr (r, p')" "kept (\<lambda>x' y'. int x' = x \<and> int y' = y) q' p'"
    using SetColor_kept [OF q'(1)] by blast
  then show "\<exists>q''. kbind (SetColorForPixelInVideoMem x y q' c) (\<lambda>(ret, p). Inr p) = Inr q'' \<and>
      kept (\<lambda>x y. topX \<le> int x \<and> int x \<le> botX \<and> topY \<le> int y \<and> int y \<le> botY) q' q''"
    using x y by (intro exI [of _ p']) (auto elim: kept_mono)
qed

end
