(* ===== verification/Text_Render.thy ===== *)
theory Text_Render
  imports Paint
begin

text \<open>
  Drawing text (video2lcd/1_th/render/render.c): the bitmap of a character is painted pixel by
  pixel, a string is measured first and then drawn in the centre of a rectangle.  The text decoder
  \<open>GetCodeFrmBuf\<close> and the font renderer \<open>GetFontBitmap\<close> are not part of the sources; they are
  arguments.  The loops over the characters end when the decoder reports length 0; a loop that does
  not end has the result \<open>None\<close>.
\<close>

section \<open>Characters\<close>

record font_bitmap =
  iXLeft :: int
  iYTop :: int
  iXMax :: int
  iYMax :: int
  font_iBpp :: int
  iPitch :: int
  iCurOriginX :: int
  iCurOriginY :: int
  iNextOriginX :: int
  iNextOriginY :: int
  pucBuffer :: "u8 list"

definition isFontInArea :: "int \<Rightarrow> int \<Rightarrow> int \<Rightarrow> int \<Rightarrow> font_bitmap \<Rightarrow> bool" where
  "isFontInArea topX topY botX botY fb \<longleftrightarrow> iXLeft fb \<ge> topX \<and> iXMax fb \<le> botX \<and> iYTop fb \<ge> topY \<and> iYMax fb \<le> botY"

definition byte_at :: "u8 list \<Rightarrow> int \<Rightarrow> u8 kres" where
  "byte_at m off = (if off < 0 then Inl OutOfBounds else mem_byte m (nat off))"

text \<open>
  A loop whose body may return from the function; \<open>False\<close> is the early return.
\<close>

fun for_while :: "'a list \<Rightarrow> ('a \<Rightarrow> 's \<Rightarrow> (bool \<times> 's) kres) \<Rightarrow> 's \<Rightarrow> (bool \<times> 's) kres" where
  "for_while [] f s = Inr (True, s)"
| "for_while (x # xs) f s = kbind (f x s) (\<lambda>(go, s). if go then for_while xs f s else Inr (False, s))"

text \<open>
  A line of a bitmap with one bit per pixel: a new byte is fetched when \<open>k\<close>, the bit to be tested,
  is 7.
\<close>

fun font_line :: "font_bitmap \<Rightarrow> int \<Rightarrow> int list \<Rightarrow> int \<Rightarrow> nat \<Rightarrow> u8 \<Rightarrow> pixel_datas \<Rightarrow> (bool \<times> pixel_datas) kres" where
  "font_line fb y [] i k ucByte p = Inr (True, p)"
| "font_line fb y (x # xs) i k ucByte p =
     kbind (if k = 7 then byte_at (pucBuffer fb) i else Inr ucByte) (\<lambda>ucByte.
     kbind (SetColorForPixelInVideoMem x y p (if bit ucByte k then COLOR_FOREGROUND else COLOR_BACKGROUND)) (\<lambda>(iNum, p).
       if iNum = - 1 then Inr (False, p)
       else font_line fb y xs (if k = 7 then i + 1 else i) (if k = 0 then 7 else k - 1) ucByte p))"

text \<open>
  The body of the loops for a bitmap with one byte per pixel.
\<close>

definition font_pixel :: "font_bitmap \<Rightarrow> int \<Rightarrow> int \<Rightarrow> int \<times> pixel_datas \<Rightarrow> (bool \<times> int \<times> pixel_datas) kres" where
  "font_pixel fb y x = (\<lambda>(i, p).
     kbind (byte_at (pucBuffer fb) i) (\<lambda>b.
     kbind (SetColorForPixelInVideoMem x y p (if b \<noteq> 0 then COLOR_FOREGROUND else COLOR_BACKGROUND)) (\<lambda>(iNum, p).
       Inr (iNum \<noteq> - 1, (i + 1, p)))))"

definition MergeOneFontToVideoMem :: "font_bitmap \<Rightarrow> pixel_datas \<Rightarrow> (int \<times> pixel_datas) kres" where
  "MergeOneFontToVideoMem fb p =
     (if font_iBpp fb = 1 then
        kbind (for_while [iYTop fb..iYMax fb - 1] (\<lambda>y p.
            font_line fb y [iXLeft fb..iXMax fb - 1] ((y - iYTop fb) * iPitch fb) 7 0 p) p)
          (\<lambda>(go, p). Inr (if go then 0 else - 1, p))
      else if font_iBpp fb = 8 then
        kbind (for_while [iYTop fb..iYMax fb - 1] (\<lambda>y. for_while [iXLeft fb..iXMax fb - 1] (font_pixel fb y)) (0, p))
          (\<lambda>(go, (i, p)). Inr (if go then 0 else - 1, p))
      else Inr (- 1, p))"

section \<open>Strings\<close>

type_synonym decoder = "u8 list \<Rightarrow> nat \<times> u32"
type_synonym fonts = "u32 \<Rightarrow> font_bitmap \<Rightarrow> int \<times> font_bitmap"

record extent =
  iMinX :: int
  iMaxX :: int
  iMinY :: int
  iMaxY :: int

definition extend :: "font_bitmap \<Rightarrow> extent \<Rightarrow> extent" where
  "extend fb e =
     (let e = (if iMinX e > iXLeft fb then e\<lparr>iMinX := iXLeft fb\<rparr> else e);
          e = (if iMaxX e < iXMax fb then e\<lparr>iMaxX := iXMax fb\<rparr> else e);
          e = (if iMinY e > iYTop fb then e\<lparr>iMinY := iYTop fb\<rparr> else e)
      in if iMaxY e < iXMax fb then e\<lparr>iMaxY := iYMax fb\<rparr> else e)"

definition next_origin :: "font_bitmap \<Rightarrow> font_bitmap" where
  "next_origin fb = fb\<lparr>iCurOriginX := iNextOriginX fb, iCurOriginY := iNextOriginY fb\<rparr>"

text \<open>
  The first loop: the extent of the string, or \<open>None\<close> inside when there is no character.
\<close>

partial_function (option) measure_string ::
    "decoder \<Rightarrow> fonts \<Rightarrow> u8 list \<Rightarrow> bool \<Rightarrow> extent \<Rightarrow> font_bitmap \<Rightarrow> (extent \<times> font_bitmap) option option" where
  "measure_string GetCodeFrmBuf GetFontBitmap buf bHasGetCode e fb =
     (case GetCodeFrmBuf buf of (iLen, dwCode) \<Rightarrow>
        if iLen = 0 then Some (if bHasGetCode then Some (e, fb) else None)
        else case GetFontBitmap dwCode fb of (iError, fb) \<Rightarrow>
          if iError = 0 then measure_string GetCodeFrmBuf GetFontBitmap (drop iLen buf) True (extend fb e) (next_origin fb)
          else measure_string GetCodeFrmBuf GetFontBitmap (drop iLen buf) True e fb)"

text \<open>
  The second loop draws the characters up to the first that does not fit.
\<close>

partial_function (option) draw_string ::
    "decoder \<Rightarrow> fonts \<Rightarrow> (font_bitmap \<Rightarrow> bool) \<Rightarrow> u8 list \<Rightarrow> bool \<Rightarrow> font_bitmap \<Rightarrow> pixel_datas \<Rightarrow> (int \<times> pixel_datas) kres option" where
  "draw_string GetCodeFrmBuf GetFontBitmap inArea buf bHasGetCode fb p =
     (case GetCodeFrmBuf buf of (iLen, dwCode) \<Rightarrow>
        if iLen = 0 then Some (Inr (if bHasGetCode then 0 else - 1, p))
        else case GetFontBitmap dwCode fb of (iError, fb) \<Rightarrow>
          if iError = 0 then
            if inArea fb then
              (case MergeOneFontToVideoMem fb p of
                 Inl e \<Rightarrow> Some (Inl e)
               | Inr (ret, p) \<Rightarrow>
                   if ret \<noteq> 0 then Some (Inr (- 1, p))
                   else draw_string GetCodeFrmBuf GetFontBitmap inArea (drop iLen buf) True (next_origin fb) p)
            else Some (Inr (0, p))
          else draw_string GetCodeFrmBuf GetFontBitmap inArea (drop iLen buf) True fb p)"

text \<open>
  Division of an \<open>int\<close> by 2 rounds towards zero.  \<open>tFontBitMap\<close> is a local variable; its
  initial contents apart from the origin are the argument \<open>fb\<close>.
\<close>

definition div2 :: "int \<Rightarrow> int" where
  "div2 x = (if x < 0 then - (- x div 2) else x div 2)"

definition MergerStringToCenterOfRectangleInVideoMem ::
    "decoder \<Rightarrow> fonts \<Rightarrow> font_bitmap \<Rightarrow> int \<Rightarrow> int \<Rightarrow> int \<Rightarrow> int \<Rightarrow> u8 list \<Rightarrow> pixel_datas \<Rightarrow> (int \<times> pixel_datas) kres option" where
  "MergerStringToCenterOfRectangleInVideoMem GetCodeFrmBuf GetFontBitmap fb topX topY botX botY text p =
     (case ClearRectangleInVideoMem topX topY botX botY p COLOR_BACKGROUND of
        Inl e \<Rightarrow> Some (Inl e)
      | Inr p \<Rightarrow>
          Option.bind (measure_string GetCodeFrmBuf GetFontBitmap text False \<lparr>iMinX = 32000, iMaxX = - 1, iMinY = 32000, iMaxY = - 1\<rparr>
              (fb\<lparr>iCurOriginX := 0, iCurOriginY := 0\<rparr>)) (\<lambda>r.
            case r of
              None \<Rightarrow> Some (Inr (- 1, p))
            | Some (e, fb) \<Rightarrow>
                let iWidth = iMaxX e - iMinX e;
                    iHeight = iMaxY e - iMinY e;
                    iWidth = (if iWidth > botX - topX then botX - topX else iWidth)
                in if iHeight > botY - topY then Some (Inr (- 1, p))
                   else
                     let iStrTopLeftX = topX + div2 (botX - topX - iWidth);
                         iStrTopLeftY = topY + div2 (botY - topY - iHeight)
                     in draw_string GetCodeFrmBuf GetFontBitmap (isFontInArea topX topY botX botY) text False
                          (fb\<lparr>iCurOriginX := iStrTopLeftX - iMinX e, iCurOriginY := iStrTopLeftY - iMinY e\<rparr>) p))"

section \<open>A character stays inside its box\<close>

text \<open>
  What the font renderer promises: the buffer holds the bitmap.
\<close>

definition font_ok :: "font_bitmap \<Rightarrow> bool" where
  "font_ok fb \<longleftrightarrow>
     (let w = nat (iXMax fb - iXLeft fb); h = nat (iYMax fb - iYTop fb) in
      (font_iBpp fb = 1 \<longrightarrow> int ((w + 7) div 8) \<le> iPitch fb \<and> int h * iPitch fb \<le> int (length (pucBuffer fb))) \<and>
      (font_iBpp fb = 8 \<longrightarrow> h * w \<le> length (pucBuffer fb)))"

lemma for_while_inv:
  assumes "\<And>j s. j < length xs \<Longrightarrow> I j s \<Longrightarrow> \<exists>go s'. f (xs ! j) s = Inr (go, s') \<and> (if go then I (Suc j) s' else F s')" and "I 0 s"
  shows "\<exists>go s'. for_while xs f s = Inr (go, s') \<and> (if go then I (length xs) s' else F s')"
  using assms
proof (induction xs arbitrary: s I)
  case (Cons x xs)
  obtain go s1 where s1: "f x s = Inr (go, s1)" "if go then I 1 s1 else F s1"
    using Cons.prems(1) [of 0 s] Cons.prems(2) by auto
  show ?case
  proof (cases go)
    case True
    have "\<exists>go s'. for_while xs f s1 = Inr (go, s') \<and> (if go then I (Suc (length xs)) s' else F s')"
    proof (rule Cons.IH [of "\<lambda>j. I (Suc j)"])
      show "\<exists>go s'. f (xs ! j) s = Inr (go, s') \<and> (if go then I (Suc (Suc j)) s' else F s')" if "j < length xs" "I (Suc j) s" for j s
        using Cons.prems(1) [of "Suc j" s] that by simp
      show "I (Suc 0) s1" using s1(2) True by simp
    qed
    then show ?thesis unfolding length_Cons using s1(1) True by (simp split del: if_split)
  qed (use s1 in auto)
qed auto

text \<open>
  The bytes that a line of \<open>n\<close> more pixels still fetches.
\<close>

definition bytes_left :: "nat \<Rightarrow> nat \<Rightarrow> nat" where
  "bytes_left k n = (if k = 7 then (n + 7) div 8 else (n - (k + 1) + 7) div 8)"

lemma bytes_left_step:
  assumes "k \<le> 7"
  shows "(if k = 7 then 1 else 0) + bytes_left (if k = 0 then 7 else k - 1) n \<le> bytes_left k (Suc n)"
proof -
  consider "k = 7" | "k = 0" | "0 < k" "k < 7" using assms by linarith
  then show ?thesis
  proof cases
    case 1
    then show ?thesis by (cases "7 \<le> n") (simp_all add: bytes_left_def)
  qed (simp_all add: bytes_left_def)
qed

lemma font_line_kept:
  assumes "pix_wf p" and "\<And>x. x \<in> set xs \<Longrightarrow> inside p x y \<and> S (nat x) (nat y)"
    and "k \<le> 7" "0 \<le> i" "nat i + bytes_left k (length xs) \<le> length (pucBuffer fb)"
  shows "\<exists>go p'. font_line fb y xs i k ucByte p = Inr (go, p') \<and> kept S p p'"
  using assms
proof (induction xs arbitrary: i k ucByte p)
  case Nil
  then show ?case using kept_refl by auto
next
  case (Cons x xs)
  have "k = 7 \<Longrightarrow> nat i < length (pucBuffer fb)" using Cons.prems(5) by (simp add: bytes_left_def)
  then have "\<exists>b. (if k = 7 then byte_at (pucBuffer fb) i else Inr ucByte) = Inr b"
    using Cons.prems(4) by (cases "k = 7") (simp_all add: byte_at_def mem_byte_def)
  then obtain b where b: "(if k = 7 then byte_at (pucBuffer fb) i else Inr ucByte) = Inr b" by blast
  have "inside p x y" "S (nat x) (nat y)" using Cons.prems(2) by simp_all
  then obtain r q where q: "SetColorForPixelInVideoMem x y p (if bit b k then COLOR_FOREGROUND else COLOR_BACKGROUND) = Inr (r, q)"
    "kept (\<lambda>x' y'. int x' = x \<and> int y' = y) p q"
    using SetColor_kept [OF Cons.prems(1)] by blast
  have kq: "kept S p q" using \<open>S (nat x) (nat y)\<close> by (intro kept_mono [OF q(2)]) auto
  let ?i = "if k = 7 then i + 1 else i" and ?k = "if k = 0 then 7 else k - 1"
  have kk: "?k \<le> 7" and ii: "0 \<le> ?i" using Cons.prems(3,4) by auto
  have "nat ?i + bytes_left ?k (length xs) \<le> length (pucBuffer fb)"
    using bytes_left_step [OF Cons.prems(3), of "length xs"] Cons.prems(4,5) by (cases "k = 7") simp_all
  moreover have "inside q x' y \<and> S (nat x') (nat y)" if "x' \<in> set xs" for x'
    using Cons.prems(2) [of x'] that kept_shape [OF kq] by (simp add: inside_def)
  ultimately have "\<exists>go p'. font_line fb y xs ?i ?k b q = Inr (go, p') \<and> kept S q p'"
    using kept_shape [OF kq] kk ii by (intro Cons.IH) blast+
  then show ?case
    unfolding font_line.simps b kbind_simps q(1) prod.case using kq kept_trans [OF kq] by (cases "r = - 1") (simp_all only: if_True if_False refl, blast+)
qed

lemma font_mono_kept:
  assumes wf: "pix_wf p" and S: "\<And>x y. x \<in> set xs \<Longrightarrow> y \<in> set ys \<Longrightarrow> inside p x y \<and> S (nat x) (nat y)"
    and buf: "\<And>y. y \<in> set ys \<Longrightarrow> 0 \<le> g y \<and> nat (g y) + (length xs + 7) div 8 \<le> length (pucBuffer fb)"
  shows "\<exists>go p'. for_while ys (\<lambda>y p. font_line fb y xs (g y) 7 0 p) p = Inr (go, p') \<and> kept S p p'"
proof -
  have "\<exists>go q'. font_line fb (ys ! j) xs (g (ys ! j)) 7 0 q = Inr (go, q') \<and> (if go then kept S p q' else kept S p q')"
    if "j < length ys" "kept S p q" for j q
  proof -
    have y: "ys ! j \<in> set ys" using that(1) by simp
    have "inside q x (ys ! j) \<and> S (nat x) (nat (ys ! j))" if "x \<in> set xs" for x
      using S [OF that y] kept_shape [OF \<open>kept S p q\<close>] by (simp add: inside_def)
    then have "\<exists>go q'. font_line fb (ys ! j) xs (g (ys ! j)) 7 0 q = Inr (go, q') \<and> kept S q q'"
      using buf [OF y] kept_shape [OF that(2)] font_line_kept [of q xs "ys ! j" S 7 "g (ys ! j)" fb 0] by (simp add: bytes_left_def)
    then show ?thesis using kept_trans [OF that(2)] by auto
  qed
  from for_while_inv [where I = "\<lambda>j. kept S p" and F = "kept S p" and f = "\<lambda>y p. font_line fb y xs (g y) 7 0 p",
      OF this kept_refl [OF wf]]
  show ?thesis by simp
qed

lemma font_pixel_kept:
  assumes "kept S p q" and "inside p x y \<and> S (nat x) (nat y)" and "i < length (pucBuffer fb)"
  shows "\<exists>go q'. font_pixel fb y x (int i, q) = Inr (go, (int (Suc i), q')) \<and> kept S p q'"
proof -
  have "inside q x y" using assms(2) kept_shape [OF assms(1)] by (simp add: inside_def)
  then obtain r q' where q': "SetColorForPixelInVideoMem x y q (if pucBuffer fb ! i \<noteq> 0 then COLOR_FOREGROUND else COLOR_BACKGROUND) = Inr (r, q')"
    "kept (\<lambda>x' y'. int x' = x \<and> int y' = y) q q'"
    using SetColor_kept kept_shape [OF assms(1)] by blast
  have "kept S q q'" using assms(2) by (intro kept_mono [OF q'(2)]) auto
  then have "kept S p q'" by (rule kept_trans [OF assms(1)])
  moreover have "byte_at (pucBuffer fb) (int i) = Inr (pucBuffer fb ! i)" using assms(3) by (simp add: byte_at_def mem_byte_def)
  ultimately show ?thesis using q'(1) by (simp add: font_pixel_def)
qed

lemma font_grey_kept:
  assumes wf: "pix_wf p" and S: "\<And>x y. x \<in> set xs \<Longrightarrow> y \<in> set ys \<Longrightarrow> inside p x y \<and> S (nat x) (nat y)"
    and buf: "length ys * length xs \<le> length (pucBuffer fb)"
  shows "\<exists>go i p'. for_while ys (\<lambda>y. for_while xs (font_pixel fb y)) (0, p) = Inr (go, (i, p')) \<and> kept S p p'"
proof -
  let ?F = "\<lambda>(i :: int, q). kept S p q"
  let ?I = "\<lambda>w j (i :: int, q). i = int (j * w) \<and> kept S p q"
  have line: "\<exists>go s'. for_while xs (font_pixel fb (ys ! j)) s = Inr (go, s') \<and> (if go then ?I (length xs) (Suc j) s' else ?F s')"
    if j: "j < length ys" and s: "?I (length xs) j s" for j s
  proof -
    let ?J = "\<lambda>k (i :: int, q). i = int (j * length xs + k) \<and> kept S p q"
    have "\<exists>go s'. font_pixel fb (ys ! j) (xs ! k) s = Inr (go, s') \<and> (if go then ?J (Suc k) s' else ?F s')"
      if "k < length xs" and J: "?J k s" for k s
    proof -
      have "Suc j * length xs \<le> length ys * length xs" using j by (intro mult_right_mono) auto
      then have "j * length xs + k < length (pucBuffer fb)" using \<open>k < length xs\<close> buf by simp
      moreover have "inside p (xs ! k) (ys ! j) \<and> S (nat (xs ! k)) (nat (ys ! j))" using S j \<open>k < length xs\<close> by simp
      ultimately obtain go q' where
        "font_pixel fb (ys ! j) (xs ! k) (int (j * length xs + k), snd s) = Inr (go, (int (Suc (j * length xs + k)), q'))" "kept S p q'"
        using font_pixel_kept [of S p "snd s" "xs ! k" "ys ! j" "j * length xs + k" fb] J by (auto simp: case_prod_beta)
      moreover have "s = (int (j * length xs + k), snd s)" using J by (cases s) simp
      ultimately show ?thesis by (intro exI [of _ go] exI [of _ "(int (Suc (j * length xs + k)), q')"]) simp
    qed
    moreover have "?J 0 s" using s by simp
    ultimately have "\<exists>go s'. for_while xs (font_pixel fb (ys ! j)) s = Inr (go, s') \<and> (if go then ?J (length xs) s' else ?F s')"
      by (rule for_while_inv [where I = ?J and F = ?F])
    moreover have "j * length xs + length xs = Suc j * length xs" by simp
    ultimately show ?thesis by (simp only:)
  qed
  have "?I (length xs) 0 (0, p)" using kept_refl [OF wf] by simp
  from for_while_inv [where I = "?I (length xs)" and F = ?F and f = "\<lambda>y. for_while xs (font_pixel fb y)", OF line this]
  show ?thesis by (auto split: if_splits)
qed

lemma MergeOneFont_kept:
  assumes wf: "pix_wf p" and ok: "font_ok fb"
    and S: "\<And>x y. iXLeft fb \<le> x \<Longrightarrow> x < iXMax fb \<Longrightarrow> iYTop fb \<le> y \<Longrightarrow> y < iYMax fb \<Longrightarrow> inside p x y \<and> S (nat x) (nat y)"
  shows "\<exists>r p'. MergeOneFontToVideoMem fb p = Inr (r, p') \<and> kept S p p'"
proof -
  let ?xs = "[iXLeft fb..iXMax fb - 1]" and ?ys = "[iYTop fb..iYMax fb - 1]"
  have S': "inside p x y \<and> S (nat x) (nat y)" if "x \<in> set ?xs" "y \<in> set ?ys" for x y
    using S [of x y] that by simp
  consider "font_iBpp fb = 1" | "font_iBpp fb = 8" | "font_iBpp fb \<noteq> 1" "font_iBpp fb \<noteq> 8" by blast
  then show ?thesis
  proof cases
    case 1
    let ?w = "nat (iXMax fb - iXLeft fb)"
    have pitch: "int ((?w + 7) div 8) \<le> iPitch fb" "int (nat (iYMax fb - iYTop fb)) * iPitch fb \<le> int (length (pucBuffer fb))"
      using ok 1 by (simp_all add: font_ok_def Let_def)
    have "0 \<le> (y - iYTop fb) * iPitch fb \<and> nat ((y - iYTop fb) * iPitch fb) + (length ?xs + 7) div 8 \<le> length (pucBuffer fb)"
      if "y \<in> set ?ys" for y
    proof -
      have y: "0 \<le> y - iYTop fb" "y - iYTop fb + 1 \<le> int (nat (iYMax fb - iYTop fb))" using that by simp_all
      have p0: "0 \<le> iPitch fb" using pitch(1) by linarith
      have "(y - iYTop fb + 1) * iPitch fb \<le> int (length (pucBuffer fb))"
        using mult_right_mono [OF y(2) p0] pitch(2) by linarith
      then have fits: "(y - iYTop fb) * iPitch fb + iPitch fb \<le> int (length (pucBuffer fb))"
        by (simp only: distrib_right mult_1)
      have pos: "0 \<le> (y - iYTop fb) * iPitch fb" using y(1) p0 by simp
      have "nat q + a \<le> n" if "0 \<le> q" "q + k \<le> int n" "int a \<le> k" for q k :: int and a n :: nat
        using that by linarith
      from this [OF pos fits pitch(1)] pos show ?thesis by simp
    qed
    from font_mono_kept [where g = "\<lambda>y. (y - iYTop fb) * iPitch fb" and xs = ?xs and ys = ?ys, OF wf S' this]
    show ?thesis using 1 by (auto simp: MergeOneFontToVideoMem_def)
  next
    case 2
    have "length ?ys * length ?xs \<le> length (pucBuffer fb)" using ok 2 by (simp add: font_ok_def Let_def)
    from font_grey_kept [where xs = ?xs and ys = ?ys, OF wf S' this]
    show ?thesis using 2 by (auto simp: MergeOneFontToVideoMem_def)
  qed (use kept_refl [OF wf] in \<open>simp add: MergeOneFontToVideoMem_def\<close>)
qed

section \<open>A string stays inside its rectangle\<close>

text \<open>
  What the decoder promises: it does not read past the end of the text.
\<close>

definition decoder_ok :: "decoder \<Rightarrow> bool" where
  "decoder_ok G \<longleftrightarrow> (\<forall>buf. fst (G buf) \<le> length buf)"

definition fonts_ok :: "fonts \<Rightarrow> bool" where
  "fonts_ok F \<longleftrightarrow> (\<forall>code fb fb'. F code fb = (0, fb') \<longrightarrow> font_ok fb')"

lemma measure_string_terminates:
  assumes "decoder_ok G"
  shows "\<exists>r. measure_string G F buf has e fb = Some r"
proof (induction buf arbitrary: has e fb rule: length_induct)
  case (1 buf)
  obtain n code where g: "G buf = (n, code)" by fastforce
  obtain err fb' where f: "F code fb = (err, fb')" by fastforce
  have le: "n \<le> length buf" using assms g unfolding decoder_ok_def by (metis fst_conv)
  have "\<exists>r. measure_string G F (drop n buf) has e fb = Some r" if "n \<noteq> 0" for has e fb
    using 1 that le by simp
  then show ?case
    unfolding measure_string.simps [of G F buf] using g f by simp
qed

lemma draw_string_kept:
  assumes G: "decoder_ok G" and F: "fonts_ok F" and "pix_wf p"
    and S: "\<And>fb x y. inArea fb \<Longrightarrow> iXLeft fb \<le> x \<Longrightarrow> x < iXMax fb \<Longrightarrow> iYTop fb \<le> y \<Longrightarrow> y < iYMax fb \<Longrightarrow> inside p x y \<and> S (nat x) (nat y)"
  shows "\<exists>r p'. draw_string G F inArea buf has fb p = Some (Inr (r, p')) \<and> kept S p p'"
  using assms(3) S
proof (induction buf arbitrary: has fb p rule: length_induct)
  case (1 buf)
  obtain n code where g: "G buf = (n, code)" by fastforce
  obtain err fb' where f: "F code fb = (err, fb')" by fastforce
  have le: "n \<le> length buf" using G g unfolding decoder_ok_def by (metis fst_conv)
  have rest: "\<exists>r p'. draw_string G F inArea (drop n buf) has fb q = Some (Inr (r, p')) \<and> kept S p p'"
    if "n \<noteq> 0" and q: "kept S p q" for has fb q
  proof -
    have "length (drop n buf) < length buf" using that le by simp
    moreover have "pix_wf q" using kept_shape [OF q] by simp
    moreover have "inside q x y \<and> S (nat x) (nat y)"
      if "inArea fb" "iXLeft fb \<le> x" "x < iXMax fb" "iYTop fb \<le> y" "y < iYMax fb" for fb x y
      using 1(3) [OF that] kept_shape [OF q] by (simp add: inside_def)
    ultimately have "\<exists>r p'. draw_string G F inArea (drop n buf) has fb q = Some (Inr (r, p')) \<and> kept S q p'"
      using 1(1) by blast
    then show ?thesis using kept_trans [OF q] by blast
  qed
  have refl: "kept S p p" using kept_refl [OF 1(2)] .
  consider "n = 0" | "n \<noteq> 0" "err \<noteq> 0" | "n \<noteq> 0" "err = 0" "\<not> inArea fb'" | "n \<noteq> 0" "err = 0" "inArea fb'" by blast
  then show ?case
  proof cases
    case 4
    have "font_ok fb'" using F f 4(2) by (auto simp: fonts_ok_def)
    then obtain r q where q: "MergeOneFontToVideoMem fb' p = Inr (r, q)" "kept S p q"
      using MergeOneFont_kept [OF 1(2), of fb' S] 1(3) [OF 4(3)] by blast
    show ?thesis
      unfolding draw_string.simps [of G F inArea buf] using g f 4 q rest [OF 4(1) q(2)] by (cases "r = 0") simp_all
  qed (unfold draw_string.simps [of G F inArea buf], use g f refl rest [OF _ refl] in simp_all)
qed

text \<open>
  C29: drawing a string in a rectangle of a well-formed picture returns, makes no access outside the
  picture, and changes no pixel outside the rectangle.
\<close>

theorem merge_string_inside:
  assumes "pix_wf p" and "inside p topX topY" "inside p botX botY" and "decoder_ok G" and "fonts_ok F"
  shows "\<exists>r p'. MergerStringToCenterOfRectangleInVideoMem G F fb topX topY botX botY txt p = Some (Inr (r, p')) \<and>
    kept (\<lambda>x y. topX \<le> int x \<and> int x \<le> botX \<and> topY \<le> int y \<and> int y \<le> botY) p p'"
proof -
  let ?S = "\<lambda>x y. topX \<le> int x \<and> int x \<le> botX \<and> topY \<le> int y \<and> int y \<le> botY"
  obtain q where q: "ClearRectangleInVideoMem topX topY botX botY p COLOR_BACKGROUND = Inr q" "kept ?S p q"
    using ClearRectangle_kept [OF assms(1-3)] by blast
  obtain r where r: "measure_string G F txt False \<lparr>iMinX = 32000, iMaxX = - 1, iMinY = 32000, iMaxY = - 1\<rparr>
      (fb\<lparr>iCurOriginX := 0, iCurOriginY := 0\<rparr>) = Some r"
    using measure_string_terminates [OF assms(4)] by blast
  have "inside q x y \<and> ?S (nat x) (nat y)"
    if "isFontInArea topX topY botX botY fb" "iXLeft fb \<le> x" "x < iXMax fb" "iYTop fb \<le> y" "y < iYMax fb" for fb x y
    using that assms(2,3) kept_shape [OF q(2)] by (auto simp: isFontInArea_def inside_def)
  then have draw: "\<exists>r p'. draw_string G F (isFontInArea topX topY botX botY) txt False fb q = Some (Inr (r, p')) \<and> kept ?S q p'" for fb
    using kept_shape [OF q(2)] by (intro draw_string_kept assms) auto
  have "\<exists>r p'. draw_string G F (isFontInArea topX topY botX botY) txt False fb q = Some (Inr (r, p')) \<and> kept ?S p p'" for fb
    using draw [of fb] kept_trans [OF q(2)] by blast
  then show ?thesis
    using q r by (auto simp: MergerStringToCenterOfRectangleInVideoMem_def Let_def split: option.split)
qed

text \<open>
  A decoder for single-byte codes and a font of one pixel per character.
\<close>

definition ascii_decoder :: decoder where
  "ascii_decoder buf = (case buf of [] \<Rightarrow> (0, 0) | b # bs \<Rightarrow> (1, ucast b))"

definition dot_font :: fonts where
  "dot_font code fb = (0, fb\<lparr>iXLeft := iCurOriginX fb, iYTop := iCurOriginY fb, iXMax := iCurOriginX fb + 1,
     iYMax := iCurOriginY fb + 1, font_iBpp := 8, iPitch := 1, iNextOriginX := iCurOriginX fb + 1,
     iNextOriginY := iCurOriginY fb, pucBuffer := [ucast code]\<rparr>)"

definition no_bitmap :: font_bitmap where
  "no_bitmap = \<lparr>iXLeft = 0, iYTop = 0, iXMax = 0, iYMax = 0, font_iBpp = 0, iPitch = 0, iCurOriginX = 0, iCurOriginY = 0,
     iNextOriginX = 0, iNextOriginY = 0, pucBuffer = []\<rparr>"

theorem merge_string_inside_witness:
  "\<exists>r p'. MergerStringToCenterOfRectangleInVideoMem ascii_decoder dot_font no_bitmap 0 0 2 1 [65, 0] zoom_to = Some (Inr (r, p')) \<and>
    pixel p' 3 0 = pixel zoom_to 3 0"
proof -
  have "decoder_ok ascii_decoder" by (simp add: decoder_ok_def ascii_decoder_def split: list.split)
  moreover have "fonts_ok dot_font" by (auto simp: fonts_ok_def dot_font_def font_ok_def)
  moreover have "pix_wf zoom_to" "inside zoom_to 0 0" "inside zoom_to 2 1" by (simp_all add: pix_wf_def inside_def zoom_to_def)
  ultimately obtain r p' where "MergerStringToCenterOfRectangleInVideoMem ascii_decoder dot_font no_bitmap 0 0 2 1 [65, 0] zoom_to = Some (Inr (r, p'))"
    "kept (\<lambda>x y. 0 \<le> int x \<and> int x \<le> 2 \<and> 0 \<le> int y \<and> int y \<le> 1) zoom_to p'"
    using merge_string_inside [of zoom_to 0 0 2 1 ascii_decoder dot_font no_bitmap "[65, 0]"] by blast
  then show ?thesis by (intro exI [of _ r] exI [of _ p']) (simp add: kept_def zoom_to_def)
qed

text \<open>
  The height of a string: the test before the update of \<open>iMaxY\<close> compares with \<open>iXMax\<close>.  For
  characters that lie to the right of \<open>iMaxY\<close>, the last one decides, whatever came before.
\<close>

lemma extend_last:
  assumes "iMaxY e < iXMax fb" 
  shows "iMaxY (extend fb e) = iYMax fb"
  using assms by (simp add: extend_def Let_def)

lemma string_height_too_small:
  "\<exists>a b e. iMaxY (extend b (extend a e)) < iYMax a"
  by (rule exI [of _ "no_bitmap\<lparr>iXMax := 20, iYMax := 12\<rparr>"], rule exI [of _ "no_bitmap\<lparr>iXMax := 40, iYMax := 8\<rparr>"],
      rule exI [of _ "\<lparr>iMinX = 32000, iMaxX = - 1, iMinY = 32000, iMaxY = - 1\<rparr>"])
    (simp add: extend_last no_bitmap_def)

end
