(* ===== verification/Registry.thy ===== *)
theory Registry
  imports Prelude
begin

text \<open>
  The lists of modules of the picture viewer (video2lcd/1_th): display modules
  (display/disp_manager.c) and picture parsers (render/format/picfmt_manager.c) are structures
  linked through their \<open>ptNext\<close> pointer.  A structure is its address, the pointers are a map from
  addresses to addresses.  The loops that follow the pointers may run forever on a cyclic list;
  then their result is \<open>None\<close>.
\<close>

section \<open>Linked structures\<close>

record registry =
  reg_head :: "nat option"
  reg_next :: "nat \<Rightarrow> nat option"

partial_function (option) last_node :: "(nat \<Rightarrow> nat option) \<Rightarrow> nat \<Rightarrow> nat option" where
  "last_node nx p = (case nx p of None \<Rightarrow> Some p | Some q \<Rightarrow> last_node nx q)"

partial_function (option) find_node :: "(nat \<Rightarrow> bool) \<Rightarrow> (nat \<Rightarrow> nat option) \<Rightarrow> nat option \<Rightarrow> nat option option" where
  "find_node P nx p = (case p of None \<Rightarrow> Some None | Some a \<Rightarrow> if P a then Some (Some a) else find_node P nx (nx a))"

definition register_node :: "nat \<Rightarrow> registry \<Rightarrow> registry option" where
  "register_node n r =
     (case reg_head r of
        None \<Rightarrow> Some (r\<lparr>reg_head := Some n, reg_next := (reg_next r)(n := None)\<rparr>)
      | Some h \<Rightarrow> (case last_node (reg_next r) h of
            None \<Rightarrow> None
          | Some t \<Rightarrow> Some (r\<lparr>reg_next := (reg_next r)(t := Some n, n := None)\<rparr>)))"

definition lookup_node :: "(nat \<Rightarrow> bool) \<Rightarrow> registry \<Rightarrow> nat option option" where
  "lookup_node P r = find_node P (reg_next r) (reg_head r)"

definition empty_registry :: registry where
  "empty_registry = \<lparr>reg_head = None, reg_next = (\<lambda>_. None)\<rparr>"

section \<open>Abstraction\<close>

fun chain :: "(nat \<Rightarrow> nat option) \<Rightarrow> nat option \<Rightarrow> nat list \<Rightarrow> bool" where
  "chain nx p [] \<longleftrightarrow> p = None"
| "chain nx p (x # xs) \<longleftrightarrow> p = Some x \<and> chain nx (nx x) xs"

definition nodes :: "registry \<Rightarrow> nat list \<Rightarrow> bool" where
  "nodes r xs \<longleftrightarrow> chain (reg_next r) (reg_head r) xs"

lemma chain_unique: "chain nx p xs \<Longrightarrow> chain nx p ys \<Longrightarrow> xs = ys"
proof (induction xs arbitrary: p ys)
  case Nil
  then show ?case by (cases ys) auto
next
  case (Cons x xs)
  then show ?case by (cases ys) auto
qed

lemma chain_suffix: "chain nx p (xs @ y # ys) \<Longrightarrow> chain nx (Some y) (y # ys)"
  by (induction xs arbitrary: p) auto

lemma chain_distinct: "chain nx p xs \<Longrightarrow> distinct xs"
proof (induction xs arbitrary: p)
  case (Cons x xs)
  have "x \<notin> set xs"
  proof
    assume "x \<in> set xs"
    then obtain us vs where s: "xs = us @ x # vs" by (meson split_list)
    have "chain nx (Some x) (x # xs)" "chain nx (Some x) (x # vs)"
      using Cons.prems chain_suffix [of nx "nx x" us x vs] s by auto
    then have "x # xs = x # vs" by (rule chain_unique)
    then show False using s by simp
  qed
  then show ?case using Cons by auto
qed simp

lemma chain_frame: "chain nx p xs \<Longrightarrow> n \<notin> set xs \<Longrightarrow> chain (nx(n := v)) p xs"
  by (induction xs arbitrary: p) auto

lemma last_node_chain: "chain nx (Some h) (h # xs) \<Longrightarrow> last_node nx h = Some (last (h # xs))"
proof (induction xs arbitrary: h)
  case Nil
  then show ?case by (simp add: last_node.simps)
next
  case (Cons x xs)
  then have "last_node nx x = Some (last (x # xs))" by simp
  then show ?case using Cons.prems by (simp add: last_node.simps [of nx h])
qed

lemma find_node_chain: "chain nx p xs \<Longrightarrow> find_node P nx p = Some (List.find P xs)"
proof (induction xs arbitrary: p)
  case Nil
  then show ?case by (simp add: find_node.simps)
next
  case (Cons x xs)
  then show ?case by (simp add: find_node.simps [of P nx "Some x"])
qed

lemma chain_append:
  assumes "chain nx p (xs @ [t])" "n \<notin> set (xs @ [t])"
  shows "chain (nx(t := Some n, n := None)) p (xs @ [t, n])"
  using assms
proof (induction xs arbitrary: p)
  case (Cons x xs)
  have "x \<noteq> t" using chain_distinct [OF Cons.prems(1)] by auto
  then show ?case using Cons by auto
qed auto

section \<open>The interface\<close>

text \<open>
  A registry keeps the items in the order of registration; a lookup returns the first item with
  a property.
\<close>

locale module_list =
  fixes empty :: 's and register :: "'n \<Rightarrow> 's \<Rightarrow> 's option"
    and lookup :: "('n \<Rightarrow> bool) \<Rightarrow> 's \<Rightarrow> 'n option option" and items :: "'s \<Rightarrow> 'n list \<Rightarrow> bool"
  assumes empty: "items empty []"
    and register: "items s xs \<Longrightarrow> n \<notin> set xs \<Longrightarrow> \<exists>s'. register n s = Some s' \<and> items s' (xs @ [n])"
    and lookup: "items s xs \<Longrightarrow> lookup P s = Some (List.find P xs)"
begin

fun register_all :: "'n list \<Rightarrow> 's \<Rightarrow> 's option" where
  "register_all [] s = Some s"
| "register_all (n # ns) s = Option.bind (register n s) (register_all ns)"

lemma register_all_items:
  "items s xs \<Longrightarrow> distinct (xs @ ns) \<Longrightarrow> \<exists>s'. register_all ns s = Some s' \<and> items s' (xs @ ns)"
proof (induction ns arbitrary: s xs)
  case (Cons n ns)
  then obtain s1 where "register n s = Some s1" "items s1 (xs @ [n])" using register [of s xs n] by auto
  then show ?case using Cons.IH [of s1 "xs @ [n]"] Cons.prems(2) by auto
qed simp

lemma find_unique: "n \<in> set ns \<Longrightarrow> \<forall>m\<in>set ns. f m = f n \<longrightarrow> m = n \<Longrightarrow> List.find (\<lambda>m. f m = f n) ns = Some n"
  by (induction ns) auto

lemma registered_found:
  assumes "distinct ns" "n \<in> set ns" "inj_on f (set ns)"
  shows "\<exists>s. register_all ns empty = Some s \<and> lookup (\<lambda>m. f m = f n) s = Some (Some n) \<and>
    (\<forall>v. v \<notin> f ` set ns \<longrightarrow> lookup (\<lambda>m. f m = v) s = Some None)"
proof -
  obtain s where s: "register_all ns empty = Some s" "items s ns"
    using register_all_items [OF empty] assms(1) by auto
  have "List.find (\<lambda>m. f m = f n) ns = Some n"
    by (rule find_unique) (use assms in \<open>auto dest: inj_onD\<close>)
  moreover have "List.find (\<lambda>m. f m = v) ns = None" if "v \<notin> f ` set ns" for v
    using that by (auto simp: find_None_iff)
  ultimately show ?thesis using s lookup by auto
qed

end

interpretation linked: module_list empty_registry register_node lookup_node nodes
proof
  show "nodes empty_registry []" by (simp add: nodes_def empty_registry_def)
next
  fix s xs n assume s: "nodes s xs" "n \<notin> set xs"
  show "\<exists>s'. register_node n s = Some s' \<and> nodes s' (xs @ [n])"
  proof (cases xs rule: rev_cases)
    case Nil
    then show ?thesis using s by (simp add: nodes_def register_node_def)
  next
    case (snoc ys t)
    obtain h where h: "reg_head s = Some h" "chain (reg_next s) (Some h) (ys @ [t])"
      using s snoc by (cases ys) (auto simp: nodes_def)
    have "last_node (reg_next s) h = Some t"
      using h snoc last_node_chain [of "reg_next s" h "tl (ys @ [t])"] by (cases ys) auto
    then show ?thesis
      using h s snoc chain_append [of "reg_next s" "Some h" ys t n] by (simp add: nodes_def register_node_def)
  qed
next
  fix s xs P assume "nodes s xs"
  then show "lookup_node P s = Some (List.find P xs)" by (simp add: nodes_def lookup_node_def find_node_chain)
qed

end
