(* ===== verification/Bmp.thy ===== *)
theory Bmp
  imports Paint
begin

text \<open>
  The parser of Windows bitmaps (video2lcd/1_th/render/format/bmp.c).  A file is the list of its
  bytes; the packed headers are read at their offsets, least significant byte first.  The memory
  allocator is an argument: the contents of the memory it returns, or \<open>None\<close>.
\<close>

section \<open>Operations\<close>

definition le16_at :: "u8 list \<Rightarrow> nat \<Rightarrow> u16 kres" where
  "le16_at f off = kbind (mem_read f off 2) (\<lambda>bs. Inr (get_le16 bs 0))"

definition le32_at :: "u8 list \<Rightarrow> nat \<Rightarrow> u32 kres" where
  "le32_at f off = kbind (mem_read f off 4) (\<lambda>bs. Inr (get_le32 bs 0))"

definition bfOffBits :: "u8 list \<Rightarrow> u32 kres" where
  "bfOffBits f = le32_at f 10"

definition biWidth :: "u8 list \<Rightarrow> u32 kres" where
  "biWidth f = le32_at f 18"

definition biHeight :: "u8 list \<Rightarrow> u32 kres" where
  "biHeight f = le32_at f 22"

definition biBitCount :: "u8 list \<Rightarrow> u16 kres" where
  "biBitCount f = le16_at f 28"

definition isBMPFormat :: "u8 list \<Rightarrow> int kres" where
  "isBMPFormat f =
     kbind (mem_byte f 0) (\<lambda>b0. if b0 \<noteq> 0x42 then Inr 0
       else kbind (mem_byte f 1) (\<lambda>b1. if b1 \<noteq> 0x4d then Inr 0 else Inr 1))"

definition rgb :: "u8 \<Rightarrow> u8 \<Rightarrow> u8 \<Rightarrow> u32" where
  "rgb r g b = (push_bit 16 (ucast r) OR push_bit 8 (ucast g)) OR ucast b"

text \<open>
  The body of a line conversion; \<open>col\<close> takes red, green and blue from the three bytes of a pixel.
\<close>

definition line_to_display ::
    "(u8 list \<Rightarrow> u8 \<times> u8 \<times> u8) \<Rightarrow> int \<Rightarrow> int \<Rightarrow> u8 list \<Rightarrow> int \<Rightarrow> u8 list \<Rightarrow> int \<Rightarrow> u8 list kres" where
  "line_to_display col w iDstBpp src soff dst doff =
     (if iDstBpp = 24 then memcpy dst doff src soff (w * 3)
      else for_each [0..w - 1] (\<lambda>i m.
        kbind (get_at src (soff + 3 * i) 3) (\<lambda>bs.
          let (dwRed, dwGreen, dwBlue) = col bs in
          if iDstBpp = 32 then put_at m (doff + 4 * i) (put_le32 (rgb dwRed dwGreen dwBlue))
          else if iDstBpp = 16 then
            put_at m (doff + 2 * i) (put_le16 (ucast
              ((push_bit 11 (drop_bit 3 (ucast dwRed :: u32)) OR push_bit 5 (drop_bit 2 (ucast dwGreen :: u32))) OR
                drop_bit 3 (ucast dwBlue :: u32))))
          else Inr m)) dst)"

definition bgr :: "u8 list \<Rightarrow> u8 \<times> u8 \<times> u8" where
  "bgr bs = (bs ! 2, bs ! 1, bs ! 0)"

definition CovertOneLine :: "int \<Rightarrow> int \<Rightarrow> int \<Rightarrow> u8 list \<Rightarrow> int \<Rightarrow> u8 list \<Rightarrow> int \<Rightarrow> (int \<times> u8 list) kres" where
  "CovertOneLine w iSrcBpp iDstBpp src soff dst doff =
     (if iSrcBpp \<noteq> 24 then Inr (- 1, dst)
      else kbind (line_to_display bgr w iDstBpp src soff dst doff) (\<lambda>m. Inr (0, m)))"

definition GetPixelDatasFrmBMP :: "(int \<Rightarrow> u8 list option) \<Rightarrow> u8 list \<Rightarrow> pixel_datas \<Rightarrow> (int \<times> pixel_datas) kres" where
  "GetPixelDatasFrmBMP malloc f p =
     kbind (biWidth f) (\<lambda>bw. kbind (biHeight f) (\<lambda>bh. kbind (biBitCount f) (\<lambda>bc.
       let w = sint bw; h = sint bh; iBMPBpp = uint bc in
       if iBMPBpp \<noteq> 24 then Inr (- 1, p)
       else
         let line = div8 (w * iBpp p);
             p = p\<lparr>iWidth := w, iHeight := h, iLineBytes := line, iTotalBytes := h * line\<rparr>
         in case malloc (h * line) of
              None \<Rightarrow> Inr (- 1, p\<lparr>aucPixelDatas := []\<rparr>)
            | Some m \<Rightarrow>
                let iLineWidthReal = div8 (w * iBMPBpp);
                    iLineWidthAlign = (iLineWidthReal + 3) AND NOT 3
                in kbind (bfOffBits f) (\<lambda>off.
                   kbind (for_each [0..h - 1] (\<lambda>y m.
                       kbind (CovertOneLine w iBMPBpp (iBpp p) f (int (unat off) + (h - 1) * iLineWidthAlign - y * iLineWidthAlign)
                           m (y * line)) (\<lambda>(ret, m). Inr m)) m)
                     (\<lambda>m. Inr (0, p\<lparr>aucPixelDatas := m\<rparr>))))))"

section \<open>Colours\<close>

text \<open>
  The pixel a display of the given depth shows for the three bytes of a pixel.
\<close>

definition display_pixel :: "(u8 list \<Rightarrow> u8 \<times> u8 \<times> u8) \<Rightarrow> int \<Rightarrow> u8 list \<Rightarrow> u8 list" where
  "display_pixel col bpp bs =
     (if bpp = 24 then bs
      else case col bs of (r, g, b) \<Rightarrow> (case color_bytes bpp (rgb r g b) of Some cs \<Rightarrow> cs | None \<Rightarrow> []))"

abbreviation bmp_pixel :: "int \<Rightarrow> u8 list \<Rightarrow> u8 list" where
  "bmp_pixel \<equiv> display_pixel bgr"

lemma rgb_565:
  "color565 (rgb r g b) =
     ucast ((push_bit 11 (drop_bit 3 (ucast r :: u32)) OR push_bit 5 (drop_bit 2 (ucast g :: u32))) OR drop_bit 3 (ucast b :: u32))"
    (is "?a = ?b")
proof (rule bit_word_eqI)
  have m: "(0x1f :: u32) = mask 5" "(0x3f :: u32) = mask 6" by (simp_all add: mask_eq_exp_minus_1)
  have high: "\<not> bit w k" if "8 \<le> k" for w :: u8 and k
    using that bit_imp_le_length [of w k] by auto
  have "list_all (\<lambda>n. bit ?a n \<longleftrightarrow> bit ?b n) [0..<16]"
    unfolding color565_def rgb_def m
    by (simp only: upt_conv_Cons bit_or_iff bit_and_iff bit_mask_iff bit_push_bit_iff bit_drop_bit_eq comp_def bit_unsigned_iff)
      (simp add: upt_conv_Cons high)
  moreover fix n assume "n < LENGTH(16)"
  ultimately show "bit ?a n \<longleftrightarrow> bit ?b n" by (simp add: list_all_iff)
qed

lemma align_4:
  "(x + 3) AND NOT 3 = (x + 3) div 4 * (4 :: int)"
proof -
  have "y AND NOT (mask k) = push_bit k (drop_bit k y)" for y :: int and k
    by (rule bit_eqI) (auto simp: bit_simps)
  from this [of "x + 3" 2] show ?thesis by (simp add: push_bit_eq_mult drop_bit_eq_div mask_eq_exp_minus_1)
qed

section \<open>Decoding\<close>

lemma line_24:
  assumes m: "length m = h * (w * 3)" and y: "y < h" and src: "soff + 3 * w \<le> length src"
  shows "\<exists>m'. line_to_display col (int w) 24 src (int soff) m (int (y * (w * 3))) = Inr m' \<and> length m' = length m \<and>
    (\<forall>x'<w. \<forall>y'<h. pix 3 w m' x' y' = (if y' = y then take 3 (drop (soff + 3 * x') src) else pix 3 w m x' y'))"
proof -
  let ?bs = "take (w * 3) (drop soff src)"
  have len: "length ?bs = w * 3" using src by simp
  obtain m' where m': "mem_write m ((y * w + 0) * 3) ?bs = Inr m'" "length m' = length m"
    "\<forall>x'<w. \<forall>y'<h. pix 3 w m' x' y' = (if y' = y \<and> 0 \<le> x' \<and> x' < 0 + w then take 3 (drop ((x' - 0) * 3) ?bs) else pix 3 w m x' y')"
    using pix_write [OF m len, of 0 y] y by auto
  have "take 3 (drop (x * 3) ?bs) = take 3 (drop (soff + 3 * x) src)" if "x < w" for x
    using that by (simp add: drop_take min_def algebra_simps)
  moreover have "memcpy m (int (y * (w * 3))) src (int soff) (int w * 3) = Inr m'"
  proof (cases "w = 0")
    case True
    then have "m' = m" using m'(1) by (auto simp: mem_write_def split: if_splits)
    then show ?thesis using True by (simp add: memcpy_def)
  next
    case False
    have "nat (int w * 3) = w * 3" by simp
    then show ?thesis
      using m'(1) src False by (simp add: memcpy_def get_at_def put_at_def mem_read_def algebra_simps del: of_nat_mult)
  qed
  ultimately show ?thesis using m'(2,3) by (simp add: line_to_display_def)
qed

lemma line_color:
  assumes m: "length m = h * (w * b)" and y: "y < h" and src: "soff + 3 * w \<le> length src" and b: "b = 2 \<or> b = 4"
  shows "\<exists>m'. line_to_display col (int w) (8 * int b) src (int soff) m (int (y * (w * b))) = Inr m' \<and> length m' = length m \<and>
    (\<forall>x'<w. \<forall>y'<h. pix b w m' x' y' = (if y' = y then display_pixel col (8 * int b) (take 3 (drop (soff + 3 * x') src)) else pix b w m x' y'))"
proof -
  let ?g = "\<lambda>x. display_pixel col (8 * int b) (take 3 (drop (soff + 3 * x) src))"
  let ?f = "\<lambda>x m. put_at m (int (y * (w * b)) + int b * int x) (?g x)"
  have off: "int (y * (w * b)) + int b * int x = int ((y * w + x) * b)" for x by (simp add: algebra_simps)
  have g: "length (?g x) = b" if "x < w" for x using b by (auto simp: display_pixel_def color_bytes_def split: prod.split)
  have "?f x m' = mem_write m' ((y * w + x) * b) (?g x)" for x m' unfolding off by (simp add: put_at_def del: of_nat_mult of_nat_add)
  then obtain m' where m': "for_each [0..<w] ?f m = Inr m'" "length m' = length m"
    "\<forall>x'<w. \<forall>y'<h. pix b w m' x' y' = (if y' = y then ?g x' else pix b w m x' y')"
    using paint_line [of m h w b y ?f ?g] m y g by auto
  have "get_at src (int soff + 3 * int x) 3 = Inr (take 3 (drop (soff + 3 * x) src))" if "x < w" for x
  proof -
    have "nat (int soff + 3 * int x) = soff + 3 * x" by simp
    then show ?thesis using that src by (simp add: get_at_def mem_read_def)
  qed
  then have "line_to_display col (int w) (8 * int b) src (int soff) m (int (y * (w * b))) = for_each [0..<w] ?f m"
    using b by (auto simp: line_to_display_def for_each_upto display_pixel_def color_bytes_def rgb_565 intro!: kbind_cong for_each_cong
        split: prod.split)
  then show ?thesis using m' by simp
qed

lemma line_pixels:
  assumes "length m = h * (w * b)" "y < h" "soff + 3 * w \<le> length src" "b \<in> {2, 3, 4}"
  shows "\<exists>m'. line_to_display col (int w) (8 * int b) src (int soff) m (int (y * (w * b))) = Inr m' \<and> length m' = length m \<and>
    (\<forall>x'<w. \<forall>y'<h. pix b w m' x' y' = (if y' = y then display_pixel col (8 * int b) (take 3 (drop (soff + 3 * x') src)) else pix b w m x' y'))"
proof (cases "b = 3")
  case True
  have p: "display_pixel col (8 * int 3) bs = bs" for bs by (simp add: display_pixel_def)
  show ?thesis using line_24 [of m h w y soff src col] assms(1-3) unfolding True p by (simp split del: if_split)
next
  case False
  then show ?thesis using line_color [of m h w b y soff src col] assms by auto
qed

lemma CovertOneLine_pixels:
  assumes "length m = h * (w * b)" "y < h" "soff + 3 * w \<le> length src" "b \<in> {2, 3, 4}"
  shows "\<exists>m'. CovertOneLine (int w) 24 (8 * int b) src (int soff) m (int (y * (w * b))) = Inr (0, m') \<and> length m' = length m \<and>
    (\<forall>x'<w. \<forall>y'<h. pix b w m' x' y' = (if y' = y then bmp_pixel (8 * int b) (take 3 (drop (soff + 3 * x') src)) else pix b w m x' y'))"
  using line_pixels [OF assms, of bgr] by (elim exE conjE) (simp add: CovertOneLine_def)

lemma bmp_lines:
  assumes len: "length m0 = h * (w * b)" and b: "b \<in> {2, 3, 4}" and fits: "off + h * al \<le> length f" "3 * w \<le> al"
  shows "\<exists>m'. for_each [0..<h] (\<lambda>y m. kbind (CovertOneLine (int w) 24 (8 * int b) f (int (off + (h - 1 - y) * al)) m
      (int (y * (w * b)))) (\<lambda>(ret, m). Inr m)) m0 = Inr m' \<and> length m' = length m0 \<and>
    (\<forall>x<w. \<forall>y<h. pix b w m' x y = bmp_pixel (8 * int b) (take 3 (drop (off + (h - 1 - y) * al + 3 * x) f)))"
proof (rule paint_lines [OF len])
  fix y and m :: "u8 list" assume y: "y < h" and m: "length m = h * (w * b)"
  have "(h - 1 - y + 1) * al \<le> h * al" by (intro mult_right_mono) (use y in auto)
  then have "off + (h - 1 - y) * al + 3 * w \<le> length f" using fits by simp
  from CovertOneLine_pixels [OF m y this b]
  show "\<exists>m'. kbind (CovertOneLine (int w) 24 (8 * int b) f (int (off + (h - 1 - y) * al)) m (int (y * (w * b)))) (\<lambda>(ret, m). Inr m) = Inr m' \<and>
      length m' = length m \<and> (\<forall>x'<w. \<forall>y'<h. pix b w m' x' y' =
         (if y' = y then bmp_pixel (8 * int b) (take 3 (drop (off + (h - 1 - y) * al + 3 * x') f)) else pix b w m x' y'))"
    by (elim exE conjE) simp
qed

text \<open>
  A 24-bit bitmap that holds all its lines is decoded to a well-formed picture of its size.
  Lines are stored bottom-up and padded to a multiple of four bytes: the pixel in column \<open>x\<close> of line
  \<open>y\<close> is the colour of the three bytes in line \<open>h - 1 - y\<close> of the file, converted to the depth of the
  display.
\<close>

lemma bmp_decodes:
  assumes header: "biWidth f = Inr bw" "biHeight f = Inr bh" "biBitCount f = Inr 24" "bfOffBits f = Inr off"
    and dim: "sint bw = int w" "sint bh = int h" and bpp: "iBpp p = 8 * int b" "b \<in> {2, 3, 4}"
    and fits: "unat off + h * ((3 * w + 3) div 4 * 4) \<le> length f"
    and malloc: "\<And>n. 0 \<le> n \<Longrightarrow> \<exists>m. malloc n = Some m \<and> int (length m) = n"
  shows "\<exists>q. GetPixelDatasFrmBMP malloc f p = Inr (0, q) \<and> pix_wf q \<and> iWidth q = int w \<and> iHeight q = int h \<and> iBpp q = iBpp p \<and>
    (\<forall>x<w. \<forall>y<h. pixel q x y =
       bmp_pixel (iBpp p) (take 3 (drop (unat off + (h - 1 - y) * ((3 * w + 3) div 4 * 4) + 3 * x) f)))"
proof -
  define al where "al = (3 * w + 3) div 4 * 4"
  define line where "line = int (w * b)"
  have div: "div8 (int w * (8 * int b)) = line" "div8 (int w * 24) = int (3 * w)"
    using div8_mult [of "int w" "int b"] div8_mult [of "int w" 3] by (simp_all add: line_def)
  have "(int (3 * w) + 3) AND NOT 3 = int al" unfolding align_4 al_def by (simp add: of_nat_div)
  then have al: "(3 * int w + 3) AND - 4 = int al" by simp
  obtain m0 where m0: "malloc (int h * line) = Some m0" "int (length m0) = int h * line" using malloc [of "int h * line"] by (auto simp: line_def)
  have len: "length m0 = h * (w * b)" using m0(2) unfolding line_def by (simp flip: of_nat_mult)
  have "3 * w \<le> al" unfolding al_def by simp
  then obtain m where m: "for_each [0..<h] (\<lambda>y m. kbind (CovertOneLine (int w) 24 (8 * int b) f (int (unat off + (h - 1 - y) * al)) m
      (int (y * (w * b)))) (\<lambda>(ret, m). Inr m)) m0 = Inr m" "length m = length m0"
    "\<forall>x<w. \<forall>y<h. pix b w m x y = bmp_pixel (8 * int b) (take 3 (drop (unat off + (h - 1 - y) * al + 3 * x) f))"
    using bmp_lines [OF len bpp(2)] fits unfolding al_def by blast
  let ?q = "p\<lparr>iWidth := int w, iHeight := int h, iLineBytes := line, iTotalBytes := int h * line, aucPixelDatas := m\<rparr>"
  have off: "int (unat off) + (int h - 1) * int al - int y * int al = int (unat off + (h - 1 - y) * al)" if "y < h" for y
  proof -
    obtain k where "h = Suc (y + k)" using less_iff_Suc_add [of y h] \<open>y < h\<close> by blast
    then show ?thesis by (simp add: algebra_simps)
  qed
  have "for_each [0..int h - 1] (\<lambda>y m. kbind (CovertOneLine (int w) 24 (8 * int b) f
      (int (unat off) + (int h - 1) * int al - y * int al) m (y * line)) (\<lambda>(ret, m). Inr m)) m0 = Inr m"
    unfolding for_each_upto m(1) [symmetric] line_def
    by (rule for_each_cong) (simp only: set_upt atLeastLessThan_iff off of_nat_mult)
  then have "GetPixelDatasFrmBMP malloc f p = Inr (0, ?q)"
    unfolding GetPixelDatasFrmBMP_def header kbind_simps dim bpp(1) Let_def div by (simp add: m0(1) header al bpp(1))
  moreover have "pix_wf ?q" using bpp m(2) m0(2) by (auto simp: pix_wf_def line_def)
  moreover have "pixel ?q = pix b w m" using bpp(1) by (intro ext) (simp add: pixel_def)
  ultimately show ?thesis using m(3) bpp(1) unfolding al_def by (intro exI [of _ ?q]) simp
qed

end
