(* ===== verification/Picture_Files.thy ===== *)
theory Picture_Files
  imports Registry Bmp
begin

text \<open>
  Loading pictures (video2lcd/1_th/render/format/picfmt_manager.c and render/render.c): the list of
  parsers, the choice of a parser for a file, and reading the pixels of a picture or an icon.  The
  file mapping (\<open>MapFile\<close>) and the parser of JPEG files, which is a client of libjpeg, are
  arguments.  \<open>n\<close> counts the files that are mapped.
\<close>

section \<open>Parsers\<close>

record parser =
  parser_name :: string
  isSupport :: "u8 list \<Rightarrow> int kres"
  GetPixelDatas :: "u8 list \<Rightarrow> pixel_datas \<Rightarrow> (int \<times> pixel_datas) kres"

abbreviation (input) g_tBMPParser :: nat where "g_tBMPParser \<equiv> 0"
abbreviation (input) g_tJPGParser :: nat where "g_tJPGParser \<equiv> 1"

definition parsers :: "(int \<Rightarrow> u8 list option) \<Rightarrow> parser \<Rightarrow> nat \<Rightarrow> parser" where
  "parsers malloc jpg a =
     (if a = g_tBMPParser then \<lparr>parser_name = ''bmp'', isSupport = isBMPFormat, GetPixelDatas = GetPixelDatasFrmBMP malloc\<rparr>
      else jpg)"

definition RegisterPicFileParser :: "nat \<Rightarrow> registry \<Rightarrow> (int \<times> registry) option" where
  "RegisterPicFileParser a r = map_option (Pair 0) (register_node a r)"

definition Parser :: "(nat \<Rightarrow> parser) \<Rightarrow> string \<Rightarrow> registry \<Rightarrow> nat option option" where
  "Parser P pcName r = lookup_node (\<lambda>a. parser_name (P a) = pcName) r"

partial_function (option) first_supporting ::
    "(nat \<Rightarrow> int kres) \<Rightarrow> (nat \<Rightarrow> nat option) \<Rightarrow> nat option \<Rightarrow> nat option kres option" where
  "first_supporting test nx ptTmp =
     (case ptTmp of
        None \<Rightarrow> Some (Inr None)
      | Some a \<Rightarrow> (case test a of
            Inl e \<Rightarrow> Some (Inl e)
          | Inr yes \<Rightarrow> if yes \<noteq> 0 then Some (Inr (Some a)) else first_supporting test nx (nx a)))"

definition GetParser :: "(nat \<Rightarrow> parser) \<Rightarrow> u8 list \<Rightarrow> registry \<Rightarrow> nat option kres option" where
  "GetParser P f r = first_supporting (\<lambda>a. isSupport (P a) f) (reg_next r) (reg_head r)"

definition BMPParserInit :: "registry \<Rightarrow> (int \<times> registry) option" where
  "BMPParserInit r = RegisterPicFileParser g_tBMPParser r"

definition JPGParserInit :: "registry \<Rightarrow> (int \<times> registry) option" where
  "JPGParserInit r = RegisterPicFileParser g_tJPGParser r"

definition PicFmtsInit :: "registry \<Rightarrow> (int \<times> registry) option" where
  "PicFmtsInit r =
     Option.bind (BMPParserInit r) (\<lambda>(iError, r).
     Option.bind (JPGParserInit r) (\<lambda>(e, r). Some (iError OR e, r)))"

section \<open>Pictures and icons\<close>

type_synonym files = "string \<Rightarrow> u8 list option"

definition ICON_PATH :: string where
  "ICON_PATH = ''/etc/digitpic/icons''"

text \<open>
  The depth a parser converts to: \<open>GetDispResolution\<close> leaves the variable as it is when no display
  is selected; \<open>junk\<close> is its initial content.
\<close>

definition display_bpp :: "(int \<times> int \<times> int) option \<Rightarrow> int \<Rightarrow> int" where
  "display_bpp res junk = (case res of Some (iXres, iYres, bpp) \<Rightarrow> bpp | None \<Rightarrow> junk)"

definition read_pixels :: "parser \<Rightarrow> u8 list \<Rightarrow> int \<Rightarrow> nat \<Rightarrow> pixel_datas \<Rightarrow> (int \<times> nat \<times> pixel_datas) kres" where
  "read_pixels pr f bpp n p =
     kbind (GetPixelDatas pr f (p\<lparr>iBpp := bpp\<rparr>)) (\<lambda>(iError, p).
       Inr (if iError \<noteq> 0 then - 1 else 0, n - 1, p))"

definition GetPixelDatasForIcon ::
    "files \<Rightarrow> (nat \<Rightarrow> parser) \<Rightarrow> registry \<Rightarrow> (int \<times> int \<times> int) option \<Rightarrow> int \<Rightarrow> string \<Rightarrow> nat \<Rightarrow> pixel_datas \<Rightarrow>
      (int \<times> nat \<times> pixel_datas) kres option" where
  "GetPixelDatasForIcon MapFile P r res junk strFileName n p =
     (case MapFile (take 127 (ICON_PATH @ ''/'' @ strFileName)) of
        None \<Rightarrow> Some (Inr (- 1, n, p))
      | Some f \<Rightarrow>
          Option.bind (Parser P ''bmp'' r) (\<lambda>a. Some (
            kbind (deref a) (\<lambda>a. kbind (isSupport (P a) f) (\<lambda>iError.
              if iError = 0 then Inr (- 1, n, p)
              else read_pixels (P a) f (display_bpp res junk) (n + 1) p)))))"

definition isPictureFileSupported :: "files \<Rightarrow> (nat \<Rightarrow> parser) \<Rightarrow> registry \<Rightarrow> string \<Rightarrow> nat \<Rightarrow> (int \<times> nat) kres option" where
  "isPictureFileSupported MapFile P r strFileName n =
     (case MapFile (take 255 strFileName) of
        None \<Rightarrow> Some (Inr (0, n))
      | Some f \<Rightarrow>
          Option.bind (GetParser P f r) (\<lambda>a. Some (
            kbind a (\<lambda>a. Inr (if a = None then 0 else 1, n + 1 - 1)))))"

definition GetPixelDatasFrmFile ::
    "files \<Rightarrow> (nat \<Rightarrow> parser) \<Rightarrow> registry \<Rightarrow> (int \<times> int \<times> int) option \<Rightarrow> int \<Rightarrow> string \<Rightarrow> nat \<Rightarrow> pixel_datas \<Rightarrow>
      (int \<times> nat \<times> pixel_datas) kres option" where
  "GetPixelDatasFrmFile MapFile P r res junk strFileName n p =
     (case MapFile (take 255 strFileName) of
        None \<Rightarrow> Some (Inr (- 1, n, p))
      | Some f \<Rightarrow>
          Option.bind (GetParser P f r) (\<lambda>a. Some (
            kbind a (\<lambda>ptParser. case ptParser of
              None \<Rightarrow> Inr (- 1, n, p)
            | Some a \<Rightarrow> read_pixels (P a) f (display_bpp res junk) (n + 1) p))))"

section \<open>Choosing the parser\<close>

fun first_supporting_in :: "(nat \<Rightarrow> int kres) \<Rightarrow> nat list \<Rightarrow> nat option kres" where
  "first_supporting_in test [] = Inr None"
| "first_supporting_in test (a # as) = kbind (test a) (\<lambda>yes. if yes \<noteq> 0 then Inr (Some a) else first_supporting_in test as)"

lemma first_supporting_chain:
  "chain nx p xs \<Longrightarrow> first_supporting test nx p = Some (first_supporting_in test xs)"
proof (induction xs arbitrary: p)
  case Nil
  then show ?case by (simp add: first_supporting.simps)
next
  case (Cons x xs)
  then show ?case by (cases "test x") (simp_all add: first_supporting.simps [of test nx "Some x"])
qed

lemma GetParser_nodes:
  "nodes r xs \<Longrightarrow> GetParser P f r = Some (first_supporting_in (\<lambda>a. isSupport (P a) f) xs)"
  by (simp add: GetParser_def nodes_def first_supporting_chain)

lemma PicFmtsInit_nodes:
  "\<exists>r. PicFmtsInit empty_registry = Some (0, r) \<and> nodes r [g_tBMPParser, g_tJPGParser]"
proof -
  obtain r1 where r1: "register_node g_tBMPParser empty_registry = Some r1" "nodes r1 [g_tBMPParser]"
    using linked.register [OF linked.empty] by auto
  obtain r2 where "register_node g_tJPGParser r1 = Some r2" "nodes r2 [g_tBMPParser, g_tJPGParser]"
    using linked.register [OF r1(2), of g_tJPGParser] by auto
  then show ?thesis
    using r1(1) by (simp add: PicFmtsInit_def BMPParserInit_def JPGParserInit_def RegisterPicFileParser_def)
qed


text \<open>
  A bitmap of 2 by 2 pixels for a display of 32 bits per pixel.
\<close>

definition small_bmp :: "u8 list" where
  "small_bmp = [0x42, 0x4d, 70, 0, 0, 0, 0, 0, 0, 0, 54, 0, 0, 0, 40, 0, 0, 0, 2, 0, 0, 0, 2, 0, 0, 0, 1, 0, 24, 0] @ replicate 24 0 @
     [1, 2, 3, 4, 5, 6, 0, 0, 7, 8, 9, 10, 11, 12, 0, 0]"

definition zero_malloc :: "int \<Rightarrow> u8 list option" where
  "zero_malloc n = Some (replicate (nat n) 0)"

definition no_jpg :: parser where
  "no_jpg = \<lparr>parser_name = ''jpg'', isSupport = (\<lambda>f. Inr 0), GetPixelDatas = (\<lambda>f p. Inr (- 1, p))\<rparr>"


end
