(* ===== verification/Display.thy ===== *)
theory Display
  imports Registry Paint
begin

text \<open>
  The display (video2lcd/1_th/display/disp_manager.c, display/fb.c and parts of render/render.c):
  the framebuffer module, the list of display modules, the pool of video memories and the
  operations that show their contents.  The kernel's framebuffer driver and the memory allocator
  are arguments.

  The module \<open>g_tFBOpr\<close> is the only display module of the program, so a call through a pointer in a
  list element is a call of its functions.  The video memory of the device has no pixels of its own:
  its pointer is the mapped memory of the device, \<open>fb_mem\<close>.
\<close>

section \<open>State\<close>

datatype video_mem_state = VMS_FREE | VMS_USED_FOR_PREPARE | VMS_USED_FOR_CUR

datatype pic_state = PS_BLANK | PS_GENERATING | PS_GENERATED

record video_mem =
  iID :: int
  bDevFrameBuffer :: bool
  eVideoMemState :: video_mem_state
  ePicState :: pic_state
  tPixelDatas :: pixel_datas

record fb_var =
  xres :: u32
  yres :: u32
  bits_per_pixel :: u32

record disp_opr =
  iXres :: int
  iYres :: int
  disp_iBpp :: int
  iLineWidth :: int

text \<open>
  \<open>fb_mem\<close> is \<open>None\<close> while the pointer is NULL.  The pool is in list order, each memory with its
  address.
\<close>

record display =
  g_ptDispOprHead :: registry
  g_ptDefaultDispOpr :: "nat option"
  g_tFBOpr :: disp_opr
  fb_mem :: "u8 list option"
  g_tFBVar :: fb_var
  g_dwScreenSize :: u32
  g_dwLineWidth :: u32
  g_dwPixelWidth :: u32
  g_ptVideoMemHead :: "(nat \<times> video_mem) list"

text \<open>
  The device: opening it, the two queries and the mapping.  A failed mapping is a pointer to
  memory of which no byte can be accessed.
\<close>

record fb_device =
  dev_open :: int
  dev_vscreeninfo :: "int \<Rightarrow> fb_var option"
  dev_fscreeninfo :: "int \<Rightarrow> bool"
  dev_mmap :: "int \<Rightarrow> u32 \<Rightarrow> u8 list option"

section \<open>The framebuffer module\<close>

definition FBDeviceInit :: "fb_device \<Rightarrow> display \<Rightarrow> int \<times> display" where
  "FBDeviceInit dev d =
     (let fd = dev_open dev in
      case dev_vscreeninfo dev fd of
        None \<Rightarrow> (- 1, d)
      | Some v \<Rightarrow>
          let d = d\<lparr>g_tFBVar := v\<rparr> in
          if \<not> dev_fscreeninfo dev fd then (- 1, d)
          else
            let n = xres v * yres v * bits_per_pixel v div 8 in
            (0, d\<lparr>g_dwScreenSize := n,
               fb_mem := Some (case dev_mmap dev fd n of None \<Rightarrow> [] | Some m \<Rightarrow> m),
               g_tFBOpr := \<lparr>iXres = sint (xres v), iYres = sint (yres v), disp_iBpp = sint (bits_per_pixel v),
                 iLineWidth = sint (xres v * of_int (sint (bits_per_pixel v)) div 8)\<rparr>,
               g_dwLineWidth := xres v * bits_per_pixel v div 8, g_dwPixelWidth := bits_per_pixel v div 8\<rparr>))"

definition fb_store :: "display \<Rightarrow> u8 list kres \<Rightarrow> display kres" where
  "fb_store d r = kbind r (\<lambda>m. Inr (d\<lparr>fb_mem := Some m\<rparr>))"

definition FBShowPixel :: "int \<Rightarrow> int \<Rightarrow> u32 \<Rightarrow> display \<Rightarrow> (int \<times> display) kres" where
  "FBShowPixel iX iY dwColor d =
     (if of_int iX \<ge> xres (g_tFBVar d) \<or> of_int iY \<ge> yres (g_tFBVar d) then Inr (- 1, d)
      else
        let off = int (unat (g_dwLineWidth d * of_int iY)) + int (unat (g_dwPixelWidth d * of_int iX));
            store = (\<lambda>bs. kbind (deref (fb_mem d)) (\<lambda>m. kbind (fb_store d (put_at m off bs)) (\<lambda>d. Inr (0, d))))
        in if bits_per_pixel (g_tFBVar d) = 8 then store [ucast dwColor]
        else if bits_per_pixel (g_tFBVar d) = 16 then store (put_le16 (color565 dwColor))
        else if bits_per_pixel (g_tFBVar d) = 32 then store (put_le32 dwColor)
        else Inr (- 1, d))"

definition FBCleanScreen :: "u32 \<Rightarrow> display \<Rightarrow> (int \<times> display) kres" where
  "FBCleanScreen dwBackColor d =
     (let n = int (unat (g_dwScreenSize d));
          store = (\<lambda>f. kbind (deref (fb_mem d)) (\<lambda>m. kbind (fb_store d (f m)) (\<lambda>d. Inr (0, d))))
      in if bits_per_pixel (g_tFBVar d) = 8 then store (\<lambda>m. memset m 0 dwBackColor n)
      else if bits_per_pixel (g_tFBVar d) = 16 then store (fill_loop (put_le16 (color565 dwBackColor)) n 0)
      else if bits_per_pixel (g_tFBVar d) = 32 then store (fill_loop (put_le32 dwBackColor) n 0)
      else Inr (- 1, d))"

text \<open>
  The pixels of a video memory, and storing them.
\<close>

definition vm_pixels :: "display \<Rightarrow> video_mem \<Rightarrow> pixel_datas" where
  "vm_pixels d vm =
     (if bDevFrameBuffer vm then (tPixelDatas vm)\<lparr>aucPixelDatas := (case fb_mem d of Some m \<Rightarrow> m | None \<Rightarrow> [])\<rparr> else tPixelDatas vm)"

definition vm_update :: "nat \<Rightarrow> (video_mem \<Rightarrow> video_mem) \<Rightarrow> display \<Rightarrow> display" where
  "vm_update a f d =
     d\<lparr>g_ptVideoMemHead := List.map (\<lambda>(b, vm). (b, if b = a then f vm else vm)) (g_ptVideoMemHead d)\<rparr>"

definition vm_paint :: "nat \<Rightarrow> (pixel_datas \<Rightarrow> pixel_datas kres) \<Rightarrow> display \<Rightarrow> display kres" where
  "vm_paint a f d =
     kbind (deref (map_of (g_ptVideoMemHead d) a)) (\<lambda>vm. kbind (f (vm_pixels d vm)) (\<lambda>p.
       Inr (if bDevFrameBuffer vm then d\<lparr>fb_mem := Some (aucPixelDatas p)\<rparr>
            else vm_update a (\<lambda>vm. vm\<lparr>tPixelDatas := p\<rparr>) d)))"

definition FBShowPage :: "nat \<Rightarrow> display \<Rightarrow> (int \<times> display) kres" where
  "FBShowPage a d =
     kbind (deref (map_of (g_ptVideoMemHead d) a)) (\<lambda>vm. kbind (deref (fb_mem d)) (\<lambda>m.
     kbind (fb_store d (memcpy m 0 (aucPixelDatas (vm_pixels d vm)) 0 (iTotalBytes (tPixelDatas vm)))) (\<lambda>d. Inr (0, d))))"

section \<open>Display modules\<close>

abbreviation (input) FB_OPR :: nat where "FB_OPR \<equiv> 0"

definition disp_name :: "nat \<Rightarrow> string" where
  "disp_name a = ''fb''"

definition RegisterDispOpr :: "nat \<Rightarrow> display \<Rightarrow> (int \<times> display) option" where
  "RegisterDispOpr a d = map_option (\<lambda>r. (0, d\<lparr>g_ptDispOprHead := r\<rparr>)) (register_node a (g_ptDispOprHead d))"

definition FBInit :: "display \<Rightarrow> (int \<times> display) option" where
  "FBInit d = RegisterDispOpr FB_OPR d"

definition DisplayInit :: "display \<Rightarrow> (int \<times> display) option" where
  "DisplayInit d = FBInit d"

definition GetDispOpr :: "string \<Rightarrow> display \<Rightarrow> nat option option" where
  "GetDispOpr pcName d = lookup_node (\<lambda>a. disp_name a = pcName) (g_ptDispOprHead d)"

definition SelectAndInitDefaultDispDev :: "fb_device \<Rightarrow> string \<Rightarrow> display \<Rightarrow> display kres option" where
  "SelectAndInitDefaultDispDev dev name d =
     Option.bind (GetDispOpr name d) (\<lambda>a.
       let d = d\<lparr>g_ptDefaultDispOpr := a\<rparr> in
       Some (if a = None then Inr d
             else kbind (FBCleanScreen 0 (snd (FBDeviceInit dev d))) (\<lambda>(ret, d). Inr d)))"

definition GetDispResolution :: "display \<Rightarrow> (int \<times> int \<times> int) option" where
  "GetDispResolution d =
     (case g_ptDefaultDispOpr d of
        Some a \<Rightarrow> Some (iXres (g_tFBOpr d), iYres (g_tFBOpr d), disp_iBpp (g_tFBOpr d))
      | None \<Rightarrow> None)"

section \<open>The pool of video memories\<close>

text \<open>
  A new memory is put at the head of the list.  \<open>malloc k n\<close> is the result of the \<open>k\<close>-th allocation,
  with room for \<open>n\<close> bytes of pixels.
\<close>

definition vm_push :: "video_mem \<Rightarrow> display \<Rightarrow> display" where
  "vm_push vm d = d\<lparr>g_ptVideoMemHead := (length (g_ptVideoMemHead d), vm) # g_ptVideoMemHead d\<rparr>"

fun alloc_caches :: "(nat \<Rightarrow> int \<Rightarrow> u8 list option) \<Rightarrow> pixel_datas \<Rightarrow> nat list \<Rightarrow> display \<Rightarrow> int \<times> display" where
  "alloc_caches malloc p [] d = (0, d)"
| "alloc_caches malloc p (i # is) d =
     (case malloc (Suc i) (iTotalBytes p) of
        None \<Rightarrow> (- 1, d)
      | Some m \<Rightarrow>
          alloc_caches malloc p is (vm_push \<lparr>iID = 0, bDevFrameBuffer = False, eVideoMemState = VMS_FREE, ePicState = PS_BLANK,
            tPixelDatas = p\<lparr>aucPixelDatas := m\<rparr>\<rparr> d))"

definition AllocVideoMem :: "(nat \<Rightarrow> int \<Rightarrow> u8 list option) \<Rightarrow> int \<Rightarrow> display \<Rightarrow> (int \<times> display) kres" where
  "AllocVideoMem malloc iNum d =
     (let (w, h, bpp) = (case GetDispResolution d of Some r \<Rightarrow> r | None \<Rightarrow> (0, 0, 0));
          p = \<lparr>iWidth = w, iHeight = h, iBpp = bpp, iLineBytes = div8 (w * bpp), iTotalBytes = div8 (w * h * bpp), aucPixelDatas = []\<rparr>
      in case malloc 0 0 of
           None \<Rightarrow> Inr (- 1, d)
         | Some _ \<Rightarrow> kbind (deref (g_ptDefaultDispOpr d)) (\<lambda>_.
             Inr (alloc_caches malloc p [0..<nat iNum]
               (vm_push \<lparr>iID = 0, bDevFrameBuffer = True, eVideoMemState = (if iNum \<noteq> 0 then VMS_USED_FOR_CUR else VMS_FREE),
                  ePicState = PS_BLANK, tPixelDatas = p\<rparr> d))))"

definition vm_find :: "(video_mem \<Rightarrow> bool) \<Rightarrow> display \<Rightarrow> nat option" where
  "vm_find P d = map_option fst (List.find (\<lambda>(a, vm). P vm) (g_ptVideoMemHead d))"

definition GetVideoMem :: "int \<Rightarrow> bool \<Rightarrow> display \<Rightarrow> (nat option \<times> display) kres" where
  "GetVideoMem page bCur d =
     (let used = (if bCur then VMS_USED_FOR_CUR else VMS_USED_FOR_PREPARE) in
      case vm_find (\<lambda>vm. eVideoMemState vm = VMS_FREE \<and> iID vm = page) d of
        Some a \<Rightarrow> Inr (Some a, vm_update a (\<lambda>vm. vm\<lparr>eVideoMemState := used\<rparr>) d)
      | None \<Rightarrow>
      case vm_find (\<lambda>vm. eVideoMemState vm = VMS_FREE \<and> ePicState vm = PS_BLANK) d of
        Some a \<Rightarrow> Inr (Some a, vm_update a (\<lambda>vm. vm\<lparr>iID := page, eVideoMemState := used\<rparr>) d)
      | None \<Rightarrow>
      case vm_find (\<lambda>vm. eVideoMemState vm = VMS_FREE) d of
        Some a \<Rightarrow> Inr (Some a, vm_update a (\<lambda>vm. vm\<lparr>iID := page, ePicState := PS_BLANK, eVideoMemState := used\<rparr>) d)
      | None \<Rightarrow>
          if bCur then
            (case g_ptVideoMemHead d of
               [] \<Rightarrow> Inl NullDeref
             | (a, vm) # rest \<Rightarrow> Inr (Some a, vm_update a (\<lambda>vm. vm\<lparr>iID := page, ePicState := PS_BLANK, eVideoMemState := used\<rparr>) d))
          else Inr (None, d))"

definition PutVideoMem :: "nat \<Rightarrow> display \<Rightarrow> display kres" where
  "PutVideoMem a d =
     kbind (deref (map_of (g_ptVideoMemHead d) a)) (\<lambda>_.
       Inr (vm_update a (\<lambda>vm. let vm = vm\<lparr>eVideoMemState := VMS_FREE\<rparr> in if iID vm = - 1 then vm\<lparr>ePicState := PS_BLANK\<rparr> else vm) d))"

definition GetDevVideoMem :: "display \<Rightarrow> nat option" where
  "GetDevVideoMem d = vm_find bDevFrameBuffer d"

section \<open>Showing pages and buttons\<close>

definition FlushVideoMemToDev :: "nat \<Rightarrow> display \<Rightarrow> display kres" where
  "FlushVideoMemToDev a d =
     kbind (deref (map_of (g_ptVideoMemHead d) a)) (\<lambda>vm.
       if bDevFrameBuffer vm then Inr d
       else kbind (deref (g_ptDefaultDispOpr d)) (\<lambda>_. kbind (FBShowPage a d) (\<lambda>(ret, d). Inr d)))"

definition InvertButton :: "layout \<Rightarrow> display \<Rightarrow> display kres" where
  "InvertButton l d =
     kbind (deref (g_ptDefaultDispOpr d)) (\<lambda>_. kbind (deref (fb_mem d)) (\<lambda>m.
       let opr = g_tFBOpr d;
           pucVideoMem = iTopLeftY l * iLineWidth opr + div8 (iTopLeftX l * disp_iBpp opr);
           iButtonWidthBytes = div8 ((iBotRightX l - iTopLeftX l + 1) * disp_iBpp opr)
       in fb_store d (for_each [iTopLeftY l..iBotRightY l] (\<lambda>iY. for_each [0..iButtonWidthBytes - 1] (\<lambda>i m.
            let off = pucVideoMem + (iY - iTopLeftY l) * iLineWidth opr + i in
            kbind (get_at m off 1) (\<lambda>bs. put_at m off (List.map NOT bs)))) m)))"

definition ReleaseButton :: "layout \<Rightarrow> display \<Rightarrow> display kres" where
  "ReleaseButton l d = InvertButton l d"

definition PressButton :: "layout \<Rightarrow> display \<Rightarrow> display kres" where
  "PressButton l d = InvertButton l d"

text \<open>
  The part of \<open>main\<close> that sets up the display.
\<close>

definition main_display :: "fb_device \<Rightarrow> (nat \<Rightarrow> int \<Rightarrow> u8 list option) \<Rightarrow> int \<Rightarrow> display \<Rightarrow> (int \<times> display) kres option" where
  "main_display dev malloc n d =
     Option.bind (DisplayInit d) (\<lambda>(ret, d).
     Option.bind (SelectAndInitDefaultDispDev dev ''fb'' d) (\<lambda>r. Some (kbind r (AllocVideoMem malloc n))))"

end
