(* ===== verification/Display_Props.thy ===== *)
theory Display_Props
  imports Display
begin

text \<open>
  Properties of the display: pressing and releasing a button, the pool of video memories in every
  state the program can reach, and showing a page.
\<close>

section \<open>The screen\<close>

definition disp_wf :: "display \<Rightarrow> bool" where
  "disp_wf d \<longleftrightarrow> g_ptDefaultDispOpr d \<noteq> None \<and> 0 \<le> iXres (g_tFBOpr d) \<and> 0 \<le> iYres (g_tFBOpr d) \<and>
     disp_iBpp (g_tFBOpr d) \<in> {8, 16, 24, 32} \<and> iLineWidth (g_tFBOpr d) = iXres (g_tFBOpr d) * (disp_iBpp (g_tFBOpr d) div 8) \<and>
     (case fb_mem d of Some m \<Rightarrow> int (length m) = iYres (g_tFBOpr d) * iLineWidth (g_tFBOpr d) | None \<Rightarrow> False)"

text \<open>
  The screen as a picture.
\<close>

definition screen :: "display \<Rightarrow> pixel_datas" where
  "screen d = \<lparr>iWidth = iXres (g_tFBOpr d), iHeight = iYres (g_tFBOpr d), iBpp = disp_iBpp (g_tFBOpr d), iLineBytes = iLineWidth (g_tFBOpr d),
     iTotalBytes = iYres (g_tFBOpr d) * iLineWidth (g_tFBOpr d), aucPixelDatas = (case fb_mem d of Some m \<Rightarrow> m | None \<Rightarrow> [])\<rparr>"

lemma disp_wf_screen:
  "disp_wf d \<Longrightarrow> pix_wf (screen d)"
  by (auto simp: disp_wf_def screen_def pix_wf_def split: option.splits)

text \<open>
  Two memories with the same pixels are equal.
\<close>

lemma pix_nth:
  assumes "c < b" "(y * w + x) * b + b \<le> length m"
  shows "pix b w m x y ! c = m ! ((y * w + x) * b + c)"
  using assms by (simp add: pix_def)

lemma pix_ext:
  assumes len: "length m = h * (w * b)" "length m' = h * (w * b)"
    and eq: "\<And>x y. x < w \<Longrightarrow> y < h \<Longrightarrow> pix b w m x y = pix b w m' x y"
  shows "m = m'"
proof (rule nth_equalityI)
  show "length m = length m'" using len by simp
  fix k assume "k < length m"
  then have k: "k < h * (w * b)" using len by simp
  then have pos: "0 < b" "0 < w" by (auto intro: gr0I)
  define y x c where "y = k div (w * b)" and "x = k mod (w * b) div b" and "c = k mod b"
  have "y < h" unfolding y_def by (intro less_mult_imp_div_less) (use k in \<open>simp add: ac_simps\<close>)
  moreover have "x < w" unfolding x_def by (intro less_mult_imp_div_less) (use pos in simp)
  moreover have "c < b" unfolding c_def using pos by simp
  moreover have "k = (y * w + x) * b + c"
  proof -
    have "k mod (w * b) = x * b + c" unfolding x_def c_def by (metis div_mult_mod_eq dvd_triv_right mod_mod_cancel)
    then show ?thesis using div_mult_mod_eq [of k "w * b"] by (simp add: y_def algebra_simps)
  qed
  ultimately show "m ! k = m' ! k"
    using eq [of x y] pix_range [of x 1 w y h b] pix_nth [of c b y w x m] pix_nth [of c b y w x m'] len by simp
qed

section \<open>Buttons\<close>

definition invert_at :: "u8 list \<Rightarrow> int \<Rightarrow> u8 list kres" where
  "invert_at m off = kbind (get_at m off 1) (\<lambda>bs. put_at m off (List.map NOT bs))"

lemma invert_bytes:
  assumes "off + n \<le> length m"
  shows "for_each [0..<n] (\<lambda>i m. invert_at m (int off + int i)) m = mem_write m off (List.map NOT (take n (drop off m)))"
  using assms
proof (induction n)
  case 0
  then show ?case by (simp add: mem_write_def)
next
  case (Suc n)
  define a s z where "a = take off m" and "s = take n (drop off m)" and "z = drop (Suc (off + n)) m"
  have m: "m = a @ s @ m ! (off + n) # z" "length a = off" "length s = n"
    using Suc.prems Cons_nth_drop_Suc [of "off + n" m] append_take_drop_id [of n "drop off m"]
    by (simp_all add: a_def s_def z_def add.commute)
  then obtain x where x: "m = a @ s @ x # z" by blast
  have "for_each [0..<n] (\<lambda>i m. invert_at m (int off + int i)) m = Inr (a @ List.map NOT s @ x # z)"
    using Suc m(2,3) by (simp add: x mem_write_def)
  moreover have "invert_at (a @ List.map NOT s @ x # z) (int (off + n)) = mem_write m off (List.map NOT (take (Suc n) (drop off m)))"
    using m(2,3) by (simp add: x invert_at_def get_at_def put_at_def mem_read_def mem_write_def nat_add_distrib)
  ultimately show ?case by (simp add: for_each_append)
qed

lemma invert_line:
  assumes m: "length m = h * (w * b)" and fits: "x0 + n \<le> w" "y0 < h"
  shows "\<exists>m'. for_each [0..<n * b] (\<lambda>i m. invert_at m (int ((y0 * w + x0) * b) + int i)) m = Inr m' \<and> length m' = length m \<and>
    (\<forall>x<w. \<forall>y<h. pix b w m' x y = (if y = y0 \<and> x0 \<le> x \<and> x < x0 + n then List.map NOT (pix b w m x y) else pix b w m x y))"
proof -
  let ?bs = "List.map NOT (take (n * b) (drop ((y0 * w + x0) * b) m))"
  have r: "(y0 * w + x0) * b + n * b \<le> length m" using pix_range [OF fits, of b] m by simp
  then have len: "length ?bs = n * b" by simp
  obtain m' where m': "mem_write m ((y0 * w + x0) * b) ?bs = Inr m'" "length m' = length m"
    "\<forall>x<w. \<forall>y<h. pix b w m' x y = (if y = y0 \<and> x0 \<le> x \<and> x < x0 + n then take b (drop ((x - x0) * b) ?bs) else pix b w m x y)"
    using pix_write [OF m len fits] by blast
  have "take b (drop ((x - x0) * b) ?bs) = List.map NOT (pix b w m x y0)" if "x0 \<le> x" "x < x0 + n" for x
  proof -
    have "(x - x0 + 1) * b \<le> n * b" using that by (intro mult_right_mono) auto
    moreover have "y0 * w + x = (x - x0) + (y0 * w + x0)" using that by simp
    then have "(y0 * w + x) * b = (x - x0) * b + (y0 * w + x0) * b" by (simp only: add_mult_distrib)
    ultimately show ?thesis by (simp add: pix_def drop_map take_map drop_take min_def)
  qed
  then show ?thesis using m' invert_bytes [OF r] by (intro exI [of _ m']) (simp del: of_nat_mult of_nat_add)
qed

lemma invert_lines:
  assumes m: "length m = h * (w * b)" and fits: "x0 + n \<le> w" "y0 + k \<le> h"
  shows "\<exists>m'. for_each [0..<k] (\<lambda>j. for_each [0..<n * b] (\<lambda>i m. invert_at m (int (((y0 + j) * w + x0) * b) + int i))) m = Inr m' \<and>
    length m' = length m \<and>
    (\<forall>x<w. \<forall>y<h. pix b w m' x y = (if y0 \<le> y \<and> y < y0 + k \<and> x0 \<le> x \<and> x < x0 + n then List.map NOT (pix b w m x y) else pix b w m x y))"
proof -
  let ?f = "\<lambda>j. for_each [0..<n * b] (\<lambda>i m. invert_at m (int (((y0 + j) * w + x0) * b) + int i))"
  let ?I = "\<lambda>j m'. length m' = length m \<and>
    (\<forall>x<w. \<forall>y<h. pix b w m' x y = (if y0 \<le> y \<and> y < y0 + j \<and> x0 \<le> x \<and> x < x0 + n then List.map NOT (pix b w m x y) else pix b w m x y))"
  have "\<exists>m2. ?f ([0..<k] ! j) m1 = Inr m2 \<and> ?I (Suc j) m2" if j: "j < length [0..<k]" and I: "?I j m1" for j m1
  proof -
    have "j < k" using j by simp
    have "length m1 = h * (w * b)" using I m by simp
    then obtain m2 where m2: "?f j m1 = Inr m2" "length m2 = length m1"
      "\<And>x y. x < w \<Longrightarrow> y < h \<Longrightarrow> pix b w m2 x y = (if y = y0 + j \<and> x0 \<le> x \<and> x < x0 + n then List.map NOT (pix b w m1 x y) else pix b w m1 x y)"
      using invert_line [of m1 h w b x0 n "y0 + j"] fits \<open>j < k\<close> by auto
    have "?I (Suc j) m2" using I m2(2,3) by (auto simp: less_Suc_eq)
    then show ?thesis using m2(1) \<open>j < k\<close> by (intro exI [of _ m2]) simp
  qed
  moreover have "?I 0 m" by auto
  ultimately have "\<exists>m'. for_each [0..<k] ?f m = Inr m' \<and> ?I (length [0..<k]) m'" by (rule for_each_inv [where I = ?I and f = ?f])
  then show ?thesis by (simp only: length_upt diff_zero)
qed

lemma for_each_upto_from:
  "for_each [a..a + int k - 1] f m = for_each [0..<k] (\<lambda>i. f (a + int i)) m"
proof -
  have "[a..a + int k - 1] = List.map (\<lambda>i. a + int i) [0..<k]"
    by (rule nth_equalityI) (auto simp: nth_upto)
  moreover have "for_each (List.map (\<lambda>i. a + int i) xs) f m = for_each xs (\<lambda>i. f (a + int i)) m" for xs
    by (induction xs arbitrary: m) (auto intro: kbind_cong)
  ultimately show ?thesis by simp
qed

definition on_screen :: "layout \<Rightarrow> display \<Rightarrow> bool" where
  "on_screen l d \<longleftrightarrow> 0 \<le> iTopLeftX l \<and> iTopLeftX l \<le> iBotRightX l \<and> iBotRightX l < iXres (g_tFBOpr d) \<and>
     0 \<le> iTopLeftY l \<and> iTopLeftY l \<le> iBotRightY l \<and> iBotRightY l < iYres (g_tFBOpr d)"

definition in_layout :: "layout \<Rightarrow> nat \<Rightarrow> nat \<Rightarrow> bool" where
  "in_layout l x y \<longleftrightarrow> iTopLeftX l \<le> int x \<and> int x \<le> iBotRightX l \<and> iTopLeftY l \<le> int y \<and> int y \<le> iBotRightY l"

lemma InvertButton_pixels:
  assumes wf: "disp_wf d" and "on_screen l d"
  shows "\<exists>m. InvertButton l d = Inr (d\<lparr>fb_mem := Some m\<rparr>) \<and> disp_wf (d\<lparr>fb_mem := Some m\<rparr>) \<and>
    (\<forall>x<nat (iXres (g_tFBOpr d)). \<forall>y<nat (iYres (g_tFBOpr d)). pixel (screen (d\<lparr>fb_mem := Some m\<rparr>)) x y =
       (if in_layout l x y then List.map NOT (pixel (screen d) x y) else pixel (screen d) x y))"
proof -
  obtain m0 a where m0: "fb_mem d = Some m0" and a: "g_ptDefaultDispOpr d = Some a"
    using wf by (auto simp: disp_wf_def split: option.splits)
  obtain w h b where p: "iXres (g_tFBOpr d) = int w" "iYres (g_tFBOpr d) = int h" "disp_iBpp (g_tFBOpr d) = 8 * int b"
    "iLineWidth (g_tFBOpr d) = int (w * b)" "length m0 = h * (w * b)"
    using disp_wf_screen [OF wf] m0 by (elim pix_wf_nat) (simp add: screen_def)
  define x0 y0 n k where "x0 = nat (iTopLeftX l)" and "y0 = nat (iTopLeftY l)" and "n = nat (iBotRightX l - iTopLeftX l + 1)"
    and "k = nat (iBotRightY l - iTopLeftY l + 1)"
  have l: "iTopLeftX l = int x0" "iTopLeftY l = int y0" "iBotRightX l - iTopLeftX l + 1 = int n" "iBotRightY l = int y0 + int k - 1"
    "iBotRightX l = int x0 + int n - 1" "x0 + n \<le> w" "y0 + k \<le> h"
    using assms(2) p(1,2) by (auto simp: on_screen_def x0_def y0_def n_def k_def)
  obtain m where m: "for_each [0..<k] (\<lambda>j. for_each [0..<n * b] (\<lambda>i m. invert_at m (int (((y0 + j) * w + x0) * b) + int i))) m0 = Inr m"
    "length m = length m0"
    "\<forall>x<w. \<forall>y<h. pix b w m x y = (if y0 \<le> y \<and> y < y0 + k \<and> x0 \<le> x \<and> x < x0 + n then List.map NOT (pix b w m0 x y) else pix b w m0 x y)"
    using invert_lines [OF p(5) l(6,7)] by blast
  have off: "int y0 * int (w * b) + int x0 * int b + (int y0 + int j - int y0) * int (w * b) + i = int (((y0 + j) * w + x0) * b) + i" for i j
    by (simp add: algebra_simps)
  have nb: "int n * int b = int (n * b)" by simp
  have "for_each [int y0..int y0 + int k - 1] (\<lambda>iY. for_each [0..int n * int b - 1] (\<lambda>i m.
      invert_at m (int y0 * int (w * b) + int x0 * int b + (iY - int y0) * int (w * b) + i))) m0 = Inr m"
    unfolding for_each_upto_from nb for_each_upto off by (rule m(1))
  then have "InvertButton l d = Inr (d\<lparr>fb_mem := Some m\<rparr>)"
    unfolding InvertButton_def Let_def p(3,4) l(3) div8_mult invert_at_def fb_store_def a m0
    unfolding l(1,2,4) by (simp only: deref_simps kbind_simps)
  moreover have "disp_wf (d\<lparr>fb_mem := Some m\<rparr>)" using wf m0 m(2) by (simp add: disp_wf_def)
  moreover have "pixel (screen (d\<lparr>fb_mem := Some m\<rparr>)) = pix b w m" "pixel (screen d) = pix b w m0"
    using p m0 by (auto simp: pixel_def screen_def intro!: ext)
  moreover have "in_layout l x y \<longleftrightarrow> y0 \<le> y \<and> y < y0 + k \<and> x0 \<le> x \<and> x < x0 + n" for x y
    unfolding in_layout_def l(1,2,4,5) by linarith
  ultimately show ?thesis using m(3) p(1,2) by (intro exI [of _ m]) simp
qed

text \<open>
  C30: pressing a button inverts exactly the pixels of its rectangle, and releasing it restores the
  screen.
\<close>

theorem press_release_restores:
  assumes "disp_wf d" and "on_screen l d"
  shows "\<exists>d'. PressButton l d = Inr d' \<and> ReleaseButton l d' = Inr d \<and>
    (\<forall>x<nat (iXres (g_tFBOpr d)). \<forall>y<nat (iYres (g_tFBOpr d)). pixel (screen d') x y =
       (if in_layout l x y then List.map NOT (pixel (screen d) x y) else pixel (screen d) x y))"
proof -
  let ?w = "nat (iXres (g_tFBOpr d))" and ?h = "nat (iYres (g_tFBOpr d))"
  obtain m1 where m1: "InvertButton l d = Inr (d\<lparr>fb_mem := Some m1\<rparr>)" "disp_wf (d\<lparr>fb_mem := Some m1\<rparr>)"
    "\<forall>x<?w. \<forall>y<?h. pixel (screen (d\<lparr>fb_mem := Some m1\<rparr>)) x y =
       (if in_layout l x y then List.map NOT (pixel (screen d) x y) else pixel (screen d) x y)"
    using InvertButton_pixels [OF assms] by blast
  have "on_screen l (d\<lparr>fb_mem := Some m1\<rparr>)" using assms(2) by (simp add: on_screen_def)
  then obtain m2 where m2: "InvertButton l (d\<lparr>fb_mem := Some m1\<rparr>) = Inr (d\<lparr>fb_mem := Some m2\<rparr>)" "disp_wf (d\<lparr>fb_mem := Some m2\<rparr>)"
    "\<forall>x<?w. \<forall>y<?h. pixel (screen (d\<lparr>fb_mem := Some m2\<rparr>)) x y =
       (if in_layout l x y then List.map NOT (pixel (screen (d\<lparr>fb_mem := Some m1\<rparr>)) x y) else pixel (screen (d\<lparr>fb_mem := Some m1\<rparr>)) x y)"
    using InvertButton_pixels [OF m1(2), of l] by auto
  obtain m0 where m0: "fb_mem d = Some m0" using assms(1) by (auto simp: disp_wf_def split: option.splits)
  obtain w h b where p: "iXres (g_tFBOpr d) = int w" "iYres (g_tFBOpr d) = int h" "disp_iBpp (g_tFBOpr d) = 8 * int b"
    "iLineWidth (g_tFBOpr d) = int (w * b)" "length m0 = h * (w * b)"
    using disp_wf_screen [OF assms(1)] m0 by (elim pix_wf_nat) (simp add: screen_def)
  have len: "length m2 = h * (w * b)" using m2(2) p by (simp add: disp_wf_def flip: of_nat_mult)
  have "pixel (screen (d\<lparr>fb_mem := Some m2\<rparr>)) x y = pixel (screen d) x y" if "x < w" "y < h" for x y
    using m1(3) m2(3) that p(1,2) by (simp add: comp_def)
  then have "m2 = m0" using p m0 by (intro pix_ext [OF len p(5)]) (simp add: pixel_def screen_def)
  then have "d\<lparr>fb_mem := Some m2\<rparr> = d" using m0 by simp
  then show ?thesis
    using m1(1,3) m2(1) by (intro exI [of _ "d\<lparr>fb_mem := Some m1\<rparr>"]) (simp add: PressButton_def ReleaseButton_def)
qed

text \<open>
  A display of 4 by 2 pixels of 16 bits.
\<close>

definition small_display :: display where
  "small_display = \<lparr>g_ptDispOprHead = empty_registry, g_ptDefaultDispOpr = Some FB_OPR,
     g_tFBOpr = \<lparr>iXres = 4, iYres = 2, disp_iBpp = 16, iLineWidth = 8\<rparr>, fb_mem = Some (replicate 16 0),
     g_tFBVar = \<lparr>xres = 4, yres = 2, bits_per_pixel = 16\<rparr>, g_dwScreenSize = 16, g_dwLineWidth = 8, g_dwPixelWidth = 2,
     g_ptVideoMemHead = []\<rparr>"

definition small_button :: layout where
  "small_button = \<lparr>iTopLeftX = 1, iTopLeftY = 0, iBotRightX = 2, iBotRightY = 1, strIconName = []\<rparr>"

theorem press_release_restores_witness:
  "\<exists>d'. PressButton small_button small_display = Inr d' \<and> ReleaseButton small_button d' = Inr small_display"
  using press_release_restores [of small_display small_button]
  by (auto simp: disp_wf_def on_screen_def small_display_def small_button_def)

end
