(* ===== verification/Pool.thy ===== *)
theory Pool
  imports Display_Props
begin

text \<open>
  The pool of video memories in every reachable state: all memories have the format of the screen,
  and the memory of the device itself is never handed out as a cache.
\<close>

section \<open>The invariant\<close>

text \<open>
  A memory with the format of the screen.
\<close>

definition vm_typed :: "display \<Rightarrow> video_mem \<Rightarrow> bool" where
  "vm_typed d vm \<longleftrightarrow> pix_wf (vm_pixels d vm) \<and> iWidth (tPixelDatas vm) = iXres (g_tFBOpr d) \<and>
     iHeight (tPixelDatas vm) = iYres (g_tFBOpr d) \<and> iBpp (tPixelDatas vm) = disp_iBpp (g_tFBOpr d)"

text \<open>
  The memory of the device is the last of the list and in use; the caches before it include all
  memories in \<open>H\<close>.
\<close>

definition reserved :: "(nat \<times> video_mem) list \<Rightarrow> nat set \<Rightarrow> bool" where
  "reserved vms H \<longleftrightarrow>
     (\<exists>cs a vm. vms = cs @ [(a, vm)] \<and> cs \<noteq> [] \<and> bDevFrameBuffer vm \<and> eVideoMemState vm \<noteq> VMS_FREE \<and>
        (\<forall>c \<in> set cs. \<not> bDevFrameBuffer (snd c)) \<and> H \<subseteq> fst ` set cs)"

definition pool_inv :: "display \<Rightarrow> nat set \<Rightarrow> bool" where
  "pool_inv d H \<longleftrightarrow> disp_wf d \<and> (\<forall>(a, vm) \<in> set (g_ptVideoMemHead d). vm_typed d vm) \<and>
     distinct (List.map fst (g_ptVideoMemHead d)) \<and> reserved (g_ptVideoMemHead d) H"

section \<open>Steps\<close>

text \<open>
  What the pages of the program do with the pool.  \<open>H\<close> are the memories that were obtained with
  \<open>GetVideoMem\<close> and not given back; only these are given back.  A function that paints keeps the
  format of the picture.
\<close>

inductive pool_step :: "display \<times> nat set \<Rightarrow> display \<times> nat set \<Rightarrow> bool" where
  get: "GetVideoMem page bCur d = Inr (Some a, d') \<Longrightarrow> pool_step (d, H) (d', insert a H)"
| get_none: "GetVideoMem page bCur d = Inr (None, d') \<Longrightarrow> pool_step (d, H) (d', H)"
| put: "a \<in> H \<Longrightarrow> PutVideoMem a d = Inr d' \<Longrightarrow> pool_step (d, H) (d', H - {a})"
| paint: "(\<And>p p'. pix_wf p \<Longrightarrow> f p = Inr p' \<Longrightarrow> kept (\<lambda>x y. True) p p') \<Longrightarrow> vm_paint a f d = Inr d' \<Longrightarrow> pool_step (d, H) (d', H)"
| flush: "FlushVideoMemToDev a d = Inr d' \<Longrightarrow> pool_step (d, H) (d', H)"
| button: "InvertButton l d = Inr d' \<Longrightarrow> pool_step (d, H) (d', H)"
| show_pixel: "FBShowPixel iX iY c d = Inr (ret, d') \<Longrightarrow> pool_step (d, H) (d', H)"
| clean: "FBCleanScreen c d = Inr (ret, d') \<Longrightarrow> pool_step (d, H) (d', H)"

inductive_cases pool_stepE: "pool_step s s'"

section \<open>Writing the screen\<close>

text \<open>
  A step that only replaces the contents of the screen.
\<close>

lemma pool_inv_fb:
  assumes "pool_inv d H" and "fb_mem d = Some m" "length m' = length m"
  shows "pool_inv (d\<lparr>fb_mem := Some m'\<rparr>) H"
proof -
  have wf: "disp_wf (d\<lparr>fb_mem := Some m'\<rparr>)" using assms by (simp add: pool_inv_def disp_wf_def)
  have "vm_typed (d\<lparr>fb_mem := Some m'\<rparr>) vm" if "vm_typed d vm" for vm
    using that assms(2,3) by (cases "bDevFrameBuffer vm") (auto simp: vm_typed_def vm_pixels_def pix_wf_def)
  then have "\<forall>(a, vm) \<in> set (g_ptVideoMemHead d). vm_typed (d\<lparr>fb_mem := Some m'\<rparr>) vm" using assms(1) by (auto simp: pool_inv_def)
  then show ?thesis using assms(1) wf by (simp add: pool_inv_def)
qed

lemma memset_length: "memset m off c n = Inr m' \<Longrightarrow> length m' = length m"
  by (auto simp: memset_def split: if_splits dest: put_at_length)

lemma fill_loop_length: "fill_loop bs n i m = Inr m' \<Longrightarrow> length m' = length m"
proof (induction bs n i m rule: fill_loop.induct)
  case (1 bs n i m)
  show ?case
  proof (cases "i < n \<and> bs \<noteq> []")
    case True
    then obtain m1 where "put_at m i bs = Inr m1" "fill_loop bs n (i + int (length bs)) m1 = Inr m'"
      using "1.prems" by (simp add: fill_loop.simps [of bs n i] kbind_Inr_iff) blast
    then show ?thesis using "1.IH" True put_at_length by fastforce
  next
    case False
    then show ?thesis using "1.prems" by (auto simp: fill_loop.simps [of bs n i] split: if_splits)
  qed
qed

text \<open>
  The functions that write to the screen replace its contents by contents of the same size.
\<close>

definition fb_only :: "display \<Rightarrow> display \<Rightarrow> bool" where
  "fb_only d d' \<longleftrightarrow> d' = d \<or> (\<exists>m m'. fb_mem d = Some m \<and> d' = d\<lparr>fb_mem := Some m'\<rparr> \<and> length m' = length m)"

lemma fb_only_refl: "fb_only d d"
  by (simp add: fb_only_def)

lemma fb_store_only:
  "fb_mem d = Some m \<Longrightarrow> fb_store d r = Inr d' \<Longrightarrow> (\<And>m'. r = Inr m' \<Longrightarrow> length m' = length m) \<Longrightarrow> fb_only d d'"
  by (auto simp: fb_store_def kbind_Inr_iff fb_only_def)

lemma FBShowPixel_only: "FBShowPixel iX iY c d = Inr (ret, d') \<Longrightarrow> fb_only d d'"
  by (auto simp: FBShowPixel_def Let_def kbind_Inr_iff deref_Inr_iff split: if_splits
      intro: fb_only_refl fb_store_only put_at_length)

lemma FBCleanScreen_only: "FBCleanScreen c d = Inr (ret, d') \<Longrightarrow> fb_only d d'"
  by (auto simp: FBCleanScreen_def Let_def kbind_Inr_iff deref_Inr_iff split: if_splits
      intro: fb_only_refl fb_store_only memset_length fill_loop_length)

lemma InvertButton_only: "InvertButton l d = Inr d' \<Longrightarrow> fb_only d d'"
proof -
  assume a: "InvertButton l d = Inr d'"
  then obtain m where m: "fb_mem d = Some m" by (auto simp: InvertButton_def kbind_Inr_iff deref_Inr_iff)
  show ?thesis
    using a m by (auto simp: InvertButton_def Let_def kbind_Inr_iff deref_Inr_iff
        intro!: fb_store_only [OF m] elim!: for_each_length [rotated] dest: put_at_length)
qed

lemma FlushVideoMemToDev_only: "FlushVideoMemToDev a d = Inr d' \<Longrightarrow> fb_only d d'"
  by (auto simp: FlushVideoMemToDev_def FBShowPage_def kbind_Inr_iff deref_Inr_iff split: if_splits
      intro: fb_only_refl fb_store_only memcpy_length)

lemma fb_only_inv: "pool_inv d H \<Longrightarrow> fb_only d d' \<Longrightarrow> pool_inv d' H"
  by (auto simp: fb_only_def intro: pool_inv_fb)

section \<open>Updating a cache\<close>

lemma pool_inv_mono: "pool_inv d H \<Longrightarrow> H' \<subseteq> H \<Longrightarrow> pool_inv d H'"
  unfolding pool_inv_def reserved_def by blast

lemma vm_typed_update: "vm_typed (vm_update a f d) vm = vm_typed d vm"
  by (simp add: vm_typed_def vm_pixels_def vm_update_def)

lemma disp_wf_update: "disp_wf (vm_update a f d) = disp_wf d"
  by (simp add: disp_wf_def vm_update_def cong: option.case_cong)

lemma pool_inv_update:
  assumes inv: "pool_inv d H" and a: "(a, vm0) \<in> set (g_ptVideoMemHead d)" "\<not> bDevFrameBuffer vm0"
    and f: "\<And>vm. vm_typed d vm \<Longrightarrow> \<not> bDevFrameBuffer vm \<Longrightarrow> vm_typed d (f vm) \<and> \<not> bDevFrameBuffer (f vm)"
  shows "pool_inv (vm_update a f d) (insert a H)"
proof -
  let ?pool = "g_ptVideoMemHead d" and ?g = "\<lambda>(b, vm). (b, if b = a then f vm else vm)"
  obtain cs a1 fb where cs: "?pool = cs @ [(a1, fb)]" "cs \<noteq> []" "bDevFrameBuffer fb" "eVideoMemState fb \<noteq> VMS_FREE"
    "\<forall>c \<in> set cs. \<not> bDevFrameBuffer (snd c)" "H \<subseteq> fst ` set cs"
    using inv by (auto simp: pool_inv_def reserved_def)
  have dist: "distinct (List.map fst ?pool)" using inv by (simp add: pool_inv_def)
  have acs: "(a, vm0) \<in> set cs" using a cs(1,3) by auto
  then have "a1 \<noteq> a" using dist cs(1) by force
  have typed: "vm_typed d vm" if "(b, vm) \<in> set ?pool" for b vm using inv that by (auto simp: pool_inv_def)
  have cs': "vm_typed d (if b = a then f vm else vm) \<and> \<not> bDevFrameBuffer (if b = a then f vm else vm)" if "(b, vm) \<in> set cs" for b vm
    using that typed [of b vm] cs(1,5) f [of vm] by force
  have pool': "g_ptVideoMemHead (vm_update a f d) = List.map ?g cs @ [(a1, fb)]"
    using cs(1) \<open>a1 \<noteq> a\<close> by (simp add: vm_update_def)
  have fstg: "List.map fst (List.map ?g cs) = List.map fst cs" by auto
  have "fst ` set (List.map ?g cs) = fst ` set cs" by force
  moreover have "disp_wf (vm_update a f d)" using inv by (simp add: pool_inv_def disp_wf_update)
  moreover have "\<forall>(b, vm) \<in> set (List.map ?g cs @ [(a1, fb)]). vm_typed (vm_update a f d) vm"
    using cs' typed [of a1 fb] cs(1) by (auto simp: vm_typed_update)
  moreover have "\<forall>c \<in> set (List.map ?g cs). \<not> bDevFrameBuffer (snd c)" using cs' by auto
  moreover have "insert a H \<subseteq> fst ` set cs" using acs cs(6) by force
  moreover have "distinct (List.map fst (List.map ?g cs @ [(a1, fb)]))"
    using dist cs(1) unfolding map_append fstg by simp
  moreover have "reserved (List.map ?g cs @ [(a1, fb)]) (insert a H)"
    unfolding reserved_def using cs(2-4) calculation
    by (intro exI [of _ "List.map ?g cs"] exI [of _ a1] exI [of _ fb]) (simp only: append_same_eq simp_thms, simp)
  ultimately show ?thesis unfolding pool_inv_def pool' by blast
qed

section \<open>Every step keeps the invariant\<close>

text \<open>
  A memory that \<open>GetVideoMem\<close> returns was free or is the head of the list; only its state, its page
  number and the state of its picture change.
\<close>

lemma vm_find_Some:
  assumes "vm_find P d = Some a"
  shows "\<exists>vm. (a, vm) \<in> set (g_ptVideoMemHead d) \<and> P vm"
proof -
  obtain vm where "List.find (\<lambda>(a, vm). P vm) (g_ptVideoMemHead d) = Some (a, vm)" using assms by (auto simp: vm_find_def)
  then obtain i where "i < length (g_ptVideoMemHead d)" "P vm" "g_ptVideoMemHead d ! i = (a, vm)" by (auto simp: find_Some_iff)
  then show ?thesis using nth_mem by fastforce
qed

definition vm_claim :: "int \<Rightarrow> video_mem_state \<Rightarrow> (video_mem \<Rightarrow> video_mem) \<Rightarrow> bool" where
  "vm_claim page u f \<longleftrightarrow> f = (\<lambda>vm. vm\<lparr>eVideoMemState := u\<rparr>) \<or> f = (\<lambda>vm. vm\<lparr>iID := page, eVideoMemState := u\<rparr>) \<or>
     f = (\<lambda>vm. vm\<lparr>iID := page, ePicState := PS_BLANK, eVideoMemState := u\<rparr>)"

lemma vm_claim_keeps:
  "vm_claim page u f \<Longrightarrow> bDevFrameBuffer (f vm) = bDevFrameBuffer vm \<and> tPixelDatas (f vm) = tPixelDatas vm \<and> eVideoMemState (f vm) = u"
  by (auto simp: vm_claim_def)

lemma GetVideoMem_result:
  assumes "GetVideoMem page bCur d = Inr (r, d')"
  shows "r = None \<and> d' = d \<or> (\<exists>a vm f. r = Some a \<and> d' = vm_update a f d \<and> (a, vm) \<in> set (g_ptVideoMemHead d) \<and>
    (eVideoMemState vm = VMS_FREE \<or> (a, vm) = hd (g_ptVideoMemHead d)) \<and>
    vm_claim page (if bCur then VMS_USED_FOR_CUR else VMS_USED_FOR_PREPARE) f)"
proof -
  let ?u = "if bCur then VMS_USED_FOR_CUR else VMS_USED_FOR_PREPARE"
  have found: ?thesis if "vm_find P d = Some a" "\<And>vm. P vm \<Longrightarrow> eVideoMemState vm = VMS_FREE" "r = Some a" "d' = vm_update a f d" "vm_claim page ?u f"
    for P a f
    using that(2-5) vm_find_Some [OF that(1)] by blast
  show ?thesis
  proof (cases "vm_find (\<lambda>vm. eVideoMemState vm = VMS_FREE \<and> iID vm = page) d")
    case (Some a)
    then show ?thesis using assms by (intro found [where f = "\<lambda>vm. vm\<lparr>eVideoMemState := ?u\<rparr>", OF Some]) (auto simp: GetVideoMem_def vm_claim_def Let_def)
  next
    case n1: None
    show ?thesis
    proof (cases "vm_find (\<lambda>vm. eVideoMemState vm = VMS_FREE \<and> ePicState vm = PS_BLANK) d")
      case (Some a)
      then show ?thesis using assms n1 by (intro found [where f = "\<lambda>vm. vm\<lparr>iID := page, eVideoMemState := ?u\<rparr>", OF Some]) (auto simp: GetVideoMem_def vm_claim_def Let_def)
    next
      case n2: None
      show ?thesis
      proof (cases "vm_find (\<lambda>vm. eVideoMemState vm = VMS_FREE) d")
        case (Some a)
        then show ?thesis using assms n1 n2
          by (intro found [where f = "\<lambda>vm. vm\<lparr>iID := page, ePicState := PS_BLANK, eVideoMemState := ?u\<rparr>", OF Some]) (auto simp: GetVideoMem_def vm_claim_def Let_def)
      next
        case None
        then show ?thesis
          using assms n1 n2 by (cases "g_ptVideoMemHead d") (auto simp: GetVideoMem_def vm_claim_def Let_def split: if_splits)
      qed
    qed
  qed
qed

lemma pool_inv_unfold:
  assumes "pool_inv d H"
  obtains cs a1 fb where "g_ptVideoMemHead d = cs @ [(a1, fb)]" "cs \<noteq> []" "bDevFrameBuffer fb" "eVideoMemState fb \<noteq> VMS_FREE"
    "\<forall>c \<in> set cs. \<not> bDevFrameBuffer (snd c)" "H \<subseteq> fst ` set cs" "distinct (List.map fst (g_ptVideoMemHead d))"
    "\<forall>(a, vm) \<in> set (g_ptVideoMemHead d). vm_typed d vm" "disp_wf d"
  using assms unfolding pool_inv_def reserved_def by blast

lemma GetVideoMem_cache:
  assumes inv: "pool_inv d H" and get: "GetVideoMem page bCur d = Inr (Some a, d')"
  shows "\<exists>vm. (a, vm) \<in> set (g_ptVideoMemHead d) \<and> \<not> bDevFrameBuffer vm \<and> pool_inv d' (insert a H)"
proof -
  obtain cs a1 fb where cs: "g_ptVideoMemHead d = cs @ [(a1, fb)]" "cs \<noteq> []" "eVideoMemState fb \<noteq> VMS_FREE" "\<forall>c \<in> set cs. \<not> bDevFrameBuffer (snd c)"
    using inv by (rule pool_inv_unfold)
  obtain vm f where vm: "d' = vm_update a f d" "(a, vm) \<in> set (g_ptVideoMemHead d)"
    "eVideoMemState vm = VMS_FREE \<or> (a, vm) = hd (g_ptVideoMemHead d)" "vm_claim page (if bCur then VMS_USED_FOR_CUR else VMS_USED_FOR_PREPARE) f"
    using GetVideoMem_result [OF get] by blast
  have "(a, vm) \<in> set cs" using vm(2,3) cs(1-3) by (cases cs) auto
  then have "\<not> bDevFrameBuffer vm" using cs(4) by auto
  moreover have "pool_inv (vm_update a f d) (insert a H)"
  proof (rule pool_inv_update [OF inv vm(2) \<open>\<not> bDevFrameBuffer vm\<close>])
    fix vm assume "vm_typed d vm" "\<not> bDevFrameBuffer vm"
    then show "vm_typed d (f vm) \<and> \<not> bDevFrameBuffer (f vm)"
      using vm_claim_keeps [OF vm(4), of vm] by (simp add: vm_typed_def vm_pixels_def)
  qed
  ultimately show ?thesis using vm(1,2) by blast
qed

lemma PutVideoMem_inv:
  assumes inv: "pool_inv d H" and "a \<in> H" and put: "PutVideoMem a d = Inr d'"
  shows "pool_inv d' H"
proof -
  obtain cs a1 fb where cs: "g_ptVideoMemHead d = cs @ [(a1, fb)]" "\<forall>c \<in> set cs. \<not> bDevFrameBuffer (snd c)" "H \<subseteq> fst ` set cs"
    using inv by (rule pool_inv_unfold)
  then obtain vm where vm: "(a, vm) \<in> set (g_ptVideoMemHead d)" "\<not> bDevFrameBuffer vm" using assms(2) by fastforce
  let ?f = "\<lambda>vm. let vm = vm\<lparr>eVideoMemState := VMS_FREE\<rparr> in if iID vm = - 1 then vm\<lparr>ePicState := PS_BLANK\<rparr> else vm"
  have d': "d' = vm_update a ?f d" using put by (auto simp: PutVideoMem_def kbind_Inr_iff)
  have "vm_typed d (?f vm) \<and> \<not> bDevFrameBuffer (?f vm)" if "vm_typed d vm" "\<not> bDevFrameBuffer vm" for vm
    using that by (simp add: vm_typed_def vm_pixels_def Let_def)
  then have "pool_inv d' (insert a H)" unfolding d' by (rule pool_inv_update [OF inv vm])
  then show ?thesis by (rule pool_inv_mono) blast
qed

lemma vm_paint_inv:
  assumes inv: "pool_inv d H" and f: "\<And>p p'. pix_wf p \<Longrightarrow> f p = Inr p' \<Longrightarrow> kept (\<lambda>x y. True) p p'"
    and paint: "vm_paint a f d = Inr d'"
  shows "pool_inv d' H"
proof -
  obtain vm p where vm: "map_of (g_ptVideoMemHead d) a = Some vm" "f (vm_pixels d vm) = Inr p"
    "d' = (if bDevFrameBuffer vm then d\<lparr>fb_mem := Some (aucPixelDatas p)\<rparr> else vm_update a (\<lambda>vm. vm\<lparr>tPixelDatas := p\<rparr>) d)"
    using paint by (auto simp: vm_paint_def kbind_Inr_iff deref_Inr_iff)
  have mem: "(a, vm) \<in> set (g_ptVideoMemHead d)" using vm(1) by (rule map_of_SomeD)
  then have typed: "vm_typed d vm" using inv by (auto simp: pool_inv_def)
  then have kept: "kept (\<lambda>x y. True) (vm_pixels d vm) p" using f [OF _ vm(2)] by (simp add: vm_typed_def)
  then obtain m where p: "p = (vm_pixels d vm)\<lparr>aucPixelDatas := m\<rparr>" "pix_wf p" by (auto simp: kept_def)
  show ?thesis
  proof (cases "bDevFrameBuffer vm")
    case True
    obtain m0 where m0: "fb_mem d = Some m0" using inv by (auto simp: pool_inv_def disp_wf_def split: option.splits)
    have "int (length m) = int (length m0)" using p typed True m0 by (simp add: pix_wf_def vm_typed_def vm_pixels_def)
    then show ?thesis using vm(3) True p(1) pool_inv_fb [OF inv m0, of m] by simp
  next
    case False
    have "vm_typed d (vm'\<lparr>tPixelDatas := p\<rparr>) \<and> \<not> bDevFrameBuffer (vm'\<lparr>tPixelDatas := p\<rparr>)" if "\<not> bDevFrameBuffer vm'" for vm'
      using that p typed False by (simp add: vm_typed_def vm_pixels_def)
    then have "pool_inv (vm_update a (\<lambda>vm. vm\<lparr>tPixelDatas := p\<rparr>) d) (insert a H)"
      by (intro pool_inv_update [OF inv mem False]) blast
    then show ?thesis using vm(3) False pool_inv_mono [of d' "insert a H" H] by auto
  qed
qed

lemma pool_step_inv:
  "pool_step (d, H) (d', H') \<Longrightarrow> pool_inv d H \<Longrightarrow> pool_inv d' H'"
proof (erule pool_step.cases, goal_cases)
  case (1 page bCur d a d' H)
  then show ?case using GetVideoMem_cache [of d H page bCur a d'] by auto
next
  case (2 page bCur d d' H)
  then show ?case using GetVideoMem_result [of page bCur d None d'] by auto
next
  case (3 a H d d')
  then show ?case using PutVideoMem_inv [of d H a d'] pool_inv_mono [of d' H "H - {a}"] by auto
next
  case (4 f a d d' H)
  then show ?case using vm_paint_inv [of d H f a d'] by auto
qed (auto intro: fb_only_inv FlushVideoMemToDev_only InvertButton_only FBShowPixel_only FBCleanScreen_only)

lemma pool_steps_inv:
  "pool_step\<^sup>*\<^sup>* s s' \<Longrightarrow> pool_inv (fst s) (snd s) \<Longrightarrow> pool_inv (fst s') (snd s')"
proof (induction rule: rtranclp_induct)
  case (step s s')
  then show ?case using pool_step_inv [of "fst s" "snd s" "fst s'" "snd s'"] by simp
qed

section \<open>Starting the display\<close>

lemma fill_loop_ok:
  assumes "bs \<noteq> []" "i + k * length bs \<le> length m"
  shows "\<exists>m'. fill_loop bs (int (i + k * length bs)) (int i) m = Inr m'"
  using assms(2)
proof (induction k arbitrary: i m)
  case 0
  then show ?case by (simp add: fill_loop.simps)
next
  case (Suc k)
  have "put_at m (int i) bs = Inr (take i m @ bs @ drop (i + length bs) m)"
    using Suc.prems by (simp add: put_at_def mem_write_def)
  moreover have "\<exists>m'. fill_loop bs (int (i + length bs + k * length bs)) (int (i + length bs)) (take i m @ bs @ drop (i + length bs) m) = Inr m'"
    using Suc.prems by (intro Suc.IH) simp
  ultimately show ?case
    using assms(1) by (simp add: fill_loop.simps [of bs _ "int i"] algebra_simps)
qed

text \<open>
  A device whose screen has \<open>w\<close> by \<open>h\<close> pixels of \<open>b\<close> bytes, small enough for 32-bit sizes.
\<close>

definition device_ok :: "fb_device \<Rightarrow> nat \<Rightarrow> nat \<Rightarrow> nat \<Rightarrow> bool" where
  "device_ok dev w h b \<longleftrightarrow>
     b \<in> {1, 2, 3, 4} \<and> w * h * (8 * b) < 2 ^ 31 \<and> w * (8 * b) < 2 ^ 31 \<and> w < 2 ^ 31 \<and> h < 2 ^ 31 \<and>
     dev_vscreeninfo dev (dev_open dev) = Some \<lparr>xres = of_nat w, yres = of_nat h, bits_per_pixel = of_nat (8 * b)\<rparr> \<and>
     dev_fscreeninfo dev (dev_open dev) \<and>
     (case dev_mmap dev (dev_open dev) (of_nat (h * (w * b))) of Some m \<Rightarrow> length m = h * (w * b) | None \<Rightarrow> False)"

lemma word_size:
  assumes "n * 8 < 2 ^ 31"
  shows "(of_nat (n * 8) :: u32) div 8 = of_nat n"
proof -
  have "unat (of_nat (n * 8) :: u32) = n * 8" using assms by (intro u32_of_nat) simp
  then have "unat ((of_nat (n * 8) :: u32) div 8) = n" unfolding unat_div by simp
  moreover have "unat (of_nat n :: u32) = n" using assms by (intro u32_of_nat) simp
  ultimately show ?thesis by (simp add: word_unat_eq_iff)
qed

lemma sint_of_nat_small:
  assumes "n < 2 ^ 31"
  shows "sint (of_nat n :: u32) = int n"
proof -
  have "unat (of_nat n :: u32) = n" using assms by (intro u32_of_nat) simp
  then show ?thesis using sint_small [of "of_nat n"] assms by simp
qed

lemma FBDeviceInit_ok:
  assumes dev: "device_ok dev w h b"
  shows "\<exists>d' m. FBDeviceInit dev d = (0, d') \<and> fb_mem d' = Some m \<and> length m = h * (w * b) \<and>
    g_tFBOpr d' = \<lparr>iXres = int w, iYres = int h, disp_iBpp = int (8 * b), iLineWidth = int (w * b)\<rparr> \<and>
    g_dwScreenSize d' = of_nat (h * (w * b)) \<and> bits_per_pixel (g_tFBVar d') = of_nat (8 * b) \<and>
    g_ptVideoMemHead d' = g_ptVideoMemHead d \<and> g_ptDefaultDispOpr d' = g_ptDefaultDispOpr d"
proof -
  have b: "w * h * (8 * b) < 2 ^ 31" "w * (8 * b) < 2 ^ 31" "w < 2 ^ 31" "h < 2 ^ 31" "8 * b < 2 ^ 31" "w * b < 2 ^ 31"
    using dev by (auto simp: device_ok_def)
  have "(of_nat w * of_nat h * of_nat (8 * b) :: u32) div 8 = of_nat (h * (w * b))"
    using word_size [of "h * (w * b)"] b(1) by (simp add: ac_simps)
  moreover have "(of_nat w * of_nat (8 * b) :: u32) div 8 = of_nat (w * b)"
    using word_size [of "w * b"] b(2) by (simp add: ac_simps)
  moreover have "of_int (sint (of_nat (8 * b) :: u32)) = (of_nat (8 * b) :: u32)" by simp
  moreover have "sint (of_nat w :: u32) = int w" "sint (of_nat h :: u32) = int h" "sint (of_nat (8 * b) :: u32) = int (8 * b)"
    "sint (of_nat (w * b) :: u32) = int (w * b)"
    by (rule sint_of_nat_small [OF b(3)], rule sint_of_nat_small [OF b(4)], rule sint_of_nat_small [OF b(5)], rule sint_of_nat_small [OF b(6)])
  moreover obtain m where "dev_mmap dev (dev_open dev) (of_nat (h * (w * b))) = Some m" "length m = h * (w * b)"
    using dev by (auto simp: device_ok_def split: option.splits)
  ultimately show ?thesis
    using dev unfolding device_ok_def FBDeviceInit_def Let_def by (simp del: of_nat_mult)
qed

lemma FBCleanScreen_ok:
  assumes "fb_mem d = Some m" "length m = h * (w * b)" "g_dwScreenSize d = of_nat (h * (w * b))" "h * (w * b) < 2 ^ 32"
    "bits_per_pixel (g_tFBVar d) = of_nat (8 * b)" "b \<in> {1, 2, 3, 4}"
  shows "\<exists>ret d'. FBCleanScreen c d = Inr (ret, d')"
proof -
  have n: "int (unat (g_dwScreenSize d)) = int (length m)" using u32_of_nat [OF assms(4)] assms(2,3) by simp
  have "b = 1 \<or> b = 2 \<or> b = 3 \<or> b = 4" using assms(6) by auto
  then show ?thesis
  proof (elim disjE)
    assume "b = 1"
    then show ?thesis using assms(1,5) n by (auto simp: FBCleanScreen_def Let_def fb_store_def memset_def put_at_def mem_write_def)
  next
    assume b: "b = 2"
    obtain m' where "fill_loop (put_le16 (color565 c)) (int (0 + h * w * length (put_le16 (color565 c)))) (int 0) m = Inr m'"
      using fill_loop_ok [of "put_le16 (color565 c)" 0 "h * w" m] assms(2) b by (auto simp: put_le16_def)
    moreover have "int (0 + h * w * length (put_le16 (color565 c))) = int (length m)" using assms(2) b by simp
    ultimately show ?thesis using assms(1,5) n b by (simp add: FBCleanScreen_def Let_def fb_store_def)
  next
    assume "b = 3"
    then show ?thesis using assms(5) by (simp add: FBCleanScreen_def Let_def)
  next
    assume b: "b = 4"
    obtain m' where "fill_loop (put_le32 c) (int (0 + h * w * length (put_le32 c))) (int 0) m = Inr m'"
      using fill_loop_ok [of "put_le32 c" 0 "h * w" m] assms(2) b by (auto simp: put_le32_def)
    moreover have "int (0 + h * w * length (put_le32 c)) = int (length m)" using assms(2) b by simp
    ultimately show ?thesis using assms(1,5) n b by (simp add: FBCleanScreen_def Let_def fb_store_def)
  qed
qed

definition malloc_ok :: "(nat \<Rightarrow> int \<Rightarrow> u8 list option) \<Rightarrow> bool" where
  "malloc_ok malloc \<longleftrightarrow> (\<forall>k n. 0 \<le> n \<longrightarrow> (case malloc k n of Some m \<Rightarrow> int (length m) = n | None \<Rightarrow> False))"

lemma malloc_ok_Some: "malloc_ok malloc \<Longrightarrow> 0 \<le> n \<Longrightarrow> \<exists>m. malloc k n = Some m \<and> int (length m) = n"
  unfolding malloc_ok_def by (drule spec [of _ k], drule spec [of _ n]) (auto split: option.splits)

definition cache_of :: "pixel_datas \<Rightarrow> video_mem \<Rightarrow> bool" where
  "cache_of p vm \<longleftrightarrow> \<not> bDevFrameBuffer vm \<and> (\<exists>m. tPixelDatas vm = p\<lparr>aucPixelDatas := m\<rparr> \<and> int (length m) = iTotalBytes p)"

lemma alloc_caches_ok:
  assumes "malloc_ok malloc" "0 \<le> iTotalBytes p" "List.map fst (g_ptVideoMemHead d) = rev [0..<length (g_ptVideoMemHead d)]"
  shows "\<exists>cs. alloc_caches malloc p is d = (0, d\<lparr>g_ptVideoMemHead := cs @ g_ptVideoMemHead d\<rparr>) \<and> length cs = length is \<and>
    (\<forall>c \<in> set cs. cache_of p (snd c)) \<and>
    List.map fst (cs @ g_ptVideoMemHead d) = rev [0..<length cs + length (g_ptVideoMemHead d)]"
  using assms(3)
proof (induction "is" arbitrary: d)
  case (Cons i "is")
  obtain m where m: "malloc (Suc i) (iTotalBytes p) = Some m" "int (length m) = iTotalBytes p" using malloc_ok_Some [OF assms(1,2)] by blast
  let ?vm = "\<lparr>iID = 0, bDevFrameBuffer = False, eVideoMemState = VMS_FREE, ePicState = PS_BLANK, tPixelDatas = p\<lparr>aucPixelDatas := m\<rparr>\<rparr>"
  have "List.map fst (g_ptVideoMemHead (vm_push ?vm d)) = rev [0..<length (g_ptVideoMemHead (vm_push ?vm d))]"
    using Cons.prems by (simp add: vm_push_def)
  from Cons.IH [OF this] obtain cs where cs:
    "alloc_caches malloc p is (vm_push ?vm d) = (0, (vm_push ?vm d)\<lparr>g_ptVideoMemHead := cs @ g_ptVideoMemHead (vm_push ?vm d)\<rparr>)"
    "length cs = length is" "\<forall>c \<in> set cs. cache_of p (snd c)"
    "List.map fst (cs @ g_ptVideoMemHead (vm_push ?vm d)) = rev [0..<length cs + length (g_ptVideoMemHead (vm_push ?vm d))]"
    by blast
  have "cache_of p ?vm" using m(2) by (auto simp: cache_of_def)
  then show ?case
    using cs m(1) by (intro exI [of _ "cs @ [(length (g_ptVideoMemHead d), ?vm)]"]) (auto simp: vm_push_def)
qed simp

text \<open>
  The state at the start of the program.
\<close>

definition display0 :: display where
  "display0 = \<lparr>g_ptDispOprHead = empty_registry, g_ptDefaultDispOpr = None,
     g_tFBOpr = \<lparr>iXres = 0, iYres = 0, disp_iBpp = 0, iLineWidth = 0\<rparr>, fb_mem = None,
     g_tFBVar = \<lparr>xres = 0, yres = 0, bits_per_pixel = 0\<rparr>, g_dwScreenSize = 0, g_dwLineWidth = 0, g_dwPixelWidth = 0,
     g_ptVideoMemHead = []\<rparr>"

lemma display_selected:
  assumes dev: "device_ok dev w h b"
  shows "\<exists>d1 d. DisplayInit display0 = Some (0, d1) \<and> SelectAndInitDefaultDispDev dev ''fb'' d1 = Some (Inr d) \<and> disp_wf d \<and>
    g_ptVideoMemHead d = [] \<and> g_tFBOpr d = \<lparr>iXres = int w, iYres = int h, disp_iBpp = int (8 * b), iLineWidth = int (w * b)\<rparr>"
proof -
  have b: "b \<in> {1, 2, 3, 4}" "h * (w * b) < 2 ^ 32"
  proof -
    show "b \<in> {1, 2, 3, 4}" using dev by (simp add: device_ok_def)
    have "w * h * (8 * b) < 2 ^ 31" using dev by (simp add: device_ok_def)
    moreover have "w * h * (8 * b) = 8 * (h * (w * b))" by simp
    ultimately have "8 * (h * (w * b)) < 2147483648" by simp
    then have "h * (w * b) < 4294967296" by linarith
    then show "h * (w * b) < 2 ^ 32" by simp
  qed
  obtain r where r: "register_node FB_OPR empty_registry = Some r" "nodes r [FB_OPR]" using linked.register [OF linked.empty] by auto
  define d1 where "d1 = display0\<lparr>g_ptDispOprHead := r\<rparr>"
  have init: "DisplayInit display0 = Some (0, d1)"
    using r(1) by (simp add: DisplayInit_def FBInit_def RegisterDispOpr_def display0_def d1_def)
  have "GetDispOpr ''fb'' d1 = Some (Some FB_OPR)"
    using linked.lookup [OF r(2)] by (simp add: GetDispOpr_def d1_def disp_name_def)
  moreover obtain d2 m where d2: "FBDeviceInit dev (d1\<lparr>g_ptDefaultDispOpr := Some FB_OPR\<rparr>) = (0, d2)" "fb_mem d2 = Some m" "length m = h * (w * b)"
    "g_tFBOpr d2 = \<lparr>iXres = int w, iYres = int h, disp_iBpp = int (8 * b), iLineWidth = int (w * b)\<rparr>"
    "g_dwScreenSize d2 = of_nat (h * (w * b))" "bits_per_pixel (g_tFBVar d2) = of_nat (8 * b)"
    "g_ptVideoMemHead d2 = []" "g_ptDefaultDispOpr d2 = Some FB_OPR"
    using FBDeviceInit_ok [OF dev, of "d1\<lparr>g_ptDefaultDispOpr := Some FB_OPR\<rparr>"] by (auto simp: d1_def display0_def)
  moreover obtain ret d where d: "FBCleanScreen 0 d2 = Inr (ret, d)"
    using FBCleanScreen_ok [OF d2(2,3,5) b(2) d2(6) b(1)] by blast
  ultimately have "SelectAndInitDefaultDispDev dev ''fb'' d1 = Some (Inr d)" by (simp add: SelectAndInitDefaultDispDev_def Let_def)
  moreover have wf2: "disp_wf d2" using d2 b(1) by (auto simp: disp_wf_def)
  have "fb_only d2 d" using d by (rule FBCleanScreen_only)
  then have "disp_wf d \<and> g_ptVideoMemHead d = [] \<and> g_tFBOpr d = g_tFBOpr d2" using wf2 d2(7) by (auto simp: fb_only_def disp_wf_def)
  ultimately show ?thesis using init d2(4) by auto
qed

lemma main_display_ok:
  assumes dev: "device_ok dev w h b" and malloc: "malloc_ok malloc" and n: "0 < n"
  shows "\<exists>d. main_display dev malloc n display0 = Some (Inr (0, d)) \<and> pool_inv d {} \<and>
    iWidth (screen d) = int w \<and> iHeight (screen d) = int h \<and> iBpp (screen d) = int (8 * b)"
proof -
  obtain d1 d where d: "DisplayInit display0 = Some (0, d1)" "SelectAndInitDefaultDispDev dev ''fb'' d1 = Some (Inr d)" "disp_wf d"
    "g_ptVideoMemHead d = []" "g_tFBOpr d = \<lparr>iXres = int w, iYres = int h, disp_iBpp = int (8 * b), iLineWidth = int (w * b)\<rparr>"
    using display_selected [OF dev] by blast
  obtain a m where am: "g_ptDefaultDispOpr d = Some a" "fb_mem d = Some m"
    using d(3) by (auto simp: disp_wf_def split: option.splits)
  have "int (length m) = int (h * (w * b))" using d(3,5) am(2) by (simp add: disp_wf_def)
  then have lm: "length m = h * (w * b)" by (simp only: of_nat_eq_iff)
  have b: "b \<in> {1, 2, 3, 4}" using dev by (simp add: device_ok_def)
  define p where "p = \<lparr>iWidth = int w, iHeight = int h, iBpp = int (8 * b), iLineBytes = int (w * b), iTotalBytes = int (h * (w * b)), aucPixelDatas = []\<rparr>"
  define fb where "fb = \<lparr>iID = 0, bDevFrameBuffer = True, eVideoMemState = VMS_USED_FOR_CUR, ePicState = PS_BLANK, tPixelDatas = p\<rparr>"
  obtain m0 where m0: "malloc 0 0 = Some m0" using malloc_ok_Some [OF malloc] by auto
  obtain cs where cs: "alloc_caches malloc p [0..<nat n] (vm_push fb d) = (0, d\<lparr>g_ptVideoMemHead := cs @ [(0, fb)]\<rparr>)" "length cs = nat n"
    "\<forall>c \<in> set cs. cache_of p (snd c)" "List.map fst (cs @ [(0, fb)]) = rev [0..<length cs + 1]"
    using alloc_caches_ok [OF malloc, of p "vm_push fb d" "[0..<nat n]"] d(4) by (auto simp: vm_push_def p_def)
  let ?d = "d\<lparr>g_ptVideoMemHead := cs @ [(0, fb)]\<rparr>"
  have "div8 (int w * int (8 * b)) = int (w * b)" "div8 (int w * int h * int (8 * b)) = int (h * (w * b))"
    using div8_mult [of "int w" "int b"] div8_mult [of "int w * int h" "int b"] by (simp_all add: ac_simps)
  then have "AllocVideoMem malloc n d = Inr (0, ?d)"
    using d(5) m0 am(1) n cs(1) unfolding AllocVideoMem_def GetDispResolution_def by (simp add: p_def fb_def del: of_nat_mult)
  then have "main_display dev malloc n display0 = Some (Inr (0, ?d))" using d(1,2) by (simp add: main_display_def)
  moreover have "pool_inv ?d {}"
  proof -
    have wf: "disp_wf ?d" using d(3) am by (simp add: disp_wf_def)
    have "vm_typed ?d vm" if "cache_of p vm" for vm using that b d(5) by (auto simp: cache_of_def vm_typed_def vm_pixels_def pix_wf_def p_def)
    moreover have "vm_typed ?d fb" using b d(5) am lm by (auto simp: fb_def vm_typed_def vm_pixels_def pix_wf_def p_def)
    moreover have "distinct (List.map fst (cs @ [(0, fb)]))" unfolding cs(4) by simp
    moreover have "reserved (cs @ [(0, fb)]) {}"
      using cs(2,3) n by (auto simp: reserved_def fb_def cache_of_def intro!: exI [of _ cs])
    ultimately show ?thesis using wf cs(3) by (auto simp: pool_inv_def)
  qed
  moreover have "iWidth (screen ?d) = int w \<and> iHeight (screen ?d) = int h \<and> iBpp (screen ?d) = int (8 * b)"
    using d(5) by (simp add: screen_def)
  ultimately show ?thesis by blast
qed

lemma GetVideoMem_current:
  assumes "pool_inv d H"
  shows "\<exists>a d'. GetVideoMem page True d = Inr (Some a, d') \<and> screen d' = screen d"
proof -
  obtain cs a1 fb where "g_ptVideoMemHead d = cs @ [(a1, fb)]" using assms by (rule pool_inv_unfold)
  then have "g_ptVideoMemHead d \<noteq> []" by simp
  then have "\<exists>a d'. GetVideoMem page True d = Inr (Some a, d')"
    by (cases "g_ptVideoMemHead d") (simp_all add: GetVideoMem_def Let_def split: option.splits prod.splits)
  then obtain a d' where g: "GetVideoMem page True d = Inr (Some a, d')" by blast
  then have "screen d' = screen d" using GetVideoMem_result [OF g] by (auto simp: screen_def vm_update_def)
  then show ?thesis using g by blast
qed

section \<open>Reachable states\<close>

lemma reachable_inv:
  assumes "device_ok dev w h b" "malloc_ok malloc" "0 < n" "main_display dev malloc n display0 = Some (Inr (ret, d))"
    and "pool_step\<^sup>*\<^sup>* (d, {}) (d', H)"
  shows "pool_inv d' H"
proof -
  have "pool_inv d {}" using main_display_ok [OF assms(1-3)] assms(4) by auto
  then show ?thesis using pool_steps_inv [OF assms(5)] by simp
qed


text \<open>
  C26: when caches were allocated, the memory of the device itself is never handed out: the
  memory that \<open>GetVideoMem\<close> returns is a cache, even when all memories are in use.
\<close>

theorem framebuffer_not_handed_out:
  assumes "device_ok dev w h b" "malloc_ok malloc" "0 < n" "main_display dev malloc n display0 = Some (Inr (ret, d))"
    and "pool_step\<^sup>*\<^sup>* (d, {}) (d', H)" and "GetVideoMem page bCur d' = Inr (Some a, d'')"
  shows "\<exists>vm. map_of (g_ptVideoMemHead d') a = Some vm \<and> \<not> bDevFrameBuffer vm"
proof -
  have inv: "pool_inv d' H" by (rule reachable_inv [OF assms(1-5)])
  then obtain vm where "(a, vm) \<in> set (g_ptVideoMemHead d')" "\<not> bDevFrameBuffer vm" using GetVideoMem_cache assms(6) by blast
  moreover have "distinct (List.map fst (g_ptVideoMemHead d'))" using inv by (simp add: pool_inv_def)
  ultimately show ?thesis by (intro exI [of _ vm]) (simp add: map_of_is_SomeI)
qed

text \<open>
  Showing a page.
\<close>

lemma memcpy_all: "length m = length src \<Longrightarrow> memcpy m 0 src 0 (int (length src)) = Inr src"
  by (auto simp: memcpy_def get_at_def put_at_def mem_read_def mem_write_def)

lemma flush_shows:
  assumes wf: "disp_wf d" and vm: "map_of (g_ptVideoMemHead d) a = Some vm" "\<not> bDevFrameBuffer vm" "vm_typed d vm"
  shows "FlushVideoMemToDev a d = Inr (d\<lparr>fb_mem := Some (aucPixelDatas (tPixelDatas vm))\<rparr>)"
proof -
  obtain m df where m: "fb_mem d = Some m" "g_ptDefaultDispOpr d = Some df" "int (length m) = iYres (g_tFBOpr d) * iLineWidth (g_tFBOpr d)"
    using wf by (auto simp: disp_wf_def split: option.splits)
  have t: "iTotalBytes (tPixelDatas vm) = int (length (aucPixelDatas (tPixelDatas vm)))" "vm_pixels d vm = tPixelDatas vm"
    using vm(2,3) by (auto simp: vm_typed_def vm_pixels_def pix_wf_def)
  have "int (length m) = int (length (aucPixelDatas (tPixelDatas vm)))"
    using m(3) vm(2,3) wf by (simp add: vm_typed_def vm_pixels_def pix_wf_def disp_wf_def m(1))
  then have "memcpy m 0 (aucPixelDatas (tPixelDatas vm)) 0 (iTotalBytes (tPixelDatas vm)) = Inr (aucPixelDatas (tPixelDatas vm))"
    unfolding t by (intro memcpy_all) simp
  then show ?thesis using vm(1,2) m(1,2) t(2) by (simp add: FlushVideoMemToDev_def FBShowPage_def fb_store_def)
qed

definition merge_into :: "int \<Rightarrow> int \<Rightarrow> pixel_datas \<Rightarrow> pixel_datas \<Rightarrow> pixel_datas kres" where
  "merge_into iX iY pic p = kbind (PicMerge iX iY pic p) (\<lambda>(ret, p). Inr p)"

lemma map_of_vm_update:
  "map_of (g_ptVideoMemHead d) a = Some vm \<Longrightarrow> map_of (g_ptVideoMemHead (vm_update a f d)) a = Some (f vm)"
proof -
  have "map_of (List.map (\<lambda>(b, vm). (b, if b = a then f vm else vm)) xs) a = map_option f (map_of xs a)" for xs
    by (induction xs) auto
  then show "map_of (g_ptVideoMemHead d) a = Some vm \<Longrightarrow> ?thesis" by (simp add: vm_update_def)
qed

lemma cache_of_held:
  assumes inv: "pool_inv d H" and "a \<in> H"
  shows "\<exists>vm. map_of (g_ptVideoMemHead d) a = Some vm \<and> \<not> bDevFrameBuffer vm \<and> vm_typed d vm"
proof -
  obtain cs a1 fb where cs: "g_ptVideoMemHead d = cs @ [(a1, fb)]" "\<forall>c \<in> set cs. \<not> bDevFrameBuffer (snd c)" "H \<subseteq> fst ` set cs"
    "distinct (List.map fst (g_ptVideoMemHead d))" "\<forall>(a, vm) \<in> set (g_ptVideoMemHead d). vm_typed d vm"
    using inv by (rule pool_inv_unfold)
  then obtain vm where vm: "(a, vm) \<in> set cs" using assms(2) by force
  then have "(a, vm) \<in> set (g_ptVideoMemHead d)" using cs(1) by simp
  then have "map_of (g_ptVideoMemHead d) a = Some vm" "vm_typed d vm" using cs(4,5) by (simp_all add: map_of_is_SomeI) blast
  then show ?thesis using cs(2) vm by fastforce
qed

text \<open>
  C24: a picture that is merged into a cache and flushed appears on the screen: the pixels it covers
  show the picture, all others show what the cache held before.
\<close>

theorem page_shown:
  assumes "device_ok dev w h b" "malloc_ok malloc" "0 < n" "main_display dev malloc n display0 = Some (Inr (ret, d0))"
    and "pool_step\<^sup>*\<^sup>* (d0, {}) (d, H)" and a: "a \<in> H"
    and pic: "pix_wf pic" "iBpp pic = iBpp (screen d)" "0 \<le> iX" "0 < iWidth pic" "iX + iWidth pic \<le> iWidth (screen d)"
      "0 \<le> iY" "0 < iHeight pic" "iY + iHeight pic \<le> iHeight (screen d)"
  shows "\<exists>vm d1 d2. map_of (g_ptVideoMemHead d) a = Some vm \<and>
    vm_paint a (merge_into iX iY pic) d = Inr d1 \<and> FlushVideoMemToDev a d1 = Inr d2 \<and>
    (\<forall>x<nat (iWidth (screen d)). \<forall>y<nat (iHeight (screen d)). pixel (screen d2) x y =
       (if iX \<le> int x \<and> int x < iX + iWidth pic \<and> iY \<le> int y \<and> int y < iY + iHeight pic
        then pixel pic (x - nat iX) (y - nat iY) else pixel (tPixelDatas vm) x y))"
proof -
  have inv: "pool_inv d H" by (rule reachable_inv [OF assms(1-5)])
  obtain vm where vm: "map_of (g_ptVideoMemHead d) a = Some vm" "\<not> bDevFrameBuffer vm" "vm_typed d vm"
    using cache_of_held [OF inv a] by blast
  let ?p = "tPixelDatas vm"
  have p: "vm_pixels d vm = ?p" "pix_wf ?p" "iWidth ?p = iWidth (screen d)" "iHeight ?p = iHeight (screen d)" "iBpp ?p = iBpp (screen d)"
    using vm(2,3) by (auto simp: vm_typed_def vm_pixels_def screen_def)
  obtain m where q: "PicMerge iX iY pic ?p = Inr (0, ?p\<lparr>aucPixelDatas := m\<rparr>)" "pix_wf (?p\<lparr>aucPixelDatas := m\<rparr>)"
    "\<forall>x<nat (iWidth (screen d)). \<forall>y<nat (iHeight (screen d)). pixel (?p\<lparr>aucPixelDatas := m\<rparr>) x y =
       (if iX \<le> int x \<and> int x < iX + iWidth pic \<and> iY \<le> int y \<and> int y < iY + iHeight pic
        then pixel pic (x - nat iX) (y - nat iY) else pixel ?p x y)"
    using pic_merge_correct [OF pic(1) p(2), of iX iY] pic p(3-5) by auto
  let ?q = "?p\<lparr>aucPixelDatas := m\<rparr>"
  let ?d = "vm_update a (\<lambda>vm. vm\<lparr>tPixelDatas := ?q\<rparr>) d"
  have paint: "vm_paint a (merge_into iX iY pic) d = Inr ?d"
    using vm(1,2) q(1) p(1) by (simp add: vm_paint_def merge_into_def)
  have "vm_typed d (vm\<lparr>tPixelDatas := ?q\<rparr>)" using vm(2,3) q(2) by (simp add: vm_typed_def vm_pixels_def)
  then have "vm_typed ?d (vm\<lparr>tPixelDatas := ?q\<rparr>)" "disp_wf ?d"
    using inv by (simp_all add: vm_typed_update disp_wf_update pool_inv_def)
  then have flush: "FlushVideoMemToDev a ?d = Inr (?d\<lparr>fb_mem := Some m\<rparr>)"
    using flush_shows [OF _ map_of_vm_update [OF vm(1)]] vm(2) by simp
  have "pixel (screen (?d\<lparr>fb_mem := Some m\<rparr>)) = pixel ?q"
    using p(3-5) by (intro ext) (simp add: pixel_def screen_def vm_update_def)
  then show ?thesis using vm(1) paint flush q(3) by (intro exI [of _ vm] exI [of _ ?d] exI [of _ "?d\<lparr>fb_mem := Some m\<rparr>"]) simp
qed

text \<open>
  A screen of 2 by 1 pixels of 32 bits.
\<close>

definition small_device :: fb_device where
  "small_device = \<lparr>dev_open = 3, dev_vscreeninfo = (\<lambda>_. Some \<lparr>xres = 2, yres = 1, bits_per_pixel = 32\<rparr>), dev_fscreeninfo = (\<lambda>_. True),
     dev_mmap = (\<lambda>_ _. Some (replicate 8 0))\<rparr>"

definition blank_malloc :: "nat \<Rightarrow> int \<Rightarrow> u8 list option" where
  "blank_malloc k n = Some (replicate (nat n) 0)"

lemma small_device_ok: "device_ok small_device 2 1 4"
  by (simp add: device_ok_def small_device_def)

lemma blank_malloc_ok: "malloc_ok blank_malloc"
  by (simp add: malloc_ok_def blank_malloc_def)


theorem framebuffer_not_handed_out_witness:
  "\<exists>d d' a vm. main_display small_device blank_malloc 5 display0 = Some (Inr (0, d)) \<and> GetVideoMem 1 True d = Inr (Some a, d') \<and>
    map_of (g_ptVideoMemHead d) a = Some vm \<and> \<not> bDevFrameBuffer vm"
proof -
  obtain d where d: "main_display small_device blank_malloc 5 display0 = Some (Inr (0, d))" "pool_inv d {}"
    using main_display_ok [OF small_device_ok blank_malloc_ok, of 5] by auto
  obtain a d' where g: "GetVideoMem 1 True d = Inr (Some a, d')" using GetVideoMem_current [OF d(2)] by blast
  show ?thesis
    using framebuffer_not_handed_out [OF small_device_ok blank_malloc_ok _ d(1) rtranclp.rtrancl_refl g] d(1) g by auto
qed

definition dot :: pixel_datas where
  "dot = \<lparr>iWidth = 1, iHeight = 1, iBpp = 32, iLineBytes = 4, iTotalBytes = 4, aucPixelDatas = [1, 2, 3, 4]\<rparr>"

theorem page_shown_witness:
  "\<exists>d0 d a d1 d2. main_display small_device blank_malloc 5 display0 = Some (Inr (0, d0)) \<and> GetVideoMem 1 True d0 = Inr (Some a, d) \<and>
    vm_paint a (merge_into 1 0 dot) d = Inr d1 \<and> FlushVideoMemToDev a d1 = Inr d2 \<and> pixel (screen d2) 1 0 = [1, 2, 3, 4]"
proof -
  obtain d0 where d0: "main_display small_device blank_malloc 5 display0 = Some (Inr (0, d0))" "pool_inv d0 {}"
    "iWidth (screen d0) = 2" "iHeight (screen d0) = 1" "iBpp (screen d0) = 32"
    using main_display_ok [OF small_device_ok blank_malloc_ok, of 5] by auto
  obtain a d where d: "GetVideoMem 1 True d0 = Inr (Some a, d)" "screen d = screen d0" using GetVideoMem_current [OF d0(2)] by blast
  have step: "pool_step\<^sup>*\<^sup>* (d0, {}) (d, {a})" using pool_step.get [OF d(1), of "{}"] by blast
  have dot: "pix_wf dot" "iBpp dot = iBpp (screen d)" "0 < iWidth dot" "1 + iWidth dot \<le> iWidth (screen d)" "0 < iHeight dot"
    "0 + iHeight dot \<le> iHeight (screen d)"
    using d0 d(2) by (simp_all add: dot_def pix_wf_def)
  obtain d1 d2 where "vm_paint a (merge_into 1 0 dot) d = Inr d1" "FlushVideoMemToDev a d1 = Inr d2"
    "pixel (screen d2) 1 0 = pixel dot 0 0"
    using page_shown [OF small_device_ok blank_malloc_ok _ d0(1) step _ dot(1,2) _ dot(3,4) _ dot(5,6)] d(2) d0(3,4) by (auto simp: dot_def)
  then show ?thesis using d0(1) d(1) by (auto simp: dot_def pixel_def pix_def)
qed

end
