(* ===== verification/Color.thy ===== *)
theory Color
  imports Paint
begin

text \<open>
  Conversion between YUV and RGB colours by tables (video2lcd/Test/convert/color.c, color.h).  A
  table is a fault while its pointer is NULL or after it was freed.
\<close>

section \<open>Operations\<close>

text \<open>
  Division of an \<open>int\<close> by a positive number rounds towards zero.
\<close>

definition tdiv :: "int \<Rightarrow> int \<Rightarrow> int" where
  "tdiv a b = (if a < 0 then - (- a div b) else a div b)"

type_synonym lut = "int list kres"

record luts =
  LutYr :: lut
  LutYg :: lut
  LutYb :: lut
  LutVr :: lut
  LutVrY :: lut
  LutUb :: lut
  LutUbY :: lut
  LutRv :: lut
  LutGu :: lut
  LutGv :: lut
  LutBu :: lut

definition lut_at :: "lut \<Rightarrow> u8 \<Rightarrow> int kres" where
  "lut_at t i = kbind t (\<lambda>xs. if unat i < length xs then Inr (xs ! unat i) else Inl OutOfBounds)"

definition CLIP :: "int \<Rightarrow> u8" where
  "CLIP color = of_int (if color > 0xff then 0xff else if color < 0 then 0 else color)"

definition RGB24_TO_Y :: "luts \<Rightarrow> u8 \<Rightarrow> u8 \<Rightarrow> u8 \<Rightarrow> u8 kres" where
  "RGB24_TO_Y l r g b =
     kbind (lut_at (LutYr l) r) (\<lambda>yr. kbind (lut_at (LutYg l) g) (\<lambda>yg. kbind (lut_at (LutYb l) b) (\<lambda>yb. Inr (of_int (yr + yg + yb)))))"

definition YR_TO_V :: "luts \<Rightarrow> u8 \<Rightarrow> u8 \<Rightarrow> u8 kres" where
  "YR_TO_V l r y = kbind (lut_at (LutVr l) r) (\<lambda>vr. kbind (lut_at (LutVrY l) y) (\<lambda>vry. Inr (of_int (vr + vry))))"

definition YB_TO_U :: "luts \<Rightarrow> u8 \<Rightarrow> u8 \<Rightarrow> u8 kres" where
  "YB_TO_U l b y = kbind (lut_at (LutUb l) b) (\<lambda>ub. kbind (lut_at (LutUbY l) y) (\<lambda>uby. Inr (of_int (ub + uby))))"

definition R_FROMYV :: "luts \<Rightarrow> u8 \<Rightarrow> u8 \<Rightarrow> u8 kres" where
  "R_FROMYV l y v = kbind (lut_at (LutRv l) v) (\<lambda>rv. Inr (CLIP (uint y + rv)))"

definition G_FROMYUV :: "luts \<Rightarrow> u8 \<Rightarrow> u8 \<Rightarrow> u8 \<Rightarrow> u8 kres" where
  "G_FROMYUV l y u v = kbind (lut_at (LutGu l) u) (\<lambda>gu. kbind (lut_at (LutGv l) v) (\<lambda>gv. Inr (CLIP (uint y + gu + gv))))"

definition B_FROMYU :: "luts \<Rightarrow> u8 \<Rightarrow> u8 \<Rightarrow> u8 kres" where
  "B_FROMYU l y u = kbind (lut_at (LutBu l) u) (\<lambda>bu. Inr (CLIP (uint y + bu)))"

definition lut_of :: "(int \<Rightarrow> int) \<Rightarrow> lut" where
  "lut_of f = Inr (List.map f [0..255])"

definition null_luts :: luts where
  "null_luts = (let t = Inl NullDeref in \<lparr>LutYr = t, LutYg = t, LutYb = t, LutVr = t, LutVrY = t, LutUb = t, LutUbY = t,
     LutRv = t, LutGu = t, LutGv = t, LutBu = t\<rparr>)"

text \<open>
  \<open>mem k\<close> tells whether the \<open>k\<close>-th of the eleven allocations succeeds; the loop writes to every table.
\<close>

definition initLut :: "(nat \<Rightarrow> bool) \<Rightarrow> luts kres" where
  "initLut mem =
     (if \<not> list_all mem [0..<11] then Inl NullDeref
      else Inr \<lparr>LutYr = lut_of (\<lambda>i. tdiv (i * 299) 1000), LutYg = lut_of (\<lambda>i. tdiv (i * 587) 1000),
        LutYb = lut_of (\<lambda>i. tdiv (i * 114) 1000), LutVr = lut_of (\<lambda>i. tdiv (i * 711) 1000),
        LutVrY = lut_of (\<lambda>i. 128 - tdiv (i * 711) 1000), LutUb = lut_of (\<lambda>i. tdiv (i * 560) 1000),
        LutUbY = lut_of (\<lambda>i. 128 - tdiv (i * 560) 1000), LutRv = lut_of (\<lambda>i. tdiv ((i - 128) * 1402) 1000),
        LutGu = lut_of (\<lambda>i. tdiv ((128 - i) * 714) 1000), LutGv = lut_of (\<lambda>i. tdiv ((128 - i) * 344) 1000),
        LutBu = lut_of (\<lambda>i. tdiv ((i - 128) * 1772) 1000)\<rparr>)"

text \<open>
  The pointers keep their values.
\<close>

definition freeLut :: "luts \<Rightarrow> luts" where
  "freeLut l = (let t = Inl UseAfterFree in \<lparr>LutYr = t, LutYg = t, LutYb = t, LutVr = t, LutVrY = t, LutUb = t, LutUbY = t,
     LutRv = t, LutGu = t, LutGv = t, LutBu = t\<rparr>)"

section \<open>What the tables compute\<close>

lemma lut_at_of [simp]: "lut_at (lut_of f) i = Inr (f (uint i))"
proof -
  have lt: "unat i < 256" using unsigned_less [of i] by simp
  then have "[0..255] ! unat i = 0 + int (unat i)" by (intro nth_upto) linarith
  then show ?thesis using lt by (simp add: lut_at_def lut_of_def del: upto_rec_numeral)
qed

text \<open>
  The colour of a pixel with luminance \<open>y\<close> and chrominance \<open>u\<close>, \<open>v\<close> that the code computes, without
  tables.
\<close>

definition yuv_red :: "int \<Rightarrow> int \<Rightarrow> u8" where
  "yuv_red y v = CLIP (y + tdiv ((v - 128) * 1402) 1000)"

definition yuv_green :: "int \<Rightarrow> int \<Rightarrow> int \<Rightarrow> u8" where
  "yuv_green y u v = CLIP (y + tdiv ((128 - u) * 714) 1000 + tdiv ((128 - v) * 344) 1000)"

definition yuv_blue :: "int \<Rightarrow> int \<Rightarrow> u8" where
  "yuv_blue y u = CLIP (y + tdiv ((u - 128) * 1772) 1000)"

lemma lut_colors:
  assumes "initLut mem = Inr l"
  shows "R_FROMYV l y v = Inr (yuv_red (uint y) (uint v))" "G_FROMYUV l y u v = Inr (yuv_green (uint y) (uint u) (uint v))"
    "B_FROMYU l y u = Inr (yuv_blue (uint y) (uint u))"
  using assms
  by (auto simp: initLut_def R_FROMYV_def G_FROMYUV_def B_FROMYU_def yuv_red_def yuv_green_def yuv_blue_def split: if_splits)

lemma uint_byte: "0 \<le> uint w \<and> uint w \<le> 255" for w :: u8
proof -
  have "uint w = int (unat w)" "unat w < 256" using unsigned_less [of w] by simp_all
  then show ?thesis by linarith
qed

lemma tdiv_near: "0 < b \<Longrightarrow> \<bar>b * tdiv a b - a\<bar> < b"
proof -
  assume b: "0 < b"
  have "b * (x div b) = x - x mod b" "0 \<le> x mod b" "x mod b < b" for x using b by (simp_all add: minus_mod_eq_mult_div)
  from this [of a] this [of "- a"] show ?thesis by (auto simp: tdiv_def)
qed

lemma tdiv_range: "0 < b \<Longrightarrow> 0 \<le> a \<Longrightarrow> a \<le> c \<Longrightarrow> 0 \<le> tdiv a b \<and> tdiv a b \<le> c div b"
  by (simp add: tdiv_def pos_imp_zdiv_nonneg_iff zdiv_mono1)

lemma uint_CLIP: "uint (CLIP c) = (if c > 255 then 255 else if c < 0 then 0 else c)"
  by (auto simp: CLIP_def unsigned_of_int take_bit_int_eq_self)

text \<open>
  Clipping brings a value no further from a number in the range of a byte.
\<close>

lemma CLIP_near:
  assumes "\<bar>1000 * c - x\<bar> < e" "0 \<le> x" "x \<le> 255000"
  shows "\<bar>1000 * uint (CLIP c) - x\<bar> < e"
  using assms by (auto simp: uint_CLIP)

text \<open>
  Red and blue are within one unit of the colours of the JFIF standard, whenever these are in range:
  \<open>Y + 1.402 (V - 128)\<close> and \<open>Y + 1.772 (U - 128)\<close>.
\<close>

lemma yuv_red_blue_accurate:
  "0 \<le> x \<Longrightarrow> x \<le> 255000 \<Longrightarrow> x = 1000 * y + 1402 * (v - 128) \<Longrightarrow> \<bar>1000 * uint (yuv_red y v) - x\<bar> < 1000"
  "0 \<le> z \<Longrightarrow> z \<le> 255000 \<Longrightarrow> z = 1000 * y + 1772 * (u - 128) \<Longrightarrow> \<bar>1000 * uint (yuv_blue y u) - z\<bar> < 1000"
  using tdiv_near [of 1000 "(v - 128) * 1402"] tdiv_near [of 1000 "(u - 128) * 1772"]
  unfolding yuv_red_def yuv_blue_def by (intro CLIP_near; simp)+

text \<open>
  Green has the weights of \<open>U\<close> and \<open>V\<close> exchanged: the code computes \<open>Y - 0.714 (U - 128) - 0.344 (V - 128)\<close>
  to within two units.
\<close>

lemma yuv_green_value:
  "0 \<le> x \<Longrightarrow> x \<le> 255000 \<Longrightarrow> x = 1000 * y - 714 * (u - 128) - 344 * (v - 128) \<Longrightarrow> \<bar>1000 * uint (yuv_green y u v) - x\<bar> < 2000"
  using tdiv_near [of 1000 "(128 - u) * 714"] tdiv_near [of 1000 "(128 - v) * 344"]
  unfolding yuv_green_def by (intro CLIP_near) simp_all

text \<open>
  The luminance of a colour fits a byte, so nothing is lost in the conversion of the sum.
\<close>

lemma RGB24_TO_Y_value:
  assumes "initLut mem = Inr l"
  shows "\<exists>y. RGB24_TO_Y l r g b = Inr y \<and>
    uint y = tdiv (uint r * 299) 1000 + tdiv (uint g * 587) 1000 + tdiv (uint b * 114) 1000"
proof -
  have weights: "0 \<le> tdiv (x * 299) 1000 \<and> tdiv (x * 299) 1000 \<le> 77" "0 \<le> tdiv (x * 587) 1000 \<and> tdiv (x * 587) 1000 \<le> 149"
    "0 \<le> tdiv (x * 114) 1000 \<and> tdiv (x * 114) 1000 \<le> 29" if "0 \<le> x \<and> x \<le> 255" for x
    using that tdiv_range [of 1000 "x * 299" 76245] tdiv_range [of 1000 "x * 587" 149685] tdiv_range [of 1000 "x * 114" 29070] by simp_all
  have t: "0 \<le> tdiv (uint r * 299) 1000 \<and> tdiv (uint r * 299) 1000 \<le> 77" "0 \<le> tdiv (uint g * 587) 1000 \<and> tdiv (uint g * 587) 1000 \<le> 149"
    "0 \<le> tdiv (uint b * 114) 1000 \<and> tdiv (uint b * 114) 1000 \<le> 29"
    using weights [OF uint_byte] by blast+
  then have "uint (of_int (tdiv (uint r * 299) 1000 + tdiv (uint g * 587) 1000 + tdiv (uint b * 114) 1000) :: u8) =
      tdiv (uint r * 299) 1000 + tdiv (uint g * 587) 1000 + tdiv (uint b * 114) 1000"
    by (simp only: unsigned_of_int) (simp add: take_bit_int_eq_self)
  then show ?thesis using assms by (auto simp: initLut_def RGB24_TO_Y_def split: if_splits)
qed

lemma freed_tables: "R_FROMYV (freeLut l) y v = Inl UseAfterFree" "R_FROMYV null_luts y v = Inl NullDeref"
  by (simp_all add: R_FROMYV_def freeLut_def null_luts_def lut_at_def Let_def)

end
