(* ===== verification/Jpeg.thy ===== *)
theory Jpeg
  imports Picture_Files
begin

text \<open>
  The parser of JPEG pictures (video2lcd/1_th/render/format/jpg.c).  libjpeg is an argument: whether
  the header can be read, and the image that decompression delivers line by line; \<open>None\<close> is a call
  that ends in \<open>error_exit\<close>, from which the parser returns with \<open>longjmp\<close>.
\<close>

section \<open>Operations\<close>

record jpeg_image =
  output_width :: u32
  output_height :: u32
  output_components :: u32
  scanline :: "nat \<Rightarrow> u8 list option"
  finish :: bool

record jpeg_lib =
  read_header :: "u8 list \<Rightarrow> bool"
  start_decompress :: "u8 list \<Rightarrow> jpeg_image option"

definition isJPGFormat :: "jpeg_lib \<Rightarrow> u8 list \<Rightarrow> int kres" where
  "isJPGFormat lib f = Inr (if read_header lib f then 1 else 0)"

definition rgb_order :: "u8 list \<Rightarrow> u8 \<times> u8 \<times> u8" where
  "rgb_order bs = (bs ! 0, bs ! 1, bs ! 2)"

definition CovertOneLine_JPG :: "int \<Rightarrow> int \<Rightarrow> int \<Rightarrow> u8 list \<Rightarrow> u8 list \<Rightarrow> int \<Rightarrow> (int \<times> u8 list) kres" where
  "CovertOneLine_JPG w iSrcBpp iDstBpp src dst doff =
     (if iSrcBpp \<noteq> 24 then Inr (- 1, dst)
      else kbind (line_to_display rgb_order w iDstBpp src 0 dst doff) (\<lambda>m. Inr (0, m)))"

text \<open>
  The loop over the lines: each is read into the line buffer and converted to the picture.  The
  flag tells whether the loop ran to its end.
\<close>

fun read_lines :: "(nat \<Rightarrow> u8 list option) \<Rightarrow> nat list \<Rightarrow> pixel_datas \<Rightarrow> u8 list \<Rightarrow> u8 list \<Rightarrow> (bool \<times> u8 list) kres" where
  "read_lines sc [] p aucLineBuffer m = Inr (True, m)"
| "read_lines sc (y # ys) p aucLineBuffer m =
     (case sc y of
        None \<Rightarrow> Inr (False, m)
      | Some l \<Rightarrow> kbind (put_at aucLineBuffer 0 l) (\<lambda>aucLineBuffer.
          kbind (CovertOneLine_JPG (iWidth p) 24 (iBpp p) aucLineBuffer m (int y * iLineBytes p)) (\<lambda>(ret, m).
            read_lines sc ys p aucLineBuffer m)))"

text \<open>
  The size of the picture, which the decompressor determines.
\<close>

definition jpeg_size :: "jpeg_image \<Rightarrow> pixel_datas \<Rightarrow> pixel_datas" where
  "jpeg_size img p =
     (let line = div8 (sint (output_width img) * iBpp p) in
      p\<lparr>iWidth := sint (output_width img), iHeight := sint (output_height img), iLineBytes := line,
        iTotalBytes := sint (output_height img) * line\<rparr>)"

text \<open>
  \<open>malloc 0\<close> is the allocation of the line buffer, \<open>malloc 1\<close> that of the picture.  After an error the
  memory the picture points to is freed, so none of it can be accessed.
\<close>

definition GetPixelDatasFrmJPG :: "jpeg_lib \<Rightarrow> (nat \<Rightarrow> int \<Rightarrow> u8 list option) \<Rightarrow> u8 list \<Rightarrow> pixel_datas \<Rightarrow> (int \<times> pixel_datas) kres" where
  "GetPixelDatasFrmJPG lib malloc f p =
     (let error = (\<lambda>p. (- 1, p\<lparr>aucPixelDatas := []\<rparr>)) in
      if \<not> read_header lib f then Inr (error p)
      else case start_decompress lib f of
        None \<Rightarrow> Inr (error p)
      | Some img \<Rightarrow>
          case malloc 0 (sint (output_width img * output_components img)) of
            None \<Rightarrow> Inr (- 1, p)
          | Some aucLineBuffer \<Rightarrow>
              let p = jpeg_size img p in
              case malloc 1 (iTotalBytes p) of
                None \<Rightarrow> Inr (- 1, p\<lparr>aucPixelDatas := []\<rparr>)
              | Some m \<Rightarrow>
                  kbind (read_lines (scanline img) [0..<unat (output_height img)] p aucLineBuffer m) (\<lambda>(done, m).
                    Inr (if done \<and> finish img then (0, p\<lparr>aucPixelDatas := m\<rparr>) else error p)))"

definition FreePixelDatasForJPG :: "pixel_datas \<Rightarrow> int \<times> pixel_datas" where
  "FreePixelDatasForJPG p = (0, p\<lparr>aucPixelDatas := []\<rparr>)"

definition g_tJPGParser_opr :: "jpeg_lib \<Rightarrow> (nat \<Rightarrow> int \<Rightarrow> u8 list option) \<Rightarrow> parser" where
  "g_tJPGParser_opr lib malloc =
     \<lparr>parser_name = ''jpg'', isSupport = isJPGFormat lib, GetPixelDatas = GetPixelDatasFrmJPG lib malloc\<rparr>"

section \<open>Decoding\<close>

text \<open>
  What libjpeg documents of the lines: each has a byte per column and component.
\<close>

definition lines_ok :: "jpeg_image \<Rightarrow> nat \<Rightarrow> nat \<Rightarrow> nat \<Rightarrow> bool" where
  "lines_ok img w h c \<longleftrightarrow> unat (output_width img) = w \<and> unat (output_height img) = h \<and> unat (output_components img) = c \<and>
     w * c < 2 ^ 31 \<and> w < 2 ^ 31 \<and> h < 2 ^ 31 \<and> (\<forall>y<h. \<exists>l. scanline img y = Some l \<and> length l = w * c)"

definition alloc_ok :: "(nat \<Rightarrow> int \<Rightarrow> u8 list option) \<Rightarrow> bool" where
  "alloc_ok malloc \<longleftrightarrow> (\<forall>k n. 0 \<le> n \<longrightarrow> (\<exists>m. malloc k n = Some m \<and> int (length m) = n))"

lemma alloc_okD: "alloc_ok malloc \<Longrightarrow> \<exists>m. malloc k (int n) = Some m \<and> length m = n"
  unfolding alloc_ok_def by (drule spec [of _ k], drule spec [of _ "int n"]) auto

text \<open>
  A full line replaces the whole buffer.
\<close>

lemma put_at_whole: "length l = length buf \<Longrightarrow> put_at buf 0 l = Inr l"
  by (simp add: put_at_def mem_write_def)

lemma read_lines_each:
  assumes "length buf = n" "\<And>y. y \<in> set ys \<Longrightarrow> \<exists>l. sc y = Some l \<and> length l = n"
  shows "read_lines sc ys p buf m =
    kbind (for_each ys (\<lambda>y m. kbind (CovertOneLine_JPG (iWidth p) 24 (iBpp p) (the (sc y)) m (int y * iLineBytes p)) (\<lambda>(ret, m). Inr m)) m)
      (\<lambda>m. Inr (True, m))"
  using assms
proof (induction ys arbitrary: buf m)
  case (Cons y ys)
  obtain l where l: "sc y = Some l" "length l = n" using Cons.prems(2) [of y] by auto
  have IH: "read_lines sc ys p l m = kbind (for_each ys (\<lambda>y m. kbind (CovertOneLine_JPG (iWidth p) 24 (iBpp p) (the (sc y)) m
      (int y * iLineBytes p)) (\<lambda>(ret, m). Inr m)) m) (\<lambda>m. Inr (True, m))" for m
    by (rule Cons.IH) (use l Cons.prems(2) in auto)
  have "put_at buf 0 l = Inr l" using l Cons.prems(1) by (simp add: put_at_whole)
  then show ?case using l by (simp add: IH kbind_assoc case_prod_beta cong: kbind_cong)
qed simp

lemma lines_ok_sint:
  assumes "lines_ok img w h c"
  shows "sint (output_width img) = int w" "sint (output_height img) = int h" "sint (output_width img * output_components img) = int (w * c)"
proof -
  show "sint (output_width img) = int w" "sint (output_height img) = int h"
    using assms by (auto simp: lines_ok_def intro!: sint_small [THEN trans])
  have "unat (output_width img * output_components img) = w * c"
    using assms unfolding lines_ok_def by (subst unat_mult_lem [THEN iffD1]) auto
  then show "sint (output_width img * output_components img) = int (w * c)"
    using assms by (subst sint_small) (auto simp: lines_ok_def)
qed

lemma jpeg_read:
  assumes img: "lines_ok img w h c" and src: "c = 3"
    and p: "iWidth p = int w" "iBpp p = 8 * int b" "iLineBytes p = int (w * b)" "b \<in> {2, 3, 4}"
    and len: "length m = h * (w * b)" "length buf = w * c"
  shows "\<exists>m'. read_lines (scanline img) [0..<h] p buf m = Inr (True, m') \<and> length m' = length m \<and>
    (\<forall>x<w. \<forall>y<h. pix b w m' x y = display_pixel rgb_order (8 * int b) (take 3 (drop (3 * x) (the (scanline img y)))))"
proof -
  let ?f = "\<lambda>y m. kbind (CovertOneLine_JPG (iWidth p) 24 (iBpp p) (the (scanline img y)) m (int y * iLineBytes p)) (\<lambda>(ret, m). Inr m)"
  have line: "\<exists>l. scanline img y = Some l \<and> length l = w * c" if "y < h" for y using img that by (simp add: lines_ok_def)
  have "\<exists>m'. for_each [0..<h] ?f m = Inr m' \<and> length m' = length m \<and>
    (\<forall>x<w. \<forall>y<h. pix b w m' x y = display_pixel rgb_order (8 * int b) (take 3 (drop (3 * x) (the (scanline img y)))))"
  proof (rule paint_lines [OF len(1)])
    fix y and m :: "u8 list" assume y: "y < h" and m: "length m = h * (w * b)"
    have "0 + 3 * w \<le> length (the (scanline img y))" using line [OF y] src by auto
    from line_pixels [OF m y this p(4), of rgb_order]
    show "\<exists>m'. ?f y m = Inr m' \<and> length m' = length m \<and> (\<forall>x'<w. \<forall>y'<h. pix b w m' x' y' =
        (if y' = y then display_pixel rgb_order (8 * int b) (take 3 (drop (3 * x') (the (scanline img y)))) else pix b w m x' y'))"
      by (elim exE conjE) (simp add: CovertOneLine_JPG_def p)
  qed
  moreover have "read_lines (scanline img) [0..<h] p buf m = kbind (for_each [0..<h] ?f m) (\<lambda>m. Inr (True, m))"
    by (rule read_lines_each [OF len(2)]) (use line in auto)
  ultimately show ?thesis by auto
qed

lemma jpeg_size_nat:
  assumes "lines_ok img w h c" "iBpp p = 8 * int b"
  shows "jpeg_size img p = p\<lparr>iWidth := int w, iHeight := int h, iLineBytes := int (w * b), iTotalBytes := int (h * (w * b))\<rparr>"
proof -
  have "div8 (int w * (8 * int b)) = int (w * b)" using div8_mult [of "int w" "int b"] by simp
  then show ?thesis using assms lines_ok_sint [OF assms(1)] by (simp add: jpeg_size_def Let_def)
qed

text \<open>
  The parser on a decodable picture, up to the loop over the lines.
\<close>

lemma GetPixelDatasFrmJPG_lines:
  assumes "read_header lib f" "start_decompress lib f = Some img" "lines_ok img w h c" "alloc_ok malloc" "iBpp p = 8 * int b"
  obtains buf m where "length buf = w * c" "length m = h * (w * b)"
    "GetPixelDatasFrmJPG lib malloc f p = kbind (read_lines (scanline img) [0..<h] (jpeg_size img p) buf m) (\<lambda>(done, m).
       Inr (if done \<and> finish img then (0, (jpeg_size img p)\<lparr>aucPixelDatas := m\<rparr>) else (- 1, (jpeg_size img p)\<lparr>aucPixelDatas := []\<rparr>)))"
proof -
  obtain buf where buf: "malloc 0 (int (w * c)) = Some buf" "length buf = w * c" using alloc_okD [OF assms(4)] by blast
  obtain m where m: "malloc 1 (int (h * (w * b))) = Some m" "length m = h * (w * b)" using alloc_okD [OF assms(4)] by blast
  have "iTotalBytes (jpeg_size img p) = int (h * (w * b))" using jpeg_size_nat [OF assms(3,5)] by simp
  moreover have "unat (output_height img) = h" using assms(3) by (simp add: lines_ok_def)
  ultimately show ?thesis
    using that [OF buf(2) m(2)] assms(1,2) buf(1) m(1) lines_ok_sint(3) [OF assms(3)]
    by (simp add: GetPixelDatasFrmJPG_def Let_def del: of_nat_mult)
qed

text \<open>
  A colour picture is decoded to a well-formed picture of its size in the depth of the display.
\<close>

lemma jpg_decodes:
  assumes jpg: "read_header lib f" "start_decompress lib f = Some img" "lines_ok img w h 3" "finish img"
    and malloc: "alloc_ok malloc" and bpp: "iBpp p = 8 * int b" "b \<in> {2, 3, 4}"
  shows "\<exists>q. GetPixelDatasFrmJPG lib malloc f p = Inr (0, q) \<and> pix_wf q \<and> iWidth q = int w \<and> iHeight q = int h \<and> iBpp q = iBpp p \<and>
    (\<forall>x<w. \<forall>y<h. pixel q x y = display_pixel rgb_order (iBpp p) (take 3 (drop (3 * x) (the (scanline img y)))))"
proof -
  obtain buf m where m: "length buf = w * 3" "length m = h * (w * b)"
    "GetPixelDatasFrmJPG lib malloc f p = kbind (read_lines (scanline img) [0..<h] (jpeg_size img p) buf m) (\<lambda>(done, m).
       Inr (if done \<and> finish img then (0, (jpeg_size img p)\<lparr>aucPixelDatas := m\<rparr>) else (- 1, (jpeg_size img p)\<lparr>aucPixelDatas := []\<rparr>)))"
    by (rule GetPixelDatasFrmJPG_lines [OF jpg(1-3) malloc bpp(1)])
  let ?p = "jpeg_size img p"
  note p = jpeg_size_nat [OF jpg(3) bpp(1)]
  obtain m' where m': "read_lines (scanline img) [0..<h] ?p buf m = Inr (True, m')" "length m' = length m"
    "\<forall>x<w. \<forall>y<h. pix b w m' x y = display_pixel rgb_order (8 * int b) (take 3 (drop (3 * x) (the (scanline img y))))"
    using jpeg_read [OF jpg(3) refl, of ?p b m buf] p bpp m(1,2) by auto
  let ?q = "?p\<lparr>aucPixelDatas := m'\<rparr>"
  have "GetPixelDatasFrmJPG lib malloc f p = Inr (0, ?q)" using m(3) m'(1) jpg(4) by simp
  moreover have "pix_wf ?q" using p bpp m(2) m'(2) by (auto simp: pix_wf_def)
  moreover have "pixel ?q = pix b w m'" using p bpp(1) by (intro ext) (simp add: pixel_def)
  ultimately show ?thesis using m'(3) p bpp(1) by (intro exI [of _ ?q]) simp
qed

lemma line_short:
  assumes "int (length src) < 3 * w" "0 < w"
  shows "line_to_display col w bpp src 0 dst doff = Inl OutOfBounds"
proof (cases "bpp = 24")
  case True
  have "get_at src 0 (nat (w * 3)) = Inl OutOfBounds" using assms by (simp add: get_at_def mem_read_def)
  then show ?thesis using True assms(2) by (simp add: line_to_display_def memcpy_def)
next
  case False
  let ?f = "\<lambda>i m. kbind (get_at src (0 + 3 * i) 3) (\<lambda>bs. let (dwRed, dwGreen, dwBlue) = col bs in
      if bpp = 32 then put_at m (doff + 4 * i) (put_le32 (rgb dwRed dwGreen dwBlue))
      else if bpp = 16 then put_at m (doff + 2 * i) (put_le16 (ucast
        ((push_bit 11 (drop_bit 3 (ucast dwRed :: u32)) OR push_bit 5 (drop_bit 2 (ucast dwGreen :: u32))) OR
          drop_bit 3 (ucast dwBlue :: u32)))) else Inr m)"
  have oob: "e = OutOfBounds" if "?f i m = Inl e" for i m e
    using that by (auto simp: get_at_def put_at_def mem_read_def mem_write_def kbind_Inl_iff split: if_splits prod.splits)
  have "get_at src (3 * (w - 1)) 3 = Inl OutOfBounds" using assms by (auto simp: get_at_def mem_read_def)
  then have last: "?f (w - 1) m = Inl OutOfBounds" for m by simp
  have mem: "w - 1 \<in> set [0..w - 1]" using assms(2) by simp
  have "for_each [0..w - 1] ?f dst = Inl OutOfBounds"
    by (rule for_each_fault [where I = "\<lambda>_. True" and f = ?f], rule TrueI, erule oob, rule mem, rule last, rule TrueI)
  then show ?thesis using False by (simp add: line_to_display_def)
qed

text \<open>
  A greyscale JPEG has one byte per pixel, so the line buffer is a third of what the
  conversion of a line reads: the parser reads past its end.
\<close>

lemma jpg_greyscale_overread:
  assumes jpg: "read_header lib f" "start_decompress lib f = Some img" "lines_ok img w h 1" "0 < w" "0 < h"
    and malloc: "alloc_ok malloc" and bpp: "iBpp p = 8 * int b"
  shows "isJPGFormat lib f = Inr 1 \<and> GetPixelDatasFrmJPG lib malloc f p = Inl OutOfBounds"
proof -
  obtain buf m where m: "length buf = w * 1" "length m = h * (w * b)"
    "GetPixelDatasFrmJPG lib malloc f p = kbind (read_lines (scanline img) [0..<h] (jpeg_size img p) buf m) (\<lambda>(done, m).
       Inr (if done \<and> finish img then (0, (jpeg_size img p)\<lparr>aucPixelDatas := m\<rparr>) else (- 1, (jpeg_size img p)\<lparr>aucPixelDatas := []\<rparr>)))"
    by (rule GetPixelDatasFrmJPG_lines [OF jpg(1-3) malloc bpp])
  obtain l where l: "scanline img 0 = Some l" "length l = w" using jpg(3,5) by (auto simp: lines_ok_def)
  have "CovertOneLine_JPG (iWidth (jpeg_size img p)) 24 (iBpp p) l m 0 = Inl OutOfBounds"
    using line_short [of l "int w"] l(2) jpg(4) jpeg_size_nat [OF jpg(3) bpp] by (simp add: CovertOneLine_JPG_def)
  then have "read_lines (scanline img) [0..<h] (jpeg_size img p) buf m = Inl OutOfBounds"
    using l m(1) jpg(5) jpeg_size_nat [OF jpg(3) bpp] by (simp add: upt_conv_Cons put_at_whole)
  then show ?thesis using m(3) jpg(1) by (simp add: isJPGFormat_def)
qed

end
