(* ===== verification/Video_Convert.thy ===== *)
theory Video_Convert
  imports Color Jpeg V4l2_Types
begin

text \<open>
  The format conversions of the camera application (video2lcd/Test/convert): YUYV, MJPEG and RGB565
  frames to the format of the display, and the list from which \<open>main\<close> takes the conversion.  libjpeg
  and the allocator are arguments: \<open>malloc k n\<close> is the memory of the \<open>k\<close>-th kind of allocation, 0 for
  the line buffer of the JPEG decoder and 1 for a converted frame.
\<close>

section \<open>Video buffers\<close>

text \<open>
  \<open>vbuf_ptr\<close> is the state of the pointer to the pixels; no byte can be accessed through NULL.
\<close>

datatype heap_ptr = PNull | PBlock | PFreed

record video_buf =
  vbuf_pix :: pixel_datas
  vbuf_ptr :: heap_ptr
  iPixelFormat :: u32

definition zero_pix :: pixel_datas where
  "zero_pix = \<lparr>iWidth = 0, iHeight = 0, iBpp = 0, iLineBytes = 0, iTotalBytes = 0, aucPixelDatas = []\<rparr>"

definition zero_buf :: video_buf where
  "zero_buf = \<lparr>vbuf_pix = zero_pix, vbuf_ptr = PNull, iPixelFormat = 0\<rparr>"

definition vbuf_mem :: "video_buf \<Rightarrow> u8 list kres" where
  "vbuf_mem b = (case vbuf_ptr b of PNull \<Rightarrow> Inr [] | PBlock \<Rightarrow> Inr (aucPixelDatas (vbuf_pix b)) | PFreed \<Rightarrow> Inl UseAfterFree)"

definition vbuf_store :: "u8 list \<Rightarrow> video_buf \<Rightarrow> video_buf" where
  "vbuf_store m b = b\<lparr>vbuf_pix := (vbuf_pix b)\<lparr>aucPixelDatas := m\<rparr>\<rparr>"

text \<open>
  Allocation of the pixels of a buffer that has none, and \<open>free\<close>, which leaves the pointer as it is.
\<close>

definition vbuf_alloc :: "(nat \<Rightarrow> int \<Rightarrow> u8 list option) \<Rightarrow> nat \<Rightarrow> video_buf \<Rightarrow> video_buf" where
  "vbuf_alloc malloc k b =
     (if vbuf_ptr b \<noteq> PNull then b
      else case malloc k (iTotalBytes (vbuf_pix b)) of None \<Rightarrow> b | Some m \<Rightarrow> (vbuf_store m b)\<lparr>vbuf_ptr := PBlock\<rparr>)"

definition vbuf_free :: "video_buf \<Rightarrow> video_buf" where
  "vbuf_free b = (if vbuf_ptr b = PNull then b else (vbuf_store [] b)\<lparr>vbuf_ptr := PFreed\<rparr>)"

definition vbuf_exit :: "video_buf \<Rightarrow> (int \<times> video_buf) kres" where
  "vbuf_exit b =
     (if vbuf_ptr b = PFreed then Inl UseAfterFree
      else Inr (0, if vbuf_ptr b = PNull then b else (vbuf_store [] b)\<lparr>vbuf_ptr := PNull\<rparr>))"

definition set_depth :: "int \<Rightarrow> video_buf \<Rightarrow> video_buf" where
  "set_depth bpp b =
     (let p = vbuf_pix b; line = div8 (iWidth p * bpp)
      in b\<lparr>vbuf_pix := p\<lparr>iBpp := bpp, iLineBytes := line, iTotalBytes := line * iHeight p\<rparr>\<rparr>)"

definition same_size :: "video_buf \<Rightarrow> video_buf \<Rightarrow> video_buf" where
  "same_size bin out = out\<lparr>vbuf_pix := (vbuf_pix out)\<lparr>iWidth := iWidth (vbuf_pix bin), iHeight := iHeight (vbuf_pix bin)\<rparr>\<rparr>"

section \<open>YUYV\<close>

definition isSupportYuv2Rgb :: "u32 \<Rightarrow> u32 \<Rightarrow> bool" where
  "isSupportYuv2Rgb iPixelFormatIn iPixelFormatOut \<longleftrightarrow>
     iPixelFormatIn = V4L2_PIX_FMT_YUYV \<and> (iPixelFormatOut = V4L2_PIX_FMT_RGB565 \<or> iPixelFormatOut = V4L2_PIX_FMT_RGB32)"

definition yuv_rgb :: "luts \<Rightarrow> u8 \<Rightarrow> u8 \<Rightarrow> u8 \<Rightarrow> (u32 \<times> u32 \<times> u32) kres" where
  "yuv_rgb l Y U V =
     kbind (R_FROMYV l Y V) (\<lambda>r. kbind (G_FROMYUV l Y U V) (\<lambda>g. kbind (B_FROMYU l Y U) (\<lambda>b. Inr (ucast r, ucast g, ucast b))))"

definition yuv_565 :: "luts \<Rightarrow> u8 \<Rightarrow> u8 \<Rightarrow> u8 \<Rightarrow> u8 list kres" where
  "yuv_565 l Y U V = kbind (yuv_rgb l Y U V) (\<lambda>(r, g, b).
     let color = (push_bit 11 (drop_bit 3 r) OR push_bit 5 (drop_bit 2 g)) OR drop_bit 3 b
     in Inr [ucast (color AND 0xff), ucast (drop_bit 8 color AND 0xff)])"

definition yuv_888 :: "luts \<Rightarrow> u8 \<Rightarrow> u8 \<Rightarrow> u8 \<Rightarrow> u8 list kres" where
  "yuv_888 l Y U V = kbind (yuv_rgb l Y U V) (\<lambda>(r, g, b). Inr (put_le32 ((push_bit 16 r OR push_bit 8 g) OR b)))"

text \<open>
  The loop over the four-byte groups Y U Y1 V, each of which gives two pixels of \<open>n\<close> bytes.
\<close>

definition yuv_loop :: "(u8 \<Rightarrow> u8 \<Rightarrow> u8 \<Rightarrow> u8 list kres) \<Rightarrow> nat \<Rightarrow> u8 list \<Rightarrow> u8 list \<Rightarrow> u32 \<Rightarrow> u32 \<Rightarrow> u8 list kres" where
  "yuv_loop px n buff out image_width image_height =
     for_each [0..<unat (image_width * image_height div 2)] (\<lambda>i m.
       kbind (get_at buff (int (4 * i)) 4) (\<lambda>q.
       kbind (px (q ! 0) (q ! 1) (q ! 3)) (\<lambda>p.
       kbind (put_at m (int (2 * i * n)) p) (\<lambda>m.
       kbind (px (q ! 2) (q ! 1) (q ! 3)) (put_at m (int ((2 * i + 1) * n))))))) out"

definition Pyuv422torgb565 :: "luts \<Rightarrow> u8 list \<Rightarrow> u8 list \<Rightarrow> u32 \<Rightarrow> u32 \<Rightarrow> u8 list kres" where
  "Pyuv422torgb565 l = yuv_loop (yuv_565 l) 2"

definition Pyuv422torgb32 :: "luts \<Rightarrow> u8 list \<Rightarrow> u8 list \<Rightarrow> u32 \<Rightarrow> u32 \<Rightarrow> u8 list kres" where
  "Pyuv422torgb32 l = yuv_loop (yuv_888 l) 4"

definition Yuv2RgbConvert ::
    "luts \<Rightarrow> (nat \<Rightarrow> int \<Rightarrow> u8 list option) \<Rightarrow> video_buf \<Rightarrow> video_buf \<Rightarrow> (int \<times> video_buf) kres" where
  "Yuv2RgbConvert l malloc bin out =
     (let out = same_size bin out;
          convert = (\<lambda>bpp f.
            let out = vbuf_alloc malloc 1 (set_depth bpp out) in
            kbind (vbuf_mem bin) (\<lambda>src. kbind (vbuf_mem out) (\<lambda>dst.
            kbind (f src dst (of_int (iWidth (vbuf_pix out))) (of_int (iHeight (vbuf_pix out)))) (\<lambda>m. Inr (0, vbuf_store m out)))))
      in if iPixelFormat out = V4L2_PIX_FMT_RGB565 then convert 16 (Pyuv422torgb565 l)
         else if iPixelFormat out = V4L2_PIX_FMT_RGB32 then convert 32 (Pyuv422torgb32 l)
         else Inr (0, out))"

definition Yuv2RgbConvertExit :: "video_buf \<Rightarrow> (int \<times> video_buf) kres" where
  "Yuv2RgbConvertExit b = vbuf_exit b"

section \<open>RGB565\<close>

definition isSupportRgb2Rgb :: "u32 \<Rightarrow> u32 \<Rightarrow> bool" where
  "isSupportRgb2Rgb iPixelFormatIn iPixelFormatOut \<longleftrightarrow>
     iPixelFormatIn = V4L2_PIX_FMT_RGB565 \<and> (iPixelFormatOut = V4L2_PIX_FMT_RGB565 \<or> iPixelFormatOut = V4L2_PIX_FMT_RGB32)"

definition rgb565_to_32 :: "u16 \<Rightarrow> u32" where
  "rgb565_to_32 w =
     (let color = ucast w :: u32; r = drop_bit 11 color; g = drop_bit 5 color AND 0x3f; b = color AND 0x1f
      in (push_bit 16 (push_bit 3 r) OR push_bit 8 (push_bit 2 g)) OR push_bit 3 b)"

definition Rgb2RgbConvert ::
    "(nat \<Rightarrow> int \<Rightarrow> u8 list option) \<Rightarrow> video_buf \<Rightarrow> video_buf \<Rightarrow> (int \<times> video_buf) kres" where
  "Rgb2RgbConvert malloc bin out =
     (let p = vbuf_pix bin; w = iWidth p; h = iHeight p in
      if iPixelFormat bin \<noteq> V4L2_PIX_FMT_RGB565 then Inr (- 1, out)
      else if iPixelFormat out = V4L2_PIX_FMT_RGB565 then
        let out = vbuf_alloc malloc 1 (set_depth 16 (same_size bin out)) in
        kbind (vbuf_mem bin) (\<lambda>src. kbind (vbuf_mem out) (\<lambda>dst.
        kbind (memcpy dst 0 src 0 (iTotalBytes (vbuf_pix out))) (\<lambda>m. Inr (0, vbuf_store m out))))
      else if iPixelFormat out = V4L2_PIX_FMT_RGB32 then
        let out = vbuf_alloc malloc 1 (set_depth 32 (same_size bin out)) in
        kbind (vbuf_mem bin) (\<lambda>src. kbind (vbuf_mem out) (\<lambda>dst.
        kbind (for_each [0..h - 1] (\<lambda>y. for_each [0..w - 1] (\<lambda>x m.
            kbind (get_at src ((y * w + x) * 2) 2) (\<lambda>bs.
              put_at m ((y * w + x) * 4) (put_le32 (rgb565_to_32 (get_le16 bs 0)))))) dst) (\<lambda>m. Inr (0, vbuf_store m out))))
      else Inr (- 1, out))"

definition Rgb2RgbConvertExit :: "video_buf \<Rightarrow> (int \<times> video_buf) kres" where
  "Rgb2RgbConvertExit b = vbuf_exit b"

section \<open>MJPEG\<close>

definition isSupportMjpeg2Rgb :: "u32 \<Rightarrow> u32 \<Rightarrow> bool" where
  "isSupportMjpeg2Rgb iPixelFormatIn iPixelFormatOut \<longleftrightarrow>
     iPixelFormatIn = V4L2_PIX_FMT_MJPEG \<and> (iPixelFormatOut = V4L2_PIX_FMT_RGB565 \<or> iPixelFormatOut = V4L2_PIX_FMT_RGB32)"

text \<open>
  The source of the decoder is the frame in memory; \<open>None\<close> is the error for an empty one.
\<close>

definition jpeg_mem_src_tj :: "video_buf \<Rightarrow> u8 list option kres" where
  "jpeg_mem_src_tj b =
     (if vbuf_ptr b = PNull \<or> iTotalBytes (vbuf_pix b) = 0 then Inr None
      else kbind (vbuf_mem b) (\<lambda>m. kbind (get_at m 0 (nat (iTotalBytes (vbuf_pix b)))) (\<lambda>f. Inr (Some f))))"

definition Mjpeg2RgbConvert ::
    "jpeg_lib \<Rightarrow> (nat \<Rightarrow> int \<Rightarrow> u8 list option) \<Rightarrow> video_buf \<Rightarrow> video_buf \<Rightarrow> (int \<times> video_buf) kres" where
  "Mjpeg2RgbConvert lib malloc bin out =
     kbind (jpeg_mem_src_tj bin) (\<lambda>src. case src of
       None \<Rightarrow> Inr (- 1, vbuf_free out)
     | Some f \<Rightarrow>
         if \<not> read_header lib f then Inr (- 1, vbuf_free out)
         else case start_decompress lib f of
           None \<Rightarrow> Inr (- 1, vbuf_free out)
         | Some img \<Rightarrow>
             case malloc 0 (sint (output_width img * output_components img)) of
               None \<Rightarrow> Inr (- 1, out)
             | Some aucLineBuffer \<Rightarrow>
                 let out = vbuf_alloc malloc 1 (out\<lparr>vbuf_pix := jpeg_size img (vbuf_pix out)\<rparr>) in
                 kbind (vbuf_mem out) (\<lambda>m.
                 kbind (read_lines (scanline img) [0..<unat (output_height img)] (vbuf_pix out) aucLineBuffer m) (\<lambda>(done, m).
                   Inr (if done \<and> finish img then (0, vbuf_store m out) else (- 1, vbuf_free out)))))"

definition Mjpeg2RgbConvertExit :: "video_buf \<Rightarrow> (int \<times> video_buf) kres" where
  "Mjpeg2RgbConvertExit b = vbuf_exit b"

section \<open>The list of conversions\<close>

record video_convert =
  conv_isSupport :: "u32 \<Rightarrow> u32 \<Rightarrow> bool"
  Convert :: "video_buf \<Rightarrow> video_buf \<Rightarrow> (int \<times> video_buf) kres"
  ConvertExit :: "video_buf \<Rightarrow> (int \<times> video_buf) kres"

abbreviation (input) g_tYuv2RgbConvert :: nat where "g_tYuv2RgbConvert \<equiv> 0"
abbreviation (input) g_tMjpeg2RgbConvert :: nat where "g_tMjpeg2RgbConvert \<equiv> 1"
abbreviation (input) g_tRgb2RgbConvert :: nat where "g_tRgb2RgbConvert \<equiv> 2"

definition converters :: "luts \<Rightarrow> jpeg_lib \<Rightarrow> (nat \<Rightarrow> int \<Rightarrow> u8 list option) \<Rightarrow> nat \<Rightarrow> video_convert" where
  "converters l lib malloc a =
     (if a = g_tYuv2RgbConvert
      then \<lparr>conv_isSupport = isSupportYuv2Rgb, Convert = Yuv2RgbConvert l malloc, ConvertExit = Yuv2RgbConvertExit\<rparr>
      else if a = g_tMjpeg2RgbConvert
      then \<lparr>conv_isSupport = isSupportMjpeg2Rgb, Convert = Mjpeg2RgbConvert lib malloc, ConvertExit = Mjpeg2RgbConvertExit\<rparr>
      else \<lparr>conv_isSupport = isSupportRgb2Rgb, Convert = Rgb2RgbConvert malloc, ConvertExit = Rgb2RgbConvertExit\<rparr>)"

definition RegisterVideoConvert :: "nat \<Rightarrow> registry \<Rightarrow> (int \<times> registry) option" where
  "RegisterVideoConvert a r = map_option (Pair 0) (register_node a r)"

text \<open>
  The conversions have no name: comparing the name of an element dereferences NULL.
\<close>

definition GetVideoConvert :: "string \<Rightarrow> registry \<Rightarrow> nat option kres" where
  "GetVideoConvert pcName r = (case reg_head r of None \<Rightarrow> Inr None | Some a \<Rightarrow> Inl NullDeref)"

definition GetVideoConvertForFormats :: "(nat \<Rightarrow> video_convert) \<Rightarrow> u32 \<Rightarrow> u32 \<Rightarrow> registry \<Rightarrow> nat option option" where
  "GetVideoConvertForFormats P iPixelFormatIn iPixelFormatOut r =
     lookup_node (\<lambda>a. conv_isSupport (P a) iPixelFormatIn iPixelFormatOut) r"

definition Yuv2RgbInit :: "(nat \<Rightarrow> bool) \<Rightarrow> registry \<Rightarrow> ((int \<times> registry) option \<times> luts) kres" where
  "Yuv2RgbInit mem r = kbind (initLut mem) (\<lambda>l. Inr (RegisterVideoConvert g_tYuv2RgbConvert r, l))"

definition Mjpeg2RgbInit :: "registry \<Rightarrow> (int \<times> registry) option" where
  "Mjpeg2RgbInit r = RegisterVideoConvert g_tMjpeg2RgbConvert r"

definition Rgb2RgbInit :: "registry \<Rightarrow> (int \<times> registry) option" where
  "Rgb2RgbInit r = RegisterVideoConvert g_tRgb2RgbConvert r"

text \<open>
  A fault is a fault of the table allocation; \<open>None\<close> a list walk that does not end.
\<close>

definition VideoConvertInit :: "(nat \<Rightarrow> bool) \<Rightarrow> registry \<Rightarrow> ((int \<times> registry) option \<times> luts) kres" where
  "VideoConvertInit mem r =
     kbind (Yuv2RgbInit mem r) (\<lambda>(res, l). Inr (
       Option.bind res (\<lambda>(e1, r).
       Option.bind (Mjpeg2RgbInit r) (\<lambda>(e2, r).
       Option.bind (Rgb2RgbInit r) (\<lambda>(e3, r). Some (e1 OR e2 OR e3, r)))), l))"

section \<open>Colours\<close>

text \<open>
  The colour of a YUV pixel, as \<open>0x00RRGGBB\<close>.
\<close>

definition yuv_color :: "u8 \<Rightarrow> u8 \<Rightarrow> u8 \<Rightarrow> u32" where
  "yuv_color Y U V = rgb (yuv_red (uint Y) (uint V)) (yuv_green (uint Y) (uint U) (uint V)) (yuv_blue (uint Y) (uint U))"

lemma byte_pair: "[ucast (c AND 0xff), ucast (drop_bit 8 c AND 0xff)] = put_le16 (ucast (c :: u32))"
proof -
  have m: "(0xff :: u32) = mask 8" by (simp add: mask_eq_exp_minus_1)
  have "(ucast (c AND 0xff) :: u8) = ucast (ucast c :: u16)" "(ucast (drop_bit 8 c AND 0xff) :: u8) = ucast (drop_bit 8 (ucast c :: u16))"
    unfolding m by (rule bit_word_eqI; auto simp: bit_simps)+
  then show ?thesis by (simp add: put_le16_def)
qed

lemma yuv_bytes:
  assumes "initLut mem = Inr l"
  shows "yuv_565 l Y U V = Inr (put_le16 (color565 (yuv_color Y U V)))" "yuv_888 l Y U V = Inr (put_le32 (yuv_color Y U V))"
  by (simp_all add: yuv_565_def yuv_888_def yuv_rgb_def lut_colors [OF assms] byte_pair yuv_color_def rgb_565 Let_def)
    (simp add: rgb_def)

text \<open>
  Every conversion of a colour to 32 bits keeps it: shown with 16 bits it is the original.
\<close>

lemma color565_rgb565_to_32: "color565 (rgb565_to_32 w) = w"
proof (rule bit_word_eqI)
  have m: "(0x1f :: u32) = mask 5" "(0x3f :: u32) = mask 6" by (simp_all add: mask_eq_exp_minus_1)
  have "list_all (\<lambda>n. bit (color565 (rgb565_to_32 w)) n \<longleftrightarrow> bit w n) [0..<16]"
    unfolding color565_def rgb565_to_32_def m Let_def
    by (simp only: upt_conv_Cons bit_or_iff bit_and_iff bit_mask_iff bit_push_bit_iff bit_drop_bit_eq comp_def bit_unsigned_iff)
      (simp add: upt_conv_Cons, simp add: eval_nat_numeral)
  moreover fix n assume "n < LENGTH(16)"
  ultimately show "bit (color565 (rgb565_to_32 w)) n \<longleftrightarrow> bit w n" by (simp add: list_all_iff)
qed

section \<open>Converted frames\<close>

lemma pix_single:
  assumes "length m = W * n" "j < W" "length p = n"
  shows "\<exists>m'. mem_write m (j * n) p = Inr m' \<and> length m' = length m \<and> (\<forall>i<W. pix n W m' i 0 = (if i = j then p else pix n W m i 0))"
proof -
  have "length m = 1 * (W * n)" "length p = 1 * n" "j + 1 \<le> W" "0 < (1 :: nat)" using assms by simp_all
  from pix_write [OF this] show ?thesis using assms(3) by (auto simp: le_Suc_eq)
qed

lemma yuv_loop_pixels:
  assumes px: "\<And>Y U V. px Y U V = Inr (g Y U V)" "\<And>Y U V. length (g Y U V) = n"
    and len: "length out = W * n" "2 * k \<le> W" "4 * k \<le> length buff" and k: "unat (w * h div 2) = k"
  shows "\<exists>m. yuv_loop px n buff out w h = Inr m \<and> length m = length out \<and>
    (\<forall>j<2 * k. pix n W m j 0 = g (buff ! (2 * j)) (buff ! (4 * (j div 2) + 1)) (buff ! (4 * (j div 2) + 3)))"
proof -
  let ?g = "\<lambda>j. g (buff ! (2 * j)) (buff ! (4 * (j div 2) + 1)) (buff ! (4 * (j div 2) + 3))"
  let ?f = "\<lambda>i m. kbind (get_at buff (int (4 * i)) 4) (\<lambda>q. kbind (px (q ! 0) (q ! 1) (q ! 3)) (\<lambda>p.
       kbind (put_at m (int (2 * i * n)) p) (\<lambda>m. kbind (px (q ! 2) (q ! 1) (q ! 3)) (put_at m (int ((2 * i + 1) * n))))))"
  let ?I = "\<lambda>i m. length m = length out \<and> (\<forall>j<2 * i. pix n W m j 0 = ?g j)"
  have "\<exists>m2. ?f ([0..<k] ! i) m = Inr m2 \<and> ?I (Suc i) m2" if i: "i < length [0..<k]" and I: "?I i m" for i m
  proof -
    have ik: "i < k" "2 * i < W" "2 * i + 1 < W" using i len(2) by simp_all
    have q: "get_at buff (int (4 * i)) 4 = Inr (take 4 (drop (4 * i) buff))"
      using ik len(3) by (simp add: get_at_def mem_read_def del: of_nat_mult)
    have d: "4 * i \<le> length buff" using ik len(3) by simp
    obtain m1 where m1: "mem_write m (2 * i * n) (?g (2 * i)) = Inr m1" "length m1 = length m"
      "\<forall>j<W. pix n W m1 j 0 = (if j = 2 * i then ?g (2 * i) else pix n W m j 0)"
      using pix_single [of m W n "2 * i" "?g (2 * i)"] I len(1) ik px(2) by auto
    obtain m2 where m2: "mem_write m1 ((2 * i + 1) * n) (?g (2 * i + 1)) = Inr m2" "length m2 = length m1"
      "\<forall>j<W. pix n W m2 j 0 = (if j = 2 * i + 1 then ?g (2 * i + 1) else pix n W m1 j 0)"
      using pix_single [of m1 W n "2 * i + 1" "?g (2 * i + 1)"] I m1(2) len(1) ik px(2) by auto
    have "?f i m = Inr m2" using m1(1) m2(1) d unfolding q kbind_simps px(1)
      by (simp add: put_at_def del: of_nat_mult of_nat_add)
    moreover have "pix n W m2 j 0 = ?g j" if "j < 2 * Suc i" for j
    proof -
      have j: "j < 2 * i \<or> j = 2 * i \<or> j = 2 * i + 1" "j < W" using that ik by auto
      have "pix n W m2 j 0 = (if j = 2 * i + 1 then ?g (2 * i + 1) else if j = 2 * i then ?g (2 * i) else pix n W m j 0)"
        using m1(3) m2(3) j(2) by simp
      then show ?thesis using I j(1) by auto
    qed
    ultimately show ?thesis using I ik m1(2) m2(2) by (intro exI [of _ m2]) simp
  qed
  moreover have "?I 0 out" by simp
  ultimately have "\<exists>m. for_each [0..<k] ?f out = Inr m \<and> ?I (length [0..<k]) m" by (rule for_each_inv [where I = ?I and f = ?f])
  then show ?thesis by (simp add: yuv_loop_def k)
qed

text \<open>
  A frame the camera delivers, and the buffer it is converted into: empty, or with memory for a frame
  of the same size.
\<close>

definition frame_ok :: "nat \<Rightarrow> nat \<Rightarrow> nat \<Rightarrow> video_buf \<Rightarrow> bool" where
  "frame_ok n w h b \<longleftrightarrow> vbuf_ptr b = PBlock \<and> iWidth (vbuf_pix b) = int w \<and> iHeight (vbuf_pix b) = int h \<and>
     h * (w * n) \<le> length (aucPixelDatas (vbuf_pix b)) \<and> w * h < 2 ^ 32"

definition room_ok :: "nat \<Rightarrow> nat \<Rightarrow> nat \<Rightarrow> video_buf \<Rightarrow> bool" where
  "room_ok n w h b \<longleftrightarrow> vbuf_ptr b = PNull \<or> vbuf_ptr b = PBlock \<and> length (aucPixelDatas (vbuf_pix b)) = h * (w * n)"

text \<open>
  The result: a picture of the frame's size in the format \<open>8 n\<close> bits per pixel with the given pixels.
\<close>

definition depicts :: "nat \<Rightarrow> nat \<Rightarrow> nat \<Rightarrow> (nat \<Rightarrow> nat \<Rightarrow> u8 list) \<Rightarrow> video_buf \<Rightarrow> bool" where
  "depicts n w h f b \<longleftrightarrow> vbuf_ptr b = PBlock \<and> pix_wf (vbuf_pix b) \<and> iWidth (vbuf_pix b) = int w \<and> iHeight (vbuf_pix b) = int h \<and>
     iBpp (vbuf_pix b) = 8 * int n \<and> (\<forall>x<w. \<forall>y<h. pixel (vbuf_pix b) x y = f x y)"

lemma alloc_room:
  assumes "alloc_ok malloc" "room_ok n w h out" "frame_ok k w h bin" "8 * int n = bpp"
  shows "\<exists>m. vbuf_alloc malloc 1 (set_depth bpp (same_size bin out)) =
      out\<lparr>vbuf_pix := \<lparr>iWidth = int w, iHeight = int h, iBpp = bpp, iLineBytes = int (w * n), iTotalBytes = int (h * (w * n)),
        aucPixelDatas = m\<rparr>, vbuf_ptr := PBlock\<rparr> \<and> length m = h * (w * n)"
proof -
  have line: "div8 (int w * bpp) = int (w * n)" using div8_mult [of "int w" "int n"] assms(4) by auto
  obtain m where m: "malloc 1 (int (h * (w * n))) = Some m" "length m = h * (w * n)" using alloc_okD [OF assms(1)] by blast
  have tot: "int (w * n) * int h = int (h * (w * n))" by simp
  show ?thesis
  proof (cases "vbuf_ptr out = PNull")
    case True
    then show ?thesis
      using m assms(3) line tot
      by (intro exI [of _ m]) (simp add: vbuf_alloc_def set_depth_def same_size_def vbuf_store_def frame_ok_def Let_def del: of_nat_mult)
  next
    case False
    then show ?thesis
      using assms(2,3) line tot
      by (intro exI [of _ "aucPixelDatas (vbuf_pix out)"])
        (auto simp: room_ok_def vbuf_alloc_def set_depth_def same_size_def frame_ok_def Let_def simp del: of_nat_mult)
  qed
qed

text \<open>
  A list of \<open>w * h\<close> pixels is a picture, line after line.
\<close>

lemma depicts_lines:
  assumes "length m = h * (w * n)" "n \<in> {2, 4}" "\<And>x y. x < w \<Longrightarrow> y < h \<Longrightarrow> pix n (w * h) m (y * w + x) 0 = f x y"
  shows "depicts n w h f (vbuf_store m (out\<lparr>vbuf_pix := \<lparr>iWidth = int w, iHeight = int h, iBpp = 8 * int n, iLineBytes = int (w * n),
    iTotalBytes = int (h * (w * n)), aucPixelDatas = m'\<rparr>, vbuf_ptr := PBlock\<rparr>))"
  using assms by (auto simp: depicts_def vbuf_store_def pix_wf_def pixel_def pix_def)

lemma line_index: "x < w \<Longrightarrow> y < h \<Longrightarrow> y * w + x < w * (h :: nat)"
  using pix_range [of x 1 w y h 1] by (simp add: mult.commute)

text \<open>
  The pixel \<open>(x, y)\<close> of a YUYV frame of width \<open>w\<close>: luminance of its own, chrominance shared by a pair.
\<close>

definition yuyv_at :: "nat \<Rightarrow> u8 list \<Rightarrow> nat \<Rightarrow> nat \<Rightarrow> u32" where
  "yuyv_at w src x y = (let j = y * w + x in yuv_color (src ! (2 * j)) (src ! (4 * (j div 2) + 1)) (src ! (4 * (j div 2) + 3)))"

lemma unat_half_size:
  assumes "w * h < 2 ^ 32"
  shows "unat ((of_int (int w) :: u32) * of_int (int h) div 2) = w * h div 2"
  using u32_mult [OF assms] by (simp add: unat_div)

lemma yuv_convert_run:
  assumes malloc: "alloc_ok malloc" and bin: "frame_ok 2 w h bin" "even (w * h)" and room: "room_ok n w h out" and n: "n \<in> {2, 4}"
    and px: "\<And>Y U V. px Y U V = Inr (g (yuv_color Y U V))" "\<And>c. length (g c) = n"
  defines "o1 \<equiv> vbuf_alloc malloc 1 (set_depth (8 * int n) (same_size bin out))"
  shows "\<exists>out'. kbind (vbuf_mem bin) (\<lambda>src. kbind (vbuf_mem o1) (\<lambda>dst. kbind (yuv_loop px n src dst (of_int (iWidth (vbuf_pix o1)))
      (of_int (iHeight (vbuf_pix o1)))) (\<lambda>m. Inr (0, vbuf_store m o1)))) = Inr (0, out') \<and>
    depicts n w h (\<lambda>x y. g (yuyv_at w (aucPixelDatas (vbuf_pix bin)) x y)) out'"
proof -
  let ?src = "aucPixelDatas (vbuf_pix bin)"
  obtain m0 where o1: "o1 = out\<lparr>vbuf_pix := \<lparr>iWidth = int w, iHeight = int h, iBpp = 8 * int n, iLineBytes = int (w * n),
      iTotalBytes = int (h * (w * n)), aucPixelDatas = m0\<rparr>, vbuf_ptr := PBlock\<rparr>" and m0: "length m0 = h * (w * n)"
    using alloc_room [OF malloc room bin(1) refl] unfolding o1_def by blast
  have k: "2 * (w * h div 2) = w * h" using bin(2) by simp
  have "4 * (w * h div 2) \<le> length ?src" using bin(1) k by (simp add: frame_ok_def algebra_simps)
  then obtain m where m: "yuv_loop px n ?src m0 (of_int (int w)) (of_int (int h)) = Inr m" "length m = length m0"
    "\<forall>j<w * h. pix n (w * h) m j 0 = g (yuv_color (?src ! (2 * j)) (?src ! (4 * (j div 2) + 1)) (?src ! (4 * (j div 2) + 3)))"
    using yuv_loop_pixels [of px "\<lambda>Y U V. g (yuv_color Y U V)" n m0 "w * h" "w * h div 2" ?src "of_int (int w)" "of_int (int h)"]
      px m0 k unat_half_size [of w h] bin(1) by (auto simp: frame_ok_def algebra_simps)
  have "depicts n w h (\<lambda>x y. g (yuyv_at w ?src x y)) (vbuf_store m o1)"
    unfolding o1 using m(2,3) m0 n line_index by (intro depicts_lines) (auto simp: yuyv_at_def Let_def)
  moreover have "vbuf_mem bin = Inr ?src" using bin(1) by (simp add: vbuf_mem_def frame_ok_def)
  ultimately show ?thesis using m(1) by (intro exI [of _ "vbuf_store m o1"]) (simp add: o1 vbuf_mem_def)
qed


text \<open>
  Two grey pixels, converted for a 16 bit display.
\<close>

definition grey_frame :: video_buf where
  "grey_frame = \<lparr>vbuf_pix = \<lparr>iWidth = 2, iHeight = 1, iBpp = 16, iLineBytes = 4, iTotalBytes = 4, aucPixelDatas = [16, 128, 255, 128]\<rparr>,
     vbuf_ptr = PBlock, iPixelFormat = V4L2_PIX_FMT_YUYV\<rparr>"

definition grey_luts :: luts where
  "grey_luts = (case initLut (\<lambda>k. True) of Inr l \<Rightarrow> l | Inl e \<Rightarrow> null_luts)"

lemma grey_luts: "initLut (\<lambda>k. True) = Inr grey_luts"
  by (simp add: grey_luts_def initLut_def list_all_iff)

lemma zero_alloc_ok: "alloc_ok (\<lambda>k n. Some (replicate (nat n) 0))"
  by (simp add: alloc_ok_def)


section \<open>RGB565 frames\<close>

text \<open>
  The 16 bit pixel \<open>(x, y)\<close> of a frame of width \<open>w\<close>.
\<close>

definition rgb565_at :: "nat \<Rightarrow> u8 list \<Rightarrow> nat \<Rightarrow> nat \<Rightarrow> u16" where
  "rgb565_at w src x y = get_le16 (take 2 (drop ((y * w + x) * 2) src)) 0"

lemma rgb_loop:
  assumes len: "length m0 = h * (w * 4)" and src: "h * (w * 2) \<le> length src"
  shows "\<exists>m. for_each [0..int h - 1] (\<lambda>y. for_each [0..int w - 1] (\<lambda>x m. kbind (get_at src ((y * int w + x) * 2) 2) (\<lambda>bs.
      put_at m ((y * int w + x) * 4) (put_le32 (rgb565_to_32 (get_le16 bs 0)))))) m0 = Inr m \<and> length m = length m0 \<and>
    (\<forall>x<w. \<forall>y<h. pix 4 w m x y = put_le32 (rgb565_to_32 (rgb565_at w src x y)))"
  unfolding for_each_upto
proof (rule paint_lines [OF len])
  fix y and m :: "u8 list" assume y: "y < h" and m: "length m = h * (w * 4)"
  show "\<exists>m'. for_each [0..<w] (\<lambda>x m. kbind (get_at src ((int y * int w + int x) * 2) 2) (\<lambda>bs.
      put_at m ((int y * int w + int x) * 4) (put_le32 (rgb565_to_32 (get_le16 bs 0))))) m = Inr m' \<and> length m' = length m \<and>
    (\<forall>x'<w. \<forall>y'<h. pix 4 w m' x' y' = (if y' = y then put_le32 (rgb565_to_32 (rgb565_at w src x' y)) else pix 4 w m x' y'))"
  proof (rule paint_line [OF m y])
    fix x and m :: "u8 list" assume x: "x < w" and "length m = h * (w * 4)"
    have i: "(int y * int w + int x) * k = int ((y * w + x) * nat k)" if "0 \<le> k" for k using that by (simp add: algebra_simps)
    have "(y * w + x) * 2 + 2 \<le> length src" using pix_range [of x 1 w y h 2] x y src by simp
    then have "get_at src ((int y * int w + int x) * 2) 2 = Inr (take 2 (drop ((y * w + x) * 2) src))"
      by (subst i) (simp_all add: get_at_def mem_read_def del: of_nat_mult of_nat_add)
    then show "kbind (get_at src ((int y * int w + int x) * 2) 2) (\<lambda>bs. put_at m ((int y * int w + int x) * 4)
        (put_le32 (rgb565_to_32 (get_le16 bs 0)))) = mem_write m ((y * w + x) * 4) (put_le32 (rgb565_to_32 (rgb565_at w src x y)))"
      using i [of 4] by (simp add: rgb565_at_def put_at_def del: of_nat_mult of_nat_add)
  qed simp
qed

text \<open>
  C33: an RGB565 frame is converted to 32 bits without loss: every pixel of the result, reduced to 16
  bits the way the display code does it, is the pixel of the frame.
\<close>

theorem rgb_frame_lossless:
  assumes "alloc_ok malloc" "frame_ok 2 w h bin" "room_ok 4 w h out"
    and "iPixelFormat bin = V4L2_PIX_FMT_RGB565" "iPixelFormat out = V4L2_PIX_FMT_RGB32"
  shows "\<exists>out' c. Rgb2RgbConvert malloc bin out = Inr (0, out') \<and> depicts 4 w h (\<lambda>x y. put_le32 (c x y)) out' \<and>
    (\<forall>x<w. \<forall>y<h. color565 (c x y) = rgb565_at w (aucPixelDatas (vbuf_pix bin)) x y)"
proof -
  let ?src = "aucPixelDatas (vbuf_pix bin)"
  obtain m0 where o1: "vbuf_alloc malloc 1 (set_depth 32 (same_size bin out)) = out\<lparr>vbuf_pix := \<lparr>iWidth = int w, iHeight = int h,
      iBpp = 32, iLineBytes = int (w * 4), iTotalBytes = int (h * (w * 4)), aucPixelDatas = m0\<rparr>, vbuf_ptr := PBlock\<rparr>"
    and m0: "length m0 = h * (w * 4)"
    using alloc_room [OF assms(1,3,2), of 32] by auto
  obtain m where m: "for_each [0..int h - 1] (\<lambda>y. for_each [0..int w - 1] (\<lambda>x m. kbind (get_at ?src ((y * int w + x) * 2) 2) (\<lambda>bs.
      put_at m ((y * int w + x) * 4) (put_le32 (rgb565_to_32 (get_le16 bs 0)))))) m0 = Inr m" "length m = length m0"
    "\<forall>x<w. \<forall>y<h. pix 4 w m x y = put_le32 (rgb565_to_32 (rgb565_at w ?src x y))"
    using rgb_loop [OF m0] assms(2) unfolding frame_ok_def by blast
  let ?o = "vbuf_alloc malloc 1 (set_depth 32 (same_size bin out))"
  have "Rgb2RgbConvert malloc bin out = Inr (0, vbuf_store m ?o)"
    using assms(2,4,5) m(1) by (simp add: Rgb2RgbConvert_def Let_def o1 vbuf_mem_def frame_ok_def del: One_nat_def)
  moreover have "depicts 4 w h (\<lambda>x y. put_le32 (rgb565_to_32 (rgb565_at w ?src x y))) (vbuf_store m ?o)"
    using m(2,3) m0 unfolding o1 by (auto simp: depicts_def vbuf_store_def pix_wf_def pixel_def)
  ultimately show ?thesis
    using color565_rgb565_to_32 by (intro exI [of _ "vbuf_store m ?o"] exI [of _ "\<lambda>x y. rgb565_to_32 (rgb565_at w ?src x y)"]) simp
qed

definition red_frame :: video_buf where
  "red_frame = \<lparr>vbuf_pix = \<lparr>iWidth = 1, iHeight = 1, iBpp = 16, iLineBytes = 2, iTotalBytes = 2, aucPixelDatas = [0, 0xf8]\<rparr>,
     vbuf_ptr = PBlock, iPixelFormat = V4L2_PIX_FMT_RGB565\<rparr>"

theorem rgb_frame_lossless_witness:
  "\<exists>out c. Rgb2RgbConvert (\<lambda>k n. Some (replicate (nat n) 0)) red_frame (zero_buf\<lparr>iPixelFormat := V4L2_PIX_FMT_RGB32\<rparr>) = Inr (0, out) \<and>
     pixel (vbuf_pix out) 0 0 = put_le32 (c 0 0) \<and> color565 (c 0 0) = 0xf800"
proof -
  have "frame_ok 2 1 1 red_frame" "room_ok 4 1 1 (zero_buf\<lparr>iPixelFormat := V4L2_PIX_FMT_RGB32\<rparr>)"
    by (simp_all add: frame_ok_def room_ok_def red_frame_def zero_buf_def)
  then obtain out c where "Rgb2RgbConvert (\<lambda>k n. Some (replicate (nat n) 0)) red_frame (zero_buf\<lparr>iPixelFormat := V4L2_PIX_FMT_RGB32\<rparr>) = Inr (0, out)"
    "depicts 4 1 1 (\<lambda>x y. put_le32 (c x y)) out" "\<forall>x<1. \<forall>y<1. color565 (c x y) = rgb565_at 1 (aucPixelDatas (vbuf_pix red_frame)) x y"
    using rgb_frame_lossless [OF zero_alloc_ok, of 1 1 red_frame "zero_buf\<lparr>iPixelFormat := V4L2_PIX_FMT_RGB32\<rparr>"]
    by (auto simp: red_frame_def)
  moreover have "rgb565_at 1 (aucPixelDatas (vbuf_pix red_frame)) 0 0 = 0xf800"
    by (simp add: rgb565_at_def red_frame_def get_le16_def)
  ultimately show ?thesis by (intro exI [of _ out] exI [of _ c] conjI) (auto simp: depicts_def)
qed

section \<open>MJPEG frames\<close>

definition jpeg_frame :: "jpeg_lib \<Rightarrow> nat \<Rightarrow> nat \<Rightarrow> jpeg_image \<Rightarrow> video_buf \<Rightarrow> bool" where
  "jpeg_frame lib w h img b \<longleftrightarrow> vbuf_ptr b = PBlock \<and> 0 < iTotalBytes (vbuf_pix b) \<and>
     nat (iTotalBytes (vbuf_pix b)) \<le> length (aucPixelDatas (vbuf_pix b)) \<and>
     (let f = take (nat (iTotalBytes (vbuf_pix b))) (aucPixelDatas (vbuf_pix b))
      in read_header lib f \<and> start_decompress lib f = Some img \<and> lines_ok img w h 3 \<and> finish img)"

text \<open>
  The conversion of a decodable frame, up to the loop over the lines.
\<close>

lemma Mjpeg2RgbConvert_lines:
  assumes f: "jpeg_frame lib w h img bin" and malloc: "alloc_ok malloc" and bpp: "iBpp (vbuf_pix out) = 8 * int n" and ptr: "vbuf_ptr out \<noteq> PFreed"
  defines "p \<equiv> jpeg_size img (vbuf_pix out)"
  shows "\<exists>buf m. length buf = w * 3 \<and> (if vbuf_ptr out = PNull then length m = h * (w * n) else m = aucPixelDatas (vbuf_pix out)) \<and>
    Mjpeg2RgbConvert lib malloc bin out = kbind (read_lines (scanline img) [0..<h] p buf m) (\<lambda>(done, m').
      Inr (if done then (0, out\<lparr>vbuf_pix := p\<lparr>aucPixelDatas := m'\<rparr>, vbuf_ptr := PBlock\<rparr>)
        else (- 1, out\<lparr>vbuf_pix := p\<lparr>aucPixelDatas := []\<rparr>, vbuf_ptr := PFreed\<rparr>)))"
proof -
  have img: "lines_ok img w h 3" "finish img" using f by (auto simp: jpeg_frame_def Let_def)
  note sz = jpeg_size_nat [OF img(1) bpp]
  obtain buf where buf: "malloc 0 (int (w * 3)) = Some buf" "length buf = w * 3" using alloc_okD [OF malloc] by blast
  obtain m1 where m1: "malloc 1 (int (h * (w * n))) = Some m1" "length m1 = h * (w * n)" using alloc_okD [OF malloc] by blast
  define m where "m = (if vbuf_ptr out = PNull then m1 else aucPixelDatas (vbuf_pix out))"
  have tot: "iTotalBytes p = int (h * (w * n))" "aucPixelDatas p = aucPixelDatas (vbuf_pix out)" using sz by (simp_all add: p_def)
  have al: "vbuf_alloc malloc 1 (out\<lparr>vbuf_pix := p\<rparr>) = out\<lparr>vbuf_pix := p\<lparr>aucPixelDatas := m\<rparr>, vbuf_ptr := PBlock\<rparr>"
    using ptr m1(1) tot by (cases "vbuf_ptr out") (simp_all add: vbuf_alloc_def vbuf_store_def m_def p_def sz)
  have h: "unat (output_height img) = h" using img(1) by (simp add: lines_ok_def)
  have "read_lines sc ys (q\<lparr>aucPixelDatas := z\<rparr>) b m' = read_lines sc ys q b m'" for sc ys q z b m'
    by (induction ys arbitrary: b m') (auto intro!: kbind_cong split: option.split)
  moreover have comm: "out\<lparr>vbuf_ptr := PBlock, vbuf_pix := q\<rparr> = out\<lparr>vbuf_pix := q, vbuf_ptr := PBlock\<rparr>" for q by simp
  ultimately have "Mjpeg2RgbConvert lib malloc bin out = kbind (read_lines (scanline img) [0..<h] p buf m) (\<lambda>(done, m').
      Inr (if done then (0, out\<lparr>vbuf_pix := p\<lparr>aucPixelDatas := m'\<rparr>, vbuf_ptr := PBlock\<rparr>)
        else (- 1, out\<lparr>vbuf_pix := p\<lparr>aucPixelDatas := []\<rparr>, vbuf_ptr := PFreed\<rparr>)))"
    using f buf(1) lines_ok_sint(3) [OF img(1)] img(2)
    by (simp add: Mjpeg2RgbConvert_def jpeg_mem_src_tj_def jpeg_frame_def vbuf_mem_def get_at_def mem_read_def Let_def h
        al [unfolded p_def] p_def comm vbuf_store_def vbuf_free_def case_prod_beta del: One_nat_def of_nat_mult cong: kbind_cong if_cong)
  then show ?thesis using buf(2) m1(2) by (intro exI [of _ buf] exI [of _ m]) (simp add: m_def)
qed

text \<open>
  A decodable colour frame is converted to the depth of the output buffer.
\<close>

lemma mjpeg_frame_converted:
  assumes "jpeg_frame lib w h img bin" "alloc_ok malloc" "iBpp (vbuf_pix out) = 8 * int n" "n \<in> {2, 4}" "room_ok n w h out"
  shows "\<exists>out'. Mjpeg2RgbConvert lib malloc bin out = Inr (0, out') \<and>
    depicts n w h (\<lambda>x y. display_pixel rgb_order (8 * int n) (take 3 (drop (3 * x) (the (scanline img y))))) out'"
proof -
  have img: "lines_ok img w h 3" using assms(1) by (auto simp: jpeg_frame_def Let_def)
  have "vbuf_ptr out \<noteq> PFreed" using assms(5) by (auto simp: room_ok_def)
  then obtain buf m where m: "length buf = w * 3" "if vbuf_ptr out = PNull then length m = h * (w * n) else m = aucPixelDatas (vbuf_pix out)"
    "Mjpeg2RgbConvert lib malloc bin out = kbind (read_lines (scanline img) [0..<h] (jpeg_size img (vbuf_pix out)) buf m) (\<lambda>(done, m').
      Inr (if done then (0, out\<lparr>vbuf_pix := (jpeg_size img (vbuf_pix out))\<lparr>aucPixelDatas := m'\<rparr>, vbuf_ptr := PBlock\<rparr>)
        else (- 1, out\<lparr>vbuf_pix := (jpeg_size img (vbuf_pix out))\<lparr>aucPixelDatas := []\<rparr>, vbuf_ptr := PFreed\<rparr>)))"
    using Mjpeg2RgbConvert_lines [OF assms(1-3)] by blast
  note p = jpeg_size_nat [OF img assms(3)]
  have len: "length m = h * (w * n)" using m(2) assms(5) by (auto simp: room_ok_def split: if_splits)
  obtain m' where m': "read_lines (scanline img) [0..<h] (jpeg_size img (vbuf_pix out)) buf m = Inr (True, m')" "length m' = length m"
    "\<forall>x<w. \<forall>y<h. pix n w m' x y = display_pixel rgb_order (8 * int n) (take 3 (drop (3 * x) (the (scanline img y))))"
    using jpeg_read [OF img refl, of "jpeg_size img (vbuf_pix out)" n m buf] p assms(3,4) len m(1) by auto
  show ?thesis
    using m(3) m' len p assms(3,4)
    by (intro exI [of _ "out\<lparr>vbuf_pix := (jpeg_size img (vbuf_pix out))\<lparr>aucPixelDatas := m'\<rparr>, vbuf_ptr := PBlock\<rparr>"])
      (auto simp: depicts_def pix_wf_def pixel_def)
qed

lemma put_at_fault: "put_at m off bs = Inl e \<Longrightarrow> e = OutOfBounds"
  by (auto simp: put_at_def mem_write_def split: if_splits)

lemma get_at_fault: "get_at m off n = Inl e \<Longrightarrow> e = OutOfBounds"
  by (auto simp: get_at_def mem_read_def split: if_splits)

lemma put_at_beyond: "bs \<noteq> [] \<Longrightarrow> int (length m) < off + int (length bs) \<Longrightarrow> put_at m off bs = Inl OutOfBounds"
  by (auto simp: put_at_def mem_write_def)

lemma for_each_only_fault:
  assumes "\<And>x m e. f x m = Inl e \<Longrightarrow> e = OutOfBounds"
  shows "for_each xs f m = Inl e \<Longrightarrow> e = OutOfBounds"
proof (induction xs arbitrary: m)
  case (Cons x xs)
  then show ?case using assms by (auto simp: kbind_Inl_iff)
qed simp

lemma line_each:
  assumes "n \<in> {2, 4}"
  shows "line_to_display col w (8 * int n) src 0 dst doff = for_each [0..w - 1] (\<lambda>i m.
    kbind (get_at src (0 + 3 * i) 3) (\<lambda>bs. put_at m (doff + int n * i) (display_pixel col (8 * int n) bs))) dst"
  using assms
  by (auto simp: line_to_display_def display_pixel_def color_bytes_def rgb_565 intro!: kbind_cong for_each_cong split: prod.split)

lemma line_fault: "n \<in> {2, 4} \<Longrightarrow> line_to_display col w (8 * int n) src 0 dst doff = Inl e \<Longrightarrow> e = OutOfBounds"
  unfolding line_each by (erule for_each_only_fault [rotated]) (auto simp: kbind_Inl_iff dest: get_at_fault put_at_fault)

lemma line_length: "n \<in> {2, 4} \<Longrightarrow> line_to_display col w (8 * int n) src 0 dst doff = Inr m \<Longrightarrow> length m = length dst"
  unfolding line_each by (erule for_each_length [rotated]) (auto simp: kbind_Inr_iff dest: put_at_length)

text \<open>
  A converted line that does not fit into the memory faults.
\<close>

lemma line_beyond:
  assumes n: "n \<in> {2, 4}" and w: "0 < w" and over: "int (length dst) < doff + int (w * n)"
  shows "line_to_display col (int w) (8 * int n) src 0 dst doff = Inl OutOfBounds"
proof -
  let ?px = "\<lambda>bs. display_pixel col (8 * int n) bs"
  let ?f = "\<lambda>i m. kbind (get_at src (0 + 3 * i) 3) (\<lambda>bs. put_at m (doff + int n * i) (?px bs))"
  have len: "length (?px bs) = n" for bs using n by (auto simp: display_pixel_def color_bytes_def split: prod.split)
  have ne: "?px bs \<noteq> []" for bs using len [of bs] n by auto
  have oob: "e = OutOfBounds" if "?f i m = Inl e" for i m e
    using that by (auto simp: kbind_Inl_iff dest: get_at_fault put_at_fault)
  have keep: "length m' = length m" if "?f i m = Inr m'" for i m m'
    using that by (auto simp: kbind_Inr_iff dest: put_at_length)
  have last: "?f (int w - 1) m = Inl OutOfBounds" if "length m = length dst" for m
  proof -
    have "doff + int n * (int w - 1) + int n = doff + int (w * n)" by (simp add: algebra_simps)
    then have "put_at m (doff + int n * (int w - 1)) (?px bs) = Inl OutOfBounds" for bs
      using over that len ne by (intro put_at_beyond) simp_all
    then show ?thesis by (cases "get_at src (0 + 3 * (int w - 1)) 3") (auto dest: get_at_fault)
  qed
  have mem: "int w - 1 \<in> set [0..int w - 1]" using w by simp
  show ?thesis unfolding line_each [OF n]
    by (rule for_each_fault [where I = "\<lambda>m. length m = length dst" and f = ?f], simp add: keep, erule oob, rule mem, erule last, rule refl)
qed

text \<open>
  C36: the memory of a converted MJPEG frame is allocated for the first frame only.  A later frame of
  the stream that needs more memory is written past its end.
\<close>

theorem mjpeg_larger_frame_overflow:
  assumes f: "jpeg_frame lib w h img bin" and malloc: "alloc_ok malloc" and bpp: "iBpp (vbuf_pix out) = 8 * int n" "n \<in> {2, 4}"
    and old: "vbuf_ptr out = PBlock" "length (aucPixelDatas (vbuf_pix out)) < h * (w * n)"
  shows "Mjpeg2RgbConvert lib malloc bin out = Inl OutOfBounds"
proof -
  let ?p = "jpeg_size img (vbuf_pix out)" and ?m = "aucPixelDatas (vbuf_pix out)"
  have img: "lines_ok img w h 3" using f by (auto simp: jpeg_frame_def Let_def)
  have pos: "0 < w" "0 < h" using old(2) by (cases w; cases h; simp)+
  obtain buf where m: "length buf = w * 3" "Mjpeg2RgbConvert lib malloc bin out = kbind (read_lines (scanline img) [0..<h] ?p buf ?m)
      (\<lambda>(done, m'). Inr (if done then (0, out\<lparr>vbuf_pix := ?p\<lparr>aucPixelDatas := m'\<rparr>, vbuf_ptr := PBlock\<rparr>)
        else (- 1, out\<lparr>vbuf_pix := ?p\<lparr>aucPixelDatas := []\<rparr>, vbuf_ptr := PFreed\<rparr>)))"
    using Mjpeg2RgbConvert_lines [OF f malloc bpp(1)] old(1) by auto
  let ?f = "\<lambda>y m. kbind (CovertOneLine_JPG (iWidth ?p) 24 (iBpp ?p) (the (scanline img y)) m (int y * iLineBytes ?p)) (\<lambda>(ret, m). Inr m)"
  have f_eq: "?f y m = line_to_display rgb_order (int w) (8 * int n) (the (scanline img y)) 0 m (int (y * (w * n)))" for y m
    unfolding jpeg_size_nat [OF img bpp(1)]
    by (simp add: CovertOneLine_JPG_def bpp(1)) (cases "line_to_display rgb_order (int w) (8 * int n) (the (scanline img y)) 0 m (int y * (int w * int n))"; simp)
  have "h * (w * n) = (h - 1) * (w * n) + w * n" using pos(2) by (cases h) simp_all
  then have "int (length ?m) < int ((h - 1) * (w * n)) + int (w * n)" using old(2) by linarith
  then have last: "?f (h - 1) m = Inl OutOfBounds" if "length m = length ?m" for m
    unfolding f_eq using that pos(1) by (intro line_beyond bpp(2)) simp_all
  have mem: "h - 1 \<in> set [0..<h]" using pos(2) by simp
  have "for_each [0..<h] ?f ?m = Inl OutOfBounds"
    by (rule for_each_fault [where I = "\<lambda>m. length m = length ?m" and f = ?f, OF _ _ mem last refl])
      (simp_all only: f_eq line_fault [OF bpp(2)] line_length [OF bpp(2)])
  moreover have "read_lines (scanline img) [0..<h] ?p buf ?m = kbind (for_each [0..<h] ?f ?m) (\<lambda>m. Inr (True, m))"
    by (rule read_lines_each [OF m(1)]) (use img in \<open>auto simp: lines_ok_def\<close>)
  ultimately show ?thesis using m(2) by simp
qed

definition red_image :: jpeg_image where
  "red_image = \<lparr>output_width = 2, output_height = 1, output_components = 3, scanline = (\<lambda>y. Some [255, 0, 0, 255, 0, 0]), finish = True\<rparr>"

definition red_lib :: jpeg_lib where
  "red_lib = \<lparr>read_header = (\<lambda>f. True), start_decompress = (\<lambda>f. Some red_image)\<rparr>"

theorem mjpeg_larger_frame_overflow_witness:
  "Mjpeg2RgbConvert red_lib (\<lambda>k n. Some (replicate (nat n) 0)) grey_frame red_frame = Inl OutOfBounds"
  by (rule mjpeg_larger_frame_overflow [of red_lib 2 1 red_image grey_frame _ red_frame 2, OF _ zero_alloc_ok])
    (simp_all add: jpeg_frame_def red_lib_def red_image_def lines_ok_def grey_frame_def red_frame_def)

section \<open>Choosing a conversion\<close>

lemma register_converters:
  "\<exists>r. Option.bind (RegisterVideoConvert 0 empty_registry) (\<lambda>(e1, r). Option.bind (Mjpeg2RgbInit r) (\<lambda>(e2, r).
      Option.bind (Rgb2RgbInit r) (\<lambda>(e3, r). Some (e1 OR e2 OR e3, r)))) = Some (0, r) \<and> nodes r [0, 1, 2]"
proof -
  obtain r where r: "linked.register_all [0, 1, 2] empty_registry = Some r" "nodes r ([] @ [0, 1, 2])"
    using linked.register_all_items [OF linked.empty, of "[0, 1, 2]"] by auto
  then show ?thesis
    by (auto simp: RegisterVideoConvert_def Mjpeg2RgbInit_def Rgb2RgbInit_def bind_eq_Some_conv)
qed

text \<open>
  C34: after the conversions are registered, the lookup returns the conversion of the camera's format
  exactly when the camera delivers YUYV, MJPEG or RGB565 and the display uses 16 or 32 bits per pixel.
\<close>

theorem conversion_selected:
  assumes "list_all mem [0..<11]"
  shows "\<exists>r l. VideoConvertInit mem empty_registry = Inr (Some (0, r), l) \<and>
    (\<forall>lib malloc fin fout. GetVideoConvertForFormats (converters l lib malloc) fin fout r = Some (
       if fout \<noteq> V4L2_PIX_FMT_RGB565 \<and> fout \<noteq> V4L2_PIX_FMT_RGB32 then None
       else if fin = V4L2_PIX_FMT_YUYV then Some g_tYuv2RgbConvert
       else if fin = V4L2_PIX_FMT_MJPEG then Some g_tMjpeg2RgbConvert
       else if fin = V4L2_PIX_FMT_RGB565 then Some g_tRgb2RgbConvert else None))"
proof -
  obtain l where l: "initLut mem = Inr l" using assms by (auto simp: initLut_def simp del: upt_rec_numeral)
  obtain r where r: "Option.bind (RegisterVideoConvert 0 empty_registry) (\<lambda>(e1, r). Option.bind (Mjpeg2RgbInit r) (\<lambda>(e2, r).
      Option.bind (Rgb2RgbInit r) (\<lambda>(e3, r). Some (e1 OR e2 OR e3, r)))) = Some (0, r)" "nodes r [0, 1, 2]"
    using register_converters by blast
  have "GetVideoConvertForFormats (converters l lib malloc) fin fout r =
      Some (List.find (\<lambda>a. conv_isSupport (converters l lib malloc a) fin fout) [0, 1, 2])" for lib malloc fin fout
    unfolding GetVideoConvertForFormats_def by (rule linked.lookup [OF r(2)])
  then show ?thesis
    using l r(1) by (intro exI [of _ r] exI [of _ l])
      (auto simp: VideoConvertInit_def Yuv2RgbInit_def converters_def isSupportYuv2Rgb_def isSupportMjpeg2Rgb_def isSupportRgb2Rgb_def)
qed

theorem conversion_selected_witness:
  "\<exists>r l. VideoConvertInit (\<lambda>k. True) empty_registry = Inr (Some (0, r), l) \<and>
    GetVideoConvertForFormats (converters l red_lib (\<lambda>k n. None)) V4L2_PIX_FMT_MJPEG V4L2_PIX_FMT_RGB32 r = Some (Some g_tMjpeg2RgbConvert)"
  using conversion_selected [of "\<lambda>k. True"] by (force simp: list_all_iff)

end
