(* ===== verification/Video_Device.thy ===== *)
theory Video_Device
  imports Video_Convert
begin

text \<open>
  The camera side of the application (video2lcd/Test/video/v4l2.c and video_manager.c).  The device
  file is an argument: record \<open>camera\<close> has one function per system call, on the state \<open>'d\<close> of the
  driver; a result is the value the call returns, a fault is a crash of the driver.  The mapped buffers
  are read with PROT_READ and MAP_SHARED; a mapping is known by its number.
\<close>

section \<open>The device file\<close>

record 'd camera =
  cam_open :: "string \<Rightarrow> 'd \<Rightarrow> (int \<times> 'd) kres"
  cam_close :: "'d \<Rightarrow> 'd kres"
  cam_querycap :: "v4l2_capability \<Rightarrow> 'd \<Rightarrow> (int \<times> v4l2_capability \<times> 'd) kres"
  cam_enum_fmt :: "v4l2_fmtdesc \<Rightarrow> 'd \<Rightarrow> (int \<times> v4l2_fmtdesc \<times> 'd) kres"
  cam_s_fmt :: "v4l2_format \<Rightarrow> 'd \<Rightarrow> (int \<times> v4l2_format \<times> 'd) kres"
  cam_reqbufs :: "v4l2_requestbuffers \<Rightarrow> 'd \<Rightarrow> (int \<times> v4l2_requestbuffers \<times> 'd) kres"
  cam_querybuf :: "v4l2_buffer \<Rightarrow> 'd \<Rightarrow> (int \<times> v4l2_buffer \<times> 'd) kres"
  cam_mmap :: "u32 \<Rightarrow> u32 \<Rightarrow> 'd \<Rightarrow> (nat option \<times> 'd) kres"
  cam_munmap :: "nat \<Rightarrow> 'd \<Rightarrow> 'd kres"
  cam_mapped :: "nat \<Rightarrow> 'd \<Rightarrow> u8 list"
  cam_qbuf :: "v4l2_buffer \<Rightarrow> 'd \<Rightarrow> (int \<times> 'd) kres"
  cam_dqbuf :: "v4l2_buffer \<Rightarrow> 'd \<Rightarrow> (int \<times> v4l2_buffer \<times> 'd) kres"
  cam_poll :: "'d \<Rightarrow> (int \<times> 'd) kres"
  cam_read :: "int \<Rightarrow> 'd \<Rightarrow> (int \<times> u8 list \<times> 'd) kres"
  cam_streamon :: "'d \<Rightarrow> (int \<times> 'd) kres"
  cam_streamoff :: "'d \<Rightarrow> (int \<times> 'd) kres"

definition cap_zero :: v4l2_capability where
  "cap_zero = \<lparr>cap_driver = [], cap_card = [], cap_bus_info = [], cap_version = 0, cap_capabilities = 0, cap_device_caps = 0\<rparr>"

definition fmtdesc_zero :: v4l2_fmtdesc where
  "fmtdesc_zero = \<lparr>fd_index = 0, fd_type = 0, fd_flags = 0, fd_description = [], fd_pixelformat = 0\<rparr>"

section \<open>State\<close>

text \<open>
  A pointer to a frame: NULL, a mapping, the value of a failed mapping, or allocated memory.
\<close>

datatype frame_ptr = VNull | VMap nat | VFailed | VHeap "u8 list"

abbreviation (input) NB_BUFFER :: nat where "NB_BUFFER \<equiv> 4"

record video_device =
  iFd :: int
  dev_iPixelFormat :: u32
  dev_iWidth :: int
  dev_iHeight :: int
  iVideoBufCnt :: int
  iVideoBufMaxLen :: int
  iVideoBufCurIndex :: int
  pucVideBuf :: "frame_ptr list"

text \<open>
  Which of the two implementations the function pointers \<open>GetFrame\<close> and \<open>PutFrame\<close> name.
\<close>

datatype frame_io = ForStreaming | ForReadWrite

record video_opr =
  GetFrame_ptr :: frame_io
  PutFrame_ptr :: frame_io

record 'd capture =
  cam :: 'd
  dev :: video_device
  opr :: video_opr

definition g_tV4l2VideoOpr :: video_opr where
  "g_tV4l2VideoOpr = \<lparr>GetFrame_ptr = ForStreaming, PutFrame_ptr = ForStreaming\<rparr>"

definition set_frame_ptr :: "nat \<Rightarrow> frame_ptr \<Rightarrow> video_device \<Rightarrow> video_device kres" where
  "set_frame_ptr i p v = (if i < length (pucVideBuf v) then Inr (v\<lparr>pucVideBuf := (pucVideBuf v)[i := p]\<rparr>) else Inl OutOfBounds)"

definition get_frame_ptr :: "nat \<Rightarrow> video_device \<Rightarrow> frame_ptr kres" where
  "get_frame_ptr i v = (if i < length (pucVideBuf v) then Inr (pucVideBuf v ! i) else Inl OutOfBounds)"

section \<open>Initialisation\<close>

definition isSupportThisFormat :: "u32 \<Rightarrow> bool" where
  "isSupportThisFormat fmt \<longleftrightarrow> fmt \<in> set [V4L2_PIX_FMT_YUYV, V4L2_PIX_FMT_MJPEG, V4L2_PIX_FMT_RGB565]"

partial_function (option) enum_formats :: "'d camera \<Rightarrow> v4l2_fmtdesc \<Rightarrow> 'd capture \<Rightarrow> 'd capture kres option" where
  "enum_formats C tFmtDesc s =
     (case cam_enum_fmt C tFmtDesc (cam s) of
        Inl e \<Rightarrow> Some (Inl e)
      | Inr (iError, tFmtDesc, d) \<Rightarrow>
          if iError \<noteq> 0 then Some (Inr (s\<lparr>cam := d\<rparr>))
          else if isSupportThisFormat (fd_pixelformat tFmtDesc)
          then Some (Inr (s\<lparr>cam := d, dev := (dev s)\<lparr>dev_iPixelFormat := fd_pixelformat tFmtDesc\<rparr>\<rparr>))
          else enum_formats C (tFmtDesc\<lparr>fd_index := fd_index tFmtDesc + 1\<rparr>) (s\<lparr>cam := d\<rparr>))"

definition mmap_buffer :: "nat \<Rightarrow> v4l2_buffer" where
  "mmap_buffer i = 0\<lparr>b_index := of_nat i, b_type := V4L2_BUF_TYPE_VIDEO_CAPTURE, b_memory := V4L2_MEMORY_MMAP\<rparr>"

text \<open>
  The loops that map and queue the buffers; the flag tells whether the loop ran to its end.
\<close>

fun map_buffers :: "'d camera \<Rightarrow> nat list \<Rightarrow> 'd capture \<Rightarrow> (bool \<times> 'd capture) kres" where
  "map_buffers C [] s = Inr (True, s)"
| "map_buffers C (i # is) s =
     kbind (cam_querybuf C (mmap_buffer i) (cam s)) (\<lambda>(iError, tV4l2Buf, d).
       if iError \<noteq> 0 then Inr (False, s\<lparr>cam := d\<rparr>)
       else kbind (cam_mmap C (b_length tV4l2Buf) (b_m tV4l2Buf) d) (\<lambda>(m, d).
         kbind (set_frame_ptr i (case m of Some k \<Rightarrow> VMap k | None \<Rightarrow> VFailed) ((dev s)\<lparr>iVideoBufMaxLen := sint (b_length tV4l2Buf)\<rparr>)) (\<lambda>v.
           let s = s\<lparr>cam := d, dev := v\<rparr> in
           if m = None then Inr (False, s) else map_buffers C is s)))"

fun queue_buffers :: "'d camera \<Rightarrow> nat list \<Rightarrow> 'd capture \<Rightarrow> (bool \<times> 'd capture) kres" where
  "queue_buffers C [] s = Inr (True, s)"
| "queue_buffers C (i # is) s =
     kbind (cam_qbuf C (mmap_buffer i) (cam s)) (\<lambda>(iError, d).
       if iError \<noteq> 0 then Inr (False, s\<lparr>cam := d\<rparr>) else queue_buffers C is (s\<lparr>cam := d\<rparr>))"

definition err_exit :: "'d camera \<Rightarrow> 'd capture \<Rightarrow> (int \<times> 'd capture) kres" where
  "err_exit C s = kbind (cam_close C (cam s)) (\<lambda>d. Inr (- 1, s\<lparr>cam := d\<rparr>))"

text \<open>
  From VIDIOC_REQBUFS to the end.
\<close>

definition init_device_buffers ::
    "'d camera \<Rightarrow> (nat \<Rightarrow> int \<Rightarrow> u8 list option) \<Rightarrow> u32 \<Rightarrow> 'd capture \<Rightarrow> (int \<times> 'd capture) kres" where
  "init_device_buffers C malloc capabilities s =
     kbind (cam_reqbufs C \<lparr>rb_count = of_nat NB_BUFFER, rb_type = V4L2_BUF_TYPE_VIDEO_CAPTURE, rb_memory = V4L2_MEMORY_MMAP\<rparr> (cam s))
       (\<lambda>(iError, tV4l2ReqBuffs, d).
         if iError \<noteq> 0 then err_exit C (s\<lparr>cam := d\<rparr>)
         else
           let cnt = sint (rb_count tV4l2ReqBuffs);
               s = s\<lparr>cam := d, dev := (dev s)\<lparr>iVideoBufCnt := cnt\<rparr>\<rparr>
           in if capabilities AND V4L2_CAP_STREAMING \<noteq> 0 then
                kbind (map_buffers C [0..<nat cnt] s) (\<lambda>(ok, s).
                  if \<not> ok then err_exit C s
                  else kbind (queue_buffers C [0..<nat cnt] s) (\<lambda>(ok, s). if \<not> ok then err_exit C s else Inr (0, s)))
              else if capabilities AND V4L2_CAP_READWRITE \<noteq> 0 then
                let len = dev_iWidth (dev s) * dev_iHeight (dev s) * 4
                in kbind (set_frame_ptr 0 (case malloc 3 len of Some m \<Rightarrow> VHeap m | None \<Rightarrow> VNull)
                     ((dev s)\<lparr>iVideoBufCnt := 1, iVideoBufMaxLen := len\<rparr>)) (\<lambda>v.
                   Inr (0, s\<lparr>dev := v, opr := \<lparr>GetFrame_ptr = ForReadWrite, PutFrame_ptr = ForReadWrite\<rparr>\<rparr>))
              else Inr (0, s))"

text \<open>
  From the check of the format to the end; \<open>lcd\<close> is the resolution of the display.
\<close>

definition init_format ::
    "'d camera \<Rightarrow> int \<times> int \<Rightarrow> (nat \<Rightarrow> int \<Rightarrow> u8 list option) \<Rightarrow> u32 \<Rightarrow> 'd capture \<Rightarrow> (int \<times> 'd capture) kres" where
  "init_format C lcd malloc capabilities s =
     (if dev_iPixelFormat (dev s) = 0 then err_exit C s
      else
        let tV4l2Fmt = (0 :: v4l2_format)\<lparr>f_type := V4L2_BUF_TYPE_VIDEO_CAPTURE,
              f_pix := (f_pix (0 :: v4l2_format))\<lparr>pf_pixelformat := dev_iPixelFormat (dev s), pf_width := of_int (fst lcd), pf_height := of_int (snd lcd),
                pf_field := V4L2_FIELD_ANY\<rparr>\<rparr>
        in kbind (cam_s_fmt C tV4l2Fmt (cam s)) (\<lambda>(iError, tV4l2Fmt, d).
             let s = s\<lparr>cam := d\<rparr> in
             if iError \<noteq> 0 then err_exit C s
             else init_device_buffers C malloc capabilities
               (s\<lparr>dev := (dev s)\<lparr>dev_iWidth := sint (pf_width (f_pix tV4l2Fmt)), dev_iHeight := sint (pf_height (f_pix tV4l2Fmt))\<rparr>\<rparr>)))"

definition V4l2InitDevice ::
    "'d camera \<Rightarrow> int \<times> int \<Rightarrow> (nat \<Rightarrow> int \<Rightarrow> u8 list option) \<Rightarrow> string \<Rightarrow> 'd capture \<Rightarrow> (int \<times> 'd capture) kres option" where
  "V4l2InitDevice C lcd malloc strDevName s =
     (case cam_open C strDevName (cam s) of
        Inl e \<Rightarrow> Some (Inl e)
      | Inr (fd, d) \<Rightarrow>
          if fd < 0 then Some (Inr (- 1, s\<lparr>cam := d\<rparr>))
          else
            let s = s\<lparr>dev := (dev s)\<lparr>iFd := fd\<rparr>\<rparr> in
            (case kbind (cam_querycap C cap_zero d) (\<lambda>(iError, cap, d). cam_querycap C cap_zero d) of
              Inl e \<Rightarrow> Some (Inl e)
            | Inr (iError, cap, d) \<Rightarrow>
                let s = s\<lparr>cam := d\<rparr> in
                if iError \<noteq> 0 \<or> cap_capabilities cap AND V4L2_CAP_VIDEO_CAPTURE = 0 then Some (err_exit C s)
                else map_option (\<lambda>r. kbind r (init_format C lcd malloc (cap_capabilities cap)))
                  (enum_formats C (fmtdesc_zero\<lparr>fd_index := 0, fd_type := V4L2_BUF_TYPE_VIDEO_CAPTURE\<rparr>) s)))"

section \<open>Frames\<close>

fun unmap_buffers :: "'d camera \<Rightarrow> nat list \<Rightarrow> 'd capture \<Rightarrow> 'd capture kres" where
  "unmap_buffers C [] s = Inr s"
| "unmap_buffers C (i # is) s =
     kbind (get_frame_ptr i (dev s)) (\<lambda>p.
       if p = VNull then unmap_buffers C is s
       else kbind (case p of VMap k \<Rightarrow> cam_munmap C k (cam s) | _ \<Rightarrow> Inr (cam s)) (\<lambda>d.
         kbind (set_frame_ptr i VNull (dev s)) (\<lambda>v. unmap_buffers C is (s\<lparr>cam := d, dev := v\<rparr>))))"

definition V4l2ExitDevice :: "'d camera \<Rightarrow> 'd capture \<Rightarrow> (int \<times> 'd capture) kres" where
  "V4l2ExitDevice C s =
     kbind (unmap_buffers C [0..<nat (iVideoBufCnt (dev s))] s) (\<lambda>s. kbind (cam_close C (cam s)) (\<lambda>d. Inr (0, s\<lparr>cam := d\<rparr>)))"

definition format_bpp :: "u32 \<Rightarrow> int" where
  "format_bpp f = (if f = V4L2_PIX_FMT_YUYV then 16 else if f = V4L2_PIX_FMT_MJPEG then 0 else if f = V4L2_PIX_FMT_RGB565 then 16 else 0)"

text \<open>
  The frame that \<open>GetFrame\<close> returns; the driver does not touch the buffer until it is queued again.
\<close>

definition frame_buf :: "'d camera \<Rightarrow> 'd \<Rightarrow> video_device \<Rightarrow> int \<Rightarrow> frame_ptr \<Rightarrow> video_buf" where
  "frame_buf C d v n p =
     \<lparr>vbuf_pix = \<lparr>iWidth = dev_iWidth v, iHeight = dev_iHeight v, iBpp = format_bpp (dev_iPixelFormat v),
        iLineBytes = div8 (dev_iWidth v * format_bpp (dev_iPixelFormat v)), iTotalBytes = n,
        aucPixelDatas = (case p of VMap k \<Rightarrow> cam_mapped C k d | VHeap m \<Rightarrow> m | _ \<Rightarrow> [])\<rparr>,
      vbuf_ptr = (if p = VNull then PNull else PBlock), iPixelFormat = dev_iPixelFormat v\<rparr>"

definition V4l2GetFrameForStreaming :: "'d camera \<Rightarrow> video_buf \<Rightarrow> 'd capture \<Rightarrow> (int \<times> video_buf \<times> 'd capture) kres" where
  "V4l2GetFrameForStreaming C b s =
     kbind (cam_poll C (cam s)) (\<lambda>(iRet, d).
       if iRet \<le> 0 then Inr (- 1, b, s\<lparr>cam := d\<rparr>)
       else kbind (cam_dqbuf C ((0 :: v4l2_buffer)\<lparr>b_type := V4L2_BUF_TYPE_VIDEO_CAPTURE, b_memory := V4L2_MEMORY_MMAP\<rparr>) d)
         (\<lambda>(iRet, tV4l2Buf, d).
           if iRet < 0 then Inr (- 1, b, s\<lparr>cam := d\<rparr>)
           else
             let v = (dev s)\<lparr>iVideoBufCurIndex := sint (b_index tV4l2Buf)\<rparr>
             in kbind (get_frame_ptr (unat (b_index tV4l2Buf)) v) (\<lambda>p.
                  Inr (0, frame_buf C d v (sint (b_bytesused tV4l2Buf)) p, s\<lparr>cam := d, dev := v\<rparr>))))"

definition V4l2PutFrameForStreaming :: "'d camera \<Rightarrow> 'd capture \<Rightarrow> (int \<times> 'd capture) kres" where
  "V4l2PutFrameForStreaming C s =
     kbind (cam_qbuf C ((0 :: v4l2_buffer)\<lparr>b_index := of_int (iVideoBufCurIndex (dev s)), b_type := V4L2_BUF_TYPE_VIDEO_CAPTURE,
         b_memory := V4L2_MEMORY_MMAP\<rparr>) (cam s)) (\<lambda>(iError, d).
       Inr (if iError \<noteq> 0 then - 1 else 0, s\<lparr>cam := d\<rparr>))"

text \<open>
  \<open>read\<close> into NULL fails; otherwise the driver's bytes replace the start of the memory.
\<close>

definition V4l2GetFrameForReadWrite :: "'d camera \<Rightarrow> video_buf \<Rightarrow> 'd capture \<Rightarrow> (int \<times> video_buf \<times> 'd capture) kres" where
  "V4l2GetFrameForReadWrite C b s =
     kbind (get_frame_ptr 0 (dev s)) (\<lambda>p. case p of
       VHeap m \<Rightarrow>
         kbind (cam_read C (iVideoBufMaxLen (dev s)) (cam s)) (\<lambda>(iRet, bs, d).
           if iRet \<le> 0 then Inr (- 1, b, s\<lparr>cam := d\<rparr>)
           else kbind (put_at m 0 bs) (\<lambda>m. kbind (set_frame_ptr 0 (VHeap m) (dev s)) (\<lambda>v.
             Inr (0, frame_buf C d v iRet (VHeap m), s\<lparr>cam := d, dev := v\<rparr>))))
     | _ \<Rightarrow> Inr (- 1, b, s))"

definition V4l2PutFrameForReadWrite :: "'d capture \<Rightarrow> (int \<times> 'd capture) kres" where
  "V4l2PutFrameForReadWrite s = Inr (0, s)"

definition V4l2StartDevice :: "'d camera \<Rightarrow> 'd capture \<Rightarrow> (int \<times> 'd capture) kres" where
  "V4l2StartDevice C s = kbind (cam_streamon C (cam s)) (\<lambda>(iError, d). Inr (if iError \<noteq> 0 then - 1 else 0, s\<lparr>cam := d\<rparr>))"

definition V4l2StopDevice :: "'d camera \<Rightarrow> 'd capture \<Rightarrow> (int \<times> 'd capture) kres" where
  "V4l2StopDevice C s = kbind (cam_streamoff C (cam s)) (\<lambda>(iError, d). Inr (if iError \<noteq> 0 then - 1 else 0, s\<lparr>cam := d\<rparr>))"

definition V4l2GetFormat :: "'d capture \<Rightarrow> u32" where
  "V4l2GetFormat s = dev_iPixelFormat (dev s)"

definition GetFrame :: "'d camera \<Rightarrow> video_buf \<Rightarrow> 'd capture \<Rightarrow> (int \<times> video_buf \<times> 'd capture) kres" where
  "GetFrame C b s = (case GetFrame_ptr (opr s) of
     ForStreaming \<Rightarrow> V4l2GetFrameForStreaming C b s | ForReadWrite \<Rightarrow> V4l2GetFrameForReadWrite C b s)"

definition PutFrame :: "'d camera \<Rightarrow> 'd capture \<Rightarrow> (int \<times> 'd capture) kres" where
  "PutFrame C s = (case PutFrame_ptr (opr s) of
     ForStreaming \<Rightarrow> V4l2PutFrameForStreaming C s | ForReadWrite \<Rightarrow> V4l2PutFrameForReadWrite s)"

section \<open>The list of video modules\<close>

text \<open>
  The branch of the source for a second module names a type in place of the variable \<open>ptVideoOpr\<close>
  and is read with the variable; the program registers one module, \<open>v4l2\<close>.
\<close>

abbreviation (input) V4L2_OPR :: nat where "V4L2_OPR \<equiv> 0"

definition video_name :: "nat \<Rightarrow> string" where
  "video_name a = ''v4l2''"

definition RegisterVideoOpr :: "nat \<Rightarrow> registry \<Rightarrow> (int \<times> registry) option" where
  "RegisterVideoOpr a r = map_option (Pair 0) (register_node a r)"

definition GetVideoOpr :: "string \<Rightarrow> registry \<Rightarrow> nat option option" where
  "GetVideoOpr pcName r = lookup_node (\<lambda>a. video_name a = pcName) r"

definition V4l2Init :: "registry \<Rightarrow> (int \<times> registry) option" where
  "V4l2Init r = RegisterVideoOpr V4L2_OPR r"

definition VideoInit :: "registry \<Rightarrow> (int \<times> registry) option" where
  "VideoInit r = V4l2Init r"

partial_function (option) try_modules ::
    "('s \<Rightarrow> (int \<times> 's) kres option) \<Rightarrow> (nat \<Rightarrow> nat option) \<Rightarrow> nat option \<Rightarrow> 's \<Rightarrow> (int \<times> 's) kres option" where
  "try_modules InitDevice nx ptTmp s =
     (case ptTmp of
        None \<Rightarrow> Some (Inr (- 1, s))
      | Some a \<Rightarrow> Option.bind (InitDevice s) (\<lambda>r. case r of
            Inl e \<Rightarrow> Some (Inl e)
          | Inr (iError, s) \<Rightarrow> if iError = 0 then Some (Inr (0, s)) else try_modules InitDevice nx (nx a) s))"

definition VideoDeviceInit ::
    "'d camera \<Rightarrow> int \<times> int \<Rightarrow> (nat \<Rightarrow> int \<Rightarrow> u8 list option) \<Rightarrow> registry \<Rightarrow> string \<Rightarrow> 'd capture \<Rightarrow> (int \<times> 'd capture) kres option" where
  "VideoDeviceInit C lcd malloc r strDevName s = try_modules (V4l2InitDevice C lcd malloc strDevName) (reg_next r) (reg_head r) s"

end
