(* ===== verification/V4l2_Core.thy ===== *)
theory V4l2_Core
  imports Video_Device
begin

text \<open>
  The V4L2 layer of the kernel between an application and a driver
  (linux-3.4.2/drivers/media/video/v4l2-dev.c and v4l2-ioctl.c): the life of a device node, the file
  operations, the copy of an ioctl's argument and the dispatch to the driver's handlers.  The tables of
  handlers are records whose missing entries are \<open>None\<close>; they have the entries that the drivers of this
  repository fill in, every other entry of the kernel's tables is NULL in all of them.  No driver here
  sets a lock of its own, priorities, a control handler or a \<open>v4l2_device\<close>.
\<close>

section \<open>Commands and handlers\<close>

abbreviation (input) ENODEV :: int where "ENODEV \<equiv> 19"
abbreviation (input) ENOTTY :: int where "ENOTTY \<equiv> 25"
abbreviation (input) ERESTARTSYS :: int where "ERESTARTSYS \<equiv> 512"
abbreviation (input) ENOIOCTLCMD :: int where "ENOIOCTLCMD \<equiv> 515"
abbreviation (input) POLLHUP :: u32 where "POLLHUP \<equiv> 0x0010"

text \<open>
  A command with the structure its argument points to.
\<close>

datatype v4l2_cmd =
    VIDIOC_QUERYCAP (cmd_cap: v4l2_capability) | VIDIOC_ENUM_FMT (cmd_fmtdesc: v4l2_fmtdesc)
  | VIDIOC_G_FMT v4l2_format | VIDIOC_TRY_FMT v4l2_format | VIDIOC_S_FMT (cmd_format: v4l2_format)
  | VIDIOC_REQBUFS (cmd_reqbufs: v4l2_requestbuffers)
  | VIDIOC_QUERYBUF (cmd_buffer: v4l2_buffer) | VIDIOC_QBUF (cmd_buffer: v4l2_buffer) | is_DQBUF: VIDIOC_DQBUF (cmd_buffer: v4l2_buffer)
  | VIDIOC_STREAMON (cmd_type: u32) | VIDIOC_STREAMOFF (cmd_type: u32)
  | VIDIOC_QUERYCTRL v4l2_queryctrl | VIDIOC_G_CTRL v4l2_control | VIDIOC_S_CTRL v4l2_control

type_synonym ('d, 'a) handler = "'a \<Rightarrow> 'd \<Rightarrow> (int \<times> 'a \<times> 'd) kres"

record 'd v4l2_ioctl_ops =
  vidioc_querycap :: "('d, v4l2_capability) handler option"
  vidioc_enum_fmt_vid_cap :: "('d, v4l2_fmtdesc) handler option"
  vidioc_g_fmt_vid_cap :: "('d, v4l2_format) handler option"
  vidioc_try_fmt_vid_cap :: "('d, v4l2_format) handler option"
  vidioc_s_fmt_vid_cap :: "('d, v4l2_format) handler option"
  vidioc_reqbufs :: "('d, v4l2_requestbuffers) handler option"
  vidioc_querybuf :: "('d, v4l2_buffer) handler option"
  vidioc_qbuf :: "('d, v4l2_buffer) handler option"
  vidioc_dqbuf :: "('d, v4l2_buffer) handler option"
  vidioc_streamon :: "('d, u32) handler option"
  vidioc_streamoff :: "('d, u32) handler option"
  vidioc_queryctrl :: "('d, v4l2_queryctrl) handler option"
  vidioc_g_ctrl :: "('d, v4l2_control) handler option"
  vidioc_s_ctrl :: "('d, v4l2_control) handler option"

section \<open>Dispatch\<close>

definition check_fmt :: "'d v4l2_ioctl_ops \<Rightarrow> u32 \<Rightarrow> int" where
  "check_fmt ops type = (if type = V4L2_BUF_TYPE_VIDEO_CAPTURE \<and> vidioc_g_fmt_vid_cap ops \<noteq> None then 0 else - EINVAL)"

text \<open>
  Calling a handler that may be missing; \<open>K\<close> is the command.  The calls on formats turn a missing
  handler for a type into an invalid argument when the driver has a handler for another type; the calls
  on buffers check the type first.
\<close>

definition call_op :: "('a \<Rightarrow> v4l2_cmd) \<Rightarrow> ('d, 'a) handler option \<Rightarrow> 'a \<Rightarrow> 'd \<Rightarrow> (int \<times> v4l2_cmd \<times> 'd) kres" where
  "call_op K h p s = (case h of None \<Rightarrow> Inr (- ENOTTY, K p, s) | Some f \<Rightarrow> kbind (f p s) (\<lambda>(ret, p, s). Inr (ret, K p, s)))"

definition call_fmt :: "('a \<Rightarrow> v4l2_cmd) \<Rightarrow> ('d, 'a) handler option \<Rightarrow> u32 \<Rightarrow> 'a \<Rightarrow> 'd \<Rightarrow> (int \<times> v4l2_cmd \<times> 'd) kres" where
  "call_fmt K h type p s =
     kbind (if type = V4L2_BUF_TYPE_VIDEO_CAPTURE then call_op K h p s else Inr (- ENOTTY, K p, s))
       (\<lambda>(ret, c, s). Inr (if ret = - ENOTTY \<and> h \<noteq> None then - EINVAL else ret, c, s))"

definition call_buf ::
    "'d v4l2_ioctl_ops \<Rightarrow> ('a \<Rightarrow> v4l2_cmd) \<Rightarrow> ('d, 'a) handler option \<Rightarrow> u32 \<Rightarrow> 'a \<Rightarrow> 'd \<Rightarrow> (int \<times> v4l2_cmd \<times> 'd) kres" where
  "call_buf ops K h type p s =
     (if h \<noteq> None \<and> check_fmt ops type \<noteq> 0 then Inr (check_fmt ops type, K p, s) else call_op K h p s)"

definition LINUX_VERSION_CODE :: u32 where "LINUX_VERSION_CODE = 0x030402"

fun do_ioctl :: "'d v4l2_ioctl_ops \<Rightarrow> v4l2_cmd \<Rightarrow> 'd \<Rightarrow> (int \<times> v4l2_cmd \<times> 'd) kres" where
  "do_ioctl ops (VIDIOC_QUERYCAP cap) s =
     call_op VIDIOC_QUERYCAP (vidioc_querycap ops) (if vidioc_querycap ops = None then cap else cap\<lparr>cap_version := LINUX_VERSION_CODE\<rparr>) s"
| "do_ioctl ops (VIDIOC_ENUM_FMT f) s = call_fmt VIDIOC_ENUM_FMT (vidioc_enum_fmt_vid_cap ops) (fd_type f) f s"
| "do_ioctl ops (VIDIOC_G_FMT f) s = call_fmt VIDIOC_G_FMT (vidioc_g_fmt_vid_cap ops) (f_type f) f s"
| "do_ioctl ops (VIDIOC_TRY_FMT f) s = call_fmt VIDIOC_TRY_FMT (vidioc_try_fmt_vid_cap ops) (f_type f) f s"
| "do_ioctl ops (VIDIOC_S_FMT f) s =
     (if vidioc_s_fmt_vid_cap ops \<noteq> None \<and> f_type f \<noteq> V4L2_BUF_TYPE_VIDEO_CAPTURE then Inr (- EINVAL, VIDIOC_S_FMT f, s)
      else call_op VIDIOC_S_FMT (vidioc_s_fmt_vid_cap ops) f s)"
| "do_ioctl ops (VIDIOC_REQBUFS p) s = call_buf ops VIDIOC_REQBUFS (vidioc_reqbufs ops) (rb_type p) p s"
| "do_ioctl ops (VIDIOC_QUERYBUF p) s = call_buf ops VIDIOC_QUERYBUF (vidioc_querybuf ops) (b_type p) p s"
| "do_ioctl ops (VIDIOC_QBUF p) s = call_buf ops VIDIOC_QBUF (vidioc_qbuf ops) (b_type p) p s"
| "do_ioctl ops (VIDIOC_DQBUF p) s = call_buf ops VIDIOC_DQBUF (vidioc_dqbuf ops) (b_type p) p s"
| "do_ioctl ops (VIDIOC_STREAMON i) s = call_op VIDIOC_STREAMON (vidioc_streamon ops) i s"
| "do_ioctl ops (VIDIOC_STREAMOFF i) s = call_op VIDIOC_STREAMOFF (vidioc_streamoff ops) i s"
| "do_ioctl ops (VIDIOC_QUERYCTRL p) s = call_op VIDIOC_QUERYCTRL (vidioc_queryctrl ops) p s"
| "do_ioctl ops (VIDIOC_G_CTRL p) s = call_op VIDIOC_G_CTRL (vidioc_g_ctrl ops) p s"
| "do_ioctl ops (VIDIOC_S_CTRL p) s = call_op VIDIOC_S_CTRL (vidioc_s_ctrl ops) p s"

definition video_do_ioctl :: "'d v4l2_ioctl_ops option \<Rightarrow> v4l2_cmd \<Rightarrow> 'd \<Rightarrow> (int \<times> v4l2_cmd \<times> 'd) kres" where
  "video_do_ioctl ops cmd s = (case ops of None \<Rightarrow> Inr (- ENOTTY, cmd, s) | Some ops \<Rightarrow> do_ioctl ops cmd s)"

section \<open>The argument\<close>

text \<open>
  What \<open>copy_from_user\<close> and the zeroing that follows it leave of the caller's structure: only the
  input fields are read, and nothing for the command that only returns data.  A format is the only
  structure that does not fit into the 128 bytes on the stack.
\<close>

fun copy_in :: "v4l2_cmd \<Rightarrow> v4l2_cmd" where
  "copy_in (VIDIOC_QUERYCAP cap) = VIDIOC_QUERYCAP cap_zero"
| "copy_in (VIDIOC_ENUM_FMT f) = VIDIOC_ENUM_FMT (fmtdesc_zero\<lparr>fd_index := fd_index f, fd_type := fd_type f\<rparr>)"
| "copy_in (VIDIOC_G_FMT f) = VIDIOC_G_FMT (0\<lparr>f_type := f_type f\<rparr>)"
| "copy_in (VIDIOC_QUERYBUF p) = VIDIOC_QUERYBUF (p\<lparr>b_input := 0\<rparr>)"
| "copy_in (VIDIOC_QUERYCTRL p) = VIDIOC_QUERYCTRL \<lparr>qc_id = qc_id p, qc_type = 0, qc_name = [], qc_minimum = 0, qc_maximum = 0, qc_step = 0,
     qc_default_value = 0, qc_flags = 0\<rparr>"
| "copy_in (VIDIOC_G_CTRL p) = VIDIOC_G_CTRL (p\<lparr>c_value := 0\<rparr>)"
| "copy_in cmd = cmd"

fun ioc_write :: "v4l2_cmd \<Rightarrow> bool" where
  "ioc_write (VIDIOC_QUERYCAP cap) = False"
| "ioc_write cmd = True"

fun ioc_read :: "v4l2_cmd \<Rightarrow> bool" where
  "ioc_read (VIDIOC_STREAMON i) = False"
| "ioc_read (VIDIOC_STREAMOFF i) = False"
| "ioc_read cmd = True"

fun needs_kmalloc :: "v4l2_cmd \<Rightarrow> bool" where
  "needs_kmalloc (VIDIOC_G_FMT f) = True"
| "needs_kmalloc (VIDIOC_TRY_FMT f) = True"
| "needs_kmalloc (VIDIOC_S_FMT f) = True"
| "needs_kmalloc cmd = False"

text \<open>
  A buffer of a multi-planar type has an array of planes, which is copied as well.
\<close>

fun buffer_arg :: "v4l2_cmd \<Rightarrow> v4l2_buffer option" where
  "buffer_arg (VIDIOC_QUERYBUF p) = Some p"
| "buffer_arg (VIDIOC_QBUF p) = Some p"
| "buffer_arg (VIDIOC_DQBUF p) = Some p"
| "buffer_arg cmd = None"

fun set_planes :: "u32 \<Rightarrow> v4l2_cmd \<Rightarrow> v4l2_cmd" where
  "set_planes a (VIDIOC_QUERYBUF p) = VIDIOC_QUERYBUF (p\<lparr>b_m := a\<rparr>)"
| "set_planes a (VIDIOC_QBUF p) = VIDIOC_QBUF (p\<lparr>b_m := a\<rparr>)"
| "set_planes a (VIDIOC_DQBUF p) = VIDIOC_DQBUF (p\<lparr>b_m := a\<rparr>)"
| "set_planes a cmd = cmd"

definition check_array_args :: "v4l2_cmd \<Rightarrow> int" where
  "check_array_args cmd = (case buffer_arg cmd of
     Some buf \<Rightarrow> if b_type buf \<in> {9, 10} \<and> 0 < b_length buf then if 8 < b_length buf then - EINVAL else 1 else 0
   | None \<Rightarrow> 0)"

text \<open>
  \<open>kmalloc_ok\<close>, \<open>from_ok\<close> and \<open>planes_ok\<close> tell whether the allocation and the copies of the structure
  and of the planes into the kernel succeed, \<open>planes_back\<close> whether the planes can be copied back;
  \<open>to_fault\<close> is what a failing copy of the structure to the caller leaves there; \<open>kmem_addr\<close> is the
  address of the allocated memory.
\<close>

record user_copy =
  kmalloc_ok :: bool
  from_ok :: bool
  planes_ok :: bool
  planes_back :: bool
  to_fault :: "v4l2_cmd option"
  kmem_addr :: u32

definition copy_out :: "user_copy \<Rightarrow> v4l2_cmd \<Rightarrow> int \<Rightarrow> v4l2_cmd \<Rightarrow> int \<times> v4l2_cmd" where
  "copy_out U arg err parg =
     (if ioc_read arg then case to_fault U of None \<Rightarrow> (err, parg) | Some x \<Rightarrow> (- EFAULT, x) else (err, arg))"

definition video_usercopy :: "user_copy \<Rightarrow> ('d, v4l2_cmd) handler \<Rightarrow> ('d, v4l2_cmd) handler" where
  "video_usercopy U func arg s =
     (let parg = copy_in arg; no_cmd = (\<lambda>err. if err = - ENOIOCTLCMD then - ENOTTY else err) in
      if needs_kmalloc arg \<and> \<not> kmalloc_ok U then Inr (- ENOMEM, arg, s)
      else if ioc_write arg \<and> \<not> from_ok U then Inr (- EFAULT, arg, s)
      else if check_array_args parg < 0 then Inr (check_array_args parg, arg, s)
      else if check_array_args parg \<noteq> 0 then
        let user_ptr = (case buffer_arg parg of Some buf \<Rightarrow> b_m buf | None \<Rightarrow> 0) in
        if \<not> kmalloc_ok U then case copy_out U arg (- ENOMEM) parg of (err, arg) \<Rightarrow> Inr (err, arg, s)
        else if \<not> planes_ok U then case copy_out U arg (- EFAULT) parg of (err, arg) \<Rightarrow> Inr (err, arg, s)
        else kbind (func (set_planes (kmem_addr U) parg) s) (\<lambda>(err, parg, s).
          case copy_out U arg (if planes_back U then no_cmd err else - EFAULT) (set_planes user_ptr parg) of (err, arg) \<Rightarrow> Inr (err, arg, s))
      else kbind (func parg s) (\<lambda>(err, parg, s).
        if no_cmd err < 0 then Inr (no_cmd err, arg, s)
        else case copy_out U arg (no_cmd err) parg of (err, arg) \<Rightarrow> Inr (err, arg, s)))"

definition video_ioctl2 :: "user_copy \<Rightarrow> 'd v4l2_ioctl_ops option \<Rightarrow> ('d, v4l2_cmd) handler" where
  "video_ioctl2 U ops = video_usercopy U (video_do_ioctl ops)"

section \<open>The device node\<close>

text \<open>
  A registered device is held by its registration and by every open file.  \<open>vd_slot\<close> tells that the
  table of active devices points to the structure, which is where a system call finds it, \<open>vd_alive\<close>
  that its memory has not been freed.  Dropping the last reference clears the slot and calls the
  driver's release function.
\<close>

record vdev_node =
  vd_ref :: nat
  vd_registered :: bool
  vd_slot :: bool
  vd_alive :: bool

record 'd vsys =
  vs_node :: vdev_node
  vs_drv :: 'd

record 'd v4l2_file_operations =
  fop_open :: "('d \<Rightarrow> (int \<times> 'd) kres) option"
  fop_release :: "('d \<Rightarrow> (int \<times> 'd) kres) option"
  fop_read :: "(int \<Rightarrow> 'd \<Rightarrow> (int \<times> u8 list \<times> 'd) kres) option"
  fop_poll :: "('d \<Rightarrow> (u32 \<times> 'd) kres) option"
  fop_ioctl :: "('d, v4l2_cmd) handler option"
  fop_unlocked_ioctl :: "('d, v4l2_cmd) handler option"
  fop_mmap :: "('d, vm_area) handler option"

record 'd vdev =
  vdev_fops :: "'d v4l2_file_operations"
  vdev_release :: "'d \<Rightarrow> 'd kres"

definition video_device_alloc :: vdev_node where
  "video_device_alloc = \<lparr>vd_ref = 0, vd_registered = False, vd_slot = False, vd_alive = True\<rparr>"

definition video_register_device :: "vdev_node \<Rightarrow> vdev_node" where
  "video_register_device n = n\<lparr>vd_ref := 1, vd_registered := True, vd_slot := True\<rparr>"

definition video_get :: "'d vsys \<Rightarrow> 'd vsys" where
  "video_get s = s\<lparr>vs_node := (vs_node s)\<lparr>vd_ref := vd_ref (vs_node s) + 1\<rparr>\<rparr>"

definition v4l2_device_release :: "'d vdev \<Rightarrow> 'd vsys \<Rightarrow> 'd vsys kres" where
  "v4l2_device_release V s =
     kbind (vdev_release V (vs_drv s)) (\<lambda>d. Inr \<lparr>vs_node = (vs_node s)\<lparr>vd_slot := False\<rparr>, vs_drv = d\<rparr>)"

definition video_put :: "'d vdev \<Rightarrow> 'd vsys \<Rightarrow> 'd vsys kres" where
  "video_put V s =
     (if \<not> vd_alive (vs_node s) then Inl UseAfterFree
      else let s' = s\<lparr>vs_node := (vs_node s)\<lparr>vd_ref := vd_ref (vs_node s) - 1\<rparr>\<rparr>
           in if vd_ref (vs_node s') = 0 then v4l2_device_release V s' else Inr s')"

definition video_unregister_device :: "'d vdev \<Rightarrow> 'd vsys \<Rightarrow> 'd vsys kres" where
  "video_unregister_device V s =
     (if \<not> vd_alive (vs_node s) then Inl UseAfterFree
      else if \<not> vd_registered (vs_node s) then Inr s
      else video_put V (s\<lparr>vs_node := (vs_node s)\<lparr>vd_registered := False\<rparr>\<rparr>))"

definition video_device_release :: "'d vsys \<Rightarrow> 'd vsys kres" where
  "video_device_release s =
     (if vd_alive (vs_node s) then Inr (s\<lparr>vs_node := (vs_node s)\<lparr>vd_alive := False\<rparr>\<rparr>) else Inl UseAfterFree)"

section \<open>File operations\<close>

text \<open>
  \<open>on_vdev\<close> is the access to the structure that \<open>video_devdata\<close> finds.
\<close>

definition on_vdev :: "'d vsys \<Rightarrow> 'a kres \<Rightarrow> 'a kres" where
  "on_vdev s r = (if \<not> vd_slot (vs_node s) then Inl NullDeref else if \<not> vd_alive (vs_node s) then Inl UseAfterFree else r)"

definition v4l2_open :: "'d vdev \<Rightarrow> 'd vsys \<Rightarrow> (int \<times> 'd vsys) kres" where
  "v4l2_open V s =
     (if \<not> vd_slot (vs_node s) then Inr (- ENODEV, s)
      else on_vdev s (
        if \<not> vd_registered (vs_node s) then Inr (- ENODEV, s)
        else let s = video_get s in
          case fop_open (vdev_fops V) of
            None \<Rightarrow> Inr (0, s)
          | Some f \<Rightarrow> kbind (f (vs_drv s)) (\<lambda>(ret, d).
              if ret = 0 then Inr (0, s\<lparr>vs_drv := d\<rparr>) else kbind (video_put V (s\<lparr>vs_drv := d\<rparr>)) (\<lambda>s. Inr (ret, s)))))"

definition v4l2_release :: "'d vdev \<Rightarrow> 'd vsys \<Rightarrow> (int \<times> 'd vsys) kres" where
  "v4l2_release V s =
     on_vdev s (kbind (case fop_release (vdev_fops V) of None \<Rightarrow> Inr (0, vs_drv s) | Some f \<Rightarrow> f (vs_drv s)) (\<lambda>(ret, d).
       kbind (video_put V (s\<lparr>vs_drv := d\<rparr>)) (\<lambda>s. Inr (0, s))))"

definition v4l2_read :: "'d vdev \<Rightarrow> int \<Rightarrow> 'd vsys \<Rightarrow> (int \<times> u8 list \<times> 'd vsys) kres" where
  "v4l2_read V sz s =
     on_vdev s (case fop_read (vdev_fops V) of
       None \<Rightarrow> Inr (- EINVAL, [], s)
     | Some f \<Rightarrow> if vd_registered (vs_node s) then kbind (f sz (vs_drv s)) (\<lambda>(ret, bs, d). Inr (ret, bs, s\<lparr>vs_drv := d\<rparr>))
         else Inr (- ENODEV, [], s))"

definition DEFAULT_POLLMASK :: u32 where
  "DEFAULT_POLLMASK = POLLIN OR POLLOUT OR POLLRDNORM OR POLLWRNORM"

definition v4l2_poll :: "'d vdev \<Rightarrow> 'd vsys \<Rightarrow> (u32 \<times> 'd vsys) kres" where
  "v4l2_poll V s =
     on_vdev s (case fop_poll (vdev_fops V) of
       None \<Rightarrow> Inr (DEFAULT_POLLMASK, s)
     | Some f \<Rightarrow> if vd_registered (vs_node s) then kbind (f (vs_drv s)) (\<lambda>(m, d). Inr (m, s\<lparr>vs_drv := d\<rparr>))
         else Inr (POLLERR OR POLLHUP, s))"

text \<open>
  \<open>signal\<close> tells that a signal arrives while the call waits for the lock that all ioctls but
  VIDIOC_DQBUF take.
\<close>

definition v4l2_ioctl :: "'d vdev \<Rightarrow> bool \<Rightarrow> v4l2_cmd \<Rightarrow> 'd vsys \<Rightarrow> (int \<times> v4l2_cmd \<times> 'd vsys) kres" where
  "v4l2_ioctl V signal cmd s =
     (let run = (\<lambda>f. if vd_registered (vs_node s) then kbind (f cmd (vs_drv s)) (\<lambda>(ret, cmd, d). Inr (ret, cmd, s\<lparr>vs_drv := d\<rparr>))
            else Inr (- ENODEV, cmd, s))
      in on_vdev s (case fop_unlocked_ioctl (vdev_fops V) of
           Some f \<Rightarrow> run f
         | None \<Rightarrow> (case fop_ioctl (vdev_fops V) of
             Some f \<Rightarrow> if \<not> is_DQBUF cmd \<and> signal then Inr (- ERESTARTSYS, cmd, s) else run f
           | None \<Rightarrow> Inr (- ENOTTY, cmd, s))))"

definition v4l2_mmap :: "'d vdev \<Rightarrow> vm_area \<Rightarrow> 'd vsys \<Rightarrow> (int \<times> vm_area \<times> 'd vsys) kres" where
  "v4l2_mmap V vma s =
     on_vdev s (case fop_mmap (vdev_fops V) of
       None \<Rightarrow> Inr (- ENODEV, vma, s)
     | Some f \<Rightarrow> if vd_registered (vs_node s) then kbind (f vma (vs_drv s)) (\<lambda>(ret, vma, d). Inr (ret, vma, s\<lparr>vs_drv := d\<rparr>))
         else Inr (- ENODEV, vma, s))"

section \<open>The device file of an application\<close>

text \<open>
  A system call returns the result of the file operation, or -1 when that is an error.  A call
  interrupted by a signal is started again.  A mapping with PROT_READ and MAP_SHARED has the flags
  VM_READ and VM_SHARED; unmapping calls the driver's \<open>vma_close\<close>, and \<open>contents\<close> are the bytes of a
  mapping.  \<open>fd\<close> is the file descriptor, \<open>addr\<close> the address where the kernel puts a mapping, \<open>sleep\<close>
  what the driver does while the application waits in \<open>poll\<close> or \<open>read\<close>.
\<close>

definition sys_ret :: "int \<Rightarrow> int" where
  "sys_ret r = (if r < 0 then - 1 else r)"

definition app_vma :: "u32 \<Rightarrow> u32 \<Rightarrow> u32 \<Rightarrow> vm_area" where
  "app_vma addr len off = \<lparr>vm_start = addr, vm_end = addr + PAGE_ALIGN len, vm_pgoff = drop_bit 12 off, vm_flags = VM_READ OR VM_SHARED,
     vm_ops = False, vm_private_data = None\<rparr>"

definition wait_for :: "('d \<Rightarrow> 'd kres) \<Rightarrow> 'd vsys \<Rightarrow> 'd vsys kres" where
  "wait_for sleep s = kbind (sleep (vs_drv s)) (\<lambda>d. Inr (s\<lparr>vs_drv := d\<rparr>))"

definition sys_ioctl :: "'d vdev \<Rightarrow> ('a \<Rightarrow> v4l2_cmd) \<Rightarrow> (v4l2_cmd \<Rightarrow> 'a) \<Rightarrow> 'a \<Rightarrow> 'd vsys \<Rightarrow> (int \<times> 'a \<times> 'd vsys) kres" where
  "sys_ioctl V K arg p s = kbind (v4l2_ioctl V False (K p) s) (\<lambda>(r, c, s). Inr (sys_ret r, arg c, s))"

definition sys_poll :: "'d vdev \<Rightarrow> ('d \<Rightarrow> 'd kres) \<Rightarrow> 'd vsys \<Rightarrow> (int \<times> 'd vsys) kres" where
  "sys_poll V sleep s =
     (let ready = (\<lambda>m. m AND (POLLIN OR POLLERR OR POLLHUP) \<noteq> 0) in
      kbind (v4l2_poll V s) (\<lambda>(m, s).
        if ready m then Inr (1, s)
        else kbind (wait_for sleep s) (\<lambda>s. kbind (v4l2_poll V s) (\<lambda>(m, s). Inr (if ready m then 1 else 0, s)))))"

definition v4l2_camera ::
    "'d vdev \<Rightarrow> (nat \<Rightarrow> 'd \<Rightarrow> 'd kres) \<Rightarrow> (nat \<Rightarrow> 'd \<Rightarrow> u8 list) \<Rightarrow> nat \<Rightarrow> u32 \<Rightarrow> ('d \<Rightarrow> 'd kres) \<Rightarrow> 'd vsys camera" where
  "v4l2_camera V vma_close contents fd addr sleep = \<lparr>
     cam_open = (\<lambda>name s. kbind (v4l2_open V s) (\<lambda>(r, s). Inr (if r = 0 then int fd else - 1, s))),
     cam_close = (\<lambda>s. kbind (v4l2_release V s) (\<lambda>(r, s). Inr s)),
     cam_querycap = sys_ioctl V VIDIOC_QUERYCAP cmd_cap,
     cam_enum_fmt = sys_ioctl V VIDIOC_ENUM_FMT cmd_fmtdesc,
     cam_s_fmt = sys_ioctl V VIDIOC_S_FMT cmd_format,
     cam_reqbufs = sys_ioctl V VIDIOC_REQBUFS cmd_reqbufs,
     cam_querybuf = sys_ioctl V VIDIOC_QUERYBUF cmd_buffer,
     cam_mmap = (\<lambda>len off s. kbind (v4l2_mmap V (app_vma addr len off) s) (\<lambda>(r, vma, s). Inr (if r < 0 then None else vm_private_data vma, s))),
     cam_munmap = (\<lambda>k s. kbind (vma_close k (vs_drv s)) (\<lambda>d. Inr (s\<lparr>vs_drv := d\<rparr>))),
     cam_mapped = (\<lambda>k s. contents k (vs_drv s)),
     cam_qbuf = (\<lambda>b s. kbind (sys_ioctl V VIDIOC_QBUF cmd_buffer b s) (\<lambda>(r, b, s). Inr (r, s))),
     cam_dqbuf = sys_ioctl V VIDIOC_DQBUF cmd_buffer,
     cam_poll = sys_poll V sleep,
     cam_read = (\<lambda>n s. kbind (wait_for sleep s) (\<lambda>s. kbind (v4l2_read V n s) (\<lambda>(r, bs, s). Inr (sys_ret r, bs, s)))),
     cam_streamon = (\<lambda>s. kbind (sys_ioctl V VIDIOC_STREAMON cmd_type V4L2_BUF_TYPE_VIDEO_CAPTURE s) (\<lambda>(r, i, s). Inr (r, s))),
     cam_streamoff = (\<lambda>s. kbind (sys_ioctl V VIDIOC_STREAMOFF cmd_type V4L2_BUF_TYPE_VIDEO_CAPTURE s) (\<lambda>(r, i, s). Inr (r, s)))\<rparr>"

end
