(* ===== verification/Float32.thy ===== *)
theory Float32
  imports Complex_Main "HOL-Library.Log_Nat"
begin

text \<open>
  Single precision arithmetic (C type \<open>float\<close>) as \<open>main\<close> of the camera application uses it: the value
  of an operation is the exact result rounded to 24 significant bits, to nearest with ties to even.
  A finite number is a rational number; the smallest positive one is \<open>1 / 2 ^ 149\<close>.  Overflow to
  infinity needs values above \<open>2 ^ 127\<close>, which quotients and products of picture sizes do not reach.
\<close>

section \<open>Rounding\<close>

definition rne :: "rat \<Rightarrow> int" where
  "rne y = (let f = \<lfloor>y\<rfloor>; r = y - of_int f
     in if r < 1 / 2 then f else if r > 1 / 2 then f + 1 else if even f then f else f + 1)"

text \<open>
  Rounding of a non-negative multiple \<open>y\<close> of the smallest number: \<open>s\<close> low bits are dropped.
\<close>

definition low_bits :: "rat \<Rightarrow> nat" where
  "low_bits y = floorlog 2 (nat \<lfloor>y\<rfloor>) - 24"

definition round24 :: "rat \<Rightarrow> rat" where
  "round24 y = of_int (rne (y / 2 ^ low_bits y)) * 2 ^ low_bits y"

definition fl :: "rat \<Rightarrow> rat" where
  "fl x = (if x < 0 then - (round24 (- x * 2 ^ 149) / 2 ^ 149) else round24 (x * 2 ^ 149) / 2 ^ 149)"

text \<open>
  Conversions from and to \<open>int\<close>; the latter rounds towards zero.
\<close>

definition float_of :: "int \<Rightarrow> rat" where
  "float_of i = fl (of_int i)"

definition int_of :: "rat \<Rightarrow> int" where
  "int_of x = (if x < 0 then - \<lfloor>- x\<rfloor> else \<lfloor>x\<rfloor>)"

section \<open>Monotonicity\<close>

lemma rne_bounds: "\<lfloor>y\<rfloor> \<le> rne y" "rne y \<le> \<lfloor>y\<rfloor> + 1"
  by (auto simp: rne_def Let_def)

lemma rne_of_int [simp]: "rne (of_int i) = i"
  by (simp add: rne_def)

lemma rne_mono:
  assumes "y \<le> z"
  shows "rne y \<le> rne z"
proof (cases "\<lfloor>y\<rfloor> = \<lfloor>z\<rfloor>")
  case True
  then show ?thesis using assms by (auto simp: rne_def Let_def)
next
  case False
  then have "\<lfloor>y\<rfloor> + 1 \<le> \<lfloor>z\<rfloor>" using floor_mono [OF assms] by linarith
  then show ?thesis using rne_bounds [of y] rne_bounds [of z] by linarith
qed

lemma rne_int_bounds: "of_int i \<le> y \<Longrightarrow> i \<le> rne y" "y \<le> of_int i \<Longrightarrow> rne y \<le> i"
  using rne_mono [of "of_int i" y] rne_mono [of y "of_int i"] by simp_all

lemma low_bits_mono: "y \<le> z \<Longrightarrow> low_bits y \<le> low_bits z"
  unfolding low_bits_def by (intro diff_le_mono floorlog_mono nat_mono floor_mono)

lemma low_bits_upper: "y < 2 ^ (low_bits y + 24)" if "0 \<le> y"
proof -
  have "nat \<lfloor>y\<rfloor> < 2 ^ floorlog 2 (nat \<lfloor>y\<rfloor>)"
    using floorlog_bounds [of "nat \<lfloor>y\<rfloor>" 2] by (cases "nat \<lfloor>y\<rfloor> = 0") auto
  also have "\<dots> \<le> 2 ^ (low_bits y + 24)" unfolding low_bits_def by (intro power_increasing) auto
  finally have "int (nat \<lfloor>y\<rfloor>) < int (2 ^ (low_bits y + 24))" by (simp only: of_nat_less_iff)
  then have "\<lfloor>y\<rfloor> < 2 ^ (low_bits y + 24)" using that by simp
  then have "\<lfloor>y\<rfloor> + 1 \<le> 2 ^ (low_bits y + 24)" by simp
  then have "(of_int (\<lfloor>y\<rfloor> + 1) :: rat) \<le> of_int (2 ^ (low_bits y + 24))" by (simp only: of_int_le_iff)
  then show ?thesis by simp linarith
qed

lemma low_bits_lower: "2 ^ (low_bits y + 23) \<le> y" if "0 < low_bits y"
proof -
  let ?n = "nat \<lfloor>y\<rfloor>"
  have l: "24 < floorlog 2 ?n" using that by (simp add: low_bits_def)
  then have "0 < ?n" by (cases "?n = 0") (auto simp: floorlog_def)
  then have "2 ^ (floorlog 2 ?n - 1) \<le> ?n" using floorlog_bounds [of ?n 2] by simp
  moreover have "floorlog 2 ?n - 1 = low_bits y + 23" using l by (simp add: low_bits_def)
  ultimately have "2 ^ (low_bits y + 23) \<le> ?n" by simp
  then have "int (2 ^ (low_bits y + 23)) \<le> \<lfloor>y\<rfloor>" using \<open>0 < ?n\<close> by linarith
  then have "(of_int (2 ^ (low_bits y + 23)) :: rat) \<le> y" by (simp add: le_floor_iff)
  then show ?thesis by simp
qed

lemma round24_upper: "round24 y \<le> 2 ^ (low_bits y + 24)" if "0 \<le> y"
proof -
  have "y / 2 ^ low_bits y \<le> of_int (2 ^ 24)"
    using low_bits_upper [OF that] by (simp add: field_simps power_add)
  then have "rne (y / 2 ^ low_bits y) \<le> 2 ^ 24" by (rule rne_int_bounds)
  then have "(of_int (rne (y / 2 ^ low_bits y)) :: rat) \<le> of_int (2 ^ 24)" by (simp only: of_int_le_iff)
  then show ?thesis by (simp add: round24_def power_add mult.commute)
qed

lemma round24_lower: "2 ^ (low_bits y + 23) \<le> round24 y" if "0 < low_bits y"
proof -
  have "of_int (2 ^ 23) \<le> y / 2 ^ low_bits y"
    using low_bits_lower [OF that] by (simp add: field_simps power_add)
  then have "2 ^ 23 \<le> rne (y / 2 ^ low_bits y)" by (rule rne_int_bounds)
  then have "(of_int (2 ^ 23) :: rat) \<le> of_int (rne (y / 2 ^ low_bits y))" by (simp only: of_int_le_iff)
  then show ?thesis by (simp add: round24_def power_add mult.commute)
qed

lemma round24_mono:
  assumes "0 \<le> y" "y \<le> z"
  shows "round24 y \<le> round24 z"
proof (cases "low_bits y = low_bits z")
  case True
  have "rne (y / 2 ^ low_bits z) \<le> rne (z / 2 ^ low_bits z)" using assms by (intro rne_mono divide_right_mono) auto
  then show ?thesis using True by (simp add: round24_def)
next
  case False
  then have lt: "low_bits y < low_bits z" using low_bits_mono [OF assms(2)] by simp
  have "round24 y \<le> 2 ^ (low_bits y + 24)" by (rule round24_upper [OF assms(1)])
  also have "\<dots> \<le> 2 ^ (low_bits z + 23)" using lt by (intro power_increasing) auto
  also have "\<dots> \<le> round24 z" using lt by (intro round24_lower) simp
  finally show ?thesis .
qed

text \<open>
  Integers of 24 bits are exact.
\<close>

lemma round24_int:
  assumes "i < 2 ^ 24"
  shows "round24 (of_nat i * 2 ^ 149) = of_nat i * 2 ^ 149"
proof (cases "i = 0")
  case True
  then show ?thesis by (simp add: round24_def rne_def)
next
  case False
  have fl: "floorlog 2 i \<le> 24"
  proof (rule ccontr)
    assume "\<not> ?thesis"
    then have "(2 :: nat) ^ 24 \<le> 2 ^ (floorlog 2 i - 1)" by (intro power_increasing) auto
    then show False using floorlog_bounds [of i 2] False assms by simp
  qed
  have "\<lfloor>(of_nat i * 2 ^ 149 :: rat)\<rfloor> = int (i * 2 ^ 149)"
    by (metis floor_of_nat of_nat_mult of_nat_numeral of_nat_power)
  then have "low_bits (of_nat i * 2 ^ 149) = floorlog 2 i + 125" using False by (simp only: low_bits_def nat_int floorlog_power)
  moreover have "(of_nat i * 2 ^ 149 :: rat) / 2 ^ (floorlog 2 i + 125) = of_int (int (i * 2 ^ (24 - floorlog 2 i)))"
  proof -
    have e: "(2 :: rat) ^ 149 = 2 ^ (24 - floorlog 2 i) * 2 ^ (floorlog 2 i + 125)" using fl by (simp flip: power_add)
    have "a * (b * c) / c = a * b" if "c \<noteq> 0" for a b c :: rat using that by simp
    then have "(of_nat i * 2 ^ 149 :: rat) / 2 ^ (floorlog 2 i + 125) = of_nat i * 2 ^ (24 - floorlog 2 i)" unfolding e by simp
    then show ?thesis by simp
  qed
  ultimately show ?thesis unfolding round24_def
    by (metis divide_eq_eq of_int_of_nat_eq power_not_zero rne_of_int zero_neq_numeral)
qed

lemma fl_nonneg: "0 \<le> x \<Longrightarrow> 0 \<le> fl x"
  using round24_mono [of 0 "x * 2 ^ 149"] round24_int [of 0] by (simp add: fl_def)

lemma fl_mono:
  assumes "0 \<le> x" "x \<le> y"
  shows "fl x \<le> fl y"
proof -
  have "x * 2 ^ 149 \<le> y * 2 ^ 149" using assms(2) by (rule mult_right_mono) simp
  then have "round24 (x * 2 ^ 149) \<le> round24 (y * 2 ^ 149)" using assms(1) by (intro round24_mono) simp_all
  then show ?thesis using assms by (simp add: fl_def divide_right_mono)
qed

lemma fl_int: "0 \<le> i \<Longrightarrow> i < 2 ^ 24 \<Longrightarrow> fl (of_int i) = of_int i"
  using round24_int [of "nat i"] by (simp add: fl_def)

lemma float_of_int: "0 \<le> i \<Longrightarrow> i < 2 ^ 24 \<Longrightarrow> float_of i = of_int i"
  by (simp add: float_of_def fl_int)

lemma int_of_bounds:
  assumes "0 \<le> i" "i < 2 ^ 24" "0 \<le> x"
  shows "x \<le> of_int i \<Longrightarrow> int_of (fl x) \<le> i" "of_int i \<le> x \<Longrightarrow> i \<le> int_of (fl x)"
proof -
  have nn: "\<not> fl x < 0" using fl_nonneg [OF assms(3)] by simp
  show "int_of (fl x) \<le> i" if "x \<le> of_int i"
    using fl_mono [OF assms(3) that] fl_int [OF assms(1,2)] nn by (simp add: int_of_def floor_le_iff)
  show "i \<le> int_of (fl x)" if "of_int i \<le> x"
    using fl_mono [OF _ that] fl_int [OF assms(1,2)] assms(1) nn by (simp add: int_of_def le_floor_iff)
qed

end
