(* ===== verification/Video2lcd.thy ===== *)
theory Video2lcd
  imports Video_Device Display Float32
begin

text \<open>
  The camera application (video2lcd/Test/main.c): it shows the frames of a camera on the framebuffer.
  The functions of display/disp_manager.c and display/fb.c are those of the viewer (theory \<open>Display\<close>)
  but for the ones below; merge.c and zoom.c are the same files (theory \<open>Pixels\<close>).  The pixels of
  \<open>tFrameBuf\<close> are the mapped memory of the framebuffer.
\<close>

section \<open>Display\<close>

definition GetVideoBufForDisplay :: "display \<Rightarrow> video_buf kres" where
  "GetVideoBufForDisplay d =
     kbind (deref (g_ptDefaultDispOpr d)) (\<lambda>_.
       let f = g_tFBOpr d in
       Inr \<lparr>vbuf_pix = \<lparr>iWidth = iXres f, iHeight = iYres f, iBpp = disp_iBpp f, iLineBytes = iLineWidth f,
              iTotalBytes = iLineWidth f * iYres f, aucPixelDatas = []\<rparr>,
            vbuf_ptr = (if fb_mem d = None then PNull else PBlock),
            iPixelFormat = (if disp_iBpp f = 16 then V4L2_PIX_FMT_RGB565 else if disp_iBpp f = 32 then V4L2_PIX_FMT_RGB32 else 0)\<rparr>)"

text \<open>
  \<open>same\<close>: the pixels are the memory of the framebuffer.
\<close>

definition FBShowPage_pixels :: "bool \<Rightarrow> pixel_datas \<Rightarrow> display \<Rightarrow> (int \<times> display) kres" where
  "FBShowPage_pixels same p d =
     (if same then Inr (0, d)
      else kbind (deref (fb_mem d)) (\<lambda>m. kbind (fb_store d (memcpy m 0 (aucPixelDatas p) 0 (iTotalBytes p))) (\<lambda>d. Inr (0, d))))"

definition FlushPixelDatasToDev :: "bool \<Rightarrow> pixel_datas \<Rightarrow> display \<Rightarrow> display kres" where
  "FlushPixelDatasToDev same p d =
     kbind (deref (g_ptDefaultDispOpr d)) (\<lambda>_. kbind (FBShowPage_pixels same p d) (\<lambda>(ret, d). Inr d))"

section \<open>The main program\<close>

record 'd app =
  disp :: display
  cap :: "'d capture"
  ptVideoConvert :: video_convert
  iPixelFormatOfVideo :: u32
  iPixelFormatOfDisp :: u32
  iLcdWidth :: int
  iLcdHeigt :: int
  iLcdBpp :: int
  tFrameBuf :: video_buf
  tVideoBuf :: video_buf
  tConvertBuf :: video_buf
  tZoomBuf :: video_buf

text \<open>
  The size of the scaled picture: the quotient \<open>k\<close> of the sides is a \<open>float\<close>.  A division by zero gives
  infinity, whose conversion to \<open>int\<close> is undefined.
\<close>

definition zoom_size :: "int \<Rightarrow> int \<Rightarrow> int \<Rightarrow> int \<Rightarrow> (int \<times> int) kres" where
  "zoom_size lcdw lcdh w h =
     (if w = 0 then Inl DivByZero
      else
        let k = fl (float_of h / float_of w); zh = int_of (fl (float_of lcdw * k))
        in if zh > lcdh then (if k = 0 then Inl DivByZero else Inr (int_of (fl (float_of lcdh / k)), lcdh))
           else Inr (lcdw, zh))"

definition convert_frame :: "'d app \<Rightarrow> (int \<times> video_buf \<times> 'd app) kres" where
  "convert_frame a =
     (if iPixelFormatOfVideo a \<noteq> iPixelFormatOfDisp a
      then kbind (Convert (ptVideoConvert a) (tVideoBuf a) (tConvertBuf a)) (\<lambda>(iError, b). Inr (iError, b, a\<lparr>tConvertBuf := b\<rparr>))
      else Inr (0, tVideoBuf a, a))"

text \<open>
  \<open>table\<close>: whether the memory for the table in \<open>PicZoom\<close> can be allocated.
\<close>

definition scale_frame :: "(nat \<Rightarrow> int \<Rightarrow> u8 list option) \<Rightarrow> bool \<Rightarrow> video_buf \<Rightarrow> 'd app \<Rightarrow> (video_buf \<times> 'd app) kres" where
  "scale_frame malloc table cur a =
     (if iWidth (vbuf_pix cur) > iLcdWidth a \<or> iHeight (vbuf_pix cur) > iLcdHeigt a then
        kbind (zoom_size (iLcdWidth a) (iLcdHeigt a) (iWidth (vbuf_pix cur)) (iHeight (vbuf_pix cur))) (\<lambda>(zw, zh).
          let z = (tZoomBuf a)\<lparr>vbuf_pix := (vbuf_pix (tZoomBuf a))\<lparr>iWidth := zw, iHeight := zh\<rparr>\<rparr>;
              z = vbuf_alloc malloc 2 (set_depth (iLcdBpp a) z)
          in kbind (vbuf_mem cur) (\<lambda>src. kbind (vbuf_mem z) (\<lambda>dst.
               kbind (PicZoom table ((vbuf_pix cur)\<lparr>aucPixelDatas := src\<rparr>) ((vbuf_pix z)\<lparr>aucPixelDatas := dst\<rparr>)) (\<lambda>(ret, p).
                 Inr (z\<lparr>vbuf_pix := p\<rparr>, a\<lparr>tZoomBuf := z\<lparr>vbuf_pix := p\<rparr>\<rparr>)))))
      else Inr (cur, a))"

definition lcd_screen :: "'d app \<Rightarrow> pixel_datas" where
  "lcd_screen a = (vbuf_pix (tFrameBuf a))\<lparr>aucPixelDatas := (case fb_mem (disp a) of Some m \<Rightarrow> m | None \<Rightarrow> [])\<rparr>"

text \<open>
  Division by 2 rounds towards zero.
\<close>

definition half :: "int \<Rightarrow> int" where
  "half x = (if x < 0 then - (- x div 2) else x div 2)"

definition merge_frame :: "video_buf \<Rightarrow> 'd app \<Rightarrow> 'd app kres" where
  "merge_frame cur a =
     (let iTopLeftX = half (iLcdWidth a - iWidth (vbuf_pix cur)); iTopLeftY = half (iLcdHeigt a - iHeight (vbuf_pix cur))
      in kbind (vbuf_mem cur) (\<lambda>src.
         kbind (PicMerge iTopLeftX iTopLeftY ((vbuf_pix cur)\<lparr>aucPixelDatas := src\<rparr>) (lcd_screen a)) (\<lambda>(ret, p).
         kbind (FlushPixelDatasToDev True p ((disp a)\<lparr>fb_mem := map_option (\<lambda>_. aucPixelDatas p) (fb_mem (disp a))\<rparr>)) (\<lambda>d.
           Inr (a\<lparr>disp := d\<rparr>)))))"

text \<open>
  One turn of the loop; \<open>Some r\<close> when \<open>main\<close> returns \<open>r\<close>.
\<close>

definition main_turn :: "'d camera \<Rightarrow> (nat \<Rightarrow> int \<Rightarrow> u8 list option) \<Rightarrow> bool \<Rightarrow> 'd app \<Rightarrow> (int option \<times> 'd app) kres" where
  "main_turn C malloc table a =
     kbind (GetFrame C (tVideoBuf a) (cap a)) (\<lambda>(iError, b, s).
       let a = a\<lparr>cap := s, tVideoBuf := b\<rparr> in
       if iError \<noteq> 0 then Inr (Some (- 1), a)
       else kbind (convert_frame a) (\<lambda>(iError, cur, a).
         if iError \<noteq> 0 then Inr (Some (- 1), a)
         else kbind (scale_frame malloc table cur a) (\<lambda>(cur, a).
           kbind (merge_frame cur a) (\<lambda>a.
           kbind (PutFrame C (cap a)) (\<lambda>(iError, s).
             Inr (if iError \<noteq> 0 then Some (- 1) else None, a\<lparr>cap := s\<rparr>))))))"

partial_function (option) main_loop ::
    "'d camera \<Rightarrow> (nat \<Rightarrow> int \<Rightarrow> u8 list option) \<Rightarrow> bool \<Rightarrow> 'd app \<Rightarrow> (int \<times> 'd app) kres option" where
  "main_loop C malloc table a =
     (case main_turn C malloc table a of
        Inl e \<Rightarrow> Some (Inl e)
      | Inr (Some r, a) \<Rightarrow> Some (Inr (r, a))
      | Inr (None, a) \<Rightarrow> main_loop C malloc table a)"

text \<open>
  Everything before the loop.  \<open>Inl\<close> is an early return; \<open>mem\<close> is for the allocation of the tables.
\<close>

definition start_conversion ::
    "'d camera \<Rightarrow> jpeg_lib \<Rightarrow> (nat \<Rightarrow> int \<Rightarrow> u8 list option) \<Rightarrow> (nat \<Rightarrow> bool) \<Rightarrow> display \<Rightarrow> int \<times> int \<times> int \<Rightarrow> video_buf \<Rightarrow> 'd capture \<Rightarrow>
      ((int \<times> 'd capture) + 'd app) kres option" where
  "start_conversion C lib malloc mem d lcd fb s =
     (case VideoConvertInit mem empty_registry of
        Inl e \<Rightarrow> Some (Inl e)
      | Inr (res, l) \<Rightarrow>
          Option.bind res (\<lambda>(iError, r).
          Option.bind (GetVideoConvertForFormats (converters l lib malloc) (V4l2GetFormat s) (iPixelFormat fb) r) (\<lambda>c.
            case c of
              None \<Rightarrow> Some (Inr (Inl (- 1, s)))
            | Some c \<Rightarrow> Some (
                kbind (V4l2StartDevice C s) (\<lambda>(iError, s).
                  if iError \<noteq> 0 then Inr (Inl (- 1, s))
                  else case lcd of (w, h, bpp) \<Rightarrow>
                    Inr (Inr \<lparr>disp = d, cap = s, ptVideoConvert = converters l lib malloc c,
                      iPixelFormatOfVideo = V4l2GetFormat s, iPixelFormatOfDisp = iPixelFormat fb,
                      iLcdWidth = w, iLcdHeigt = h, iLcdBpp = bpp, tFrameBuf = fb, tVideoBuf = zero_buf,
                      tConvertBuf = zero_buf\<lparr>vbuf_pix := zero_pix\<lparr>iBpp := bpp\<rparr>\<rparr>, tZoomBuf = zero_buf\<rparr>))))))"

definition main_setup ::
    "'d camera \<Rightarrow> fb_device \<Rightarrow> jpeg_lib \<Rightarrow> (nat \<Rightarrow> int \<Rightarrow> u8 list option) \<Rightarrow> (nat \<Rightarrow> bool) \<Rightarrow> string list \<Rightarrow> display \<Rightarrow> 'd capture \<Rightarrow>
      ((int \<times> 'd capture) + 'd app) kres option" where
  "main_setup C fbdev lib malloc mem argv d s =
     (if length argv \<noteq> 2 then Some (Inr (Inl (- 1, s)))
      else
        Option.bind (DisplayInit d) (\<lambda>(ret, d).
        Option.bind (SelectAndInitDefaultDispDev fbdev ''fb'' d) (\<lambda>r.
          case kbind r (\<lambda>d. kbind (GetVideoBufForDisplay d) (\<lambda>fb. kbind (deref (GetDispResolution d)) (\<lambda>lcd. Inr (d, lcd, fb)))) of
            Inl e \<Rightarrow> Some (Inl e)
          | Inr (d, lcd, fb) \<Rightarrow>
              Option.bind (VideoInit empty_registry) (\<lambda>(ret, reg).
              Option.bind (VideoDeviceInit C (fst lcd, fst (snd lcd)) malloc reg (argv ! 1) s) (\<lambda>r.
                case r of
                  Inl e \<Rightarrow> Some (Inl e)
                | Inr (iError, s) \<Rightarrow>
                    if iError \<noteq> 0 then Some (Inr (Inl (- 1, s))) else start_conversion C lib malloc mem d lcd fb s)))))"

definition video2lcd_main ::
    "'d camera \<Rightarrow> fb_device \<Rightarrow> jpeg_lib \<Rightarrow> (nat \<Rightarrow> int \<Rightarrow> u8 list option) \<Rightarrow> (nat \<Rightarrow> bool) \<Rightarrow> bool \<Rightarrow> string list \<Rightarrow> display \<Rightarrow> 'd capture \<Rightarrow>
      (int \<times> 'd capture) kres option" where
  "video2lcd_main C fbdev lib malloc mem table argv d s =
     Option.bind (main_setup C fbdev lib malloc mem argv d s) (\<lambda>r.
       case r of
         Inl e \<Rightarrow> Some (Inl e)
       | Inr (Inl x) \<Rightarrow> Some (Inr x)
       | Inr (Inr a) \<Rightarrow> map_option (\<lambda>r. kbind r (\<lambda>(ret, a). Inr (ret, cap a))) (main_loop C malloc table a))"

section \<open>Scaling\<close>

text \<open>
  C35: a picture that does not fit the screen is scaled to a size that does, whatever its sides: the
  rounding of the single precision quotient never makes it larger than the screen, and one side of
  the result is the side of the screen.
\<close>

theorem zoom_fits_screen:
  assumes lcd: "0 \<le> lcdw" "lcdw < 2 ^ 24" "0 \<le> lcdh" "lcdh < 2 ^ 24" and pic: "0 < w" "0 \<le> h"
  shows "\<exists>zw zh. zoom_size lcdw lcdh w h = Inr (zw, zh) \<and> 0 \<le> zw \<and> zw \<le> lcdw \<and> 0 \<le> zh \<and> zh \<le> lcdh \<and> (zw = lcdw \<or> zh = lcdh)"
proof -
  define k where "k = fl (float_of h / float_of w)"
  define zh where "zh = int_of (fl (of_int lcdw * k))"
  have "0 \<le> float_of i" if "0 \<le> i" for i using that fl_nonneg [of "of_int i"] by (simp add: float_of_def)
  then have k: "0 \<le> k" unfolding k_def using pic by (intro fl_nonneg divide_nonneg_nonneg) simp_all
  have zh: "0 \<le> zh" unfolding zh_def using int_of_bounds(2) [of 0 "of_int lcdw * k"] lcd k by simp
  have eq: "zoom_size lcdw lcdh w h = (if zh > lcdh then (if k = 0 then Inl DivByZero else Inr (int_of (fl (of_int lcdh / k)), lcdh)) else Inr (lcdw, zh))"
    using pic lcd by (simp add: zoom_size_def k_def zh_def Let_def float_of_int)
  show ?thesis
  proof (cases "zh > lcdh")
    case True
    then have over: "of_int lcdh < of_int lcdw * k"
      using int_of_bounds(1) [of lcdh "of_int lcdw * k"] lcd k unfolding zh_def by fastforce
    have "k \<noteq> 0"
    proof
      assume "k = 0"
      then have "(of_int lcdh :: rat) < 0" using over by simp
      then show False using lcd(3) by simp
    qed
    then have "of_int lcdh / k \<le> of_int lcdw" "0 \<le> of_int lcdh / k" using over k lcd(3) by (simp_all add: field_simps)
    then have "int_of (fl (of_int lcdh / k)) \<le> lcdw" "0 \<le> int_of (fl (of_int lcdh / k))"
      using int_of_bounds(1) [of lcdw "of_int lcdh / k"] int_of_bounds(2) [of 0 "of_int lcdh / k"] lcd by simp_all
    then show ?thesis using eq True \<open>k \<noteq> 0\<close> lcd(3) by simp
  next
    case False
    then show ?thesis using eq zh lcd by simp
  qed
qed

theorem zoom_fits_screen_witness:
  "\<exists>zw zh. zoom_size 480 272 640 480 = Inr (zw, zh) \<and> zw \<le> 480 \<and> zh \<le> 272"
  using zoom_fits_screen [of 480 272 640 480] by auto

end
