(* ===== verification/Video2lcd_Props.thy ===== *)
theory Video2lcd_Props
  imports Video2lcd
begin

text \<open>
  What the camera application puts on the screen.
\<close>

section \<open>Frames on the screen\<close>

text \<open>
  The application after the display was set up, and a picture of \<open>w\<close> by \<open>h\<close> pixels of \<open>n\<close> bytes whose
  memory may be longer than the picture, as a mapped buffer is.
\<close>

definition screen_ok :: "'d app \<Rightarrow> bool" where
  "screen_ok a \<longleftrightarrow> pix_wf (lcd_screen a) \<and> iWidth (lcd_screen a) = iLcdWidth a \<and> iHeight (lcd_screen a) = iLcdHeigt a \<and>
     iBpp (lcd_screen a) = iLcdBpp a \<and> fb_mem (disp a) \<noteq> None \<and> g_ptDefaultDispOpr (disp a) \<noteq> None"

definition picture :: "nat \<Rightarrow> nat \<Rightarrow> nat \<Rightarrow> video_buf \<Rightarrow> bool" where
  "picture n w h b \<longleftrightarrow> vbuf_ptr b = PBlock \<and> iWidth (vbuf_pix b) = int w \<and> iHeight (vbuf_pix b) = int h \<and> iBpp (vbuf_pix b) = 8 * int n \<and>
     iLineBytes (vbuf_pix b) = int (w * n) \<and> h * (w * n) \<le> length (aucPixelDatas (vbuf_pix b)) \<and> 0 < w \<and> 0 < h"

text \<open>
  The new screen: the picture \<open>f\<close> in the centre, the old lcd_screen around it.
\<close>

definition centred :: "nat \<Rightarrow> nat \<Rightarrow> (nat \<Rightarrow> nat \<Rightarrow> u8 list) \<Rightarrow> 'd app \<Rightarrow> 'd app \<Rightarrow> bool" where
  "centred w h f a a' \<longleftrightarrow> screen_ok a' \<and> iLcdWidth a' = iLcdWidth a \<and> iLcdHeigt a' = iLcdHeigt a \<and> iLcdBpp a' = iLcdBpp a \<and>
     (let x0 = nat (iLcdWidth a - int w) div 2; y0 = nat (iLcdHeigt a - int h) div 2
      in \<forall>x<nat (iLcdWidth a). \<forall>y<nat (iLcdHeigt a). pixel (lcd_screen a') x y =
           (if x0 \<le> x \<and> x < x0 + w \<and> y0 \<le> y \<and> y < y0 + h then f (x - x0) (y - y0) else pixel (lcd_screen a) x y))"

lemma memcpy_take:
  assumes "0 \<le> off" "0 \<le> n" "off + n \<le> int k" "k \<le> length src"
  shows "memcpy m d (take k src) off n = memcpy m d src off n"
proof -
  have "nat off + nat n \<le> k" "nat n \<le> k - nat off" using assms(1-3) by linarith+
  then have "take (nat n) (drop (nat off) (take k src)) = take (nat n) (drop (nat off) src)" by (simp add: drop_take min_def)
  then show ?thesis using assms by (auto simp: memcpy_def get_at_def mem_read_def)
qed

text \<open>
  Merging does not look at memory behind the picture.
\<close>

lemma PicMerge_trim:
  assumes "iHeight p = int h" "iLineBytes p = int l" "h * l \<le> length (aucPixelDatas p)"
  shows "PicMerge iX iY p big = PicMerge iX iY (p\<lparr>aucPixelDatas := take (h * l) (aucPixelDatas p)\<rparr>) big"
proof -
  have "memcpy m d (aucPixelDatas p) (i * int l) (int l) = memcpy m d (take (h * l) (aucPixelDatas p)) (i * int l) (int l)"
    if "i \<in> set [0..int h - 1]" for m d i
  proof -
    have "(i + 1) * int l \<le> int h * int l" using that by (intro mult_right_mono) auto
    then show ?thesis using that assms(3) by (intro memcpy_take [symmetric]) (auto simp: algebra_simps)
  qed
  then show ?thesis using assms unfolding PicMerge_def Let_def by (auto intro!: kbind_cong for_each_cong)
qed

lemma half_nonneg: "0 \<le> x \<Longrightarrow> half x = x div 2"
  by (simp add: half_def)

lemma pix_take:
  assumes "x < w" "y < h"
  shows "pix n w (take (h * (w * n)) bs) x y = pix n w bs x y"
proof -
  have "(y * w + x) * n + n \<le> h * (w * n)" using pix_range [of x 1 w y h n] assms by simp
  then show ?thesis by (simp add: pix_def drop_take min_def)
qed

lemma merge_frame_centred:
  assumes ok: "screen_ok a" and cur: "picture n w h cur" and fits: "int w \<le> iLcdWidth a" "int h \<le> iLcdHeigt a" and bpp: "iLcdBpp a = 8 * int n"
  shows "\<exists>d. merge_frame cur a = Inr (a\<lparr>disp := d\<rparr>) \<and> centred w h (pix n w (aucPixelDatas (vbuf_pix cur))) a (a\<lparr>disp := d\<rparr>)"
proof -
  define bs where "bs = take (h * (w * n)) (aucPixelDatas (vbuf_pix cur))"
  define x0 y0 where "x0 = nat (iLcdWidth a - int w) div 2" and "y0 = nat (iLcdHeigt a - int h) div 2"
  let ?p = "\<lparr>iWidth = int w, iHeight = int h, iBpp = 8 * int n, iLineBytes = int (w * n), iTotalBytes = int (h * (w * n)), aucPixelDatas = bs\<rparr>"
  note scr = ok [unfolded screen_ok_def]
  have wf: "pix_wf ?p" using scr bpp cur by (auto simp: pix_wf_def picture_def bs_def)
  have pos: "half (iLcdWidth a - int w) = int x0" "half (iLcdHeigt a - int h) = int y0"
    using fits by (simp_all add: half_nonneg x0_def y0_def)
  have in_scr: "int x0 + int w \<le> iLcdWidth a" "int y0 + int h \<le> iLcdHeigt a" using fits by (simp_all add: x0_def y0_def)
  obtain big m where big: "PicMerge (int x0) (int y0) ?p (lcd_screen a) = Inr (0, big)" "pix_wf big" "big = (lcd_screen a)\<lparr>aucPixelDatas := m\<rparr>"
    "\<forall>x<nat (iLcdWidth a). \<forall>y<nat (iLcdHeigt a). pixel big x y =
       (if int x0 \<le> int x \<and> int x < int x0 + int w \<and> int y0 \<le> int y \<and> int y < int y0 + int h
        then pixel ?p (x - nat (int x0)) (y - nat (int y0)) else pixel (lcd_screen a) x y)"
    using pic_merge_correct [OF wf, of "lcd_screen a" "int x0" "int y0"] scr in_scr bpp cur by (auto simp: picture_def)
  have "PicMerge (int x0) (int y0) ((vbuf_pix cur)\<lparr>aucPixelDatas := aucPixelDatas (vbuf_pix cur)\<rparr>) (lcd_screen a) =
      PicMerge (int x0) (int y0) ((vbuf_pix cur)\<lparr>aucPixelDatas := bs\<rparr>) (lcd_screen a)"
    using PicMerge_trim [of "vbuf_pix cur" h "w * n"] cur by (simp add: picture_def bs_def)
  also have "\<dots> = PicMerge (int x0) (int y0) ?p (lcd_screen a)" using cur by (simp add: PicMerge_def picture_def)
  finally have merge: "PicMerge (int x0) (int y0) (vbuf_pix cur) (lcd_screen a) = Inr (0, big)" using big(1) by simp
  define d where "d = (disp a)\<lparr>fb_mem := Some m\<rparr>"
  have "merge_frame cur a = Inr (a\<lparr>disp := d\<rparr>)"
    using scr cur merge big(3) pos
    by (auto simp: merge_frame_def vbuf_mem_def picture_def FlushPixelDatasToDev_def FBShowPage_pixels_def d_def Let_def)
  moreover have s: "lcd_screen (a\<lparr>disp := d\<rparr>) = big" using big(3) by (simp add: lcd_screen_def d_def)
  have "screen_ok (a\<lparr>disp := d\<rparr>)" unfolding screen_ok_def s using scr big(2,3) by (auto simp: d_def)
  moreover have "pixel big x y = (if x0 \<le> x \<and> x < x0 + w \<and> y0 \<le> y \<and> y < y0 + h
      then pix n w (aucPixelDatas (vbuf_pix cur)) (x - x0) (y - y0) else pixel (lcd_screen a) x y)"
    if "x < nat (iLcdWidth a)" "y < nat (iLcdHeigt a)" for x y
  proof -
    have p: "pixel ?p x y = pix n w (aucPixelDatas (vbuf_pix cur)) x y" if "x < w" "y < h" for x y
      using pix_take [OF that] by (simp add: pixel_def bs_def)
    have "pixel big x y = (if x0 \<le> x \<and> x < x0 + w \<and> y0 \<le> y \<and> y < y0 + h then pixel ?p (x - x0) (y - y0) else pixel (lcd_screen a) x y)"
      using big(4) that by (simp flip: of_nat_add)
    also have "\<dots> = (if x0 \<le> x \<and> x < x0 + w \<and> y0 \<le> y \<and> y < y0 + h
        then pix n w (aucPixelDatas (vbuf_pix cur)) (x - x0) (y - y0) else pixel (lcd_screen a) x y)"
      by (rule if_cong) (use p [of "x - x0" "y - y0"] in auto)
    finally show ?thesis .
  qed
  ultimately show ?thesis
    by (intro exI [of _ d]) (simp add: centred_def s Let_def x0_def [symmetric] y0_def [symmetric])
qed

text \<open>
  A turn of the loop in which the camera delivers a frame, the conversion gives a picture that fits
  the screen, and the buffer is given back.
\<close>

lemma turn_shows:
  assumes ok: "screen_ok a" and get: "GetFrame C (tVideoBuf a) (cap a) = Inr (0, b, s)"
    and conv: "convert_frame (a\<lparr>cap := s, tVideoBuf := b\<rparr>) = Inr (0, cur, a1)" "a1 = a\<lparr>cap := s, tVideoBuf := b, tConvertBuf := c\<rparr>"
    and cur: "picture n w h cur" "int w \<le> iLcdWidth a" "int h \<le> iLcdHeigt a" "iLcdBpp a = 8 * int n"
    and put: "PutFrame C s = Inr (0, s')"
  shows "\<exists>d. main_turn C malloc table a = Inr (None, a\<lparr>cap := s', tVideoBuf := b, tConvertBuf := c, disp := d\<rparr>) \<and>
    centred w h (pix n w (aucPixelDatas (vbuf_pix cur))) a (a\<lparr>cap := s', tVideoBuf := b, tConvertBuf := c, disp := d\<rparr>)"
proof -
  have a1: "screen_ok a1" "iLcdWidth a1 = iLcdWidth a" "iLcdHeigt a1 = iLcdHeigt a" "iLcdBpp a1 = iLcdBpp a" "lcd_screen a1 = lcd_screen a"
    using ok conv(2) by (simp_all add: screen_ok_def lcd_screen_def)
  obtain d where d: "merge_frame cur a1 = Inr (a1\<lparr>disp := d\<rparr>)" "centred w h (pix n w (aucPixelDatas (vbuf_pix cur))) a1 (a1\<lparr>disp := d\<rparr>)"
    using merge_frame_centred [OF a1(1) cur(1)] cur(2-4) a1(2-4) by auto
  have "scale_frame malloc table cur a1 = Inr (cur, a1)" using cur(1-3) a1(2,3) by (simp add: scale_frame_def picture_def)
  then have "main_turn C malloc table a = Inr (None, a\<lparr>cap := s', tVideoBuf := b, tConvertBuf := c, disp := d\<rparr>)"
    using get conv d(1) put by (simp add: main_turn_def)
  moreover have "centred w h f a (a\<lparr>cap := s', tVideoBuf := b, tConvertBuf := c, disp := d\<rparr>)" if "centred w h f a1 (a1\<lparr>disp := d\<rparr>)" for f
  proof -
    let ?a' = "a\<lparr>cap := s', tVideoBuf := b, tConvertBuf := c, disp := d\<rparr>"
    have eq: "lcd_screen ?a' = lcd_screen (a1\<lparr>disp := d\<rparr>)" "screen_ok ?a' = screen_ok (a1\<lparr>disp := d\<rparr>)"
      using conv(2) by (simp_all add: screen_ok_def lcd_screen_def)
    have "iLcdWidth (a1\<lparr>disp := d\<rparr>) = iLcdWidth ?a'" "iLcdHeigt (a1\<lparr>disp := d\<rparr>) = iLcdHeigt ?a'" "iLcdBpp (a1\<lparr>disp := d\<rparr>) = iLcdBpp ?a'"
      using a1(2-4) by simp_all
    then show ?thesis using that unfolding centred_def eq a1(2-5) by simp
  qed
  ultimately show ?thesis using d(2) by blast
qed

text \<open>
  An RGB565 camera on a 16 bit display needs no conversion.
\<close>

lemma rgb565_frame_shown:
  assumes "screen_ok a" "GetFrame C (tVideoBuf a) (cap a) = Inr (0, b, s)" "iPixelFormatOfVideo a = iPixelFormatOfDisp a"
    and "picture n w h b" "int w \<le> iLcdWidth a" "int h \<le> iLcdHeigt a" "iLcdBpp a = 8 * int n" "PutFrame C s = Inr (0, s')"
  shows "\<exists>a'. main_turn C malloc table a = Inr (None, a') \<and> cap a' = s' \<and> centred w h (pix n w (aucPixelDatas (vbuf_pix b))) a a'"
proof -
  have "convert_frame (a\<lparr>cap := s, tVideoBuf := b\<rparr>) = Inr (0, b, a\<lparr>cap := s, tVideoBuf := b, tConvertBuf := tConvertBuf a\<rparr>)"
    using assms(3) by (simp add: convert_frame_def)
  from turn_shows [OF assms(1,2) this refl assms(4-8), of malloc table] show ?thesis by auto
qed

lemma depicts_picture:
  assumes "depicts n w h f b" "0 < w" "0 < h"
  shows "picture n w h b" "\<And>x y. x < w \<Longrightarrow> y < h \<Longrightarrow> pix n w (aucPixelDatas (vbuf_pix b)) x y = f x y"
proof -
  have "int (length (aucPixelDatas (vbuf_pix b))) = int (h * (w * n))" using assms(1) by (auto simp: depicts_def pix_wf_def)
  then have "length (aucPixelDatas (vbuf_pix b)) = h * (w * n)" by (simp only: of_nat_eq_iff)
  then show "picture n w h b" using assms by (auto simp: depicts_def picture_def pix_wf_def)
  show "pix n w (aucPixelDatas (vbuf_pix b)) x y = f x y" if "x < w" "y < h" for x y
    using assms(1) that by (auto simp: depicts_def pixel_def)
qed

lemma centred_cong:
  assumes "centred w h f a a'" "\<And>x y. x < w \<Longrightarrow> y < h \<Longrightarrow> f x y = g x y"
  shows "centred w h g a a'"
proof -
  have "f (x - x0) (y - y0) = g (x - x0) (y - y0)" if "x0 \<le> x" "x < x0 + w" "y0 \<le> y" "y < y0 + h" for x y x0 y0
    using assms(2) [of "x - x0" "y - y0"] that by simp
  then show ?thesis using assms(1) by (auto simp: centred_def Let_def)
qed

lemma mjpeg_frame_displayed:
  assumes app: "screen_ok a" "iPixelFormatOfVideo a = V4L2_PIX_FMT_MJPEG" "iPixelFormatOfDisp a \<noteq> V4L2_PIX_FMT_MJPEG"
      "ptVideoConvert a = converters l lib malloc g_tMjpeg2RgbConvert"
    and conv: "iLcdBpp a = 8 * int n" "n \<in> {2, 4}" "iBpp (vbuf_pix (tConvertBuf a)) = iLcdBpp a" "room_ok n w h (tConvertBuf a)" "alloc_ok malloc"
    and frame: "GetFrame C (tVideoBuf a) (cap a) = Inr (0, b, s)" "jpeg_frame lib w h img b" "PutFrame C s = Inr (0, s')"
    and fits: "0 < w" "0 < h" "int w \<le> iLcdWidth a" "int h \<le> iLcdHeigt a"
  shows "\<exists>a'. main_turn C malloc table a = Inr (None, a') \<and> cap a' = s' \<and> room_ok n w h (tConvertBuf a') \<and>
    centred w h (\<lambda>x y. display_pixel rgb_order (iLcdBpp a) (take 3 (drop (3 * x) (the (scanline img y))))) a a'"
proof -
  obtain c where c: "Mjpeg2RgbConvert lib malloc b (tConvertBuf a) = Inr (0, c)"
    "depicts n w h (\<lambda>x y. display_pixel rgb_order (8 * int n) (take 3 (drop (3 * x) (the (scanline img y))))) c"
    using mjpeg_frame_converted [OF frame(2) conv(5) _ conv(2,4)] conv(1,3) by auto
  have cv: "convert_frame (a\<lparr>cap := s, tVideoBuf := b\<rparr>) = Inr (0, c, a\<lparr>cap := s, tVideoBuf := b, tConvertBuf := c\<rparr>)"
    using app(2-4) c(1) by (simp add: convert_frame_def converters_def)
  note p = depicts_picture [OF c(2) fits(1,2)]
  obtain a' where a': "main_turn C malloc table a = Inr (None, a')" "centred w h (pix n w (aucPixelDatas (vbuf_pix c))) a a'" "cap a' = s'" "tConvertBuf a' = c"
    using turn_shows [OF app(1) frame(1) cv refl p(1) fits(3,4) conv(1) frame(3), of malloc table] by auto
  have "int (length (aucPixelDatas (vbuf_pix c))) = int (h * (w * n))" using c(2) by (auto simp: depicts_def pix_wf_def)
  then have "room_ok n w h c" using c(2) by (simp only: of_nat_eq_iff) (simp add: room_ok_def depicts_def)
  then show ?thesis using a' centred_cong [OF a'(2)] p(2) conv(1) by (intro exI [of _ a']) auto
qed


text \<open>
  A camera with one mapped buffer, a JPEG picture of two red pixels, and a display of two pixels.
\<close>

definition demo_camera :: "unit camera" where
  "demo_camera = \<lparr>cam_open = (\<lambda>n d. Inr (3, d)), cam_close = Inr, cam_querycap = (\<lambda>c d. Inr (0, c, d)), cam_enum_fmt = (\<lambda>f d. Inr (- 1, f, d)),
     cam_s_fmt = (\<lambda>f d. Inr (0, f, d)), cam_reqbufs = (\<lambda>r d. Inr (0, r, d)), cam_querybuf = (\<lambda>b d. Inr (0, b, d)), cam_mmap = (\<lambda>l off d. Inr (Some 0, d)),
     cam_munmap = (\<lambda>k d. Inr d), cam_mapped = (\<lambda>k d. [1, 2, 3, 4]), cam_qbuf = (\<lambda>b d. Inr (0, d)), cam_dqbuf = (\<lambda>b d. Inr (0, b\<lparr>b_bytesused := 4\<rparr>, d)),
     cam_poll = (\<lambda>d. Inr (1, d)), cam_read = (\<lambda>n d. Inr (0, [], d)), cam_streamon = (\<lambda>d. Inr (0, d)), cam_streamoff = (\<lambda>d. Inr (0, d))\<rparr>"

definition demo_capture :: "u32 \<Rightarrow> unit capture" where
  "demo_capture fmt = \<lparr>cam = (), dev = \<lparr>iFd = 3, dev_iPixelFormat = fmt, dev_iWidth = 2, dev_iHeight = 1, iVideoBufCnt = 1,
     iVideoBufMaxLen = 4, iVideoBufCurIndex = 0, pucVideBuf = [VMap 0, VNull, VNull, VNull]\<rparr>, opr = g_tV4l2VideoOpr\<rparr>"

definition demo_display :: display where
  "demo_display = \<lparr>g_ptDispOprHead = empty_registry, g_ptDefaultDispOpr = Some 0,
     g_tFBOpr = \<lparr>iXres = 2, iYres = 1, disp_iBpp = 32, iLineWidth = 8\<rparr>, fb_mem = Some (replicate 8 0),
     g_tFBVar = \<lparr>xres = 2, yres = 1, bits_per_pixel = 32\<rparr>, g_dwScreenSize = 8, g_dwLineWidth = 8, g_dwPixelWidth = 4, g_ptVideoMemHead = []\<rparr>"

definition demo_app :: "'d capture \<Rightarrow> 'd app" where
  "demo_app c = \<lparr>disp = demo_display, cap = c,
     ptVideoConvert = converters grey_luts red_lib (\<lambda>k n. Some (replicate (nat n) 0)) g_tMjpeg2RgbConvert,
     iPixelFormatOfVideo = V4L2_PIX_FMT_MJPEG, iPixelFormatOfDisp = V4L2_PIX_FMT_RGB32, iLcdWidth = 2, iLcdHeigt = 1, iLcdBpp = 32,
     tFrameBuf = \<lparr>vbuf_pix = \<lparr>iWidth = 2, iHeight = 1, iBpp = 32, iLineBytes = 8, iTotalBytes = 8, aucPixelDatas = []\<rparr>,
       vbuf_ptr = PBlock, iPixelFormat = V4L2_PIX_FMT_RGB32\<rparr>,
     tVideoBuf = zero_buf, tConvertBuf = zero_buf\<lparr>vbuf_pix := zero_pix\<lparr>iBpp := 32\<rparr>\<rparr>, tZoomBuf = zero_buf\<rparr>"


section \<open>YUYV cameras\<close>

fun run_turns :: "'d camera \<Rightarrow> (nat \<Rightarrow> int \<Rightarrow> u8 list option) \<Rightarrow> bool \<Rightarrow> nat \<Rightarrow> 'd app \<Rightarrow> (int option \<times> 'd app) kres" where
  "run_turns C malloc table 0 a = Inr (None, a)"
| "run_turns C malloc table (Suc n) a =
     kbind (main_turn C malloc table a) (\<lambda>(r, a). if r \<noteq> None then Inr (r, a) else run_turns C malloc table n a)"

text \<open>
  A loop that takes frames and gives them back without looking at them.
\<close>

fun idle_turns :: "'d camera \<Rightarrow> nat \<Rightarrow> video_buf \<Rightarrow> 'd capture \<Rightarrow> (int option \<times> video_buf \<times> 'd capture) kres" where
  "idle_turns C 0 b s = Inr (None, b, s)"
| "idle_turns C (Suc n) b s =
     kbind (GetFrame C b s) (\<lambda>(iError, b, s).
       if iError \<noteq> 0 then Inr (Some (- 1), b, s)
       else kbind (PutFrame C s) (\<lambda>(iError, s). if iError \<noteq> 0 then Inr (Some (- 1), b, s) else idle_turns C n b s))"

text \<open>
  The application as \<open>main\<close> sets it up for a YUYV camera whose frames fit the lcd_screen: nobody sets the
  format of the conversion buffer.
\<close>

definition unconverted :: "'d app \<Rightarrow> bool" where
  "unconverted a \<longleftrightarrow> iPixelFormatOfVideo a \<noteq> iPixelFormatOfDisp a \<and> (\<exists>l malloc. Convert (ptVideoConvert a) = Yuv2RgbConvert l malloc) \<and>
     vbuf_ptr (tConvertBuf a) = PNull \<and> iPixelFormat (tConvertBuf a) = 0 \<and> iLineBytes (vbuf_pix (tConvertBuf a)) = 0 \<and>
     g_ptDefaultDispOpr (disp a) \<noteq> None \<and>
     dev_iWidth (dev (cap a)) \<le> iLcdWidth a \<and> dev_iHeight (dev (cap a)) \<le> iLcdHeigt a"

lemma for_each_id: "(\<And>x m. f x m = Inr m) \<Longrightarrow> for_each xs f m = Inr m"
  by (induction xs) simp_all

lemma PicMerge_no_lines:
  assumes "iLineBytes p = 0"
  shows "\<exists>r. PicMerge x y p big = Inr (r, big)"
  using assms by (simp add: PicMerge_def Let_def for_each_id memcpy_def)

lemma merge_nothing:
  assumes "iLineBytes (vbuf_pix cur) = 0" "vbuf_ptr cur = PNull" "g_ptDefaultDispOpr (disp a) \<noteq> None"
  shows "merge_frame cur a = Inr a"
proof -
  obtain r where "PicMerge (half (iLcdWidth a - iWidth (vbuf_pix cur))) (half (iLcdHeigt a - iHeight (vbuf_pix cur)))
      ((vbuf_pix cur)\<lparr>aucPixelDatas := []\<rparr>) (lcd_screen a) = Inr (r, lcd_screen a)"
    using PicMerge_no_lines [of "(vbuf_pix cur)\<lparr>aucPixelDatas := []\<rparr>" _ _ "lcd_screen a"] assms(1) by fastforce
  moreover have "(disp a)\<lparr>fb_mem := map_option (\<lambda>_. aucPixelDatas (lcd_screen a)) (fb_mem (disp a))\<rparr> = disp a"
    by (cases "fb_mem (disp a)") (simp_all add: lcd_screen_def display.defs)
  ultimately show ?thesis
    using assms(2,3) by (auto simp: merge_frame_def vbuf_mem_def FlushPixelDatasToDev_def FBShowPage_pixels_def Let_def)
qed

text \<open>
  Frames have the size that was negotiated with the camera, and taking or returning one keeps it.
\<close>

lemma frame_ptr_keeps: "set_frame_ptr i p v = Inr v' \<Longrightarrow> dev_iWidth v' = dev_iWidth v \<and> dev_iHeight v' = dev_iHeight v"
  by (auto simp: set_frame_ptr_def split: if_splits)

lemma frame_buf_size [simp]: "iWidth (vbuf_pix (frame_buf C d v n p)) = dev_iWidth v" "iHeight (vbuf_pix (frame_buf C d v n p)) = dev_iHeight v"
  by (simp_all add: frame_buf_def)

definition keeps_size :: "'d capture \<Rightarrow> int \<Rightarrow> video_buf \<Rightarrow> 'd capture \<Rightarrow> bool" where
  "keeps_size s0 e b s \<longleftrightarrow> dev_iWidth (dev s) = dev_iWidth (dev s0) \<and> dev_iHeight (dev s) = dev_iHeight (dev s0) \<and>
    (e = 0 \<longrightarrow> iWidth (vbuf_pix b) = dev_iWidth (dev s0) \<and> iHeight (vbuf_pix b) = dev_iHeight (dev s0))"

lemma failed_size: "Inr (- 1, b0, s0\<lparr>cam := d\<rparr>) = Inr (e, b, s) \<Longrightarrow> keeps_size s0 e b s"
  by (auto simp: keeps_size_def)

lemma taken_size:
  assumes "Inr (0, frame_buf C d v n p, s0\<lparr>cam := d, dev := v\<rparr>) = Inr (e, b, s)" "dev_iWidth v = dev_iWidth (dev s0) \<and> dev_iHeight v = dev_iHeight (dev s0)"
  shows "keeps_size s0 e b s"
  using assms by (auto simp: keeps_size_def)

lemma streaming_size: "V4l2GetFrameForStreaming C b0 s0 = Inr (e, b, s) \<Longrightarrow> keeps_size s0 e b s"
  unfolding V4l2GetFrameForStreaming_def Let_def case_prod_beta
  by (erule kbindE, split if_split_asm, erule failed_size, erule kbindE, split if_split_asm, erule failed_size, erule kbindE, erule taken_size) simp

lemma readwrite_size: "V4l2GetFrameForReadWrite C b0 s0 = Inr (e, b, s) \<Longrightarrow> keeps_size s0 e b s"
  unfolding V4l2GetFrameForReadWrite_def case_prod_beta
proof (erule kbindE)
  fix p
  assume r: "(case p of VHeap m \<Rightarrow> kbind (cam_read C (iVideoBufMaxLen (dev s0)) (cam s0)) (\<lambda>x.
      if fst x \<le> 0 then Inr (- 1, b0, s0\<lparr>cam := snd (snd x)\<rparr>)
      else kbind (put_at m 0 (fst (snd x))) (\<lambda>m. kbind (set_frame_ptr 0 (VHeap m) (dev s0)) (\<lambda>v.
        Inr (0, frame_buf C (snd (snd x)) v (fst x) (VHeap m), s0\<lparr>cam := snd (snd x), dev := v\<rparr>))))
    | _ \<Rightarrow> Inr (- 1, b0, s0)) = Inr (e, b, s)"
  show ?thesis
  proof (cases p)
    case (VHeap m)
    then show ?thesis using r unfolding VHeap frame_ptr.case
      by - (erule kbindE, split if_split_asm, erule failed_size, erule kbindE, erule kbindE, erule taken_size, erule frame_ptr_keeps)
  qed (use r in \<open>auto simp: keeps_size_def\<close>)
qed

lemma GetFrame_size:
  assumes "GetFrame C b0 s0 = Inr (e, b, s)"
  shows "keeps_size s0 e b s"
  using assms streaming_size readwrite_size by (auto simp: GetFrame_def split: frame_io.splits)

lemma PutFrame_dev: "PutFrame C s = Inr (e, s') \<Longrightarrow> dev s' = dev s"
  by (auto simp: PutFrame_def V4l2PutFrameForStreaming_def V4l2PutFrameForReadWrite_def kbind_Inr_iff split: frame_io.splits)

lemma unconverted_turn:
  assumes u: "unconverted a" and get: "GetFrame C (tVideoBuf a) (cap a) = Inr (0, b, s)"
  shows "main_turn C malloc table a = kbind (PutFrame C s) (\<lambda>(e, s'). Inr (if e \<noteq> 0 then Some (- 1) else None,
      a\<lparr>tVideoBuf := b, tConvertBuf := same_size b (tConvertBuf a), cap := s'\<rparr>))"
proof -
  let ?c = "same_size b (tConvertBuf a)"
  let ?a = "a\<lparr>cap := s, tVideoBuf := b, tConvertBuf := ?c\<rparr>"
  have c: "vbuf_ptr ?c = PNull" "iLineBytes (vbuf_pix ?c) = 0" "iPixelFormat ?c = 0" "iWidth (vbuf_pix ?c) = dev_iWidth (dev (cap a))"
    "iHeight (vbuf_pix ?c) = dev_iHeight (dev (cap a))"
    using u GetFrame_size [OF get] by (simp_all add: unconverted_def same_size_def keeps_size_def)
  have "convert_frame (a\<lparr>cap := s, tVideoBuf := b\<rparr>) = Inr (0, ?c, ?a)"
    using u c(3) by (auto simp: convert_frame_def unconverted_def Yuv2RgbConvert_def Let_def)
  moreover have "scale_frame malloc table ?c ?a = Inr (?c, ?a)" using u c(4,5) by (simp add: scale_frame_def unconverted_def)
  moreover have "merge_frame ?c ?a = Inr ?a" using u c(1,2) by (intro merge_nothing) (simp_all add: unconverted_def)
  ultimately show ?thesis using get by (simp add: main_turn_def case_prod_beta cong: kbind_cong)
qed

lemma unconverted_runs:
  assumes "unconverted a"
  shows "case idle_turns C n (tVideoBuf a) (cap a) of Inl e \<Rightarrow> run_turns C malloc table n a = Inl e
    | Inr (r, b, s) \<Rightarrow> \<exists>a'. run_turns C malloc table n a = Inr (r, a') \<and> tVideoBuf a' = b \<and> cap a' = s \<and> lcd_screen a' = lcd_screen a"
  using assms
proof (induction n arbitrary: a)
  case (Suc n)
  show ?case
  proof (cases "GetFrame C (tVideoBuf a) (cap a)")
    case (Inl e)
    then show ?thesis by (simp add: main_turn_def)
  next
    case (Inr x)
    then obtain e b s where get: "GetFrame C (tVideoBuf a) (cap a) = Inr (e, b, s)" by (cases x) auto
    show ?thesis
    proof (cases "e = 0")
      case False
      then show ?thesis using get by (simp add: main_turn_def lcd_screen_def)
    next
      case True
      note turn = unconverted_turn [OF Suc.prems get [unfolded True], of malloc table]
      show ?thesis
      proof (cases "PutFrame C s")
        case (Inl e')
        then show ?thesis using get True turn by simp
      next
        case (Inr y)
        then obtain e' s' where put: "PutFrame C s = Inr (e', s')" by (cases y) auto
        let ?a = "a\<lparr>tVideoBuf := b, tConvertBuf := same_size b (tConvertBuf a), cap := s'\<rparr>"
        have scr: "lcd_screen ?a = lcd_screen a" by (simp add: lcd_screen_def)
        have "unconverted ?a"
          using Suc.prems GetFrame_size [OF get] PutFrame_dev [OF put] by (simp add: unconverted_def same_size_def keeps_size_def)
        from Suc.IH [OF this] show ?thesis
          using get True turn put scr by (auto split: sum.splits)
      qed
    qed
  qed
qed simp

text \<open>
  What \<open>main\<close> has set up when it enters the loop.
\<close>

lemma start_conversion_app:
  assumes "start_conversion C lib malloc mem d lcd fb s = Some (Inr (Inr a))"
  shows "tConvertBuf a = zero_buf\<lparr>vbuf_pix := zero_pix\<lparr>iBpp := iLcdBpp a\<rparr>\<rparr> \<and> disp a = d \<and> iPixelFormatOfVideo a = V4l2GetFormat (cap a) \<and>
    dev (cap a) = dev s \<and> iPixelFormatOfDisp a = iPixelFormat fb \<and> (iLcdWidth a, iLcdHeigt a, iLcdBpp a) = lcd \<and>
    (\<exists>l c. ptVideoConvert a = converters l lib malloc c \<and> conv_isSupport (converters l lib malloc c) (V4l2GetFormat s) (iPixelFormat fb))"
proof -
  obtain r l where res: "VideoConvertInit mem empty_registry = Inr (r, l)"
    using assms by (auto simp: start_conversion_def split: sum.splits prod.splits)
  obtain e reg where reg: "r = Some (e, reg)" using assms res by (cases r) (auto simp: start_conversion_def)
  obtain c where c: "GetVideoConvertForFormats (converters l lib malloc) (V4l2GetFormat s) (iPixelFormat fb) reg = Some (Some c)"
    using assms res reg by (auto simp: start_conversion_def bind_eq_Some_conv split: option.splits)
  have "list_all mem [0..<11]"
    using res by (auto simp: VideoConvertInit_def Yuv2RgbInit_def initLut_def kbind_Inr_iff simp del: upt_rec_numeral split: if_splits)
  then obtain reg' l' where sel: "VideoConvertInit mem empty_registry = Inr (Some (0, reg'), l')" "nodes reg' [0, 1, 2]"
    using register_converters by (auto simp: VideoConvertInit_def Yuv2RgbInit_def initLut_def simp del: upt_rec_numeral)
  have "nodes reg [0, 1, 2]" using sel res reg by simp
  then have "List.find (\<lambda>a. conv_isSupport (converters l lib malloc a) (V4l2GetFormat s) (iPixelFormat fb)) [0, 1, 2] = Some c"
    using c linked.lookup by (auto simp: GetVideoConvertForFormats_def)
  then have "conv_isSupport (converters l lib malloc c) (V4l2GetFormat s) (iPixelFormat fb)" by (auto split: if_splits)
  moreover have "ptVideoConvert a = converters l lib malloc c" "tConvertBuf a = zero_buf\<lparr>vbuf_pix := zero_pix\<lparr>iBpp := iLcdBpp a\<rparr>\<rparr>" "disp a = d"
    "iPixelFormatOfVideo a = V4l2GetFormat (cap a)" "dev (cap a) = dev s" "iPixelFormatOfDisp a = iPixelFormat fb" "(iLcdWidth a, iLcdHeigt a, iLcdBpp a) = lcd"
    using assms res reg c by (auto simp: start_conversion_def V4l2StartDevice_def V4l2GetFormat_def kbind_Inr_iff split: if_splits prod.splits)
  ultimately show ?thesis by blast
qed

lemma main_setup_display:
  assumes "main_setup C fbdev lib malloc mem argv d s = Some (Inr (Inr a))"
  obtains d1 lcd fb s1 where "start_conversion C lib malloc mem d1 lcd fb s1 = Some (Inr (Inr a))" "GetVideoBufForDisplay d1 = Inr fb" "GetDispResolution d1 = Some lcd"
proof -
  have argc: "length argv = 2" using assms by (auto simp: main_setup_def split: if_splits)
  obtain ret d0 r where d0: "DisplayInit d = Some (ret, d0)" "SelectAndInitDefaultDispDev fbdev ''fb'' d0 = Some r"
    using assms argc by (auto simp: main_setup_def bind_eq_Some_conv)
  obtain d1 where d1: "r = Inr d1" using assms argc d0 by (cases r) (auto simp: main_setup_def)
  obtain fb where fb: "GetVideoBufForDisplay d1 = Inr fb"
    using assms argc d0 d1 by (cases "GetVideoBufForDisplay d1") (auto simp: main_setup_def)
  obtain lcd where lcd: "GetDispResolution d1 = Some lcd"
    using fb by (cases "g_ptDefaultDispOpr d1") (auto simp: GetVideoBufForDisplay_def GetDispResolution_def)
  obtain ret' reg y where y: "VideoInit empty_registry = Some (ret', reg)" "VideoDeviceInit C (fst lcd, fst (snd lcd)) malloc reg (argv ! 1) s = Some y"
    using assms argc d0 d1 fb lcd by (auto simp: main_setup_def bind_eq_Some_conv)
  obtain e s1 where "y = Inr (e, s1)" using assms argc d0 d1 fb lcd y by (cases y) (auto simp: main_setup_def)
  then show ?thesis
    using assms argc d0 d1 fb lcd y that [of d1 lcd fb s1] by (simp add: main_setup_def split: if_split_asm)
qed

lemma main_setup_unconverted:
  assumes a: "main_setup C fbdev lib malloc mem argv d s = Some (Inr (Inr a))" and yuyv: "V4l2GetFormat (cap a) = V4L2_PIX_FMT_YUYV"
    and fits: "dev_iWidth (dev (cap a)) \<le> iLcdWidth a" "dev_iHeight (dev (cap a)) \<le> iLcdHeigt a"
  shows "unconverted a"
proof -
  obtain d1 lcd fb s1 where start: "start_conversion C lib malloc mem d1 lcd fb s1 = Some (Inr (Inr a))" and fb: "GetVideoBufForDisplay d1 = Inr fb"
    by (rule main_setup_display [OF a])
  note app = start_conversion_app [OF start]
  then obtain l c where c: "ptVideoConvert a = converters l lib malloc c" "conv_isSupport (converters l lib malloc c) (V4l2GetFormat s1) (iPixelFormat fb)"
    by blast
  have s1: "V4l2GetFormat s1 = V4L2_PIX_FMT_YUYV" using app yuyv by (simp add: V4l2GetFormat_def)
  then have "c = 0"
    using c(2) by (auto simp: converters_def isSupportMjpeg2Rgb_def isSupportRgb2Rgb_def split: if_splits)
  then have conv: "Convert (ptVideoConvert a) = Yuv2RgbConvert l malloc" using c(1) by (simp add: converters_def)
  obtain o1 where o1: "g_ptDefaultDispOpr d1 = Some o1" using fb by (cases "g_ptDefaultDispOpr d1") (simp_all add: GetVideoBufForDisplay_def)
  have "iPixelFormat fb \<noteq> V4L2_PIX_FMT_YUYV" using fb o1 by (auto simp: GetVideoBufForDisplay_def Let_def split: if_split_asm)
  then have "iPixelFormatOfVideo a \<noteq> iPixelFormatOfDisp a" using app yuyv by simp
  moreover have "tConvertBuf a = zero_buf\<lparr>vbuf_pix := zero_pix\<lparr>iBpp := iLcdBpp a\<rparr>\<rparr>" "disp a = d1" using app by blast+
  ultimately show ?thesis
    using conv o1 fits unfolding unconverted_def by (auto simp: zero_buf_def zero_pix_def)
qed

text \<open>
  C37: with a camera that delivers YUYV frames no larger than the screen, the program displays nothing:
  whatever number of turns it makes, the screen is as it was, and the frames, the calls on the device and
  the return value are those of a loop that only takes frames and gives them back.  The format of the
  conversion buffer stays 0, so the conversion neither converts nor fails.
\<close>

theorem yuyv_shows_nothing:
  assumes "main_setup C fbdev lib malloc mem argv d s = Some (Inr (Inr a))" "V4l2GetFormat (cap a) = V4L2_PIX_FMT_YUYV"
    and "dev_iWidth (dev (cap a)) \<le> iLcdWidth a" "dev_iHeight (dev (cap a)) \<le> iLcdHeigt a"
  shows "case idle_turns C n (tVideoBuf a) (cap a) of Inl e \<Rightarrow> run_turns C malloc table n a = Inl e
    | Inr (r, b, s) \<Rightarrow> \<exists>a'. run_turns C malloc table n a = Inr (r, a') \<and> tVideoBuf a' = b \<and> cap a' = s \<and> lcd_screen a' = lcd_screen a"
  by (rule unconverted_runs [OF main_setup_unconverted [OF assms]])

text \<open>
  A run: the setup succeeds with a YUYV camera, and three turns later the screen is as it was.
\<close>

definition yuyv_camera :: "unit camera" where
  "yuyv_camera = demo_camera\<lparr>cam_querycap := (\<lambda>c d. Inr (0, c\<lparr>cap_capabilities := V4L2_CAP_VIDEO_CAPTURE OR V4L2_CAP_STREAMING\<rparr>, d)),
     cam_enum_fmt := (\<lambda>f d. Inr (0, f\<lparr>fd_pixelformat := V4L2_PIX_FMT_YUYV\<rparr>, d))\<rparr>"

definition demo_fb :: fb_device where
  "demo_fb = \<lparr>dev_open = 3, dev_vscreeninfo = (\<lambda>fd. Some \<lparr>xres = 2, yres = 1, bits_per_pixel = 32\<rparr>), dev_fscreeninfo = (\<lambda>fd. True),
     dev_mmap = (\<lambda>fd n. Some (replicate 8 7))\<rparr>"

lemma demo_display_ready:
  "\<exists>d0 d1. DisplayInit demo_display = Some (0, d0) \<and> SelectAndInitDefaultDispDev demo_fb ''fb'' d0 = Some (Inr d1) \<and>
    GetDispResolution d1 = Some (2, 1, 32) \<and> (\<exists>fb. GetVideoBufForDisplay d1 = Inr fb \<and> iPixelFormat fb = V4L2_PIX_FMT_RGB32)"
proof -
  have mem: "fill_loop (put_le32 0) 8 0 (replicate 8 7) = Inr (replicate 8 0)"
    by (simp add: fill_loop.simps put_at_def mem_write_def put_le32_def numeral_eq_Suc)
  show ?thesis
    by (simp add: DisplayInit_def FBInit_def RegisterDispOpr_def register_node_def empty_registry_def demo_display_def
        SelectAndInitDefaultDispDev_def GetDispOpr_def lookup_node_def find_node.simps disp_name_def FBDeviceInit_def demo_fb_def
        FBCleanScreen_def fb_store_def GetDispResolution_def GetVideoBufForDisplay_def Let_def mem)
qed

lemma yuyv_camera_calls [simp]:
  "cam_open yuyv_camera n d = Inr (3, d)" "cam_querycap yuyv_camera c d = Inr (0, c\<lparr>cap_capabilities := V4L2_CAP_VIDEO_CAPTURE OR V4L2_CAP_STREAMING\<rparr>, d)"
  "cam_enum_fmt yuyv_camera f d = Inr (0, f\<lparr>fd_pixelformat := V4L2_PIX_FMT_YUYV\<rparr>, d)" "cam_s_fmt yuyv_camera fmt d = Inr (0, fmt, d)"
  "cam_reqbufs yuyv_camera r d = Inr (0, r, d)" "cam_querybuf yuyv_camera b d = Inr (0, b, d)" "cam_mmap yuyv_camera l off d = Inr (Some 0, d)"
  "cam_qbuf yuyv_camera b d = Inr (0, d)" "cam_streamon yuyv_camera d = Inr (0, d)" "cam_poll yuyv_camera d = Inr (1, d)"
  "cam_dqbuf yuyv_camera b d = Inr (0, b\<lparr>b_bytesused := 4\<rparr>, d)"
  by (simp_all add: yuyv_camera_def demo_camera_def)

definition yuyv_capture :: "unit capture" where
  "yuyv_capture = (demo_capture V4L2_PIX_FMT_YUYV)\<lparr>dev := (dev (demo_capture V4L2_PIX_FMT_YUYV))\<lparr>iVideoBufCnt := 4, iVideoBufMaxLen := 0,
     pucVideBuf := [VMap 0, VMap 0, VMap 0, VMap 0]\<rparr>\<rparr>"

lemma yuyv_camera_init: "V4l2InitDevice yuyv_camera (2, 1) malloc name (demo_capture 0) = Some (Inr (0, yuyv_capture))"
proof -
  have four: "[0..<4] = [0, 1, 2, 3 :: nat]" by code_simp
  show ?thesis
    by (simp add: V4l2InitDevice_def enum_formats.simps isSupportThisFormat_def init_format_def init_device_buffers_def demo_capture_def yuyv_capture_def four
        mmap_buffer_def set_frame_ptr_def Let_def)
qed

lemma yuyv_setup:
  "\<exists>a. main_setup yuyv_camera demo_fb red_lib malloc (\<lambda>k. True) [''video2lcd'', ''/dev/video0''] demo_display (demo_capture 0) = Some (Inr (Inr a)) \<and>
    cap a = yuyv_capture \<and> iLcdWidth a = 2 \<and> iLcdHeigt a = 1"
proof -
  obtain d0 d1 fb where d: "DisplayInit demo_display = Some (0, d0)" "SelectAndInitDefaultDispDev demo_fb ''fb'' d0 = Some (Inr d1)"
    "GetDispResolution d1 = Some (2, 1, 32)" "GetVideoBufForDisplay d1 = Inr fb" "iPixelFormat fb = V4L2_PIX_FMT_RGB32"
    using demo_display_ready by blast
  have reg: "VideoInit empty_registry = Some (0, \<lparr>reg_head = Some 0, reg_next = Map.empty\<rparr>)"
    by (simp add: VideoInit_def V4l2Init_def RegisterVideoOpr_def register_node_def empty_registry_def)
  obtain l where l: "initLut (\<lambda>k. True) = Inr l" by (auto simp: initLut_def list_all_iff simp del: upt_rec_numeral)
  obtain r where r: "VideoConvertInit (\<lambda>k. True) empty_registry = Inr (Some (0, r), l)" "nodes r [0, 1, 2]"
    using register_converters l by (auto simp: VideoConvertInit_def Yuv2RgbInit_def)
  have "GetVideoConvertForFormats (converters l red_lib malloc) V4L2_PIX_FMT_YUYV V4L2_PIX_FMT_RGB32 r = Some (Some 0)"
    unfolding GetVideoConvertForFormats_def using linked.lookup [OF r(2)] by (simp add: converters_def isSupportYuv2Rgb_def)
  moreover have "V4l2GetFormat yuyv_capture = V4L2_PIX_FMT_YUYV" "V4l2StartDevice yuyv_camera yuyv_capture = Inr (0, yuyv_capture)"
    by (simp_all add: V4l2GetFormat_def V4l2StartDevice_def yuyv_capture_def demo_capture_def)
  ultimately show ?thesis
    by (simp add: main_setup_def d reg VideoDeviceInit_def try_modules.simps [of _ _ "Some 0"] yuyv_camera_init start_conversion_def r(1))
qed

lemma yuyv_idle: "\<exists>b. idle_turns yuyv_camera 3 b0 yuyv_capture = Inr (None, b, yuyv_capture)"
proof -
  have "\<exists>b. GetFrame yuyv_camera b0 yuyv_capture = Inr (0, b, yuyv_capture)" for b0
    by (simp add: GetFrame_def yuyv_capture_def demo_capture_def g_tV4l2VideoOpr_def V4l2GetFrameForStreaming_def get_frame_ptr_def Let_def)
  then obtain g where "GetFrame yuyv_camera b0 yuyv_capture = Inr (0, g b0, yuyv_capture)" for b0 by metis
  moreover have "PutFrame yuyv_camera yuyv_capture = Inr (0, yuyv_capture)"
    by (simp add: PutFrame_def yuyv_capture_def demo_capture_def g_tV4l2VideoOpr_def V4l2PutFrameForStreaming_def)
  ultimately show ?thesis by (simp add: numeral_3_eq_3)
qed

theorem yuyv_shows_nothing_witness:
  "\<exists>a a'. main_setup yuyv_camera demo_fb red_lib (\<lambda>k n. None) (\<lambda>k. True) [''video2lcd'', ''/dev/video0''] demo_display (demo_capture 0) = Some (Inr (Inr a)) \<and>
    run_turns yuyv_camera (\<lambda>k n. None) True 3 a = Inr (None, a') \<and> lcd_screen a' = lcd_screen a"
proof -
  obtain a where a: "main_setup yuyv_camera demo_fb red_lib (\<lambda>k n. None) (\<lambda>k. True) [''video2lcd'', ''/dev/video0''] demo_display (demo_capture 0) = Some (Inr (Inr a))"
    "cap a = yuyv_capture" "iLcdWidth a = 2" "iLcdHeigt a = 1"
    using yuyv_setup [of "\<lambda>k n. None"] by blast
  obtain b where "idle_turns yuyv_camera 3 (tVideoBuf a) (cap a) = Inr (None, b, yuyv_capture)" using yuyv_idle a(2) by metis
  then have "\<exists>a'. run_turns yuyv_camera (\<lambda>k n. None) True 3 a = Inr (None, a') \<and> lcd_screen a' = lcd_screen a"
    using yuyv_shows_nothing [OF a(1), where n = 3 and table = True] a(2-4) by (auto simp: V4l2GetFormat_def yuyv_capture_def demo_capture_def)
  then show ?thesis using a(1) by blast
qed

end
