(* ===== verification/Device_Contract.thy ===== *)
theory Device_Contract
  imports V4l2_Core Video2lcd_Props
begin

text \<open>
  What the application relies on and what it promises in return.  A device is closed or open; opening
  it succeeds or leaves it closed, every call on an open device leaves it open, closing it closes it.
  Then an initialisation that fails has closed the device again, one that succeeds leaves it open, and
  so does every turn of the loop.
\<close>

section \<open>The contract of a device file\<close>

text \<open>
  The steps of a turn between taking the frame and giving it back do not touch the device.
\<close>

lemma convert_frame_cap: "convert_frame a = Inr (e, cur, a') \<Longrightarrow> cap a' = cap a"
  by (auto simp: convert_frame_def elim!: kbindE split: if_splits)

lemma scale_frame_cap: "scale_frame malloc table cur a = Inr (cur', a') \<Longrightarrow> cap a' = cap a"
  by (auto simp: scale_frame_def Let_def elim!: kbindE split: if_splits)

lemma merge_frame_cap: "merge_frame cur a = Inr a' \<Longrightarrow> cap a' = cap a"
  by (auto simp: merge_frame_def Let_def elim!: kbindE)

locale device_file =
  fixes C :: "'d camera" and closed opened :: "'d \<Rightarrow> bool"
  assumes open_result: "closed d \<Longrightarrow> cam_open C name d = Inr (fd, d') \<Longrightarrow> if fd < 0 then closed d' else opened d'"
    and close_closes: "opened d \<Longrightarrow> cam_close C d = Inr d' \<Longrightarrow> closed d'"
    and querycap_keeps: "opened d \<Longrightarrow> cam_querycap C p d = Inr (r, p', d') \<Longrightarrow> opened d'"
    and enum_fmt_keeps: "opened d \<Longrightarrow> cam_enum_fmt C f d = Inr (r, f', d') \<Longrightarrow> opened d'"
    and s_fmt_keeps: "opened d \<Longrightarrow> cam_s_fmt C fmt d = Inr (r, fmt', d') \<Longrightarrow> opened d'"
    and reqbufs_keeps: "opened d \<Longrightarrow> cam_reqbufs C q d = Inr (r, q', d') \<Longrightarrow> opened d'"
    and querybuf_keeps: "opened d \<Longrightarrow> cam_querybuf C b d = Inr (r, b', d') \<Longrightarrow> opened d'"
    and mmap_keeps: "opened d \<Longrightarrow> cam_mmap C len off d = Inr (m, d') \<Longrightarrow> opened d'"
    and munmap_keeps: "opened d \<Longrightarrow> cam_munmap C k d = Inr d' \<Longrightarrow> opened d'"
    and qbuf_keeps: "opened d \<Longrightarrow> cam_qbuf C b d = Inr (r, d') \<Longrightarrow> opened d'"
    and dqbuf_keeps: "opened d \<Longrightarrow> cam_dqbuf C b d = Inr (r, b', d') \<Longrightarrow> opened d'"
    and poll_keeps: "opened d \<Longrightarrow> cam_poll C d = Inr (r, d') \<Longrightarrow> opened d'"
    and read_keeps: "opened d \<Longrightarrow> cam_read C n d = Inr (r, bs, d') \<Longrightarrow> opened d'"
    and streamon_keeps: "opened d \<Longrightarrow> cam_streamon C d = Inr (r, d') \<Longrightarrow> opened d'"
    and streamoff_keeps: "opened d \<Longrightarrow> cam_streamoff C d = Inr (r, d') \<Longrightarrow> opened d'"
begin

lemma err_exit_closes: "opened (cam s) \<Longrightarrow> err_exit C s = Inr (r, s') \<Longrightarrow> r = - 1 \<and> closed (cam s')"
  unfolding err_exit_def by (erule kbindE) (auto dest: close_closes)

lemma map_buffers_keeps: "opened (cam s) \<Longrightarrow> map_buffers C is s = Inr (ok, s') \<Longrightarrow> opened (cam s')"
proof (induction "is" arbitrary: s)
  case (Cons i "is")
  obtain e b d where q: "cam_querybuf C (mmap_buffer i) (cam s) = Inr (e, b, d)"
    using Cons.prems(2) by (auto elim!: kbindE)
  note d = querybuf_keeps [OF Cons.prems(1) q]
  show ?case
  proof (cases "e = 0")
    case True
    then obtain m d' where m: "cam_mmap C (b_length b) (b_m b) d = Inr (m, d')" using Cons.prems(2) q by (auto elim!: kbindE)
    obtain v where v: "set_frame_ptr i (case m of Some k \<Rightarrow> VMap k | None \<Rightarrow> VFailed) ((dev s)\<lparr>iVideoBufMaxLen := sint (b_length b)\<rparr>) = Inr v"
      using Cons.prems(2) q m True by (auto elim!: kbindE)
    show ?thesis
      using Cons.prems(2) q m v True mmap_keeps [OF d m] Cons.IH [of "s\<lparr>cam := d', dev := v\<rparr>"] by (auto simp: Let_def split: if_splits)
  qed (use Cons.prems(2) q d in auto)
qed simp

lemma queue_buffers_keeps: "opened (cam s) \<Longrightarrow> queue_buffers C is s = Inr (ok, s') \<Longrightarrow> opened (cam s')"
proof (induction "is" arbitrary: s)
  case (Cons i "is")
  obtain e d where q: "cam_qbuf C (mmap_buffer i) (cam s) = Inr (e, d)" using Cons.prems(2) by (auto elim!: kbindE)
  show ?case using Cons.prems(2) q qbuf_keeps [OF Cons.prems(1) q] Cons.IH [of "s\<lparr>cam := d\<rparr>"] by (auto split: if_splits)
qed simp

lemma map_and_queue_result:
  assumes "opened (cam s)"
    "kbind (map_buffers C js s) (\<lambda>(ok, s). if \<not> ok then err_exit C s
      else kbind (queue_buffers C js s) (\<lambda>(ok, s). if \<not> ok then err_exit C s else Inr (0, s))) = Inr (r, s')"
  shows "if r = 0 then opened (cam s') else closed (cam s')"
proof -
  obtain ok s1 where m: "map_buffers C js s = Inr (ok, s1)" using assms(2) by (auto elim!: kbindE)
  note o1 = map_buffers_keeps [OF assms(1) m]
  show ?thesis
  proof (cases ok)
    case True
    then obtain ok2 s2 where q: "queue_buffers C js s1 = Inr (ok2, s2)" using assms(2) m by (auto elim!: kbindE)
    note o2 = queue_buffers_keeps [OF o1 q]
    show ?thesis using assms(2) m q True o2 err_exit_closes [OF o2, of r s'] by (auto split: if_splits)
  qed (use assms(2) m err_exit_closes [OF o1, of r s'] in auto)
qed

lemma init_buffers_result:
  assumes "opened (cam s)" "init_device_buffers C malloc capabilities s = Inr (r, s')"
  shows "if r = 0 then opened (cam s') else closed (cam s')"
proof -
  obtain e q d where rq: "cam_reqbufs C \<lparr>rb_count = of_nat NB_BUFFER, rb_type = V4L2_BUF_TYPE_VIDEO_CAPTURE, rb_memory = V4L2_MEMORY_MMAP\<rparr> (cam s) = Inr (e, q, d)"
    using assms(2) unfolding init_device_buffers_def by (auto elim!: kbindE)
  note d = reqbufs_keeps [OF assms(1) rq]
  let ?s = "s\<lparr>cam := d, dev := (dev s)\<lparr>iVideoBufCnt := sint (rb_count q)\<rparr>\<rparr>"
  note r = assms(2) [unfolded init_device_buffers_def rq Let_def kbind_simps prod.case]
  show ?thesis
  proof (cases "e = 0")
    case True
    then show ?thesis
    proof (cases "capabilities AND V4L2_CAP_STREAMING = 0")
      case False
      then show ?thesis using r True d map_and_queue_result [of ?s _ r s'] by auto
    qed (use r True d in \<open>auto elim!: kbindE split: if_splits\<close>)
  qed (use r d err_exit_closes [of "s\<lparr>cam := d\<rparr>" r s'] in auto)
qed

lemma init_format_result:
  assumes "opened (cam s)" "init_format C lcd malloc capabilities s = Inr (r, s')"
  shows "if r = 0 then opened (cam s') else closed (cam s')"
proof (cases "dev_iPixelFormat (dev s) = 0")
  case False
  then obtain fmt e fmt' d where f: "cam_s_fmt C fmt (cam s) = Inr (e, fmt', d)" and
    r: "(let s = s\<lparr>cam := d\<rparr> in if e \<noteq> 0 then err_exit C s else init_device_buffers C malloc capabilities
      (s\<lparr>dev := (dev s)\<lparr>dev_iWidth := sint (pf_width (f_pix fmt')), dev_iHeight := sint (pf_height (f_pix fmt'))\<rparr>\<rparr>)) = Inr (r, s')"
    using assms(2) unfolding init_format_def Let_def by (auto elim!: kbindE)
  have d: "opened d" by (rule s_fmt_keeps [OF assms(1) f])
  show ?thesis
  proof (cases "e = 0")
    case True
    with r show ?thesis by (intro init_buffers_result [where malloc = malloc and capabilities = capabilities]) (simp_all add: d)
  qed (use r d err_exit_closes [of "s\<lparr>cam := d\<rparr>" r s'] in \<open>auto simp: Let_def\<close>)
qed (use assms err_exit_closes [of s r s'] in \<open>auto simp: init_format_def\<close>)

lemma enum_formats_keeps:
  assumes "enum_formats C f s = Some x" "opened (cam s)" "x = Inr s'"
  shows "opened (cam s')"
proof -
  let ?P = "\<lambda>C' f s x. C' = C \<longrightarrow> opened (cam s) \<longrightarrow> (\<forall>s'. x = Inr s' \<longrightarrow> opened (cam s'))"
  have "?P C f s x"
  proof (rule enum_formats.raw_induct [where P = ?P, OF _ assms(1)], intro impI allI)
    fix enum C' f s x s'
    assume step: "\<And>C' f s x. enum C' f s = Some x \<Longrightarrow> ?P C' f s x"
      "(case cam_enum_fmt C' f (cam s) of Inl e \<Rightarrow> Some (Inl e)
        | Inr (iError, tFmtDesc, d) \<Rightarrow>
            if iError \<noteq> 0 then Some (Inr (s\<lparr>cam := d\<rparr>))
            else if isSupportThisFormat (fd_pixelformat tFmtDesc)
            then Some (Inr (s\<lparr>cam := d, dev := (dev s)\<lparr>dev_iPixelFormat := fd_pixelformat tFmtDesc\<rparr>\<rparr>))
            else enum C' (tFmtDesc\<lparr>fd_index := fd_index tFmtDesc + 1\<rparr>) (s\<lparr>cam := d\<rparr>)) = Some x"
      "C' = C" "opened (cam s)" "x = Inr s'"
    obtain e f' d where y: "cam_enum_fmt C f (cam s) = Inr (e, f', d)" using step(2,3,5) by (cases "cam_enum_fmt C f (cam s)") auto
    have "opened d" by (rule enum_fmt_keeps [OF step(4) y])
    then show "opened (cam s')"
      using step(2,3,5) y step(1) [of C "f'\<lparr>fd_index := fd_index f' + 1\<rparr>" "s\<lparr>cam := d\<rparr>" x] by (auto split: if_splits)
  qed
  then show ?thesis using assms(2,3) by simp
qed

lemma init_device_result:
  assumes "closed (cam s)" "V4l2InitDevice C lcd malloc name s = Some (Inr (r, s'))"
  shows "if r = 0 then opened (cam s') else closed (cam s')"
proof -
  obtain fd d where o: "cam_open C name (cam s) = Inr (fd, d)" using assms(2) by (cases "cam_open C name (cam s)") (auto simp: V4l2InitDevice_def)
  note op = open_result [OF assms(1) o]
  show ?thesis
  proof (cases "fd < 0")
    case False
    let ?q = "kbind (cam_querycap C cap_zero d) (\<lambda>(iError, cap, d). cam_querycap C cap_zero d)"
    obtain e p d2 where q: "?q = Inr (e, p, d2)" using assms(2) o False by (cases ?q) (auto simp: V4l2InitDevice_def Let_def)
    obtain e1 p1 d1 where q1: "cam_querycap C cap_zero d = Inr (e1, p1, d1)" "cam_querycap C cap_zero d1 = Inr (e, p, d2)"
      using q by (rule kbindE) auto
    have d2: "opened d2" using op False by (intro querycap_keeps [OF querycap_keeps [OF _ q1(1)] q1(2)]) simp
    let ?s = "s\<lparr>dev := (dev s)\<lparr>iFd := fd\<rparr>, cam := d2\<rparr>"
    note r = assms(2) [unfolded V4l2InitDevice_def o Let_def sum.case prod.case if_not_P [OF False] q]
    show ?thesis
    proof (cases "e \<noteq> 0 \<or> cap_capabilities p AND V4L2_CAP_VIDEO_CAPTURE = 0")
      case False
      with r obtain x s1 where s1: "enum_formats C (fmtdesc_zero\<lparr>fd_index := 0, fd_type := V4L2_BUF_TYPE_VIDEO_CAPTURE\<rparr>) ?s = Some x" "x = Inr s1"
        "init_format C lcd malloc (cap_capabilities p) s1 = Inr (r, s')" by (auto elim!: kbindE)
      show ?thesis by (rule init_format_result [OF enum_formats_keeps [OF s1(1) _ s1(2)] s1(3)]) (simp add: d2)
    qed (use r d2 err_exit_closes [of ?s r s'] in auto)
  qed (use assms(2) o op in \<open>auto simp: V4l2InitDevice_def\<close>)
qed

text \<open>
  Frames, and the turns of the loop.
\<close>

lemma GetFrame_streaming_keeps:
  assumes "opened (cam s)" "V4l2GetFrameForStreaming C b s = Inr (e, b', s')"
  shows "opened (cam s')"
proof -
  obtain r d where p: "cam_poll C (cam s) = Inr (r, d)" using assms(2) unfolding V4l2GetFrameForStreaming_def by (rule kbindE) auto
  note d = poll_keeps [OF assms(1) p]
  show ?thesis
  proof (cases "r \<le> 0")
    case False
    then obtain r2 v d2 where q: "cam_dqbuf C ((0 :: v4l2_buffer)\<lparr>b_type := V4L2_BUF_TYPE_VIDEO_CAPTURE, b_memory := V4L2_MEMORY_MMAP\<rparr>) d = Inr (r2, v, d2)"
      using assms(2) p unfolding V4l2GetFrameForStreaming_def by (auto elim!: kbindE)
    then show ?thesis
      using assms(2) p False dqbuf_keeps [OF d q] unfolding V4l2GetFrameForStreaming_def by (auto simp: Let_def elim!: kbindE split: if_splits)
  qed (use assms(2) p d in \<open>auto simp: V4l2GetFrameForStreaming_def\<close>)
qed

lemma GetFrame_readwrite_keeps:
  assumes "opened (cam s)" "V4l2GetFrameForReadWrite C b s = Inr (e, b', s')"
  shows "opened (cam s')"
proof -
  obtain p where p: "get_frame_ptr 0 (dev s) = Inr p" using assms(2) unfolding V4l2GetFrameForReadWrite_def by (rule kbindE) auto
  show ?thesis
  proof (cases p)
    case (VHeap m)
    then obtain r bs d where d: "cam_read C (iVideoBufMaxLen (dev s)) (cam s) = Inr (r, bs, d)"
      using assms(2) p unfolding V4l2GetFrameForReadWrite_def by (auto elim!: kbindE)
    show ?thesis using assms(2) p VHeap d read_keeps [OF assms(1) d] by (auto simp: V4l2GetFrameForReadWrite_def elim!: kbindE split: if_splits)
  qed (use assms p in \<open>auto simp: V4l2GetFrameForReadWrite_def\<close>)
qed

lemma GetFrame_keeps:
  assumes "opened (cam s)" "GetFrame C b s = Inr (e, b', s')"
  shows "opened (cam s')"
  using assms(2) GetFrame_streaming_keeps [OF assms(1), of b e b' s'] GetFrame_readwrite_keeps [OF assms(1), of b e b' s']
  by (cases "GetFrame_ptr (opr s)") (simp_all add: GetFrame_def)

lemma PutFrame_keeps:
  assumes "opened (cam s)" "PutFrame C s = Inr (e, s')"
  shows "opened (cam s')"
proof (cases "PutFrame_ptr (opr s)")
  case ForStreaming
  then obtain v r d where d: "cam_qbuf C v (cam s) = Inr (r, d)" "s' = s\<lparr>cam := d\<rparr>"
    using assms(2) by (auto simp: PutFrame_def V4l2PutFrameForStreaming_def elim!: kbindE)
  then show ?thesis using qbuf_keeps [OF assms(1) d(1)] by simp
qed (use assms in \<open>simp add: PutFrame_def V4l2PutFrameForReadWrite_def\<close>)

lemma start_keeps: "opened (cam s) \<Longrightarrow> V4l2StartDevice C s = Inr (e, s') \<Longrightarrow> opened (cam s')"
  unfolding V4l2StartDevice_def by (erule kbindE) (auto intro: streamon_keeps)

lemma stop_keeps: "opened (cam s) \<Longrightarrow> V4l2StopDevice C s = Inr (e, s') \<Longrightarrow> opened (cam s')"
  unfolding V4l2StopDevice_def by (erule kbindE) (auto intro: streamoff_keeps)

lemma unmap_buffers_keeps: "opened (cam s) \<Longrightarrow> unmap_buffers C is s = Inr s' \<Longrightarrow> opened (cam s')"
proof (induction "is" arbitrary: s)
  case (Cons i "is")
  obtain p where p: "get_frame_ptr i (dev s) = Inr p" using Cons.prems(2) by (auto elim!: kbindE)
  show ?case
  proof (cases "p = VNull")
    case False
    then obtain d v where d: "(case p of VMap k \<Rightarrow> cam_munmap C k (cam s) | _ \<Rightarrow> Inr (cam s)) = Inr d"
      "unmap_buffers C is (s\<lparr>cam := d, dev := v\<rparr>) = Inr s'" using Cons.prems(2) p by (auto elim!: kbindE)
    have "opened d" using d(1) Cons.prems(1) munmap_keeps by (auto split: frame_ptr.splits)
    then show ?thesis using Cons.IH [OF _ d(2)] by simp
  qed (use Cons p in auto)
qed simp

lemma exit_closes: "opened (cam s) \<Longrightarrow> V4l2ExitDevice C s = Inr (r, s') \<Longrightarrow> closed (cam s')"
  unfolding V4l2ExitDevice_def by (elim kbindE) (auto dest: unmap_buffers_keeps intro: close_closes)

lemma turn_keeps:
  assumes "opened (cam (cap a))" "main_turn C malloc table a = Inr (r, a')"
  shows "opened (cam (cap a'))"
proof -
  obtain e b s where g: "GetFrame C (tVideoBuf a) (cap a) = Inr (e, b, s)" using assms(2) unfolding main_turn_def by (rule kbindE) auto
  note s = GetFrame_keeps [OF assms(1) g]
  let ?a = "a\<lparr>cap := s, tVideoBuf := b\<rparr>"
  note r = assms(2) [unfolded main_turn_def g Let_def kbind_simps prod.case]
  show ?thesis
  proof (cases "e = 0")
    case True
    with r obtain e1 cur a1 where c: "convert_frame ?a = Inr (e1, cur, a1)" by (auto elim!: kbindE)
    show ?thesis
    proof (cases "e1 = 0")
      case True
      with r c \<open>e = 0\<close> obtain cur2 a2 a3 e4 s4 where l: "scale_frame malloc table cur a1 = Inr (cur2, a2)" "merge_frame cur2 a2 = Inr a3"
        "PutFrame C (cap a3) = Inr (e4, s4)" "a' = a3\<lparr>cap := s4\<rparr>" by (auto elim!: kbindE)
      have "opened (cam (cap a3))" using s convert_frame_cap [OF c] scale_frame_cap [OF l(1)] merge_frame_cap [OF l(2)] by simp
      from PutFrame_keeps [OF this l(3)] show ?thesis using l(4) by simp
    qed (use r c \<open>e = 0\<close> s convert_frame_cap [OF c] in auto)
  qed (use r s in auto)
qed

lemma loop_keeps:
  assumes "main_loop C malloc table a = Some x" "opened (cam (cap a))" "x = Inr (r, a')"
  shows "opened (cam (cap a'))"
proof -
  let ?P = "\<lambda>C' malloc table a x. C' = C \<longrightarrow> opened (cam (cap a)) \<longrightarrow> (\<forall>r a'. x = Inr (r, a') \<longrightarrow> opened (cam (cap a')))"
  have "?P C malloc table a x"
  proof (rule main_loop.raw_induct [where P = ?P, OF _ assms(1)], intro impI allI)
    fix loop C' malloc table a x r a'
    assume step: "\<And>C' malloc table a x. loop C' malloc table a = Some x \<Longrightarrow> ?P C' malloc table a x"
      "(case main_turn C' malloc table a of Inl e \<Rightarrow> Some (Inl e) | Inr (Some r, a) \<Rightarrow> Some (Inr (r, a)) | Inr (None, a) \<Rightarrow> loop C' malloc table a) = Some x"
      "C' = C" "opened (cam (cap a))" "x = Inr (r, a')"
    obtain o1 a1 where t: "main_turn C malloc table a = Inr (o1, a1)" using step(2,3,5) by (cases "main_turn C malloc table a") auto
    show "opened (cam (cap a'))"
      using step(2,3,5) t turn_keeps [OF step(4) t] step(1) [of C malloc table a1 x] by (auto split: option.splits)
  qed
  then show ?thesis using assms(2,3) by simp
qed

lemma device_init_result:
  assumes "VideoDeviceInit C lcd malloc r name s = Some x" "closed (cam s)" "x = Inr (e, s')"
  shows "if e = 0 then opened (cam s') else closed (cam s')"
proof -
  let ?I = "V4l2InitDevice C lcd malloc name"
  let ?P = "\<lambda>I nx p s x. I = ?I \<longrightarrow> closed (cam s) \<longrightarrow> (\<forall>e s'. x = Inr (e, s') \<longrightarrow> (if e = 0 then opened (cam s') else closed (cam s')))"
  have "?P ?I (reg_next r) (reg_head r) s x"
  proof (rule try_modules.raw_induct [where P = ?P, OF _ assms(1) [unfolded VideoDeviceInit_def]], intro impI allI)
    fix mods I nx p s x s' and e :: int
    assume step: "\<And>I nx p s x. mods I nx p s = Some x \<Longrightarrow> ?P I nx p s x"
      "(case p of None \<Rightarrow> Some (Inr (- 1, s)) | Some a \<Rightarrow> Option.bind (I s) (\<lambda>r. case r of
            Inl e \<Rightarrow> Some (Inl e) | Inr (iError, s) \<Rightarrow> if iError = 0 then Some (Inr (0, s)) else mods I nx (nx a) s)) = Some x"
      "I = ?I" "closed (cam s)" "x = Inr (e, s')"
    show "if e = 0 then opened (cam s') else closed (cam s')"
    proof (cases p)
      case (Some a)
      then obtain y where y: "?I s = Some y" using step(2,3) by (auto simp: Option.bind_eq_Some_conv)
      then obtain e1 s1 where i: "?I s = Some (Inr (e1, s1))"
        using step(2,3,5) Some by (cases y) auto
      show ?thesis
        using step(2,3,5) Some i init_device_result [OF step(4) i] step(1) [of ?I nx "nx a" s1 x] by (auto split: if_splits)
    qed (use step(2,4,5) in auto)
  qed
  then show ?thesis using assms(2,3) by simp
qed

end

section \<open>Drivers behind the V4L2 layer\<close>

text \<open>
  A handler keeps a property of the driver's state when every result it returns has it.
\<close>

definition yields :: "('d \<Rightarrow> bool) \<Rightarrow> (int \<times> 'a \<times> 'd) kres \<Rightarrow> bool" where
  "yields P x \<longleftrightarrow> (\<forall>r p s. x = Inr (r, p, s) \<longrightarrow> P s)"

definition keeps :: "('d \<Rightarrow> bool) \<Rightarrow> ('d, 'a) handler \<Rightarrow> bool" where
  "keeps P f \<longleftrightarrow> (\<forall>p s. P s \<longrightarrow> yields P (f p s))"

definition ops_keep :: "('d \<Rightarrow> bool) \<Rightarrow> 'd v4l2_ioctl_ops \<Rightarrow> bool" where
  "ops_keep P ops \<longleftrightarrow>
     pred_option (keeps P) (vidioc_querycap ops) \<and> pred_option (keeps P) (vidioc_enum_fmt_vid_cap ops) \<and>
     pred_option (keeps P) (vidioc_g_fmt_vid_cap ops) \<and> pred_option (keeps P) (vidioc_try_fmt_vid_cap ops) \<and> pred_option (keeps P) (vidioc_s_fmt_vid_cap ops) \<and>
     pred_option (keeps P) (vidioc_reqbufs ops) \<and> pred_option (keeps P) (vidioc_querybuf ops) \<and> pred_option (keeps P) (vidioc_qbuf ops) \<and>
     pred_option (keeps P) (vidioc_dqbuf ops) \<and> pred_option (keeps P) (vidioc_streamon ops) \<and> pred_option (keeps P) (vidioc_streamoff ops) \<and>
     pred_option (keeps P) (vidioc_queryctrl ops) \<and> pred_option (keeps P) (vidioc_g_ctrl ops) \<and> pred_option (keeps P) (vidioc_s_ctrl ops)"

lemma yields_simps [simp]: "yields P (Inr (r, p, s)) \<longleftrightarrow> P s" "yields P (Inl e)"
  by (auto simp: yields_def)

lemma yields_kbind:
  assumes "yields Q m" "\<And>r p s. Q s \<Longrightarrow> yields P (k (r, p, s))"
  shows "yields P (kbind m k)"
  using assms by (cases m) (auto simp: yields_def)

lemma yieldsD: "yields P x \<Longrightarrow> x = Inr (r, p, s) \<Longrightarrow> P s"
  by (simp add: yields_def)

lemma keepsI: "(\<And>p s. P s \<Longrightarrow> yields P (f p s)) \<Longrightarrow> keeps P f"
  by (simp add: keeps_def)

lemma keepsD: "keeps P f \<Longrightarrow> P s \<Longrightarrow> yields P (f p s)"
  by (simp add: keeps_def)

lemma call_op_yields: "pred_option (keeps P) h \<Longrightarrow> P s \<Longrightarrow> yields P (call_op K h p s)"
  by (cases h) (auto simp: call_op_def intro!: yields_kbind [of P] dest: keepsD)

lemma call_fmt_yields: "pred_option (keeps P) h \<Longrightarrow> P s \<Longrightarrow> yields P (call_fmt K h ty p s)"
  unfolding call_fmt_def by (rule yields_kbind [of P]) (simp_all add: call_op_yields)

lemma call_buf_yields: "pred_option (keeps P) h \<Longrightarrow> P s \<Longrightarrow> yields P (call_buf ops K h ty p s)"
  by (simp add: call_buf_def call_op_yields)

lemma do_ioctl_keeps:
  assumes "ops_keep P ops"
  shows "keeps P (do_ioctl ops)"
proof (rule keepsI)
  fix cmd s
  assume "P s"
  with assms show "yields P (do_ioctl ops cmd s)"
    by (cases cmd) (simp_all add: ops_keep_def call_op_yields call_fmt_yields call_buf_yields)
qed

lemma usercopy_keeps:
  assumes "keeps P func"
  shows "keeps P (video_usercopy U func)"
proof (rule keepsI)
  fix arg s
  assume "P s"
  then show "yields P (video_usercopy U func arg s)"
    unfolding video_usercopy_def Let_def
    by (auto intro!: yields_kbind [of P] keepsD [OF assms] split: prod.split)
qed

lemma video_ioctl2_keeps: "ops_keep P ops \<Longrightarrow> keeps P (video_ioctl2 U (Some ops))"
  unfolding video_ioctl2_def by (rule usercopy_keeps, rule keepsI) (simp add: video_do_ioctl_def keepsD do_ioctl_keeps)

text \<open>
  The device node as it was before the file was opened, and with one more reference.
\<close>

definition closed_file :: "vdev_node \<Rightarrow> ('d \<Rightarrow> bool) \<Rightarrow> 'd vsys \<Rightarrow> bool" where
  "closed_file n P s \<longleftrightarrow> vs_node s = n \<and> 0 < vd_ref n \<and> P (vs_drv s)"

definition open_file :: "vdev_node \<Rightarrow> ('d \<Rightarrow> bool) \<Rightarrow> 'd vsys \<Rightarrow> bool" where
  "open_file n P s \<longleftrightarrow> vs_node s = n\<lparr>vd_ref := vd_ref n + 1\<rparr> \<and> 0 < vd_ref n \<and> P (vs_drv s)"

lemma on_vdev_Inr: "on_vdev s r = Inr x \<Longrightarrow> r = Inr x \<and> vd_slot (vs_node s) \<and> vd_alive (vs_node s)"
  by (auto simp: on_vdev_def split: if_split_asm)

text \<open>
  The laws of a driver: its handlers keep the states in which it is open, \<open>open\<close> leads to such a
  state and \<open>release\<close> back.
\<close>

locale v4l2_driver =
  fixes V :: "'d vdev" and vma_close :: "nat \<Rightarrow> 'd \<Rightarrow> 'd kres" and contents :: "nat \<Rightarrow> 'd \<Rightarrow> u8 list" and fd :: nat and addr :: u32
    and sleep :: "'d \<Rightarrow> 'd kres" and n :: vdev_node and dclosed dopened :: "'d \<Rightarrow> bool"
  assumes open_law: "dclosed d \<Longrightarrow> (case fop_open (vdev_fops V) of None \<Rightarrow> Inr (0, d) | Some f \<Rightarrow> f d) = Inr (r, d') \<Longrightarrow> if r = 0 then dopened d' else dclosed d'"
    and release_law: "dopened d \<Longrightarrow> (case fop_release (vdev_fops V) of None \<Rightarrow> Inr (0, d) | Some f \<Rightarrow> f d) = Inr (r, d') \<Longrightarrow> dclosed d'"
    and ioctl_law: "pred_option (keeps dopened) (fop_ioctl (vdev_fops V))"
    and unlocked_ioctl_law: "pred_option (keeps dopened) (fop_unlocked_ioctl (vdev_fops V))"
    and mmap_law: "pred_option (keeps dopened) (fop_mmap (vdev_fops V))"
    and read_law: "fop_read (vdev_fops V) = Some f \<Longrightarrow> dopened d \<Longrightarrow> yields dopened (f k d)"
    and poll_law: "fop_poll (vdev_fops V) = Some g \<Longrightarrow> dopened d \<Longrightarrow> g d = Inr (m, d') \<Longrightarrow> dopened d'"
    and vma_close_law: "dopened d \<Longrightarrow> vma_close j d = Inr d' \<Longrightarrow> dopened d'"
    and sleep_law: "dopened d \<Longrightarrow> sleep d = Inr d' \<Longrightarrow> dopened d'"
begin

lemma open_file_drv: "open_file n dopened s \<Longrightarrow> dopened d \<Longrightarrow> open_file n dopened (s\<lparr>vs_drv := d\<rparr>)"
  by (simp add: open_file_def)

lemma ioctl_keeps:
  assumes "open_file n dopened s"
  shows "yields (open_file n dopened) (v4l2_ioctl V signal cmd s)"
proof -
  have d: "dopened (vs_drv s)" using assms by (simp add: open_file_def)
  have run: "yields (open_file n dopened) (kbind (f cmd (vs_drv s)) (\<lambda>(ret, cmd, d). Inr (ret, cmd, s\<lparr>vs_drv := d\<rparr>)))" if "keeps dopened f" for f
    by (rule yields_kbind [OF keepsD [OF that d]]) (simp add: open_file_drv [OF assms])
  show ?thesis
    using assms ioctl_law unlocked_ioctl_law
    by (auto simp: v4l2_ioctl_def on_vdev_def intro: run split: option.split)
qed

lemma sys_ioctl_keeps: "open_file n dopened s \<Longrightarrow> yields (open_file n dopened) (sys_ioctl V K arg p s)"
  unfolding sys_ioctl_def by (rule yields_kbind [OF ioctl_keeps]) simp_all

lemma open_opens:
  assumes "closed_file n dclosed s" "v4l2_open V s = Inr (r, s')"
  shows "if r = 0 then open_file n dopened s' else closed_file n dclosed s'"
proof (cases "vd_slot (vs_node s) \<and> vd_registered (vs_node s)")
  case True
  have n: "vs_node s = n" "0 < vd_ref n" "dclosed (vs_drv s)" using assms(1) by (simp_all add: closed_file_def)
  let ?f = "\<lambda>d. case fop_open (vdev_fops V) of None \<Rightarrow> Inr (0, d) | Some f \<Rightarrow> f d"
  have alive: "vd_alive n" using assms(2) True n(1) by (auto simp: v4l2_open_def on_vdev_def split: if_split_asm)
  have eq: "v4l2_open V s = kbind (?f (vs_drv s)) (\<lambda>(ret, d).
      if ret = 0 then Inr (0, (video_get s)\<lparr>vs_drv := d\<rparr>) else kbind (video_put V ((video_get s)\<lparr>vs_drv := d\<rparr>)) (\<lambda>s. Inr (ret, s)))"
    using True alive n(1) unfolding video_get_def v4l2_open_def Let_def by (simp add: on_vdev_def split: option.split)
  obtain r0 d where d: "?f (vs_drv s) = Inr (r0, d)" using assms(2) unfolding eq by (rule kbindE) auto
  show ?thesis
    using assms(2) d open_law [OF n(3) d] n(1,2) alive unfolding eq
    by (auto simp: video_get_def video_put_def open_file_def closed_file_def split: if_split_asm)
next
  case False
  then show ?thesis using assms by (auto simp: v4l2_open_def on_vdev_def split: if_split_asm)
qed

lemma release_closes:
  assumes "open_file n dopened s" "v4l2_release V s = Inr (r, s')"
  shows "closed_file n dclosed s'"
proof -
  have n: "vs_node s = n\<lparr>vd_ref := vd_ref n + 1\<rparr>" "0 < vd_ref n" "dopened (vs_drv s)" using assms(1) by (simp_all add: open_file_def)
  note r = on_vdev_Inr [OF assms(2) [unfolded v4l2_release_def]]
  obtain r0 d where d: "(case fop_release (vdev_fops V) of None \<Rightarrow> Inr (0, vs_drv s) | Some f \<Rightarrow> f (vs_drv s)) = Inr (r0, d)"
    using r [THEN conjunct1] by (rule kbindE) auto
  show ?thesis using r d release_law [OF n(3) d] n(1,2) by (auto simp: video_put_def closed_file_def)
qed

lemma poll_file_keeps:
  assumes "open_file n dopened s" "v4l2_poll V s = Inr (m, s')"
  shows "open_file n dopened s'"
proof (cases "fop_poll (vdev_fops V)")
  case (Some g)
  show ?thesis
  proof (cases "vd_registered (vs_node s)")
    case True
    with Some on_vdev_Inr [OF assms(2) [unfolded v4l2_poll_def]] obtain d where d: "g (vs_drv s) = Inr (m, d)" "s' = s\<lparr>vs_drv := d\<rparr>"
      by (auto elim!: kbindE)
    have "dopened d" using assms(1) poll_law [OF Some _ d(1)] by (simp add: open_file_def)
    then show ?thesis unfolding d(2) by (rule open_file_drv [OF assms(1)])
  qed (use Some assms in \<open>auto simp: v4l2_poll_def on_vdev_def split: if_split_asm\<close>)
qed (use assms in \<open>auto simp: v4l2_poll_def on_vdev_def split: if_split_asm\<close>)

lemma wait_keeps:
  assumes "open_file n dopened s" "wait_for sleep s = Inr s'"
  shows "open_file n dopened s'"
proof -
  obtain d where d: "sleep (vs_drv s) = Inr d" "s' = s\<lparr>vs_drv := d\<rparr>" using assms(2) unfolding wait_for_def by (rule kbindE) auto
  have "dopened d" using assms(1) sleep_law [OF _ d(1)] by (simp add: open_file_def)
  then show ?thesis unfolding d(2) by (rule open_file_drv [OF assms(1)])
qed

lemma sys_poll_keeps:
  assumes "open_file n dopened s" "sys_poll V sleep s = Inr (r, s')"
  shows "open_file n dopened s'"
proof -
  let ?ready = "\<lambda>m. m AND (POLLIN OR POLLERR OR POLLHUP) \<noteq> 0"
  obtain m s1 where p: "v4l2_poll V s = Inr (m, s1)" using assms(2) unfolding sys_poll_def Let_def by (rule kbindE) auto
  note s1 = poll_file_keeps [OF assms(1) p]
  show ?thesis
  proof (cases "?ready m")
    case False
    then obtain s2 m2 s3 where w: "wait_for sleep s1 = Inr s2" "v4l2_poll V s2 = Inr (m2, s3)" "s' = s3"
      using assms(2) p unfolding sys_poll_def Let_def by (auto elim!: kbindE)
    show ?thesis unfolding w(3) by (rule poll_file_keeps [OF wait_keeps [OF s1 w(1)] w(2)])
  qed (use assms(2) p s1 in \<open>auto simp: sys_poll_def\<close>)
qed

lemma mmap_file_keeps:
  assumes "open_file n dopened s"
  shows "yields (open_file n dopened) (v4l2_mmap V vma s)"
proof -
  have d: "dopened (vs_drv s)" using assms by (simp add: open_file_def)
  have "yields (open_file n dopened) (kbind (f vma (vs_drv s)) (\<lambda>(ret, vma, d). Inr (ret, vma, s\<lparr>vs_drv := d\<rparr>)))" if "keeps dopened f" for f
    by (rule yields_kbind [OF keepsD [OF that d]]) (simp add: open_file_drv [OF assms])
  then show ?thesis using assms mmap_law by (auto simp: v4l2_mmap_def on_vdev_def split: option.split)
qed

lemma read_file_keeps:
  assumes "open_file n dopened s"
  shows "yields (open_file n dopened) (v4l2_read V k s)"
proof -
  have d: "dopened (vs_drv s)" using assms by (simp add: open_file_def)
  have "yields (open_file n dopened) (kbind (f k (vs_drv s)) (\<lambda>(ret, bs, d). Inr (ret, bs, s\<lparr>vs_drv := d\<rparr>)))" if "fop_read (vdev_fops V) = Some f" for f
    by (rule yields_kbind [OF read_law [OF that d]]) (simp add: open_file_drv [OF assms])
  then show ?thesis using assms by (auto simp: v4l2_read_def on_vdev_def split: option.split)
qed

end

text \<open>
  Through the V4L2 layer such a driver is a device file that fulfils the contract: every successful
  opening holds exactly one reference, which the closing gives back.
\<close>

sublocale v4l2_driver \<subseteq> device_file "v4l2_camera V vma_close contents fd addr sleep" "closed_file n dclosed" "open_file n dopened"
proof
  let ?C = "v4l2_camera V vma_close contents fd addr sleep" and ?O = "open_file n dopened" and ?K = "closed_file n dclosed"
  fix d d' :: "'d vsys"
  show "if f < 0 then ?K d' else ?O d'" if "?K d" "cam_open ?C name d = Inr (f, d')" for name f
    using that(2) open_opens [OF that(1)] by (auto simp: v4l2_camera_def elim!: kbindE split: if_split_asm)
  show "?K d'" if "?O d" "cam_close ?C d = Inr d'"
    using that(2) release_closes [OF that(1)] by (auto simp: v4l2_camera_def elim!: kbindE)
  note io = sys_ioctl_keeps [THEN yieldsD]
  show "?O d'" if "?O d" "cam_querycap ?C p d = Inr (r, p', d')" for p r p' using that(2) by (simp add: v4l2_camera_def io [OF that(1)])
  show "?O d'" if "?O d" "cam_enum_fmt ?C p d = Inr (r, p', d')" for p r p' using that(2) by (simp add: v4l2_camera_def io [OF that(1)])
  show "?O d'" if "?O d" "cam_s_fmt ?C p d = Inr (r, p', d')" for p r p' using that(2) by (simp add: v4l2_camera_def io [OF that(1)])
  show "?O d'" if "?O d" "cam_reqbufs ?C p d = Inr (r, p', d')" for p r p' using that(2) by (simp add: v4l2_camera_def io [OF that(1)])
  show "?O d'" if "?O d" "cam_querybuf ?C p d = Inr (r, p', d')" for p r p' using that(2) by (simp add: v4l2_camera_def io [OF that(1)])
  show "?O d'" if "?O d" "cam_dqbuf ?C p d = Inr (r, p', d')" for p r p' using that(2) by (simp add: v4l2_camera_def io [OF that(1)])
  show "?O d'" if "?O d" "cam_qbuf ?C p d = Inr (r, d')" for p r
    using that(2) by (auto simp: v4l2_camera_def elim!: kbindE dest: io [OF that(1)])
  show "?O d'" if "?O d" "cam_streamon ?C d = Inr (r, d')" for r
    using that(2) by (auto simp: v4l2_camera_def elim!: kbindE dest: io [OF that(1)])
  show "?O d'" if "?O d" "cam_streamoff ?C d = Inr (r, d')" for r
    using that(2) by (auto simp: v4l2_camera_def elim!: kbindE dest: io [OF that(1)])
  show "?O d'" if "?O d" "cam_mmap ?C len off d = Inr (m, d')" for len off m
    using that(2) by (auto simp: v4l2_camera_def elim!: kbindE dest: mmap_file_keeps [OF that(1), THEN yieldsD])
  show "?O d'" if "?O d" "cam_munmap ?C j d = Inr d'" for j
    using that by (auto simp: v4l2_camera_def open_file_def elim!: kbindE dest: vma_close_law)
  show "?O d'" if "?O d" "cam_poll ?C d = Inr (r, d')" for r
    using that(2) sys_poll_keeps [OF that(1)] by (auto simp: v4l2_camera_def)
  show "?O d'" if "?O d" "cam_read ?C k d = Inr (r, bs, d')" for k r bs
    using that(2) by (auto simp: v4l2_camera_def elim!: kbindE dest: read_file_keeps [OF wait_keeps [OF that(1)], THEN yieldsD])
qed

end
