(* ===== verification/Driver_Files.thy ===== *)
theory Driver_Files
  imports Device_Contract Uvc_Driver Vivi_Props Cmos_Props
begin

text \<open>
  The device files of the three cameras: the tables of handlers with which the drivers register at the
  V4L2 layer, and that each of them fulfils the contract of a device file.  A handler that does not
  return has no result; it counts as a fault.
\<close>

section \<open>The application's copies\<close>

text \<open>
  The structures of the application are on its stack and can be read and written; only the memory for a
  large structure may be missing.
\<close>

definition app_copy :: "bool \<Rightarrow> user_copy" where
  "app_copy k = \<lparr>kmalloc_ok = k, from_ok = True, planes_ok = True, planes_back = True, to_fault = None, kmem_addr = 0\<rparr>"

definition usable :: "vdev_node \<Rightarrow> bool" where
  "usable n \<longleftrightarrow> vd_slot n \<and> vd_alive n \<and> vd_registered n"

definition ioctl_of :: "'d v4l2_file_operations \<Rightarrow> ('d, v4l2_cmd) handler option" where
  "ioctl_of F = (case fop_unlocked_ioctl F of Some f \<Rightarrow> Some f | None \<Rightarrow> fop_ioctl F)"

text \<open>
  An ioctl of the application on a usable device: the handler runs on the copied argument, and its
  structure comes back unless it failed.
\<close>

lemma sys_ioctl_usable:
  assumes "usable (vs_node s)" "ioctl_of (vdev_fops V) = Some (video_ioctl2 (app_copy k) (Some ops))"
    and "needs_kmalloc (K p) \<longrightarrow> k" "check_array_args (copy_in (K p)) = 0"
    and "do_ioctl ops (copy_in (K p)) (vs_drv s) = Inr (r, c, d)" "r \<noteq> - ENOIOCTLCMD"
  shows "sys_ioctl V K arg p s = Inr (sys_ret r, arg (if 0 \<le> r \<and> ioc_read (K p) then c else K p), s\<lparr>vs_drv := d\<rparr>)"
proof -
  have "video_ioctl2 (app_copy k) (Some ops) (K p) (vs_drv s) = Inr (r, if 0 \<le> r \<and> ioc_read (K p) then c else K p, d)"
    using assms(3-6) by (auto simp: video_ioctl2_def video_usercopy_def video_do_ioctl_def app_copy_def copy_out_def Let_def)
  moreover have "v4l2_ioctl V False (K p) s = kbind (video_ioctl2 (app_copy k) (Some ops) (K p) (vs_drv s)) (\<lambda>(r, c, d). Inr (r, c, s\<lparr>vs_drv := d\<rparr>))"
    using assms(1,2) by (auto simp: usable_def v4l2_ioctl_def on_vdev_def ioctl_of_def split: option.splits)
  ultimately show ?thesis by (simp add: sys_ioctl_def)
qed

lemma sys_ioctl_no_memory:
  assumes "usable (vs_node s)" "ioctl_of (vdev_fops V) = Some (video_ioctl2 (app_copy False) (Some ops))" "needs_kmalloc (K p)"
  shows "sys_ioctl V K arg p s = Inr (- 1, arg (K p), s)"
proof -
  have "video_ioctl2 (app_copy False) (Some ops) (K p) (vs_drv s) = Inr (- ENOMEM, K p, vs_drv s)"
    using assms(3) by (simp add: video_ioctl2_def video_usercopy_def app_copy_def Let_def)
  then have "v4l2_ioctl V False (K p) s = Inr (- ENOMEM, K p, s)"
    using assms(1,2) by (auto simp: usable_def v4l2_ioctl_def on_vdev_def ioctl_of_def split: option.splits)
  then show ?thesis by (simp add: sys_ioctl_def sys_ret_def)
qed

section \<open>The USB camera\<close>

text \<open>
  \<open>junk\<close> are the bytes of the uninitialised local variables.
\<close>

definition myuvc_ioctl_ops :: "'w usb_env \<Rightarrow> u8 list \<Rightarrow> 'w uvc v4l2_ioctl_ops" where
  "myuvc_ioctl_ops E junk = \<lparr>
     vidioc_querycap = Some (\<lambda>c s. case myuvc_vidioc_querycap c of (r, c) \<Rightarrow> Inr (r, c, s)),
     vidioc_enum_fmt_vid_cap = Some (\<lambda>f s. case myuvc_vidioc_enum_fmt_vid_cap f of (r, f) \<Rightarrow> Inr (r, f, s)),
     vidioc_g_fmt_vid_cap = Some (\<lambda>f s. case myuvc_vidioc_g_fmt_vid_cap s f of (r, f) \<Rightarrow> Inr (r, f, s)),
     vidioc_try_fmt_vid_cap = Some (\<lambda>f s. case myuvc_vidioc_try_fmt_vid_cap f of (r, f) \<Rightarrow> Inr (r, f, s)),
     vidioc_s_fmt_vid_cap = Some (\<lambda>f s. Inr (myuvc_vidioc_s_fmt_vid_cap f s)),
     vidioc_reqbufs = Some (\<lambda>p s. kbind (myuvc_vidioc_reqbufs E p s) (\<lambda>(r, s). Inr (r, p, s))),
     vidioc_querybuf = Some (\<lambda>b s. kbind (myuvc_vidioc_querybuf b s) (\<lambda>(r, b). Inr (r, b, s))),
     vidioc_qbuf = Some (\<lambda>b s. kbind (myuvc_vidioc_qbuf b s) (\<lambda>(r, s). Inr (r, b, s))),
     vidioc_dqbuf = Some myuvc_vidioc_dqbuf,
     vidioc_streamon = Some (\<lambda>i s. case myuvc_vidioc_streamon E s of (r, s) \<Rightarrow> Inr (r, i, s)),
     vidioc_streamoff = Some (\<lambda>i s. case myuvc_vidioc_streamoff E s of (r, s) \<Rightarrow> Inr (r, i, s)),
     vidioc_queryctrl = Some (myuvc_vidioc_queryctrl E),
     vidioc_g_ctrl = Some (myuvc_vidioc_g_ctrl E junk),
     vidioc_s_ctrl = Some (\<lambda>c s. kbind (myuvc_vidioc_s_ctrl E junk c s) (\<lambda>(r, s). Inr (r, c, s)))\<rparr>"

definition myuvc_fops :: "'w usb_env \<Rightarrow> u8 list \<Rightarrow> user_copy \<Rightarrow> 'w uvc v4l2_file_operations" where
  "myuvc_fops E junk U = \<lparr>
     fop_open = Some (\<lambda>s. Inr (myuvc_open s)),
     fop_release = Some (\<lambda>s. Inr (myuvc_close E s)),
     fop_read = None,
     fop_poll = Some (\<lambda>s. kbind (myuvc_poll s) (\<lambda>m. Inr (m, s))),
     fop_ioctl = Some (video_ioctl2 U (Some (myuvc_ioctl_ops E junk))),
     fop_unlocked_ioctl = None,
     fop_mmap = Some (\<lambda>vma s. kbind (myuvc_mmap E vma s) (\<lambda>r. case r of None \<Rightarrow> Inl KernelBug | Some x \<Rightarrow> Inr x))\<rparr>"

definition myuvc_video_device :: "'w usb_env \<Rightarrow> u8 list \<Rightarrow> user_copy \<Rightarrow> 'w uvc vdev" where
  "myuvc_video_device E junk U = \<lparr>vdev_fops = myuvc_fops E junk U, vdev_release = Inr\<rparr>"

text \<open>
  Pulling out the camera: with the second interface the driver unregisters the device and frees its
  structure.
\<close>

definition uvc_unplug :: "'w uvc vdev \<Rightarrow> 'w uvc vsys \<Rightarrow> 'w uvc vsys kres" where
  "uvc_unplug V s =
     (let s1 = s\<lparr>vs_drv := myuvc_disconnect (vs_drv s)\<rparr>
      in if disconnect_cnt (vs_drv s1) = 2 then kbind (video_unregister_device V s1) video_device_release else Inr s1)"

text \<open>
  The mapping of buffer \<open>k\<close> is known by \<open>k\<close>.
\<close>

definition uvc_mapped :: "nat \<Rightarrow> 'w uvc \<Rightarrow> u8 list" where
  "uvc_mapped k s = (case q_mem (myuvc_queue s) of None \<Rightarrow> []
     | Some m \<Rightarrow> take (unat (q_buf_size (myuvc_queue s))) (drop (unat (b_m (mb_buf (q_buffer (myuvc_queue s) ! k)))) m))"

definition uvc_camera :: "'w usb_env \<Rightarrow> u8 list \<Rightarrow> bool \<Rightarrow> nat \<Rightarrow> u32 \<Rightarrow> ('w uvc \<Rightarrow> 'w uvc kres) \<Rightarrow> 'w uvc vsys camera" where
  "uvc_camera E junk k fd addr sleep = v4l2_camera (myuvc_video_device E junk (app_copy k)) (\<lambda>i s. Inr (myuvc_vm_close i s)) uvc_mapped fd addr sleep"

lemma complete_urbs_inv:
  assumes "env_ok E" "uvc_inv s" "complete_urbs E us s = Inr s'"
  shows "uvc_inv s'"
  using assms(2,3)
proof (induction us arbitrary: s)
  case (Cons u us)
  then obtain s1 where "myuvc_video_complete E u s = Inr s1" "complete_urbs E us s1 = Inr s'" by (auto elim!: kbindE)
  then show ?case using Cons.IH video_complete_inv [OF assms(1) Cons.prems(1)] by blast
qed simp

lemma uvc_ops_keep: "ops_keep (\<lambda>s. env_ok E \<longrightarrow> uvc_inv s) (myuvc_ioctl_ops E junk)"
  unfolding ops_keep_def
proof (intro conjI)
  let ?I = "\<lambda>s. env_ok E \<longrightarrow> uvc_inv s"
  have step: "?I s'" if "?I s" "uvc_step E s s'" for s s' using that uvc_step_inv by blast
  note i = uvc_step.intros [THEN step [rotated]]
  show "pred_option (keeps ?I) (vidioc_querycap (myuvc_ioctl_ops E junk))" "pred_option (keeps ?I) (vidioc_enum_fmt_vid_cap (myuvc_ioctl_ops E junk))"
    "pred_option (keeps ?I) (vidioc_g_fmt_vid_cap (myuvc_ioctl_ops E junk))" "pred_option (keeps ?I) (vidioc_try_fmt_vid_cap (myuvc_ioctl_ops E junk))"
    by (auto simp: myuvc_ioctl_ops_def keeps_def split: prod.split)
  show "pred_option (keeps ?I) (vidioc_s_fmt_vid_cap (myuvc_ioctl_ops E junk))" by (auto simp: myuvc_ioctl_ops_def keeps_def yields_def dest: i(1))
  show "pred_option (keeps ?I) (vidioc_reqbufs (myuvc_ioctl_ops E junk))" by (auto simp: myuvc_ioctl_ops_def keeps_def yields_def elim!: kbindE dest: i(2))
  show "pred_option (keeps ?I) (vidioc_querybuf (myuvc_ioctl_ops E junk))" by (auto simp: myuvc_ioctl_ops_def keeps_def yields_def elim!: kbindE)
  show "pred_option (keeps ?I) (vidioc_qbuf (myuvc_ioctl_ops E junk))" by (auto simp: myuvc_ioctl_ops_def keeps_def yields_def elim!: kbindE dest: i(3))
  show "pred_option (keeps ?I) (vidioc_dqbuf (myuvc_ioctl_ops E junk))" by (auto simp: myuvc_ioctl_ops_def keeps_def yields_def dest: i(4))
  show "pred_option (keeps ?I) (vidioc_streamon (myuvc_ioctl_ops E junk))" by (auto simp: myuvc_ioctl_ops_def keeps_def yields_def split: prod.splits dest: i(8))
  show "pred_option (keeps ?I) (vidioc_streamoff (myuvc_ioctl_ops E junk))" by (auto simp: myuvc_ioctl_ops_def keeps_def yields_def split: prod.splits dest: i(9))
  show "pred_option (keeps ?I) (vidioc_queryctrl (myuvc_ioctl_ops E junk))" by (auto simp: myuvc_ioctl_ops_def keeps_def yields_def dest: i(11))
  show "pred_option (keeps ?I) (vidioc_g_ctrl (myuvc_ioctl_ops E junk))" by (auto simp: myuvc_ioctl_ops_def keeps_def yields_def dest: i(12))
  show "pred_option (keeps ?I) (vidioc_s_ctrl (myuvc_ioctl_ops E junk))" by (auto simp: myuvc_ioctl_ops_def keeps_def yields_def elim!: kbindE dest: i(13))
qed

text \<open>
  The driver keeps its invariant.  While the application sleeps, the URBs that \<open>arrive\<close> are completed.
\<close>

interpretation uvc_file: v4l2_driver "myuvc_video_device E junk (app_copy k)" "\<lambda>i s. Inr (myuvc_vm_close i s)" uvc_mapped fd addr
    "\<lambda>s. complete_urbs E (arrive s) s" n "\<lambda>s. env_ok E \<longrightarrow> uvc_inv s" "\<lambda>s. env_ok E \<longrightarrow> uvc_inv s" for E junk k fd addr arrive n
proof
  let ?I = "\<lambda>s. env_ok E \<longrightarrow> uvc_inv s" and ?F = "vdev_fops (myuvc_video_device E junk (app_copy k))"
  have step: "?I s'" if "?I s" "uvc_step E s s'" for s s' using that uvc_step_inv by blast
  note i = uvc_step.intros [THEN step [rotated]] and d = myuvc_video_device_def myuvc_fops_def
  show "if r = 0 then ?I s' else ?I s'" if "?I s" "(case fop_open ?F of None \<Rightarrow> Inr (0, s) | Some f \<Rightarrow> f s) = Inr (r, s')" for s r s'
    using that by (simp add: d myuvc_open_def)
  show "?I s'" if "?I s" "(case fop_release ?F of None \<Rightarrow> Inr (0, s) | Some f \<Rightarrow> f s) = Inr (r, s')" for s r s'
    using that by (auto simp: d dest: i(10))
  show "pred_option (keeps ?I) (fop_ioctl ?F)" by (simp add: d video_ioctl2_keeps uvc_ops_keep)
  show "pred_option (keeps ?I) (fop_mmap ?F)" by (auto simp: d keeps_def yields_def elim!: kbindE split: option.splits dest: i(5))
  show "?I s'" if "?I s" "Inr (myuvc_vm_close j s) = Inr s'" for s s' j using that by (auto simp: vm_close_inv)
  show "?I s'" if "?I s" "complete_urbs E (arrive s) s = Inr s'" for s s' using that complete_urbs_inv by blast
qed (auto simp: myuvc_video_device_def myuvc_fops_def elim!: kbindE)

section \<open>The virtual camera\<close>

text \<open>
  \<open>jiffies\<close> is the time of the opening; \<open>mem\<close>, \<open>kz\<close>, \<open>vm\<close> and \<open>remap\<close> are the results of the
  allocators as in the driver's handlers.
\<close>

definition myvivi_ioctl_ops :: "(nat \<Rightarrow> bool) \<Rightarrow> vivi v4l2_ioctl_ops" where
  "myvivi_ioctl_ops mem = \<lparr>
     vidioc_querycap = Some (\<lambda>c s. case myvivi_videoc_querycap c of (r, c) \<Rightarrow> Inr (r, c, s)),
     vidioc_enum_fmt_vid_cap = Some (\<lambda>f s. case myvivi_vidioc_enum_fmt_vid_cap f of (r, f) \<Rightarrow> Inr (r, f, s)),
     vidioc_g_fmt_vid_cap = Some (\<lambda>f s. case myvivi_vidioc_g_fmt_vid_cap (myvivi_format s) f of (r, f) \<Rightarrow> Inr (r, f, s)),
     vidioc_try_fmt_vid_cap = Some (\<lambda>f s. case myvivi_vidioc_try_fmt_vid_cap f of None \<Rightarrow> Inl KernelBug | Some (r, f) \<Rightarrow> Inr (r, f, s)),
     vidioc_s_fmt_vid_cap = Some (\<lambda>f s. case myvivi_vidioc_s_fmt f s of None \<Rightarrow> Inl KernelBug | Some x \<Rightarrow> Inr x),
     vidioc_reqbufs = Some (myvivi_vidioc_reqbufs mem),
     vidioc_querybuf = Some (\<lambda>b s. case myvivi_vidioc_querybuf b s of (r, b) \<Rightarrow> Inr (r, b, s)),
     vidioc_qbuf = Some (\<lambda>b s. kbind (myvivi_vidioc_qbuf b s) (\<lambda>(r, s). Inr (r, b, s))),
     vidioc_dqbuf = Some (\<lambda>b s. kbind (myvivi_vidioc_dqbuf False False s) (\<lambda>(r, b, s). case r of None \<Rightarrow> Inl KernelBug | Some r \<Rightarrow> Inr (r, b, s))),
     vidioc_streamon = Some (\<lambda>i s. kbind (myvivi_vidioc_streamon s) (\<lambda>(r, s). Inr (r, i, s))),
     vidioc_streamoff = Some (\<lambda>i s. kbind (myvivi_vidioc_streamoff s) (\<lambda>(r, s). Inr (r, i, s))),
     vidioc_queryctrl = None, vidioc_g_ctrl = None, vidioc_s_ctrl = None\<rparr>"

definition myvivi_fops :: "u32 \<Rightarrow> (nat \<Rightarrow> bool) \<Rightarrow> bool \<Rightarrow> bool \<Rightarrow> int \<Rightarrow> user_copy \<Rightarrow> vivi v4l2_file_operations" where
  "myvivi_fops jiffies mem kz vm remap U = \<lparr>
     fop_open = Some (myvivi_open jiffies),
     fop_release = Some myvivi_close,
     fop_read = None,
     fop_poll = Some (myvivi_poll mem),
     fop_ioctl = Some (video_ioctl2 U (Some (myvivi_ioctl_ops mem))),
     fop_unlocked_ioctl = None,
     fop_mmap = Some (\<lambda>vma s. Inr (myvivi_mmap kz vm remap vma s))\<rparr>"

definition myvivi_device :: "u32 \<Rightarrow> (nat \<Rightarrow> bool) \<Rightarrow> bool \<Rightarrow> bool \<Rightarrow> int \<Rightarrow> user_copy \<Rightarrow> vivi vdev" where
  "myvivi_device jiffies mem kz vm remap U = \<lparr>vdev_fops = myvivi_fops jiffies mem kz vm remap U, vdev_release = Inr\<rparr>"

definition vivi_mapped :: "nat \<Rightarrow> vivi \<Rightarrow> u8 list" where
  "vivi_mapped k s = (case List.find (\<lambda>b. case b of Some vb \<Rightarrow> vb_map vb = Some k | None \<Rightarrow> False) (vq_bufs (vq (vivi_sys s))) of
     Some (Some vb) \<Rightarrow> (case vb_vaddr vb of Some m \<Rightarrow> m | None \<Rightarrow> []) | _ \<Rightarrow> [])"

definition vivi_camera ::
    "u32 \<Rightarrow> (nat \<Rightarrow> bool) \<Rightarrow> bool \<Rightarrow> bool \<Rightarrow> int \<Rightarrow> bool \<Rightarrow> nat \<Rightarrow> u32 \<Rightarrow> (vivi \<Rightarrow> vivi kres) \<Rightarrow> vivi vsys camera" where
  "vivi_camera jiffies mem kz vm remap k fd addr sleep =
     v4l2_camera (myvivi_device jiffies mem kz vm remap (app_copy k)) myvivi_munmap vivi_mapped fd addr sleep"

text \<open>
  The states between opening and closing, and the others.
\<close>

definition vivi_opened_state :: "vivi \<Rightarrow> bool" where
  "vivi_opened_state s \<longleftrightarrow> vivi_inv s \<and> myvivi_timer s \<noteq> None"

definition vivi_closed_state :: "vivi \<Rightarrow> bool" where
  "vivi_closed_state s \<longleftrightarrow> vivi_inv s \<and> myvivi_timer s = None"

lemma vivi_step_opened:
  assumes "vivi_opened_state s" "vivi_step s s'" "myvivi_timer s' = myvivi_timer s"
  shows "vivi_opened_state s'"
  using assms vivi_step_inv [of s s'] by (auto simp: vivi_opened_state_def)

lemma vivi_keepsI:
  assumes "\<And>p s r p' s'. myvivi_timer s \<noteq> None \<Longrightarrow> f p s = Inr (r, p', s') \<Longrightarrow> vivi_step s s'"
    and "\<And>p s r p' s'. f p s = Inr (r, p', s') \<Longrightarrow> myvivi_timer s' = myvivi_timer s"
  shows "keeps vivi_opened_state f"
proof (rule keepsI)
  fix p s
  assume s: "vivi_opened_state s"
  have "vivi_opened_state s'" if "f p s = Inr (r, p', s')" for r p' s'
    using assms(1) [OF _ that] assms(2) [OF that] s by (intro vivi_step_opened [OF s]) (simp_all add: vivi_opened_state_def)
  then show "yields vivi_opened_state (f p s)" by (simp add: yields_def)
qed

lemma vivi_timer_kept:
  "myvivi_vidioc_s_fmt f s = Some (r, f', s') \<Longrightarrow> myvivi_timer s' = myvivi_timer s"
  "myvivi_vidioc_reqbufs mem q s = Inr (r, q', s') \<Longrightarrow> myvivi_timer s' = myvivi_timer s"
  "myvivi_vidioc_qbuf b s = Inr (r, s') \<Longrightarrow> myvivi_timer s' = myvivi_timer s"
  "myvivi_vidioc_dqbuf nb sg s = Inr (ro, b', s') \<Longrightarrow> myvivi_timer s' = myvivi_timer s"
  "myvivi_vidioc_streamon s = Inr (r, s') \<Longrightarrow> myvivi_timer s' = myvivi_timer s"
  "myvivi_vidioc_streamoff s = Inr (r, s') \<Longrightarrow> myvivi_timer s' = myvivi_timer s"
  "myvivi_mmap kz vm remap vma s = (r, vma', s') \<Longrightarrow> myvivi_timer s' = myvivi_timer s"
  "myvivi_poll mem s = Inr (m, s') \<Longrightarrow> myvivi_timer s' = myvivi_timer s"
  "myvivi_munmap j s = Inr s' \<Longrightarrow> myvivi_timer s' = myvivi_timer s"
  by (auto simp: myvivi_vidioc_s_fmt_def myvivi_vidioc_reqbufs_def myvivi_vidioc_qbuf_def myvivi_vidioc_dqbuf_def myvivi_vidioc_streamon_def
      myvivi_vidioc_streamoff_def myvivi_mmap_def myvivi_poll_def myvivi_munmap_def elim!: kbindE split: prod.splits)

lemma vivi_ops_keep: "ops_keep vivi_opened_state (myvivi_ioctl_ops mem)"
  unfolding ops_keep_def
proof (intro conjI)
  let ?T = "myvivi_ioctl_ops mem" and ?I = "vivi_opened_state"
  note d = myvivi_ioctl_ops_def and k = vivi_timer_kept
  show "pred_option (keeps ?I) (vidioc_querycap ?T)" "pred_option (keeps ?I) (vidioc_enum_fmt_vid_cap ?T)"
    "pred_option (keeps ?I) (vidioc_g_fmt_vid_cap ?T)" "pred_option (keeps ?I) (vidioc_try_fmt_vid_cap ?T)" "pred_option (keeps ?I) (vidioc_querybuf ?T)"
    by (auto simp: d keeps_def yields_def split: prod.splits option.splits)
  show "pred_option (keeps ?I) (vidioc_s_fmt_vid_cap ?T)"
    by (auto simp: d intro!: vivi_keepsI split: option.splits intro: vivi_step.s_fmt dest: k(1))
  show "pred_option (keeps ?I) (vidioc_reqbufs ?T)"
    by (auto simp: d intro!: vivi_keepsI intro: vivi_step.reqbufs dest: k(2))
  show "pred_option (keeps ?I) (vidioc_qbuf ?T)"
    by (auto simp: d intro!: vivi_keepsI elim!: kbindE intro: vivi_step.qbuf dest: k(3))
  show "pred_option (keeps ?I) (vidioc_dqbuf ?T)"
    by (auto simp: d intro!: vivi_keepsI elim!: kbindE split: option.splits intro: vivi_step.dqbuf dest: k(4))
  show "pred_option (keeps ?I) (vidioc_streamon ?T)"
    by (auto simp: d intro!: vivi_keepsI elim!: kbindE intro: vivi_step.streamon dest: k(5))
  show "pred_option (keeps ?I) (vidioc_streamoff ?T)"
    by (auto simp: d intro!: vivi_keepsI elim!: kbindE intro: vivi_step.streamoff dest: k(6))
qed (simp_all add: myvivi_ioctl_ops_def)

text \<open>
  While the application sleeps, a tick of the timer passes.
\<close>

interpretation vivi_file: v4l2_driver "myvivi_device jiffies mem kz vm remap (app_copy k)" myvivi_munmap vivi_mapped fd addr
    "\<lambda>s. myvivi_timer_function (now s) (stamp s) s" n vivi_closed_state vivi_opened_state for jiffies mem kz vm remap k fd addr now stamp n
proof
  let ?F = "vdev_fops (myvivi_device jiffies mem kz vm remap (app_copy k))" and ?O = vivi_opened_state and ?K = vivi_closed_state
  note d = myvivi_device_def myvivi_fops_def
  show "if r = 0 then ?O s' else ?K s'" if "?K s" "(case fop_open ?F of None \<Rightarrow> Inr (0, s) | Some f \<Rightarrow> f s) = Inr (r, s')" for s r s'
    using that open_inv [of s jiffies r s'] by (auto simp: d vivi_closed_state_def vivi_opened_state_def myvivi_open_def)
  show "?K s'" if "?O s" "(case fop_release ?F of None \<Rightarrow> Inr (0, s) | Some f \<Rightarrow> f s) = Inr (r, s')" for s r s'
  proof -
    have "myvivi_close s = Inr (r, s')" using that(2) by (simp add: d)
    moreover from this have "myvivi_timer s' = None" by (auto simp: myvivi_close_def elim!: kbindE)
    ultimately show ?thesis using that(1) vivi_step_inv [OF _ vivi_step.closes] by (auto simp: vivi_closed_state_def vivi_opened_state_def)
  qed
  show "pred_option (keeps ?O) (fop_ioctl ?F)" by (simp add: d video_ioctl2_keeps vivi_ops_keep)
  show "pred_option (keeps ?O) (fop_mmap ?F)"
    by (auto simp: d intro!: vivi_keepsI intro: vivi_step.mmap dest: vivi_timer_kept(7))
  show "?O s'" if "fop_poll ?F = Some g" "?O s" "g s = Inr (m, s')" for g s m s'
    using that vivi_step_opened [OF that(2) vivi_step.poll, of mem m s'] vivi_timer_kept(8) [of mem s m s'] by (simp add: d vivi_opened_state_def)
  show "?O s'" if "?O s" "myvivi_munmap j s = Inr s'" for s j s'
    by (rule vivi_step_opened [OF that(1) vivi_step.munmap [OF that(2)] vivi_timer_kept(9) [OF that(2)]])
  show "?O s'" if "?O s" "myvivi_timer_function (now s) (stamp s) s = Inr s'" for s s'
    using timer_inv [OF _ that(2)] that(1) by (auto simp: vivi_opened_state_def vivi_inv_def)
qed (simp_all add: myvivi_device_def myvivi_fops_def)

section \<open>The CMOS camera\<close>

text \<open>
  \<open>get i\<close> is the address of the \<open>i\<close>-th block of pages, \<open>kmem\<close> and \<open>copies\<close> are as in the driver's
  \<open>read\<close>.  The driver has no handlers for mapped buffers, no \<open>poll\<close> and no \<open>mmap\<close>; its \<open>open\<close> and
  \<open>close\<close> do nothing.
\<close>

definition cmos_ov7740_ioctl_ops :: "(nat \<Rightarrow> u32) \<Rightarrow> cmos v4l2_ioctl_ops" where
  "cmos_ov7740_ioctl_ops get = \<lparr>
     vidioc_querycap = Some (\<lambda>c s. Inr (0, cmos_ov7740_vidioc_querycap, s)),
     vidioc_enum_fmt_vid_cap = Some (\<lambda>f s. case cmos_ov7740_vidioc_enum_fmt_vid_cap f of (r, f) \<Rightarrow> Inr (r, f, s)),
     vidioc_g_fmt_vid_cap = Some (\<lambda>f s. case cmos_ov7740_vidioc_g_fmt_vid_cap f of (r, f) \<Rightarrow> Inr (r, f, s)),
     vidioc_try_fmt_vid_cap = Some (\<lambda>f s. Inr (cmos_ov7740_vidioc_try_fmt_vid_cap f, f, s)),
     vidioc_s_fmt_vid_cap = Some (\<lambda>f s. Inr (cmos_ov7740_vidioc_s_fmt_vid_cap f s)),
     vidioc_reqbufs = Some (\<lambda>p s. kbind (cmos_ov7740_vidioc_reqbufs get s) (\<lambda>(r, s). Inr (r, p, s))),
     vidioc_querybuf = None, vidioc_qbuf = None, vidioc_dqbuf = None,
     vidioc_streamon = Some (\<lambda>i s. kbind (cmos_ov7740_vidioc_streamon s) (\<lambda>(r, s). Inr (r, i, s))),
     vidioc_streamoff = Some (\<lambda>i s. case cmos_ov7740_vidioc_streamoff s of (r, s) \<Rightarrow> Inr (r, i, s)),
     vidioc_queryctrl = None, vidioc_g_ctrl = None, vidioc_s_ctrl = None\<rparr>"

definition cmos_ov7740_fops :: "(nat \<Rightarrow> u32) \<Rightarrow> (u32 \<Rightarrow> nat \<Rightarrow> u8 list) \<Rightarrow> (nat \<Rightarrow> bool) \<Rightarrow> user_copy \<Rightarrow> cmos v4l2_file_operations" where
  "cmos_ov7740_fops get kmem copies U = \<lparr>
     fop_open = Some (\<lambda>s. Inr (0, s)),
     fop_release = Some (\<lambda>s. Inr (0, s)),
     fop_read = Some (\<lambda>n s. kbind (cmos_ov7740_read kmem copies False (of_int n) (replicate (nat n) 0) s) (\<lambda>r. case r of
       None \<Rightarrow> Inl KernelBug | Some (r, buf, s) \<Rightarrow> Inr (r, take (nat r) buf, s))),
     fop_poll = None,
     fop_ioctl = None,
     fop_unlocked_ioctl = Some (video_ioctl2 U (Some (cmos_ov7740_ioctl_ops get))),
     fop_mmap = None\<rparr>"

definition cmos_ov7740_vdev :: "(nat \<Rightarrow> u32) \<Rightarrow> (u32 \<Rightarrow> nat \<Rightarrow> u8 list) \<Rightarrow> (nat \<Rightarrow> bool) \<Rightarrow> user_copy \<Rightarrow> cmos vdev" where
  "cmos_ov7740_vdev get kmem copies U = \<lparr>vdev_fops = cmos_ov7740_fops get kmem copies U, vdev_release = cmos_ov7740_release\<rparr>"

definition cmos_camera ::
    "(nat \<Rightarrow> u32) \<Rightarrow> (u32 \<Rightarrow> nat \<Rightarrow> u8 list) \<Rightarrow> (nat \<Rightarrow> bool) \<Rightarrow> bool \<Rightarrow> nat \<Rightarrow> u32 \<Rightarrow> (cmos \<Rightarrow> cmos kres) \<Rightarrow> cmos vsys camera" where
  "cmos_camera get kmem copies k fd addr sleep = v4l2_camera (cmos_ov7740_vdev get kmem copies (app_copy k)) (\<lambda>j. Inr) (\<lambda>j s. []) fd addr sleep"

text \<open>
  There are always four buffers.
\<close>

definition four_buffers :: "cmos \<Rightarrow> bool" where
  "four_buffers s \<longleftrightarrow> length (img_buff s) = 4"

lemma four_buffers_steps [simp]:
  "four_buffers (wr r v s) = four_buffers s" "four_buffers (get_pages i ord a s) = four_buffers s" "four_buffers (set_phys i s) = four_buffers s"
  "four_buffers (s\<lparr>ev_cam := e\<rparr>) = four_buffers s"
  by (simp_all add: four_buffers_def wr_def get_pages_def set_phys_def)

lemma free_buff_four: "free_buff i ord s = Inr s' \<Longrightarrow> four_buffers s' = four_buffers s"
  by (auto simp: free_buff_def free_pages_def four_buffers_def elim!: kbindE split: if_split_asm)

lemma cleanup_four:
  "error1 ord s = Inr (r, s') \<Longrightarrow> four_buffers s' = four_buffers s"
  "error2 ord s = Inr (r, s') \<Longrightarrow> four_buffers s' = four_buffers s"
  "error3 ord s = Inr (r, s') \<Longrightarrow> four_buffers s' = four_buffers s"
  by (auto simp: error1_def error2_def error3_def elim!: kbindE dest!: free_buff_four)

lemma cmos_reqbufs_four: "cmos_ov7740_vidioc_reqbufs get s = Inr (r, s') \<Longrightarrow> four_buffers s' = four_buffers s"
  by (auto simp: cmos_ov7740_vidioc_reqbufs_def Let_def split: if_split_asm dest!: cleanup_four)

lemma cmos_ops_keep: "ops_keep four_buffers (cmos_ov7740_ioctl_ops get)"
  unfolding ops_keep_def
proof (intro conjI)
  let ?T = "cmos_ov7740_ioctl_ops get" and ?I = four_buffers
  note d = cmos_ov7740_ioctl_ops_def keeps_def yields_def
  show "pred_option (keeps ?I) (vidioc_s_fmt_vid_cap ?T)"
    by (auto simp: d cmos_ov7740_vidioc_s_fmt_vid_cap_def set_sizes_def four_buffers_def wr_def Let_def split: if_split_asm)
  show "pred_option (keeps ?I) (vidioc_reqbufs ?T)" by (auto simp: d elim!: kbindE dest!: cmos_reqbufs_four)
  show "pred_option (keeps ?I) (vidioc_streamon ?T)"
    by (auto simp: d cmos_ov7740_vidioc_streamon_def cmos_ov7740_calculate_scaler_info_def streamon_source_def streamon_start_def four_buffers_def wr_def Let_def
        elim!: kbindE split: prod.splits)
  show "pred_option (keeps ?I) (vidioc_streamoff ?T)" by (auto simp: d cmos_ov7740_vidioc_streamoff_def)
qed (auto simp: cmos_ov7740_ioctl_ops_def keeps_def yields_def split: prod.splits)

text \<open>
  While the application sleeps, the interrupt of the camera controller arrives.
\<close>

interpretation cmos_file: v4l2_driver "cmos_ov7740_vdev get kmem copies (app_copy k)" "\<lambda>j. Inr" "\<lambda>j s. []" fd addr
    "\<lambda>s. Inr (cmos_ov7740_camif_irq_p s)" n four_buffers four_buffers for get kmem copies k fd addr n
proof
  let ?F = "vdev_fops (cmos_ov7740_vdev get kmem copies (app_copy k))"
  note d = cmos_ov7740_vdev_def cmos_ov7740_fops_def
  show "pred_option (keeps four_buffers) (fop_unlocked_ioctl ?F)" by (simp add: d video_ioctl2_keeps cmos_ops_keep)
  show "yields four_buffers (f j s)" if "fop_read ?F = Some f" "four_buffers s" for f j s
    using that by (auto simp: d yields_def cmos_ov7740_read_def Let_def elim!: kbindE split: option.splits if_split_asm)
qed (auto simp: cmos_ov7740_vdev_def cmos_ov7740_fops_def cmos_ov7740_camif_irq_p_def)

end
