(* ===== verification/Cameras.thy ===== *)
theory Cameras
  imports Driver_Files
begin

text \<open>
  The application on the cameras of the repository, through the V4L2 layer: a frame's way from the bus
  to the screen, what happens when the application opens each of the cameras, and what happens when the
  USB camera is pulled out.
\<close>

section \<open>Calls on a usable device\<close>

lemma open_usable:
  assumes "usable (vs_node s)" "fop_open (vdev_fops V) = Some f" "f (vs_drv s) = Inr (0, d)"
  shows "v4l2_open V s = Inr (0, (video_get s)\<lparr>vs_drv := d\<rparr>)"
  using assms by (simp add: usable_def v4l2_open_def on_vdev_def video_get_def)

lemma release_usable:
  assumes "usable (vs_node s)" "1 < vd_ref (vs_node s)" "fop_release (vdev_fops V) = Some f" "f (vs_drv s) = Inr (r, d)"
  shows "v4l2_release V s = Inr (0, \<lparr>vs_node = (vs_node s)\<lparr>vd_ref := vd_ref (vs_node s) - 1\<rparr>, vs_drv = d\<rparr>)"
  using assms by (cases s) (simp add: usable_def v4l2_release_def on_vdev_def video_put_def)

lemma usable_get [simp]: "usable (vs_node (video_get s)) = usable (vs_node s)"
  by (simp add: usable_def video_get_def)

lemma poll_usable:
  assumes "usable (vs_node s)" "fop_poll (vdev_fops V) = Some f"
  shows "v4l2_poll V s = kbind (f (vs_drv s)) (\<lambda>(m, d). Inr (m, s\<lparr>vs_drv := d\<rparr>))"
  using assms by (simp add: usable_def v4l2_poll_def on_vdev_def)

section \<open>The USB camera\<close>

text \<open>
  The calls of the application on the driver.
\<close>

lemma uvc_ioctl_table [simp]:
  "ioctl_of (vdev_fops (myuvc_video_device E junk U)) = Some (video_ioctl2 U (Some (myuvc_ioctl_ops E junk)))"
  by (simp add: ioctl_of_def myuvc_video_device_def myuvc_fops_def)

lemma uvc_dqbuf_call:
  assumes "usable (vs_node s)" "b_type v = V4L2_BUF_TYPE_VIDEO_CAPTURE" "myuvc_vidioc_dqbuf v (vs_drv s) = Inr (0, v', d)"
  shows "cam_dqbuf (uvc_camera E junk k fd addr sleep) v s = Inr (0, v', s\<lparr>vs_drv := d\<rparr>)"
  using assms sys_ioctl_usable [where K = VIDIOC_DQBUF and arg = cmd_buffer and p = v and V = "myuvc_video_device E junk (app_copy k)" and k = k and
      ops = "myuvc_ioctl_ops E junk" and r = 0 and c = "VIDIOC_DQBUF v'" and d = d, OF assms(1)]
  by (simp add: uvc_camera_def v4l2_camera_def check_array_args_def call_buf_def call_op_def check_fmt_def myuvc_ioctl_ops_def sys_ret_def)

lemma uvc_qbuf_call:
  assumes "usable (vs_node s)" "b_type v = V4L2_BUF_TYPE_VIDEO_CAPTURE" "myuvc_vidioc_qbuf v (vs_drv s) = Inr (0, d)"
  shows "cam_qbuf (uvc_camera E junk k fd addr sleep) v s = Inr (0, s\<lparr>vs_drv := d\<rparr>)"
  using assms sys_ioctl_usable [where K = VIDIOC_QBUF and arg = cmd_buffer and p = v and V = "myuvc_video_device E junk (app_copy k)" and k = k and
      ops = "myuvc_ioctl_ops E junk" and r = 0 and c = "VIDIOC_QBUF v" and d = d, OF assms(1)]
  by (simp add: uvc_camera_def v4l2_camera_def check_array_args_def call_buf_def call_op_def check_fmt_def myuvc_ioctl_ops_def sys_ret_def)

lemma uvc_reqbufs_call:
  assumes "usable (vs_node s)" "rb_type p = V4L2_BUF_TYPE_VIDEO_CAPTURE" "myuvc_vidioc_reqbufs E p (vs_drv s) = Inr (r, d)" "r \<noteq> - ENOIOCTLCMD"
  shows "cam_reqbufs (uvc_camera E junk k fd addr sleep) p s = Inr (sys_ret r, p, s\<lparr>vs_drv := d\<rparr>)"
  using assms sys_ioctl_usable [where K = VIDIOC_REQBUFS and arg = cmd_reqbufs and p = p and V = "myuvc_video_device E junk (app_copy k)" and k = k and
      ops = "myuvc_ioctl_ops E junk" and r = r and c = "VIDIOC_REQBUFS p" and d = d, OF assms(1)]
  by (simp add: uvc_camera_def v4l2_camera_def check_array_args_def call_buf_def call_op_def check_fmt_def myuvc_ioctl_ops_def)

text \<open>
  The application waits until a buffer is filled.
\<close>

lemma uvc_poll_call:
  assumes u: "usable (vs_node s)" and l0: "live (myuvc_queue (vs_drv s)) m0 fs0 (p # ps0)" and w: "sleep (vs_drv s) = Inr d"
    and l: "live (myuvc_queue d) m (i # fs) ps" "fs0 \<noteq> [] \<Longrightarrow> d = vs_drv s"
  shows "cam_poll (uvc_camera E junk k fd addr sleep) s = Inr (1, s\<lparr>vs_drv := d\<rparr>)"
proof -
  let ?V = "myuvc_video_device E junk (app_copy k)"
  have p: "v4l2_poll ?V s' = kbind (myuvc_poll (vs_drv s')) (\<lambda>m. Inr (m, s'))" if "usable (vs_node s')" for s'
    using that by (cases "myuvc_poll (vs_drv s')") (simp_all add: poll_usable myuvc_video_device_def myuvc_fops_def)
  have "v4l2_poll ?V s = Inr (if fs0 \<noteq> [] then POLLIN OR POLLRDNORM else 0, s)" using p [OF u] poll_live [OF l0] by simp
  moreover have "v4l2_poll ?V (s\<lparr>vs_drv := d\<rparr>) = Inr (POLLIN OR POLLRDNORM, s\<lparr>vs_drv := d\<rparr>)"
    using p [of "s\<lparr>vs_drv := d\<rparr>"] u poll_live [OF l(1)] by simp
  ultimately show ?thesis
    using w l(2) by (cases "fs0 = []") (simp_all add: uvc_camera_def v4l2_camera_def sys_poll_def wait_for_def Let_def)
qed

text \<open>
  The application has mapped every buffer of the driver.
\<close>

definition mapped_all :: "'w uvc vsys capture \<Rightarrow> bool" where
  "mapped_all c \<longleftrightarrow> opr c = g_tV4l2VideoOpr \<and> (\<forall>j<unat (q_count (myuvc_queue (vs_drv (cam c)))). j < length (pucVideBuf (dev c)) \<and> pucVideBuf (dev c) ! j = VMap j)"

lemma uvc_mapped_contents:
  assumes l: "live (myuvc_queue s) m fs ps" and i: "i < unat (q_count (myuvc_queue s))"
  defines "n \<equiv> unat (b_bytesused (mb_buf (q_buffer (myuvc_queue s) ! i)))"
  shows "take n (uvc_mapped i s) = contents s i" "n \<le> length (uvc_mapped i s)" "n \<le> 77312"
proof -
  let ?q = "myuvc_queue s"
  have b: "buffer_ok i (q_buffer ?q ! i)" using l i by (simp add: live_def)
  have c: "unat (q_count ?q) \<le> 32" "q_mem ?q = Some m" "q_buf_size ?q = 77824" "length m = unat (q_count ?q) * 77824" using l by (simp_all add: live_def)
  show n: "n \<le> 77312" unfolding n_def using b by (simp add: buffer_ok_def Let_def maxVideoFrameSize_def word_le_nat_alt)
  have "unat (b_m (mb_buf (q_buffer ?q ! i))) = i * 77824"
    using b i c(1) by (simp add: buffer_ok_def Let_def unat_word_ariths unat_of_nat)
  then have o: "unat (b_m (mb_buf (q_buffer ?q ! i))) + 77824 \<le> length m" using c(4) i by simp
  then show "n \<le> length (uvc_mapped i s)" using c n by (simp add: uvc_mapped_def)
  show "take n (uvc_mapped i s) = contents s i"
    using c n unfolding uvc_mapped_def contents_def n_def by (simp add: min_def)
qed

lemma uvc_mapped_take:
  assumes "k < length (q_buffer (myuvc_queue s))"
  shows "uvc_mapped k (s\<lparr>myuvc_queue := queue_take i (myuvc_queue s)\<rparr>) = uvc_mapped k s"
  using assms by (cases "i = k") (simp_all add: uvc_mapped_def queue_take_def split: option.split)

text \<open>
  Taking the oldest filled buffer and giving it back.
\<close>

lemma uvc_get_frame:
  fixes C :: "'w uvc vsys camera"
  assumes C: "C = uvc_camera E junk k fd addr sleep" and c: "opr c = g_tV4l2VideoOpr" "usable (vs_node (cam c))" "get_frame_ptr i (dev c) = Inr (VMap i)"
    and w: "live (myuvc_queue (vs_drv (cam c))) m0 [] (p # ps0)" "sleep (vs_drv (cam c)) = Inr s"
    and l: "live (myuvc_queue s) m (i # fs) ps"
  shows "\<exists>b. GetFrame C b0 c = Inr (0, b, c\<lparr>cam := (cam c)\<lparr>vs_drv := s\<lparr>myuvc_queue := queue_take i (myuvc_queue s)\<rparr>\<rparr>,
      dev := (dev c)\<lparr>iVideoBufCurIndex := int i\<rparr>\<rparr>) \<and>
    vbuf_ptr b = PBlock \<and> iTotalBytes (vbuf_pix b) = int (length (contents s i)) \<and> length (contents s i) \<le> length (aucPixelDatas (vbuf_pix b)) \<and>
    take (length (contents s i)) (aucPixelDatas (vbuf_pix b)) = contents s i"
proof -
  let ?q = "myuvc_queue s" and ?s = "s\<lparr>myuvc_queue := queue_take i (myuvc_queue s)\<rparr>"
  let ?v = "mb_buf (q_buffer ?q ! i)"
  have i: "i < unat (q_count ?q)" "unat (q_count ?q) \<le> 32" "length (q_buffer ?q) = 32" using l by (simp_all add: live_def)
  have bx: "b_index ?v = of_nat i" using l i(1) by (simp add: live_def buffer_ok_def Let_def)
  have ix: "unat (b_index ?v) = i" "sint (b_index ?v) = int i"
    unfolding bx using i by (simp_all add: sint_small unat_of_nat)
  have "cam_poll C (cam c) = Inr (1, (cam c)\<lparr>vs_drv := s\<rparr>)" unfolding C by (rule uvc_poll_call [where sleep = sleep, OF c(2) w l]) simp
  moreover have "cam_dqbuf C ((0 :: v4l2_buffer)\<lparr>b_type := V4L2_BUF_TYPE_VIDEO_CAPTURE, b_memory := V4L2_MEMORY_MMAP\<rparr>) ((cam c)\<lparr>vs_drv := s\<rparr>) =
      Inr (0, ?v, (cam c)\<lparr>vs_drv := ?s\<rparr>)"
    unfolding C using uvc_dqbuf_call [of "(cam c)\<lparr>vs_drv := s\<rparr>"] c(2) dqbuf_filled [OF l] by simp
  moreover have "get_frame_ptr i ((dev c)\<lparr>iVideoBufCurIndex := int i\<rparr>) = Inr (VMap i)"
    using c(3) by (simp add: get_frame_ptr_def split: if_splits)
  moreover have "cam_mapped C i ((cam c)\<lparr>vs_drv := ?s\<rparr>) = uvc_mapped i s"
    using i by (simp add: C uvc_camera_def v4l2_camera_def uvc_mapped_take)
  moreover note m = uvc_mapped_contents [OF l i(1)]
  moreover have "sint (b_bytesused ?v) = int (unat (b_bytesused ?v))"
    using m(3) by (simp add: sint_small)
  moreover have "length (contents s i) = unat (b_bytesused ?v)" using m(1,2) by (metis length_take min.absorb2)
  ultimately show ?thesis
    using c(1) ix by (simp add: GetFrame_def g_tV4l2VideoOpr_def V4l2GetFrameForStreaming_def frame_buf_def Let_def)
qed

lemma uvc_put_frame:
  fixes C :: "'w uvc vsys camera" and c :: "'w uvc vsys capture"
  defines "q \<equiv> myuvc_queue (vs_drv (cam c))"
  assumes C: "C = uvc_camera E junk k fd addr sleep"
    and c: "opr c = g_tV4l2VideoOpr" "usable (vs_node (cam c))" "iVideoBufCurIndex (dev c) = int i" "uvc_inv (vs_drv (cam c))"
    and i: "i < unat (q_count q)" "i \<notin> set (uq_filled q @ uq_pending q)"
  shows "\<exists>s. PutFrame C c = Inr (0, c\<lparr>cam := (cam c)\<lparr>vs_drv := s\<rparr>\<rparr>) \<and> uvc_inv s \<and> uq_filled (myuvc_queue s) = uq_filled q \<and>
    uq_pending (myuvc_queue s) = uq_pending q @ [i] \<and> q_count (myuvc_queue s) = q_count q"
proof -
  let ?v = "(0 :: v4l2_buffer)\<lparr>b_index := of_int (int i), b_type := V4L2_BUF_TYPE_VIDEO_CAPTURE, b_memory := V4L2_MEMORY_MMAP\<rparr>"
  let ?s = "(vs_drv (cam c))\<lparr>myuvc_queue := queue_put i q\<rparr>"
  have q: "queue_inv q" using c(4) by (simp add: uvc_inv_def q_def)
  have "unat (q_count q) < 2 ^ 32" by (rule order_less_le_trans [OF unsigned_less]) simp
  then have ix: "unat (of_nat i :: u32) = i" using i(1) by (simp add: unat_of_nat)
  then have v: "qbuf_valid ?v q" using i by (simp add: qbuf_valid_def word_less_nat_alt)
  have "myuvc_vidioc_qbuf ?v (vs_drv (cam c)) = Inr (0, ?s)" using qbuf_accepted [OF q [unfolded q_def] v [unfolded q_def]] ix by (simp add: q_def)
  then have "cam_qbuf C ?v (cam c) = Inr (0, (cam c)\<lparr>vs_drv := ?s\<rparr>)" unfolding C by (intro uvc_qbuf_call [OF c(2)]) simp_all
  then have "PutFrame C c = Inr (0, c\<lparr>cam := (cam c)\<lparr>vs_drv := ?s\<rparr>\<rparr>)"
    using c(1,3) by (simp add: PutFrame_def g_tV4l2VideoOpr_def V4l2PutFrameForStreaming_def)
  then show ?thesis using queue_inv_put [OF q v] ix c(4) by (intro exI [of _ ?s]) (simp add: uvc_inv_def)
qed


text \<open>
  The concrete driver state, with its two buffers mapped, behind the application with the two-pixel
  display.
\<close>

definition uvc_demo_capture :: "u8 list uvc vsys capture" where
  "uvc_demo_capture = \<lparr>cam = \<lparr>vs_node = (video_register_device video_device_alloc)\<lparr>vd_ref := 2\<rparr>, vs_drv = uvc_demo\<rparr>, dev = (dev (demo_capture V4L2_PIX_FMT_MJPEG))\<lparr>pucVideBuf := [VMap 0, VMap 1, VNull, VNull]\<rparr>, opr = g_tV4l2VideoOpr\<rparr>"


section \<open>Opening the cameras\<close>

text \<open>
  Initialisation up to the buffers, for a device whose first format the application knows.
\<close>

lemma init_reaches_buffers:
  assumes "cam_open C name (cam c) = Inr (fd, d1)" "0 \<le> fd" "cam_querycap C cap_zero d1 = Inr (0, cp, d1)" "cap_capabilities cp AND V4L2_CAP_VIDEO_CAPTURE \<noteq> 0"
    and "cam_enum_fmt C (fmtdesc_zero\<lparr>fd_index := 0, fd_type := V4L2_BUF_TYPE_VIDEO_CAPTURE\<rparr>) d1 = Inr (0, f, d1)" "isSupportThisFormat (fd_pixelformat f)"
    and s_fmt: "\<And>fmt. f_type fmt = V4L2_BUF_TYPE_VIDEO_CAPTURE \<Longrightarrow> pf_pixelformat (f_pix fmt) = fd_pixelformat f \<Longrightarrow> pf_field (f_pix fmt) = V4L2_FIELD_ANY \<Longrightarrow>
      \<exists>r fmt' d2. cam_s_fmt C fmt d1 = Inr (r, fmt', d2) \<and> P r d2"
  shows "\<exists>r c'. V4l2InitDevice C lcd malloc name c = Some (if r = 0 then init_device_buffers C malloc (cap_capabilities cp) c' else err_exit C c') \<and> P r (cam c') \<and>
    length (pucVideBuf (dev c')) = length (pucVideBuf (dev c))"
proof -
  have nz: "fd_pixelformat f \<noteq> 0" using assms(6) by (auto simp: isSupportThisFormat_def)
  let ?fmt = "(0 :: v4l2_format)\<lparr>f_type := V4L2_BUF_TYPE_VIDEO_CAPTURE, f_pix := (f_pix (0 :: v4l2_format))\<lparr>pf_pixelformat := fd_pixelformat f,
    pf_width := of_int (fst lcd), pf_height := of_int (snd lcd), pf_field := V4L2_FIELD_ANY\<rparr>\<rparr>"
  obtain r fmt' d2 where f: "cam_s_fmt C ?fmt d1 = Inr (r, fmt', d2)" "P r d2" using s_fmt [of ?fmt] by auto
  let ?v = "(dev c)\<lparr>iFd := fd, dev_iPixelFormat := fd_pixelformat f\<rparr>"
  let ?ok = "?v\<lparr>dev_iWidth := sint (pf_width (f_pix fmt')), dev_iHeight := sint (pf_height (f_pix fmt'))\<rparr>"
  show ?thesis
  proof (cases "r = 0")
    case True
    then show ?thesis
      using assms(1-6) nz f by (intro exI [of _ r] exI [of _ "c\<lparr>cam := d2, dev := ?ok\<rparr>"]) (simp add: V4l2InitDevice_def enum_formats.simps init_format_def Let_def)
  next
    case False
    then show ?thesis
      using assms(1-6) nz f by (intro exI [of _ r] exI [of _ "c\<lparr>dev := ?v, cam := d2\<rparr>"]) (simp add: V4l2InitDevice_def enum_formats.simps init_format_def Let_def)
  qed
qed

lemma reqbufs_refused:
  assumes "cam_reqbufs C \<lparr>rb_count = 4, rb_type = V4L2_BUF_TYPE_VIDEO_CAPTURE, rb_memory = V4L2_MEMORY_MMAP\<rparr> (cam c) = Inr (r, p, d)" "r \<noteq> 0"
  shows "init_device_buffers C malloc capabilities c = kbind (cam_close C d) (\<lambda>d. Inr (- 1, c\<lparr>cam := d\<rparr>))"
  using assms by (simp add: init_device_buffers_def err_exit_def)

lemma err_exit_result:
  assumes "cam_close C (cam c) = Inr d"
  shows "err_exit C c = Inr (- 1, c\<lparr>cam := d\<rparr>)"
  using assms by (simp add: err_exit_def)

lemma uvc_format_calls:
  fixes E :: "'w usb_env" and s :: "'w uvc vsys" and junk k fd addr sleep
  defines "C \<equiv> uvc_camera E junk k fd addr sleep"
    and "f \<equiv> fmtdesc_zero\<lparr>fd_index := 0, fd_type := V4L2_BUF_TYPE_VIDEO_CAPTURE, fd_description := ''MJPEG'', fd_pixelformat := V4L2_PIX_FMT_MJPEG\<rparr>"
  assumes u: "usable (vs_node s)"
  shows "cam_open C name s = Inr (int fd, video_get s)" "cam_querycap C cap_zero s = Inr (0, snd (myuvc_vidioc_querycap cap_zero), s)"
    "cap_capabilities (snd (myuvc_vidioc_querycap cap_zero)) AND V4L2_CAP_VIDEO_CAPTURE \<noteq> 0"
    "cam_enum_fmt C (fmtdesc_zero\<lparr>fd_index := 0, fd_type := V4L2_BUF_TYPE_VIDEO_CAPTURE\<rparr>) s = Inr (0, f, s)" "isSupportThisFormat (fd_pixelformat f)"
    "f_type fmt = V4L2_BUF_TYPE_VIDEO_CAPTURE \<Longrightarrow> pf_pixelformat (f_pix fmt) = fd_pixelformat f \<Longrightarrow> pf_field (f_pix fmt) = V4L2_FIELD_ANY \<Longrightarrow>
      \<exists>r fmt' d. cam_s_fmt C fmt s = Inr (r, fmt', s\<lparr>vs_drv := d\<rparr>)"
proof -
  let ?V = "myuvc_video_device E junk (app_copy k)" and ?T = "myuvc_ioctl_ops E junk"
  note d = C_def uvc_camera_def v4l2_camera_def and ops = myuvc_ioctl_ops_def call_op_def call_fmt_def check_array_args_def sys_ret_def
  show "cam_open C name s = Inr (int fd, video_get s)"
    using open_usable [of s ?V _ "vs_drv s"] u by (simp add: d myuvc_video_device_def myuvc_fops_def myuvc_open_def video_get_def)
  have "do_ioctl ?T (copy_in (VIDIOC_QUERYCAP cap_zero)) (vs_drv s) = Inr (0, VIDIOC_QUERYCAP (snd (myuvc_vidioc_querycap cap_zero)), vs_drv s)"
    by (simp add: ops myuvc_vidioc_querycap_def)
  from sys_ioctl_usable [where V = ?V and k = k and K = VIDIOC_QUERYCAP and arg = cmd_cap, OF u _ _ _ this]
  show "cam_querycap C cap_zero s = Inr (0, snd (myuvc_vidioc_querycap cap_zero), s)" by (simp add: d ops)
  have "do_ioctl ?T (copy_in (VIDIOC_ENUM_FMT (fmtdesc_zero\<lparr>fd_index := 0, fd_type := V4L2_BUF_TYPE_VIDEO_CAPTURE\<rparr>))) (vs_drv s) = Inr (0, VIDIOC_ENUM_FMT f, vs_drv s)"
    by (simp add: ops f_def myuvc_vidioc_enum_fmt_vid_cap_def fmtdesc_zero_def)
  from sys_ioctl_usable [where V = ?V and k = k and K = VIDIOC_ENUM_FMT and arg = cmd_fmtdesc, OF u _ _ _ this]
  show "cam_enum_fmt C (fmtdesc_zero\<lparr>fd_index := 0, fd_type := V4L2_BUF_TYPE_VIDEO_CAPTURE\<rparr>) s = Inr (0, f, s)" by (simp add: d ops)
  show "cap_capabilities (snd (myuvc_vidioc_querycap cap_zero)) AND V4L2_CAP_VIDEO_CAPTURE \<noteq> 0" "isSupportThisFormat (fd_pixelformat f)"
    by (simp_all add: myuvc_vidioc_querycap_def f_def isSupportThisFormat_def)
  assume "f_type fmt = V4L2_BUF_TYPE_VIDEO_CAPTURE" "pf_pixelformat (f_pix fmt) = fd_pixelformat f" "pf_field (f_pix fmt) = V4L2_FIELD_ANY"
  then obtain fmt' d' where f': "do_ioctl ?T (copy_in (VIDIOC_S_FMT fmt)) (vs_drv s) = Inr (0, VIDIOC_S_FMT fmt', d')"
    by (simp add: ops f_def myuvc_vidioc_s_fmt_vid_cap_def myuvc_vidioc_try_fmt_vid_cap_def Let_def)
  show "\<exists>r fmt' d. cam_s_fmt C fmt s = Inr (r, fmt', s\<lparr>vs_drv := d\<rparr>)"
  proof (cases k)
    case True
    then show ?thesis using sys_ioctl_usable [where V = ?V and k = True and K = VIDIOC_S_FMT and arg = cmd_format, OF u _ _ _ f']
      by (intro exI [of _ 0] exI [of _ fmt'] exI [of _ d']) (simp add: d ops)
  next
    case False
    then show ?thesis using sys_ioctl_no_memory [where V = ?V and arg = cmd_format and K = VIDIOC_S_FMT and p = fmt and ops = ?T, OF u]
      by (intro exI [of _ "- 1"] exI [of _ fmt] exI [of _ "vs_drv s"]) (simp add: d)
  qed
qed

lemma uvc_reqbufs_not_0:
  assumes "env_ok E" "rb_count p = 4"
  shows "\<exists>r s'. myuvc_vidioc_reqbufs E p s = Inr (r, s') \<and> r \<noteq> 0 \<and> r \<noteq> - ENOIOCTLCMD"
proof -
  let ?sz = "pf_sizeimage (f_pix (myuvc_format s))"
  obtain k o' w where a: "reqbufs_alloc E (PAGE_ALIGN ?sz) 4 (world (myuvc_free_buffers E s)) = (k, o', w)" by (metis prod_cases3)
  show ?thesis
  proof (cases o')
    case None
    then show ?thesis using a assms(2) by (simp add: myuvc_vidioc_reqbufs_def Let_def)
  next
    case (Some m)
    have k: "0 < k" "k \<le> 4" using reqbufs_alloc_Some [OF assms(1) a [unfolded Some]] by auto
    obtain bufs where "init_buffers (PAGE_ALIGN ?sz) ?sz [0..<k] (q_buffer myuvc_queue_zero) = Inr bufs"
      using init_buffers_in_range [of "[0..<k]" "q_buffer myuvc_queue_zero" "PAGE_ALIGN ?sz" ?sz] k by (auto simp: myuvc_queue_zero_def)
    then show ?thesis using a Some assms(2) k by (simp add: myuvc_vidioc_reqbufs_def Let_def)
  qed
qed

text \<open>
  C38: the application cannot open the USB camera.  VIDIOC_REQBUFS of the driver returns the number of
  buffers, the application takes every result but 0 for an error, and when there is no memory the call
  fails as well.  The application closes the device again: the device node has the references it had
  before, and the driver's invariant holds.
\<close>

theorem app_rejects_uvc:
  assumes E: "env_ok E" and c: "usable (vs_node (cam c))" "0 < vd_ref (vs_node (cam c))" "uvc_inv (vs_drv (cam c))"
  shows "\<exists>c'. V4l2InitDevice (uvc_camera E junk k fd addr (\<lambda>s. complete_urbs E (arrive s) s)) lcd malloc name c = Some (Inr (- 1, c')) \<and>
    vs_node (cam c') = vs_node (cam c) \<and> uvc_inv (vs_drv (cam c'))"
proof -
  let ?C = "uvc_camera E junk k fd addr (\<lambda>s. complete_urbs E (arrive s) s)" and ?n = "vs_node (cam c)"
  let ?p = "\<lparr>rb_count = 4, rb_type = V4L2_BUF_TYPE_VIDEO_CAPTURE, rb_memory = V4L2_MEMORY_MMAP\<rparr>"
  let ?P = "\<lambda>s. \<exists>d. s = (video_get (cam c))\<lparr>vs_drv := d\<rparr>"
  note first = uvc_format_calls
  have u: "usable (vs_node (video_get (cam c)))" using c(1) by simp
  have sf: "\<exists>r fmt' d2. cam_s_fmt ?C fmt (video_get (cam c)) = Inr (r, fmt', d2) \<and> ?P d2"
    if "f_type fmt = V4L2_BUF_TYPE_VIDEO_CAPTURE" "pf_pixelformat (f_pix fmt) = fd_pixelformat (fmtdesc_zero\<lparr>fd_index := 0, fd_type := V4L2_BUF_TYPE_VIDEO_CAPTURE,
      fd_description := ''MJPEG'', fd_pixelformat := V4L2_PIX_FMT_MJPEG\<rparr>)" "pf_field (f_pix fmt) = V4L2_FIELD_ANY" for fmt
    using first(6) [OF u that] by blast
  obtain r1 :: int and c1 where c1: "V4l2InitDevice ?C lcd malloc name c =
      Some (if r1 = 0 then init_device_buffers ?C malloc (cap_capabilities (snd (myuvc_vidioc_querycap cap_zero))) c1 else err_exit ?C c1)" "?P (cam c1)"
    by (rule exE [OF init_reaches_buffers [where C = ?C and P = "\<lambda>r. ?P" and lcd = lcd and malloc = malloc,
          OF first(1) [OF c(1), where name = name] of_nat_0_le_iff first(2-5) [OF u]]]) (erule (2) sf, elim exE conjE, blast)
  have u1: "usable (vs_node s)" "1 < vd_ref (vs_node s)" if "?P s" for s using that c(1,2) by (auto simp: usable_def video_get_def)
  have cl: "\<exists>d. cam_close ?C s = Inr d" if "?P s" for s
    using release_usable [OF u1 [OF that], of "myuvc_video_device E junk (app_copy k)" _ 0]
    by (simp add: uvc_camera_def v4l2_camera_def myuvc_video_device_def myuvc_fops_def myuvc_close_def)
  obtain r d where r: "myuvc_vidioc_reqbufs E ?p (vs_drv (cam c1)) = Inr (r, d)" "r \<noteq> 0" "r \<noteq> - ENOIOCTLCMD"
    using uvc_reqbufs_not_0 [OF E, of ?p "vs_drv (cam c1)"] by auto
  have "cam_reqbufs ?C ?p (cam c1) = Inr (sys_ret r, ?p, (cam c1)\<lparr>vs_drv := d\<rparr>)" "sys_ret r \<noteq> 0" "?P ((cam c1)\<lparr>vs_drv := d\<rparr>)"
    using uvc_reqbufs_call [OF u1(1) [OF c1(2)] _ r(1,3)] r(2) c1(2) by (auto simp: sys_ret_def)
  then obtain c' where c': "V4l2InitDevice ?C lcd malloc name c = Some (Inr (- 1, c'))"
    using c1 reqbufs_refused [of ?C c1] cl [of "(cam c1)\<lparr>vs_drv := d\<rparr>"] cl [of "cam c1"] err_exit_result [of ?C c1] by (cases "r1 = 0") auto
  have "closed_file ?n (\<lambda>s. env_ok E \<longrightarrow> uvc_inv s) (cam c)" using c(2,3) by (simp add: closed_file_def)
  from uvc_file.init_device_result [OF this, folded uvc_camera_def, OF c'] show ?thesis using E c' by (auto simp: closed_file_def)
qed

theorem app_rejects_uvc_witness:
  "\<exists>c'. V4l2InitDevice (uvc_camera demo_env [] True 4 0x40000000 (\<lambda>s. complete_urbs demo_env [] s)) (240, 320) (\<lambda>k n. None) ''/dev/video0'' uvc_demo_capture =
    Some (Inr (- 1, c')) \<and> vd_ref (vs_node (cam c')) = 2"
  using app_rejects_uvc [OF demo_env_ok, of uvc_demo_capture "[]" True 4 "0x40000000" "\<lambda>s. []" "(240, 320)" "\<lambda>k n. None" "''/dev/video0''"] uvc_demo_inv
  by (auto simp: uvc_demo_capture_def usable_def video_register_device_def video_device_alloc_def)

section \<open>The virtual camera\<close>

text \<open>
  The driver after \<open>open\<close>: nothing is queued, and REQBUFS answers.
\<close>

definition vivi_fresh :: "vivi \<Rightarrow> bool" where
  "vivi_fresh s \<longleftrightarrow> myvivi_timer s \<noteq> None \<and> vb_live (vivi_sys s) [] [] \<and> vq_type (vq (vivi_sys s)) = V4L2_BUF_TYPE_VIDEO_CAPTURE \<and>
     vq_stream (vq (vivi_sys s)) = Some [] \<and> \<not> vq_streaming (vq (vivi_sys s))"

lemma vivi_opened:
  assumes "vivi_inv s" "myvivi_timer s = None"
  shows "\<exists>s'. myvivi_open j s = Inr (0, s') \<and> vivi_fresh s'"
proof -
  let ?st = "(vivi_sys s)\<lparr>vq := videobuf_queue_core_init V4L2_BUF_TYPE_VIDEO_CAPTURE V4L2_FIELD_INTERLACED\<rparr>"
  have "vb_live ?st [] []"
    using assms by (intro fresh_live [where n = 0]) (simp_all add: videobuf_queue_core_init_def INIT_LIST_HEAD_def vivi_inv_def)
  then show ?thesis using assms
    by (simp add: myvivi_open_def vivi_fresh_def videobuf_queue_core_init_def INIT_LIST_HEAD_def Let_def)
qed

lemma vivi_reqbufs_answers:
  assumes s: "vivi_fresh s" and p: "p = \<lparr>rb_count = 4, rb_type = V4L2_BUF_TYPE_VIDEO_CAPTURE, rb_memory = V4L2_MEMORY_MMAP\<rparr>"
  shows "\<exists>r p' s'. myvivi_vidioc_reqbufs mem p s = Inr (r, p', s') \<and> vb_inv (vivi_sys s') \<and> (r = 0 \<longrightarrow> 0 < sint (rb_count p')) \<and> r \<noteq> - ENOIOCTLCMD"
proof -
  have l: "vb_live (vivi_sys s) [] []" using s by (simp add: vivi_fresh_def)
  let ?m = "videobuf_mmap_setup mem 4 (pf_sizeimage (f_pix (myvivi_format s))) V4L2_MEMORY_MMAP (vivi_sys s)"
  obtain rv st where m: "?m = Inr (rv, st)" "rv \<noteq> - ENOIOCTLCMD"
    by (rule mmap_setup_cases [OF disjI1 [OF l], of 4 mem "pf_sizeimage (f_pix (myvivi_format s))" V4L2_MEMORY_MMAP]) auto
  obtain r p' s' where r: "myvivi_vidioc_reqbufs mem p s = Inr (r, p', s')" "r \<noteq> - ENOIOCTLCMD"
    using s m by (cases "rv < 0") (auto simp: p vivi_fresh_def myvivi_vidioc_reqbufs_def videobuf_reqbufs_def myvivi_video_qops_def myvivi_buffer_setup_def Let_def)
  have inv: "vb_inv (vivi_sys s)" using l by (auto simp: vb_inv_def)
  then have "vb_inv (vivi_sys s')"
    using r(1) vivi_ops.vb_reqbufs_inv [OF inv] by (auto simp: myvivi_vidioc_reqbufs_def kbind_Inr_iff)
  moreover have "0 < sint (rb_count p')" if "r = 0"
    using vivi_reqbufs_fresh [OF inv r(1) [unfolded that]] by (auto simp: sint_small unat_of_nat)
  ultimately show ?thesis using r by blast
qed

lemma vivi_closes:
  assumes "vb_inv (vivi_sys s)"
  shows "\<exists>s'. myvivi_close s = Inr (0, s') \<and> vivi_inv s' \<and> myvivi_timer s' = None"
proof -
  obtain st where "videobuf_stop (qops s) (vivi_sys s) = Inr st" using vivi_ops.stop_ok [OF assms] by blast
  then obtain s' where "myvivi_close s = Inr (0, s')" "myvivi_timer s' = None" by (simp add: myvivi_close_def)
  then show ?thesis using close_inv [OF assms] by blast
qed

text \<open>
  The mapping is refused: a read-only mapping lacks VM_WRITE.
\<close>

lemma vivi_map_refused: "myvivi_mmap kz vm remap (app_vma addr len off) s = (- EINVAL, app_vma addr len off, s)"
  by (simp add: myvivi_mmap_def videobuf_mmap_mapper_def app_vma_def)

lemma vivi_ioctl_table [simp]:
  "ioctl_of (vdev_fops (myvivi_device jiffies mem kz vm remap U)) = Some (video_ioctl2 U (Some (myvivi_ioctl_ops mem)))"
  by (simp add: ioctl_of_def myvivi_device_def myvivi_fops_def)

lemma vivi_querybuf_call:
  assumes "usable (vs_node s)"
  shows "\<exists>r b. cam_querybuf (vivi_camera jiffies mem kz vm remap k fd addr sleep) (mmap_buffer i) s = Inr (r, b, s)"
proof -
  obtain r b where q: "myvivi_vidioc_querybuf (mmap_buffer i) (vs_drv s) = (r, b)" by fastforce
  then have r: "r \<noteq> - ENOIOCTLCMD" by (auto simp: myvivi_vidioc_querybuf_def videobuf_querybuf_def split: if_split_asm option.split_asm)
  have "do_ioctl (myvivi_ioctl_ops mem) (copy_in (VIDIOC_QUERYBUF (mmap_buffer i))) (vs_drv s) = Inr (r, VIDIOC_QUERYBUF b, vs_drv s)"
    using q by (simp add: myvivi_ioctl_ops_def call_buf_def call_op_def check_fmt_def mmap_buffer_def)
  from sys_ioctl_usable [where V = "myvivi_device jiffies mem kz vm remap (app_copy k)" and k = k and K = VIDIOC_QUERYBUF and arg = cmd_buffer, OF assms _ _ _ this r]
  show ?thesis by (simp add: vivi_camera_def v4l2_camera_def check_array_args_def mmap_buffer_def)
qed

lemma vivi_map_buffers_refused:
  assumes "usable (vs_node (cam c))" "pucVideBuf (dev c) \<noteq> []"
  shows "\<exists>c'. map_buffers (vivi_camera jiffies mem kz vm remap k fd addr sleep) (0 # is) c = Inr (False, c') \<and> cam c' = cam c"
proof -
  let ?C = "vivi_camera jiffies mem kz vm remap k fd addr sleep"
  obtain r b where q: "cam_querybuf ?C (mmap_buffer 0) (cam c) = Inr (r, b, cam c)" using vivi_querybuf_call [OF assms(1)] by blast
  have "cam_mmap ?C len off (cam c) = Inr (None, cam c)" for len off
    using assms(1) by (simp add: vivi_camera_def v4l2_camera_def v4l2_mmap_def on_vdev_def usable_def myvivi_device_def myvivi_fops_def vivi_map_refused)
  then show ?thesis using assms(2) q by (cases "r = 0") (auto simp: set_frame_ptr_def Let_def)
qed

lemma vivi_reqbufs_call:
  assumes "usable (vs_node s)" "rb_type p = V4L2_BUF_TYPE_VIDEO_CAPTURE" "myvivi_vidioc_reqbufs mem p (vs_drv s) = Inr (r, p', d)" "r \<noteq> - ENOIOCTLCMD"
  shows "\<exists>q. cam_reqbufs (vivi_camera jiffies mem kz vm remap k fd addr sleep) p s = Inr (sys_ret r, q, s\<lparr>vs_drv := d\<rparr>) \<and> (r = 0 \<longrightarrow> q = p')"
proof -
  have "do_ioctl (myvivi_ioctl_ops mem) (copy_in (VIDIOC_REQBUFS p)) (vs_drv s) = Inr (r, VIDIOC_REQBUFS p', d)"
    using assms(2,3) by (simp add: myvivi_ioctl_ops_def call_buf_def call_op_def check_fmt_def)
  from sys_ioctl_usable [where V = "myvivi_device jiffies mem kz vm remap (app_copy k)" and k = k and K = VIDIOC_REQBUFS and arg = cmd_reqbufs,
      OF assms(1) _ _ _ this assms(4)]
  show ?thesis by (simp add: vivi_camera_def v4l2_camera_def check_array_args_def)
qed

lemma vivi_format_calls:
  fixes jiffies mem kz vm remap k fd addr sleep and s :: "vivi vsys"
  defines "C \<equiv> vivi_camera jiffies mem kz vm remap k fd addr sleep"
    and "f \<equiv> fmtdesc_zero\<lparr>fd_index := 0, fd_type := V4L2_BUF_TYPE_VIDEO_CAPTURE, fd_description := ''4:2:2, packed, YUYV'', fd_pixelformat := V4L2_PIX_FMT_YUYV\<rparr>"
  assumes u: "usable (vs_node s)"
  shows "cam_querycap C cap_zero s = Inr (0, snd (myvivi_videoc_querycap (cap_zero\<lparr>cap_version := LINUX_VERSION_CODE\<rparr>)), s)"
    "cap_capabilities (snd (myvivi_videoc_querycap (cap_zero\<lparr>cap_version := LINUX_VERSION_CODE\<rparr>))) AND V4L2_CAP_VIDEO_CAPTURE \<noteq> 0"
    "cam_enum_fmt C (fmtdesc_zero\<lparr>fd_index := 0, fd_type := V4L2_BUF_TYPE_VIDEO_CAPTURE\<rparr>) s = Inr (0, f, s)" "isSupportThisFormat (fd_pixelformat f)"
    "vivi_fresh (vs_drv s) \<Longrightarrow> f_type fmt = V4L2_BUF_TYPE_VIDEO_CAPTURE \<Longrightarrow> pf_pixelformat (f_pix fmt) = fd_pixelformat f \<Longrightarrow> pf_field (f_pix fmt) = V4L2_FIELD_ANY \<Longrightarrow>
      \<exists>r fmt' d. cam_s_fmt C fmt s = Inr (r, fmt', s\<lparr>vs_drv := d\<rparr>) \<and> vivi_fresh d"
proof -
  let ?V = "myvivi_device jiffies mem kz vm remap (app_copy k)" and ?T = "myvivi_ioctl_ops mem"
  note d = C_def vivi_camera_def v4l2_camera_def and ops = myvivi_ioctl_ops_def call_op_def call_fmt_def check_array_args_def sys_ret_def
  have "do_ioctl ?T (copy_in (VIDIOC_QUERYCAP cap_zero)) (vs_drv s) =
      Inr (0, VIDIOC_QUERYCAP (snd (myvivi_videoc_querycap (cap_zero\<lparr>cap_version := LINUX_VERSION_CODE\<rparr>))), vs_drv s)"
    by (simp add: ops myvivi_videoc_querycap_def)
  from sys_ioctl_usable [where V = ?V and k = k and K = VIDIOC_QUERYCAP and arg = cmd_cap, OF u _ _ _ this]
  show "cam_querycap C cap_zero s = Inr (0, snd (myvivi_videoc_querycap (cap_zero\<lparr>cap_version := LINUX_VERSION_CODE\<rparr>)), s)" by (simp add: d ops)
  have "do_ioctl ?T (copy_in (VIDIOC_ENUM_FMT (fmtdesc_zero\<lparr>fd_index := 0, fd_type := V4L2_BUF_TYPE_VIDEO_CAPTURE\<rparr>))) (vs_drv s) = Inr (0, VIDIOC_ENUM_FMT f, vs_drv s)"
    by (simp add: ops f_def myvivi_vidioc_enum_fmt_vid_cap_def fmtdesc_zero_def)
  from sys_ioctl_usable [where V = ?V and k = k and K = VIDIOC_ENUM_FMT and arg = cmd_fmtdesc, OF u _ _ _ this]
  show "cam_enum_fmt C (fmtdesc_zero\<lparr>fd_index := 0, fd_type := V4L2_BUF_TYPE_VIDEO_CAPTURE\<rparr>) s = Inr (0, f, s)" by (simp add: d ops)
  show "cap_capabilities (snd (myvivi_videoc_querycap (cap_zero\<lparr>cap_version := LINUX_VERSION_CODE\<rparr>))) AND V4L2_CAP_VIDEO_CAPTURE \<noteq> 0" "isSupportThisFormat (fd_pixelformat f)"
    by (simp_all add: myvivi_videoc_querycap_def cap_zero_def f_def isSupportThisFormat_def)
  assume fr: "vivi_fresh (vs_drv s)" and fmt: "f_type fmt = V4L2_BUF_TYPE_VIDEO_CAPTURE" "pf_pixelformat (f_pix fmt) = fd_pixelformat f" "pf_field (f_pix fmt) = V4L2_FIELD_ANY"
  then obtain fmt' d' where f': "do_ioctl ?T (copy_in (VIDIOC_S_FMT fmt)) (vs_drv s) = Inr (0, VIDIOC_S_FMT fmt', d')" "vivi_fresh d'"
    by (simp add: ops f_def myvivi_vidioc_s_fmt_def s_fmt_result vivi_fresh_def Let_def)
  show "\<exists>r fmt' d. cam_s_fmt C fmt s = Inr (r, fmt', s\<lparr>vs_drv := d\<rparr>) \<and> vivi_fresh d"
  proof (cases k)
    case True
    then show ?thesis using sys_ioctl_usable [where V = ?V and k = True and K = VIDIOC_S_FMT and arg = cmd_format, OF u _ _ _ f'(1)] f'(2)
      by (intro exI [of _ 0] exI [of _ fmt'] exI [of _ d']) (simp add: d ops)
  next
    case False
    then show ?thesis using sys_ioctl_no_memory [where V = ?V and arg = cmd_format and K = VIDIOC_S_FMT and p = fmt and ops = ?T, OF u] fr
      by (intro exI [of _ "- 1"] exI [of _ fmt] exI [of _ "vs_drv s"]) (simp add: d)
  qed
qed

lemma vivi_close_call:
  assumes "usable (vs_node s)" "1 < vd_ref (vs_node s)" "vb_inv (vivi_sys (vs_drv s))"
  shows "\<exists>d. cam_close (vivi_camera jiffies mem kz vm remap k fd addr sleep) s = Inr d"
  using release_usable [OF assms(1,2), of "myvivi_device jiffies mem kz vm remap (app_copy k)" myvivi_close 0] vivi_closes [OF assms(3)]
  by (auto simp: vivi_camera_def v4l2_camera_def myvivi_device_def myvivi_fops_def)

lemma vivi_init_buffers_refused:
  fixes c :: "vivi vsys capture" and jiffies mem kz vm remap k fd addr sleep
  defines "C \<equiv> vivi_camera jiffies mem kz vm remap k fd addr sleep" and "cp \<equiv> cap_capabilities (snd (myvivi_videoc_querycap (cap_zero\<lparr>cap_version := LINUX_VERSION_CODE\<rparr>)))"
  assumes n: "usable (vs_node (cam c))" "1 < vd_ref (vs_node (cam c))" and f: "vivi_fresh (vs_drv (cam c))" and p: "pucVideBuf (dev c) \<noteq> []"
  shows "\<exists>c'. init_device_buffers C malloc cp c = Inr (- 1, c')"
proof -
  let ?p = "\<lparr>rb_count = 4, rb_type = V4L2_BUF_TYPE_VIDEO_CAPTURE, rb_memory = V4L2_MEMORY_MMAP\<rparr>"
  obtain r p' s2 where r: "myvivi_vidioc_reqbufs mem ?p (vs_drv (cam c)) = Inr (r, p', s2)" "vb_inv (vivi_sys s2)" "r = 0 \<longrightarrow> 0 < sint (rb_count p')" "r \<noteq> - ENOIOCTLCMD"
    using vivi_reqbufs_answers [OF f refl] by blast
  let ?s2 = "(cam c)\<lparr>vs_drv := s2\<rparr>"
  obtain q where rq: "cam_reqbufs C ?p (cam c) = Inr (sys_ret r, q, ?s2)" "r = 0 \<longrightarrow> q = p'"
    using vivi_reqbufs_call [OF n(1) _ r(1,4)] unfolding C_def by fastforce
  obtain d2 where cl: "cam_close C ?s2 = Inr d2" using vivi_close_call [of ?s2] n r(2) unfolding C_def by fastforce
  show ?thesis
  proof (cases "r = 0")
    case False
    then show ?thesis using reqbufs_refused [OF rq(1), of malloc cp] cl by (simp add: sys_ret_def)
  next
    case True
    let ?c = "c\<lparr>cam := ?s2, dev := (dev c)\<lparr>iVideoBufCnt := sint (rb_count p')\<rparr>\<rparr>"
    have l: "[0..<nat (sint (rb_count p'))] = 0 # [1..<nat (sint (rb_count p'))]" using r(3) True by (simp add: upt_conv_Cons)
    obtain c2 where "map_buffers C [0..<nat (sint (rb_count p'))] ?c = Inr (False, c2)" "cam c2 = ?s2"
      using vivi_map_buffers_refused [of ?c] n(1) p unfolding l C_def by fastforce
    then show ?thesis using rq True cl by (simp add: init_device_buffers_def sys_ret_def err_exit_def cp_def myvivi_videoc_querycap_def cap_zero_def Let_def)
  qed
qed

text \<open>
  C39: the application cannot open the virtual camera.  It maps the buffers for reading only, and the
  videobuf layer maps buffers only for writing.  The device is closed again: its node has the
  references it had before and the driver is consistent.
\<close>

theorem app_rejects_vivi:
  assumes c: "usable (vs_node (cam c))" "0 < vd_ref (vs_node (cam c))" "vivi_inv (vs_drv (cam c))" "myvivi_timer (vs_drv (cam c)) = None" "pucVideBuf (dev c) \<noteq> []"
  shows "\<exists>c'. V4l2InitDevice (vivi_camera jiffies mem kz vm remap k fd addr (\<lambda>s. myvivi_timer_function (now s) (stamp s) s)) lcd malloc name c = Some (Inr (- 1, c')) \<and>
    vs_node (cam c') = vs_node (cam c) \<and> vivi_inv (vs_drv (cam c')) \<and> myvivi_timer (vs_drv (cam c')) = None"
proof -
  let ?C = "vivi_camera jiffies mem kz vm remap k fd addr (\<lambda>s. myvivi_timer_function (now s) (stamp s) s)" and ?n = "vs_node (cam c)"
  let ?cp = "cap_capabilities (snd (myvivi_videoc_querycap (cap_zero\<lparr>cap_version := LINUX_VERSION_CODE\<rparr>)))"
  obtain s1 where s1: "myvivi_open jiffies (vs_drv (cam c)) = Inr (0, s1)" "vivi_fresh s1" using vivi_opened [OF c(3,4)] by blast
  let ?s1 = "(video_get (cam c))\<lparr>vs_drv := s1\<rparr>" and ?P = "\<lambda>s. vs_node s = vs_node (video_get (cam c)) \<and> vivi_fresh (vs_drv s)"
  have op: "cam_open ?C name (cam c) = Inr (int fd, ?s1)"
    using open_usable [OF c(1), of "myvivi_device jiffies mem kz vm remap (app_copy k)" "myvivi_open jiffies" s1] s1(1)
    by (simp add: vivi_camera_def v4l2_camera_def myvivi_device_def myvivi_fops_def)
  have u1: "usable (vs_node ?s1)" and P1: "vivi_fresh (vs_drv ?s1)" using c(1) s1(2) by simp_all
  have sf: "\<exists>r fmt' d2. cam_s_fmt ?C fmt ?s1 = Inr (r, fmt', d2) \<and> ?P d2"
    if "f_type fmt = V4L2_BUF_TYPE_VIDEO_CAPTURE" "pf_pixelformat (f_pix fmt) = fd_pixelformat (fmtdesc_zero\<lparr>fd_index := 0, fd_type := V4L2_BUF_TYPE_VIDEO_CAPTURE,
      fd_description := ''4:2:2, packed, YUYV'', fd_pixelformat := V4L2_PIX_FMT_YUYV\<rparr>)" "pf_field (f_pix fmt) = V4L2_FIELD_ANY" for fmt
    using vivi_format_calls(5) [OF u1 P1 that, of jiffies mem kz vm remap k fd addr] by fastforce
  obtain r1 :: int and c1 where c1: "V4l2InitDevice ?C lcd malloc name c = Some (if r1 = 0 then init_device_buffers ?C malloc ?cp c1 else err_exit ?C c1)" "?P (cam c1)"
      "length (pucVideBuf (dev c1)) = length (pucVideBuf (dev c))"
    by (rule exE [OF init_reaches_buffers [where C = ?C and P = "\<lambda>r. ?P" and lcd = lcd and malloc = malloc, OF op of_nat_0_le_iff vivi_format_calls(1-4) [OF u1]]])
       (erule (2) sf, elim exE conjE, blast)
  have u: "usable (vs_node (cam c1))" "1 < vd_ref (vs_node (cam c1))" using c1(2) c(1,2) by (simp_all add: usable_def video_get_def)
  have v1: "vb_inv (vivi_sys (vs_drv (cam c1)))" using c1(2) by (auto simp: vivi_fresh_def vb_inv_def)
  obtain d1 where cl: "cam_close ?C (cam c1) = Inr d1" using vivi_close_call [OF u v1] by blast
  have "pucVideBuf (dev c1) \<noteq> []" using c1(3) c(5) by auto
  from vivi_init_buffers_refused [OF u conjunct2 [OF c1(2)] this] obtain c'' where "init_device_buffers ?C malloc ?cp c1 = Inr (- 1, c'')" by blast
  then obtain c' where c': "V4l2InitDevice ?C lcd malloc name c = Some (Inr (- 1, c'))" using c1(1) err_exit_result [OF cl] by (cases "r1 = 0") auto
  have "closed_file ?n vivi_closed_state (cam c)" using c by (simp add: closed_file_def vivi_closed_state_def)
  from vivi_file.init_device_result [OF this, folded vivi_camera_def, OF c'] show ?thesis using c' by (auto simp: closed_file_def vivi_closed_state_def)
qed

theorem app_rejects_vivi_witness:
  "\<exists>c'. V4l2InitDevice (vivi_camera 100 (\<lambda>k. True) True True 0 True 4 0x40000000 (\<lambda>s. myvivi_timer_function 200 0 s)) (240, 320) (\<lambda>k n. None) ''/dev/video0''
      \<lparr>cam = \<lparr>vs_node = video_register_device video_device_alloc, vs_drv = snd (myvivi_init 0)\<rparr>, dev = dev (demo_capture 0), opr = g_tV4l2VideoOpr\<rparr> =
        Some (Inr (- 1, c')) \<and> vd_ref (vs_node (cam c')) = 1 \<and> myvivi_timer (vs_drv (cam c')) = None"
proof -
  let ?c = "\<lparr>cam = \<lparr>vs_node = video_register_device video_device_alloc, vs_drv = snd (myvivi_init 0)\<rparr>, dev = dev (demo_capture 0), opr = g_tV4l2VideoOpr\<rparr>"
  have "usable (vs_node (cam ?c))" "0 < vd_ref (vs_node (cam ?c))" "vivi_inv (vs_drv (cam ?c))" "myvivi_timer (vs_drv (cam ?c)) = None" "pucVideBuf (dev ?c) \<noteq> []"
    by (simp_all add: usable_def video_register_device_def video_device_alloc_def vivi_inv_def myvivi_init_def vivi_zero_queue_def INIT_LIST_HEAD_def demo_capture_def)
  from app_rejects_vivi [OF this, of 100 "\<lambda>k. True" True True 0 True 4 "0x40000000" "\<lambda>s. 200" "\<lambda>s. 0" "(240, 320)" "\<lambda>k n. None" "''/dev/video0''"]
  show ?thesis by (auto simp: video_register_device_def)
qed

section \<open>The CMOS camera\<close>

lemma cmos_ioctl_table [simp]:
  "ioctl_of (vdev_fops (cmos_ov7740_vdev get kmem copies U)) = Some (video_ioctl2 U (Some (cmos_ov7740_ioctl_ops get)))"
  by (simp add: ioctl_of_def cmos_ov7740_vdev_def cmos_ov7740_fops_def)

lemma cmos_format_calls:
  fixes get kmem copies k fd addr sleep and s :: "cmos vsys"
  defines "C \<equiv> cmos_camera get kmem copies k fd addr sleep"
    and "f \<equiv> fmtdesc_zero\<lparr>fd_index := 0, fd_type := V4L2_BUF_TYPE_VIDEO_CAPTURE, fd_description := ''RGB565'', fd_pixelformat := V4L2_PIX_FMT_RGB565\<rparr>"
  assumes u: "usable (vs_node s)"
  shows "cam_open C name s = Inr (int fd, video_get s)" "cam_querycap C cap_zero s = Inr (0, cmos_ov7740_vidioc_querycap, s)"
    "cap_capabilities cmos_ov7740_vidioc_querycap AND V4L2_CAP_VIDEO_CAPTURE \<noteq> 0"
    "cam_enum_fmt C (fmtdesc_zero\<lparr>fd_index := 0, fd_type := V4L2_BUF_TYPE_VIDEO_CAPTURE\<rparr>) s = Inr (0, f, s)" "isSupportThisFormat (fd_pixelformat f)"
    "f_type fmt = V4L2_BUF_TYPE_VIDEO_CAPTURE \<Longrightarrow> pf_pixelformat (f_pix fmt) = fd_pixelformat f \<Longrightarrow> pf_field (f_pix fmt) = V4L2_FIELD_ANY \<Longrightarrow>
      \<exists>r fmt' d. cam_s_fmt C fmt s = Inr (r, fmt', s\<lparr>vs_drv := d\<rparr>) \<and> (k \<longrightarrow> r = 0) \<and> img_buff d = img_buff (vs_drv s) \<and> pages d = pages (vs_drv s)"
proof -
  let ?V = "cmos_ov7740_vdev get kmem copies (app_copy k)" and ?T = "cmos_ov7740_ioctl_ops get"
  note d = C_def cmos_camera_def v4l2_camera_def and ops = cmos_ov7740_ioctl_ops_def call_op_def call_fmt_def check_array_args_def sys_ret_def
  show "cam_open C name s = Inr (int fd, video_get s)"
    using open_usable [OF u, of ?V "\<lambda>s. Inr (0, s)" "vs_drv s"] by (simp add: d cmos_ov7740_vdev_def cmos_ov7740_fops_def video_get_def)
  have "do_ioctl ?T (copy_in (VIDIOC_QUERYCAP cap_zero)) (vs_drv s) = Inr (0, VIDIOC_QUERYCAP cmos_ov7740_vidioc_querycap, vs_drv s)" by (simp add: ops)
  from sys_ioctl_usable [where V = ?V and k = k and K = VIDIOC_QUERYCAP and arg = cmd_cap, OF u _ _ _ this]
  show "cam_querycap C cap_zero s = Inr (0, cmos_ov7740_vidioc_querycap, s)" by (simp add: d ops)
  have "do_ioctl ?T (copy_in (VIDIOC_ENUM_FMT (fmtdesc_zero\<lparr>fd_index := 0, fd_type := V4L2_BUF_TYPE_VIDEO_CAPTURE\<rparr>))) (vs_drv s) = Inr (0, VIDIOC_ENUM_FMT f, vs_drv s)"
    by (simp add: ops f_def cmos_ov7740_vidioc_enum_fmt_vid_cap_def cmos_formats_def fmtdesc_zero_def)
  from sys_ioctl_usable [where V = ?V and k = k and K = VIDIOC_ENUM_FMT and arg = cmd_fmtdesc, OF u _ _ _ this]
  show "cam_enum_fmt C (fmtdesc_zero\<lparr>fd_index := 0, fd_type := V4L2_BUF_TYPE_VIDEO_CAPTURE\<rparr>) s = Inr (0, f, s)" by (simp add: d ops)
  show "cap_capabilities cmos_ov7740_vidioc_querycap AND V4L2_CAP_VIDEO_CAPTURE \<noteq> 0" "isSupportThisFormat (fd_pixelformat f)"
    by (simp_all add: cmos_ov7740_vidioc_querycap_def f_def isSupportThisFormat_def)
  assume fmt: "f_type fmt = V4L2_BUF_TYPE_VIDEO_CAPTURE" "pf_pixelformat (f_pix fmt) = fd_pixelformat f" "pf_field (f_pix fmt) = V4L2_FIELD_ANY"
  then obtain fmt' d' where f': "do_ioctl ?T (copy_in (VIDIOC_S_FMT fmt)) (vs_drv s) = Inr (0, VIDIOC_S_FMT fmt', d')"
      "img_buff d' = img_buff (vs_drv s) \<and> pages d' = pages (vs_drv s)"
    by (simp add: ops f_def cmos_ov7740_vidioc_s_fmt_vid_cap_def cmos_ov7740_vidioc_try_fmt_vid_cap_def set_sizes_def wr_def Let_def)
  show "\<exists>r fmt' d. cam_s_fmt C fmt s = Inr (r, fmt', s\<lparr>vs_drv := d\<rparr>) \<and> (k \<longrightarrow> r = 0) \<and> img_buff d = img_buff (vs_drv s) \<and> pages d = pages (vs_drv s)"
  proof (cases k)
    case True
    then show ?thesis using sys_ioctl_usable [where V = ?V and k = True and K = VIDIOC_S_FMT and arg = cmd_format, OF u _ _ _ f'(1)] f'(2)
      by (intro exI [of _ 0] exI [of _ fmt'] exI [of _ d']) (simp add: d ops)
  next
    case False
    then show ?thesis using sys_ioctl_no_memory [where V = ?V and arg = cmd_format and K = VIDIOC_S_FMT and p = fmt and ops = ?T, OF u]
      by (intro exI [of _ "- 1"] exI [of _ fmt] exI [of _ "vs_drv s"]) (simp add: d)
  qed
qed

lemma cmos_reqbufs_call:
  assumes "usable (vs_node s)" "rb_type p = V4L2_BUF_TYPE_VIDEO_CAPTURE" "cmos_ov7740_vidioc_reqbufs get (vs_drv s) = Inr (- ENOMEM, d)"
  shows "cam_reqbufs (cmos_camera get kmem copies k fd addr sleep) p s = Inr (- 1, p, s\<lparr>vs_drv := d\<rparr>)"
proof -
  have "do_ioctl (cmos_ov7740_ioctl_ops get) (copy_in (VIDIOC_REQBUFS p)) (vs_drv s) = Inr (- ENOMEM, VIDIOC_REQBUFS p, d)"
    using assms(2,3) by (simp add: cmos_ov7740_ioctl_ops_def call_buf_def call_op_def check_fmt_def)
  from sys_ioctl_usable [where V = "cmos_ov7740_vdev get kmem copies (app_copy k)" and k = k and K = VIDIOC_REQBUFS and arg = cmd_reqbufs, OF assms(1) _ _ _ this]
  show ?thesis by (simp add: cmos_camera_def v4l2_camera_def check_array_args_def sys_ret_def)
qed

text \<open>
  The application cannot open the CMOS camera either, even when there is memory for its buffers; one of
  the four blocks stays allocated.
\<close>

lemma app_rejects_cmos:
  assumes n: "usable (vs_node (cam c))" "0 < vd_ref (vs_node (cam c))" and b: "four_buffers (vs_drv (cam c))"
    and g: "\<forall>i<4. get i \<noteq> 0 \<and> get i \<notin> fst ` set (pages (vs_drv (cam c)))" "distinct [get 0, get 1, get 2, get 3]"
  shows "\<exists>c' order. V4l2InitDevice (cmos_camera get kmem copies True fd addr sleep) lcd malloc name c = Some (Inr (- 1, c')) \<and>
    vs_node (cam c') = vs_node (cam c) \<and> pages (vs_drv (cam c')) = (get 3, order) # pages (vs_drv (cam c))"
proof -
  let ?C = "cmos_camera get kmem copies True fd addr sleep" and ?s = "video_get (cam c)"
  let ?p = "\<lparr>rb_count = 4, rb_type = V4L2_BUF_TYPE_VIDEO_CAPTURE, rb_memory = V4L2_MEMORY_MMAP\<rparr>"
  let ?P = "\<lambda>r s. r = 0 \<and> vs_node s = vs_node ?s \<and> img_buff (vs_drv s) = img_buff (vs_drv (cam c)) \<and> pages (vs_drv s) = pages (vs_drv (cam c))"
  have u: "usable (vs_node ?s)" using n(1) by simp
  have sf: "\<exists>r fmt' d2. cam_s_fmt ?C fmt ?s = Inr (r, fmt', d2) \<and> ?P r d2"
    if "f_type fmt = V4L2_BUF_TYPE_VIDEO_CAPTURE" "pf_pixelformat (f_pix fmt) = fd_pixelformat (fmtdesc_zero\<lparr>fd_index := 0, fd_type := V4L2_BUF_TYPE_VIDEO_CAPTURE,
      fd_description := ''RGB565'', fd_pixelformat := V4L2_PIX_FMT_RGB565\<rparr>)" "pf_field (f_pix fmt) = V4L2_FIELD_ANY" for fmt
    using cmos_format_calls(6) [OF u that, of get kmem copies True fd addr sleep] by (auto simp: video_get_def)
  obtain c1 where c1: "V4l2InitDevice ?C lcd malloc name c = Some (init_device_buffers ?C malloc (cap_capabilities cmos_ov7740_vidioc_querycap) c1)" "?P 0 (cam c1)"
    by (rule exE [OF init_reaches_buffers [where C = ?C and P = ?P and lcd = lcd and malloc = malloc,
          OF cmos_format_calls(1) [OF n(1), where name = name] of_nat_0_le_iff cmos_format_calls(2-5) [OF u]]]) (erule (2) sf, elim exE conjE, simp)
  obtain s' where s': "cmos_ov7740_vidioc_reqbufs get (vs_drv (cam c1)) = Inr (- ENOMEM, s')"
      "pages s' = (get 3, of_nat (get_order (buf_size (vs_drv (cam c1))))) # pages (vs_drv (cam c1))"
    using reqbufs_runs_into_cleanup [of "vs_drv (cam c1)" get] b g c1(2) by (auto simp: four_buffers_def)
  have u1: "usable (vs_node (cam c1))" "1 < vd_ref (vs_node (cam c1))" using c1(2) n by (simp_all add: usable_def video_get_def)
  note rq = cmos_reqbufs_call [where p = ?p and kmem = kmem and copies = copies and k = True and fd = fd and addr = addr and sleep = sleep, OF u1(1) _ s'(1)]
  have "cam_close ?C ((cam c1)\<lparr>vs_drv := s'\<rparr>) = Inr \<lparr>vs_node = vs_node (cam c), vs_drv = s'\<rparr>"
    using release_usable [of "(cam c1)\<lparr>vs_drv := s'\<rparr>" "cmos_ov7740_vdev get kmem copies (app_copy True)" "\<lambda>s. Inr (0, s)" 0 s'] u1 c1(2)
    by (simp add: cmos_camera_def v4l2_camera_def cmos_ov7740_vdev_def cmos_ov7740_fops_def video_get_def)
  then show ?thesis using c1 s'(2) reqbufs_refused [OF rq, of malloc "cap_capabilities cmos_ov7740_vidioc_querycap"] by simp
qed

section \<open>Pulling out the USB camera\<close>

text \<open>
  While the loop of the application runs, the driver keeps its invariant and the device node its
  references.
\<close>

lemma uvc_loop_safe:
  assumes "env_ok E" "open_file n uvc_inv (cam (cap a))"
    and "main_loop (uvc_camera E junk k fd addr (\<lambda>s. complete_urbs E (arrive s) s)) malloc table a = Some (Inr (r, a'))"
  shows "open_file n uvc_inv (cam (cap a'))"
  using uvc_file.loop_keeps [OF assms(3) [unfolded uvc_camera_def] _ refl, of n] assms(1,2) by (simp add: open_file_def)

text \<open>
  C40: pulling out the USB camera while the application has it open leaves a dangling pointer.  The
  driver frees the structure of the device as soon as the second interface is gone, although the open
  file still holds a reference and the table of devices still points to it.  The next turn of the
  application's loop, or closing the file, makes the kernel use the freed memory.  When no file is
  open, the device disappears properly and a later opening fails.
\<close>

theorem unplug_use_after_free:
  assumes s: "usable (vs_node s)" "0 < vd_ref (vs_node s)" "disconnect_cnt (vs_drv s) = 1" and C: "C = uvc_camera E junk k fd addr sleep"
  shows "\<exists>s'. uvc_unplug (myuvc_video_device E junk (app_copy k)) s = Inr s' \<and>
    (if vd_ref (vs_node s) = 1 then cam_open C name s' = Inr (- 1, s')
     else cam_close C s' = Inl UseAfterFree \<and>
       (\<forall>a. cam (cap a) = s' \<and> opr (cap a) = g_tV4l2VideoOpr \<longrightarrow> main_turn C malloc table a = Inl UseAfterFree))"
proof -
  let ?V = "myuvc_video_device E junk (app_copy k)"
  let ?n = "(vs_node s)\<lparr>vd_registered := False, vd_ref := vd_ref (vs_node s) - 1, vd_slot := vd_ref (vs_node s) \<noteq> 1, vd_alive := False\<rparr>"
  let ?s = "s\<lparr>vs_drv := myuvc_disconnect (vs_drv s), vs_node := ?n\<rparr>"
  have "uvc_unplug ?V s = Inr ?s"
    using s by (cases s) (auto simp: uvc_unplug_def myuvc_disconnect_def usable_def video_unregister_device_def video_put_def v4l2_device_release_def
        video_device_release_def myuvc_video_device_def Let_def)
  moreover have "cam_open C name ?s = Inr (- 1, ?s)" if "vd_ref (vs_node s) = 1"
    using that by (simp add: C uvc_camera_def v4l2_camera_def v4l2_open_def)
  moreover have "cam_close C ?s = Inl UseAfterFree" "cam_poll C ?s = Inl UseAfterFree" if "vd_ref (vs_node s) \<noteq> 1"
    using that by (simp_all add: C uvc_camera_def v4l2_camera_def v4l2_release_def sys_poll_def v4l2_poll_def on_vdev_def Let_def)
  ultimately show ?thesis
    by (intro exI [of _ ?s]) (auto simp: main_turn_def GetFrame_def g_tV4l2VideoOpr_def V4l2GetFrameForStreaming_def)
qed

text \<open>
  The application with the two-pixel display, after the first interface is gone.
\<close>

theorem unplug_use_after_free_witness:
  "\<exists>s'. uvc_unplug (myuvc_video_device demo_env [] (app_copy True)) ((cam uvc_demo_capture)\<lparr>vs_drv := uvc_demo\<lparr>disconnect_cnt := 1\<rparr>\<rparr>) = Inr s' \<and>
    main_turn (uvc_camera demo_env [] True 4 0x40000000 (complete_urbs demo_env [])) (\<lambda>k n. None) True (demo_app (uvc_demo_capture\<lparr>cam := s'\<rparr>)) = Inl UseAfterFree"
proof -
  let ?s = "(cam uvc_demo_capture)\<lparr>vs_drv := uvc_demo\<lparr>disconnect_cnt := 1\<rparr>\<rparr>"
  have n: "usable (vs_node ?s)" "0 < vd_ref (vs_node ?s)" "disconnect_cnt (vs_drv ?s) = 1" "vd_ref (vs_node ?s) \<noteq> 1"
    by (simp_all add: uvc_demo_capture_def usable_def video_register_device_def video_device_alloc_def)
  have "cam (cap (demo_app (uvc_demo_capture\<lparr>cam := s'\<rparr>))) = s'" "opr (cap (demo_app (uvc_demo_capture\<lparr>cam := s'\<rparr>))) = g_tV4l2VideoOpr" for s'
    by (simp_all add: demo_app_def uvc_demo_capture_def)
  then show ?thesis
    using unplug_use_after_free [OF n(1-3) refl, of demo_env "[]" True 4 "0x40000000" "complete_urbs demo_env []" "''/dev/video0''" "\<lambda>k n. None" True] n(4) by auto
qed

end
