(* ===== verification/Spec2Isabelle.thy ===== *)
theory Spec2Isabelle
  imports Uvc_Driver Vivi_Props Cmos_Props Alsa Text_Render Picture_Files Pool Cameras
begin

text \<open>
  A verification library for the camera and sound drivers of this repository, for the application that
  shows a camera's frames and for the picture viewer.

  \<^bold>\<open>The program.\<close>  Under \<open>src\<close> there are three V4L2 camera drivers for a 32-bit ARM board with Linux
  3.4.2: a USB video class driver (\<open>myuvc/10_th/uvc.c\<close>), a virtual camera on top of the kernel's
  videobuf layer (\<open>myvivi/6_th/vivi.c\<close> with
  \<open>linux-3.4.2/drivers/media/video/videobuf-core.c\<close> and \<open>videobuf-vmalloc.c\<close>), and a driver for an
  OV7740 sensor on the S3C2440 camera interface (\<open>CMOS/5_th/cmos_ov7740_drv.c\<close>).  The ALSA drivers
  (\<open>Alsa/8_th\<close>) serve the sound codec of the same board.  The viewer (\<open>video2lcd/1_th\<close>) decodes
  pictures, composes pages in video memories and copies them to the framebuffer.  The camera
  application (\<open>video2lcd/Test\<close>) talks to a driver through system calls: it negotiates a format,
  requests and maps buffers, queues empty buffers, and takes filled ones out while a USB completion
  handler, a timer or a DMA interrupt fills them; it converts each frame, scales it and puts it on the
  screen.  Between application and driver is the kernel's V4L2 layer
  (\<open>linux-3.4.2/drivers/media/video/v4l2-dev.c\<close> and \<open>v4l2-ioctl.c\<close>).

  \<^bold>\<open>How C becomes HOL.\<close>  Machine integers are words of their width; the \<open>int\<close> computations of
  the viewer and of the application, which stay far from their limits, are integers, and its \<open>unsigned long\<close> ones are
  32-bit words.  A structure is a record, memory is a list of bytes, a pointer into it an offset, a
  pointer to an array element its index.  A call that can crash has type \<open>'a kres\<close>: \<open>Inl\<close> is the
  kind of fault (null pointer, access out of bounds, use after free, division by zero), \<open>Inr\<close> the
  normal result with the new state.  Error codes are negative integers, as in the source.  Loops are
  structural recursion or have a termination proof; loops that may run forever (following list
  pointers, copying pages, reading characters of a string) are partial functions into \<open>option\<close>, for
  which the theorems prove that a result is returned.  There is no fuel.  Code that is not in the
  sources is an argument: the kernel's services (record \<open>usb_env\<close>, page allocation, the framebuffer
  device), the allocator, the font renderer and text decoder, libjpeg (record \<open>jpeg_lib\<close>), and the file
  mapping.  The device file the application opens is an argument as well, a record with one function
  per system call; it is instantiated by the drivers behind the V4L2 layer.

  \<^bold>\<open>Shared theories.\<close>  \<open>Prelude\<close>: words, faults, byte memory, little-endian fields, the kernel's
  lists, alignment.  \<open>V4l2_Types\<close>: the V4L2 structures.  \<open>Capture_Queue\<close>: the contract of a capture
  queue as the locale \<open>capture_queue\<close>: buffers come back in the order in which they were queued.
  It is interpreted on the UVC driver (\<open>Uvc_Fifo\<close>) and on the virtual camera (\<open>Vivi_Fifo\<close>).

  \<^bold>\<open>UVC driver.\<close>  \<open>Uvc_State\<close> has the driver's structures and variables; \<open>Uvc_Format\<close>, \<open>Uvc_Queue\<close>,
  \<open>Uvc_Stream\<close> and \<open>Uvc_Ctrl\<close> have one definition per ioctl and helper; \<open>Uvc_Complete\<close> is the URB
  completion handler; \<open>Uvc_Driver\<close> adds probe and disconnect and a step relation in which every step
  is one handler called by the kernel.  Shown: an invariant of all reachable states, memory safety
  of the completion handler whenever a buffer is pending and its fault when none is, assembly of the
  payloads of a frame into the oldest buffer over any number of URBs (\<open>Uvc_Frame\<close>), first-in
  first-out delivery (\<open>Uvc_Fifo\<close>), allocation, mapping, polling, negotiation, start of streaming and
  the brightness control on every branch.

  \<^bold>\<open>Virtual camera.\<close>  \<open>Videobuf\<close> models the videobuf core with vmalloc memory; \<open>Videobuf_Inv\<close> and
  \<open>Videobuf_Stream\<close> prove its invariant inside the locale \<open>videobuf_driver\<close>, whose parameters are
  the driver's callbacks and whose assumptions are what videobuf relies on; \<open>Vivi\<close> interprets it.
  \<open>Vivi_Format\<close> models the format ioctls and the kernel's rounding helpers, \<open>Vivi\<close> the driver,
  \<open>Vivi_Props\<close> its step relation.  Shown: the invariant in all reachable states, delivery in order,
  a queued buffer is filled by the next timer tick and can be dequeued, mappings reach the bytes the
  driver fills, bounds of accepted formats, and two crashes an application can provoke.

  \<^bold>\<open>CMOS camera.\<close>  \<open>Cmos_Camif\<close> models the driver with its registers and a trace of register writes
  and delays; \<open>Cmos_Props\<close> shows the scaler and burst settings, the order of the power-up
  sequence, and the faults on the allocation, restart and zero-size paths.

  \<^bold>\<open>Sound.\<close>  \<open>Alsa\<close> models the L3 bus, the register cache and the initialisation of the codec, the
  prescaler search of the IIS controller and the DMA buffer.  Shown: the bits on the bus are the
  messages of the register write, the prescaler is the closest one, the initialisation sends five
  messages.

  \<^bold>\<open>Viewer.\<close>  \<open>Registry\<close> models the lists of modules linked through \<open>ptNext\<close>; the locale
  \<open>module_list\<close> is their contract.  \<open>Pixels\<close> models pictures, merging
  (\<open>render/operation/merge.c\<close>) and scaling (\<open>zoom.c\<close>); \<open>Paint\<close> clearing and single pixels
  (\<open>display/disp_manager.c\<close>, \<open>render/render.c\<close>); \<open>Text_Render\<close> characters and strings; \<open>Bmp\<close> the
  bitmap parser; \<open>Picture_Files\<close> the choice of a parser and the loading of files; \<open>Display\<close> the
  framebuffer module (\<open>display/fb.c\<close>), the pool of video memories and the buttons, where the video
  memory of the device aliases the mapped screen; \<open>Display_Props\<close> and \<open>Pool\<close> their properties.  Shown
  pixel by pixel: what merging, scaling, clearing, decoding and inverting do; text never leaves its
  rectangle; in all reachable states of the pool every video memory has the format of the screen, the
  device's memory is never handed out as a cache, and a merged and flushed picture is on the screen.

  \<^bold>\<open>Camera application.\<close>  \<open>Jpeg\<close> models the JPEG parser of the viewer
  (\<open>video2lcd/1_th/render/format/jpg.c\<close>) on top of libjpeg, \<open>Color\<close> the tables of
  \<open>video2lcd/Test/convert/color.c\<close>, \<open>Video_Convert\<close> the conversions from YUYV, RGB565 and MJPEG and their
  list, \<open>Video_Device\<close> the camera side (\<open>video/v4l2.c\<close>, \<open>video_manager.c\<close>), \<open>Float32\<close> rounding to single
  precision, \<open>Video2lcd\<close> and \<open>Video2lcd_Props\<close> the main program and one turn of its loop.  Shown: the
  conversions pixel by pixel, the choice of a conversion, the scaled size fits the screen in spite of
  the rounding, an MJPEG frame is shown in the centre of the screen and its buffer given back; a larger
  later frame overflows the buffer of the first, and the frames of a YUYV camera are never shown.

  \<^bold>\<open>V4L2 layer and the composed system.\<close>  \<open>V4l2_Core\<close> models the device node with its references, the
  file operations, the copy of an ioctl's argument and the dispatch to a driver's table of handlers, and
  builds the application's device file from them.  \<open>Device_Contract\<close> has two interfaces: the locale
  \<open>device_file\<close> is what the application relies on, with the lemmas about initialisation, frames and the
  loop; the locale \<open>v4l2_driver\<close> is what the V4L2 layer relies on, and a \<open>sublocale\<close> shows that a driver
  which keeps its laws is such a device file, with one reference to the node per open file.
  \<open>Driver_Files\<close> has the tables of the three drivers and interprets \<open>v4l2_driver\<close> on them.  \<open>Cameras\<close> shows,
  for the whole chain, that a frame's bytes go from the packets on the bus to the pixels on the screen;
  that the application's initialisation fails on each of the three drivers and leaves the references of
  the node as they were; and that pulling out the USB camera while it is open makes the kernel use
  freed memory.

  \<^bold>\<open>Bounds.\<close>  The sides of the screen in the theorem on the scaled size are below \<open>2 ^ 24\<close>, where every
  integer is a single precision number.  The scaling theorem assumes that the 32-bit products of the code do not overflow, the
  start of the display that sizes are below \<open>2 ^ 31\<close>.  The other theorems put no bound on sizes or
  on the number of operations; the UVC driver's 32 buffers and 5 URBs are those of the source.

  \<^bold>\<open>Not modelled.\<close>  The earlier stages of each driver (\<open>1_th\<close>, \<open>2_th\<close>, ...) are previous versions of
  the modelled code, and the \<open>Test\<close> directories of the three drivers are variants of it.  Of the kernel
  tree, only the functions the drivers and the application reach are modelled; the USB core and the ALSA
  core call the handlers and are represented by the step relations.  In the V4L2 layer the commands and
  buffer types for which no driver here has a handler, priorities, control handlers, sysfs and the choice
  of a minor number are left out.  videobuf's overlay and \<open>read\<close> modes other than the one \<open>poll\<close> starts
  are not used by the driver.  Interrupts are steps of their own: a handler and an interrupt do not
  interleave inside a function, and locks are therefore omitted.  The DMA transfers and the interrupt
  handler of the sound platform are empty in the source.  The ASoC machine driver consists of tables.
  Of \<open>jdatasrc-tj.c\<close> only the function that sets up the source is modelled; its callbacks run inside
  libjpeg.  The functions that only print a list of modules and \<open>netprint_client.c\<close>, which copies console
  input to a socket, are left out.  The files of \<open>video2lcd/1_th/video\<close> and \<open>convert\<close> are empty, and the
  input, font, encoding and page modules that \<open>main.c\<close> of the viewer starts are not in the sources.
\<close>

end
